(* ===== verification/Prelude.thy ===== *)
theory Prelude
  imports Complex_Main "HOL-Library.List_Lexorder" "HOL-Library.Char_ord"
begin

text \<open>
  The vocabulary the component theories share.
  \<^item> Strings are lists of characters; a character stands for one UTF-16 code unit below 256, and
    the order of \<open>List_Lexorder\<close> on them is the order of JavaScript's default sort and of
    SQLite's BINARY collation.
  \<^item> Numbers that may be NaN or infinite where the code asks for it are \<open>jsnum\<close>; a finite double
    is a rational, without rounding.
  \<^item> Timestamps are ISO strings made from a millisecond count by \<open>iso_of_ms\<close>, the model of
    \<open>Date.prototype.toISOString\<close>; the clock reading is an argument of every operation.
  \<^item> A call that can throw has a result of type \<open>js_error + 'a\<close>; an operation on stored state is
    a function of type \<open>('s, 'a) op\<close>, which returns the result and the state it leaves.
  \<^item> A table is the list of its rows in rowid order; \<open>sql_update\<close>, \<open>order_by\<close>, \<open>limit\<close> and the
    rest are the parts of SQL the code's statements use.
\<close>

named_theorems op_simps "unfolding rules of the operation combinators"
named_theorems sql_simps "rules of the table operations"

section \<open>Numbers\<close>

datatype jsnum = Fin rat | PosInf | NegInf | NaN

definition max_safe_integer :: int where
  "max_safe_integer = 9007199254740991"

definition safe_int :: "int \<Rightarrow> bool" where
  "safe_int i \<longleftrightarrow> \<bar>i\<bar> \<le> max_safe_integer"

fun is_finite :: "jsnum \<Rightarrow> bool" where
  "is_finite (Fin _) = True"
| "is_finite _ = False"

fun is_safe_integer :: "jsnum \<Rightarrow> bool" where
  "is_safe_integer (Fin q) = (of_int \<lfloor>q\<rfloor> = q \<and> safe_int \<lfloor>q\<rfloor>)"
| "is_safe_integer _ = False"

text \<open>JavaScript's \<open><\<close>, \<open>\<le>\<close> on numbers: every comparison with NaN is false.\<close>

fun js_less :: "jsnum \<Rightarrow> jsnum \<Rightarrow> bool" where
  "js_less (Fin a) (Fin b) = (a < b)"
| "js_less NegInf (Fin _) = True"
| "js_less NegInf PosInf = True"
| "js_less (Fin _) PosInf = True"
| "js_less _ _ = False"

fun js_le :: "jsnum \<Rightarrow> jsnum \<Rightarrow> bool" where
  "js_le NaN _ = False"
| "js_le _ NaN = False"
| "js_le a b = (a = b \<or> js_less a b)"

fun num_val :: "jsnum \<Rightarrow> rat" where
  "num_val (Fin q) = q"
| "num_val _ = 0"

text \<open>\<open>Math.round\<close>: ties go towards plus infinity.\<close>

definition js_round :: "rat \<Rightarrow> int" where
  "js_round q = \<lfloor>q + 1 / 2\<rfloor>"

lemma js_round_bounds: "q - 1 / 2 < of_int (js_round q) \<and> of_int (js_round q) \<le> q + 1 / 2"
  unfolding js_round_def by linarith

section \<open>Digits\<close>

definition digit_char :: "nat \<Rightarrow> char" where
  "digit_char d = (if d < 10 then char_of (48 + d) else char_of (87 + d))"

definition char_digit :: "char \<Rightarrow> nat option" where
  "char_digit c = (let n = of_char c :: nat in
     if 48 \<le> n \<and> n \<le> 57 then Some (n - 48)
     else if 97 \<le> n \<and> n \<le> 102 then Some (n - 87) else None)"

definition is_dec :: "char \<Rightarrow> bool" where
  "is_dec c \<longleftrightarrow> (let n = of_char c :: nat in 48 \<le> n \<and> n \<le> 57)"

definition is_hex :: "char \<Rightarrow> bool" where
  "is_hex c \<longleftrightarrow> char_digit c \<noteq> None"

definition is_lower :: "char \<Rightarrow> bool" where
  "is_lower c \<longleftrightarrow> (let n = of_char c :: nat in 97 \<le> n \<and> n \<le> 122)"

definition is_upper :: "char \<Rightarrow> bool" where
  "is_upper c \<longleftrightarrow> (let n = of_char c :: nat in 65 \<le> n \<and> n \<le> 90)"

text \<open>\<open>Number.prototype.toString(b)\<close> of a natural number, most significant digit first.\<close>

fun digits_of :: "nat \<Rightarrow> nat \<Rightarrow> nat list" where
  "digits_of b n = (if b < 2 \<or> n < b then [n] else digits_of b (n div b) @ [n mod b])"

declare digits_of.simps [simp del]

definition digits_val :: "nat \<Rightarrow> nat list \<Rightarrow> nat" where
  "digits_val b ds = foldl (\<lambda>a d. a * b + d) 0 ds"

definition nat_str :: "nat \<Rightarrow> string" where
  "nat_str n = map digit_char (digits_of 10 n)"

definition hex_str :: "nat \<Rightarrow> string" where
  "hex_str n = map digit_char (digits_of 16 n)"

definition int_str :: "int \<Rightarrow> string" where
  "int_str i = (if i < 0 then CHR ''-'' # nat_str (nat (- i)) else nat_str (nat i))"

definition str_val :: "nat \<Rightarrow> string \<Rightarrow> nat" where
  "str_val b s = digits_val b (map (\<lambda>c. case char_digit c of Some d \<Rightarrow> d | None \<Rightarrow> 0) s)"

definition pad_start :: "nat \<Rightarrow> string \<Rightarrow> string" where
  "pad_start n s = replicate (n - length s) (CHR ''0'') @ s"

lemma digits_val_snoc: "digits_val b (ds @ [d]) = digits_val b ds * b + d"
  by (simp add: digits_val_def)

lemma digits_val_digits_of: "digits_val b (digits_of b n) = n"
proof (induction b n rule: digits_of.induct)
  case (1 b n)
  show ?case
  proof (cases "b < 2 \<or> n < b")
    case True
    then show ?thesis by (subst digits_of.simps) (auto simp: digits_val_def)
  next
    case False
    with "1.IH" show ?thesis by (subst digits_of.simps) (simp add: digits_val_snoc)
  qed
qed

lemma digits_of_bound: "2 \<le> b \<Longrightarrow> d \<in> set (digits_of b n) \<Longrightarrow> d < b"
proof (induction b n rule: digits_of.induct)
  case (1 b n)
  then show ?case
    by (subst (asm) (2) digits_of.simps) (auto split: if_splits)
qed

lemma digits_of_nonempty [simp]: "digits_of b n \<noteq> []"
  by (subst digits_of.simps) simp

lemma digits_val_zeros: "digits_val b (replicate k 0 @ ds) = digits_val b ds"
  by (induction k) (simp_all add: digits_val_def)

lemma of_char_digit_char: "d < 16 \<Longrightarrow>
    (of_char (digit_char d) :: nat) = (if d < 10 then 48 + d else 87 + d)"
  by (simp add: digit_char_def)

lemma char_digit_digit_char [simp]: "d < 16 \<Longrightarrow> char_digit (digit_char d) = Some d"
  by (auto simp: char_digit_def of_char_digit_char Let_def)

lemma is_hex_digit_char [simp]: "d < 16 \<Longrightarrow> is_hex (digit_char d)"
  by (simp add: is_hex_def)

lemma is_dec_digit_char [simp]: "d < 10 \<Longrightarrow> is_dec (digit_char d)"
  by (simp add: is_dec_def of_char_digit_char)

lemma digit_char_0: "digit_char 0 = CHR ''0''"
proof -
  have "(of_char (digit_char 0) :: nat) = of_char (CHR ''0'')"
    by (simp add: of_char_digit_char)
  then show ?thesis by (simp only: of_char_eq_iff)
qed

lemma str_val_map_digit:
  assumes "\<And>d. d \<in> set ds \<Longrightarrow> d < 16"
  shows "str_val b (map digit_char ds) = digits_val b ds"
proof -
  have "map (\<lambda>c. case char_digit c of Some d \<Rightarrow> d | None \<Rightarrow> 0) (map digit_char ds) = ds"
    using assms by (simp add: map_idI)
  then show ?thesis by (simp add: str_val_def)
qed

lemma hex_digits_lt: "d \<in> set (digits_of 16 n) \<Longrightarrow> d < 16"
  using digits_of_bound [of 16] by simp

lemma dec_digits_lt: "d \<in> set (digits_of 10 n) \<Longrightarrow> d < 10"
  using digits_of_bound [of 10] by simp

lemma str_val_hex_str [simp]: "str_val 16 (hex_str n) = n"
  by (simp add: hex_str_def str_val_map_digit hex_digits_lt digits_val_digits_of)

lemma str_val_nat_str [simp]: "str_val 10 (nat_str n) = n"
proof -
  have "d < 16" if "d \<in> set (digits_of 10 n)" for d
    using dec_digits_lt [OF that] by simp
  then show ?thesis by (simp add: nat_str_def str_val_map_digit digits_val_digits_of)
qed

lemma pad_start_map_digit:
  "pad_start k (map digit_char ds) = map digit_char (replicate (k - length ds) 0 @ ds)"
  by (simp add: pad_start_def digit_char_0)

lemma str_val_pad_hex [simp]: "str_val 16 (pad_start k (hex_str n)) = n"
proof -
  have "d < 16" if "d \<in> set (replicate (k - length (digits_of 16 n)) 0 @ digits_of 16 n)" for d
    using that hex_digits_lt [of d n] by auto
  then show ?thesis
    unfolding hex_str_def pad_start_map_digit
    by (subst str_val_map_digit) (auto simp: digits_val_zeros digits_val_digits_of)
qed

lemma hex_str_hex: "c \<in> set (hex_str n) \<Longrightarrow> is_hex c"
  by (auto simp: hex_str_def hex_digits_lt)

lemma nat_str_dec: "c \<in> set (nat_str n) \<Longrightarrow> is_dec c"
  by (auto simp: nat_str_def dec_digits_lt)

lemma pad_hex_hex: "c \<in> set (pad_start k (hex_str n)) \<Longrightarrow> is_hex c"
  using hex_str_hex digit_char_0 is_hex_digit_char [of 0] by (auto simp: pad_start_def)

lemma hex_str_nonempty [simp]: "hex_str n \<noteq> []"
  by (simp add: hex_str_def)

lemma nat_str_nonempty [simp]: "nat_str n \<noteq> []"
  by (simp add: nat_str_def)

lemma pad_hex_nonempty [simp]: "pad_start k (hex_str n) \<noteq> []"
  by (simp add: pad_start_def)

text \<open>Digit strings of one width are ordered as the numbers they stand for.\<close>

lemma less_append_same_length:
  fixes u u' v v' :: "('a :: linorder) list"
  assumes "length u = length u'"
  shows "u @ v < u' @ v' \<longleftrightarrow> u < u' \<or> (u = u' \<and> v < v')"
  using assms by (induction u u' rule: list_induct2) auto

lemma digits_val_Cons: "digits_val b (d # ds) = d * b ^ length ds + digits_val b ds"
proof -
  have "foldl (\<lambda>a d. a * b + d) x ds = x * b ^ length ds + digits_val b ds" for x
  proof (induction ds rule: rev_induct)
    case (snoc e ds)
    have "foldl (\<lambda>a d. a * b + d) x (ds @ [e]) = (x * b ^ length ds + digits_val b ds) * b + e"
      using snoc.IH by simp
    then show ?case by (simp add: digits_val_snoc algebra_simps)
  qed (simp add: digits_val_def)
  note step = this [of d]
  have "digits_val b (d # ds) = foldl (\<lambda>a d. a * b + d) d ds" by (simp add: digits_val_def)
  then show ?thesis by (simp only: step)
qed

lemma digits_val_bound: "(\<And>d. d \<in> set ds \<Longrightarrow> d < b) \<Longrightarrow> digits_val b ds < b ^ length ds"
proof (induction ds)
  case Nil
  then show ?case by (simp add: digits_val_def)
next
  case (Cons d ds)
  have "d < b" and t: "digits_val b ds < b ^ length ds" using Cons by auto
  then have "(d + 1) * b ^ length ds \<le> b * b ^ length ds"
    by (intro mult_right_mono) auto
  with t show ?case by (simp add: digits_val_Cons)
qed

lemma digits_val_less:
  assumes "length ds = length es" "\<And>d. d \<in> set ds \<Longrightarrow> d < b" "\<And>d. d \<in> set es \<Longrightarrow> d < b"
  shows "ds < es \<longleftrightarrow> digits_val b ds < digits_val b es"
  using assms
proof (induction ds es rule: list_induct2)
  case (Cons d ds e es)
  have b: "digits_val b ds < b ^ length es" "digits_val b es < b ^ length es"
    using digits_val_bound [of ds b] digits_val_bound [of es b] Cons.hyps Cons.prems by auto
  have IH: "ds < es \<longleftrightarrow> digits_val b ds < digits_val b es" using Cons by auto
  have big: "x * b ^ length es + u < y * b ^ length es + v"
    if "x < y" "u < b ^ length es" for x y u v :: nat
  proof -
    have "(x + 1) * b ^ length es \<le> y * b ^ length es"
      using that(1) by (intro mult_right_mono) auto
    with that(2) show ?thesis by simp
  qed
  consider "d < e" | "d = e" | "e < d" by linarith
  then show ?case
  proof cases
    case 1
    then show ?thesis using big [OF 1 b(1)] by (simp add: digits_val_Cons Cons.hyps)
  next
    case 2
    then show ?thesis using IH by (simp add: digits_val_Cons Cons.hyps)
  next
    case 3
    then show ?thesis
      using big [OF 3 b(2), of "digits_val b ds"] by (auto simp: digits_val_Cons Cons.hyps)
  qed
qed simp

lemma digit_char_less: "d < 16 \<Longrightarrow> e < 16 \<Longrightarrow> digit_char d < digit_char e \<longleftrightarrow> d < e"
  by (simp add: less_char_def of_char_digit_char)

lemma digit_char_inj: "d < 16 \<Longrightarrow> e < 16 \<Longrightarrow> digit_char d = digit_char e \<longleftrightarrow> d = e"
  using digit_char_less [of d e] digit_char_less [of e d] by (metis less_irrefl linorder_neqE_nat)

lemma map_digit_char_less:
  assumes "length ds = length es" "\<And>d. d \<in> set ds \<Longrightarrow> d < 16" "\<And>d. d \<in> set es \<Longrightarrow> d < 16"
  shows "map digit_char ds < map digit_char es \<longleftrightarrow> ds < es"
  using assms
  by (induction ds es rule: list_induct2) (auto simp: digit_char_less digit_char_inj)

lemma length_digits_of: "2 \<le> b \<Longrightarrow> 0 < k \<Longrightarrow> n < b ^ k \<Longrightarrow> length (digits_of b n) \<le> k"
proof (induction b n arbitrary: k rule: digits_of.induct)
  case (1 b n)
  show ?case
  proof (cases "n < b")
    case True
    then show ?thesis using 1 by (subst digits_of.simps) simp
  next
    case False
    then have "1 < k" using 1 by (cases "k = 1") auto
    then obtain j where j: "k = Suc j" "0 < j" by (cases k) auto
    have "n div b < b ^ j" using 1 j by (simp add: less_mult_imp_div_less mult.commute)
    then have "length (digits_of b (n div b)) \<le> j" using 1 False j by simp
    then show ?thesis using False 1 j by (subst digits_of.simps) simp
  qed
qed

lemma pad_digits_less:
  assumes b: "2 \<le> b" "b \<le> 16" and k: "0 < k" and xy: "x < b ^ k" "y < b ^ k"
  shows "pad_start k (map digit_char (digits_of b x)) < pad_start k (map digit_char (digits_of b y))
    \<longleftrightarrow> x < y"
proof -
  define p where "p z = replicate (k - length (digits_of b z)) 0 @ digits_of b z" for z
  have len: "length (p z) = k" if "z < b ^ k" for z
    using length_digits_of [OF b(1) k that] by (simp add: p_def)
  have dig: "d < b" if "d \<in> set (p z)" for d z
    using that b digits_of_bound [OF b(1)] by (auto simp: p_def split: if_splits)
  have dig16: "d < 16" if "d \<in> set (p z)" for d z using dig [OF that] b(2) by linarith
  have val: "digits_val b (p z) = z" for z
    by (simp add: p_def digits_val_zeros digits_val_digits_of)
  have "map digit_char (p x) < map digit_char (p y) \<longleftrightarrow> p x < p y"
    using len xy dig16 by (intro map_digit_char_less) auto
  also have "\<dots> \<longleftrightarrow> x < y"
    using digits_val_less [of "p x" "p y" b] len xy dig val by simp
  finally show ?thesis by (simp add: pad_start_map_digit p_def)
qed

lemma length_pad_digits:
  "2 \<le> b \<Longrightarrow> 0 < k \<Longrightarrow> x < b ^ k \<Longrightarrow> length (pad_start k (map digit_char (digits_of b x))) = k"
  using length_digits_of [of b k x] by (simp add: pad_start_def)

lemmas pad_hex_less = pad_digits_less [of 16, folded hex_str_def, simplified]
lemmas pad_dec_less = pad_digits_less [of 10, folded nat_str_def, simplified]
lemmas length_pad_hex = length_pad_digits [of 16, folded hex_str_def, simplified]
lemmas length_pad_dec = length_pad_digits [of 10, folded nat_str_def, simplified]

section \<open>Strings\<close>

text \<open>\<open>String.prototype.trim\<close> on code units below 256: tab, line feed, vertical tab, form feed,
  carriage return, space and no-break space.\<close>

definition is_white :: "char \<Rightarrow> bool" where
  "is_white c \<longleftrightarrow> (let n = of_char c :: nat in (9 \<le> n \<and> n \<le> 13) \<or> n = 32 \<or> n = 160)"

definition trim_left :: "string \<Rightarrow> string" where
  "trim_left s = dropWhile is_white s"

definition trim :: "string \<Rightarrow> string" where
  "trim s = rev (dropWhile is_white (rev (trim_left s)))"

definition lower_char :: "char \<Rightarrow> char" where
  "lower_char c = (if is_upper c then char_of ((of_char c :: nat) + 32) else c)"

definition upper_char :: "char \<Rightarrow> char" where
  "upper_char c = (if is_lower c then char_of ((of_char c :: nat) - 32) else c)"

text \<open>Case mapping of the ASCII letters.\<close>

definition to_lower :: "string \<Rightarrow> string" where
  "to_lower s = map lower_char s"

definition to_upper :: "string \<Rightarrow> string" where
  "to_upper s = map upper_char s"

fun starts_with :: "string \<Rightarrow> string \<Rightarrow> bool" where
  "starts_with [] s = True"
| "starts_with (p # ps) [] = False"
| "starts_with (p # ps) (c # cs) = (p = c \<and> starts_with ps cs)"

fun str_includes :: "string \<Rightarrow> string \<Rightarrow> bool" where
  "str_includes p [] = (p = [])"
| "str_includes p (c # cs) = (starts_with p (c # cs) \<or> str_includes p cs)"

text \<open>\<open>s.split(c)\<close> for a one-character separator, and \<open>parts.join(sep)\<close>.\<close>

fun split_char :: "char \<Rightarrow> string \<Rightarrow> string list" where
  "split_char c [] = [[]]"
| "split_char c (x # xs) = (if x = c then [] # split_char c xs
     else (case split_char c xs of p # ps \<Rightarrow> (x # p) # ps | [] \<Rightarrow> [[x]]))"

fun join_with :: "string \<Rightarrow> string list \<Rightarrow> string" where
  "join_with sep [] = []"
| "join_with sep [x] = x"
| "join_with sep (x # y # ys) = x @ sep @ join_with sep (y # ys)"

text \<open>A text between single quotes, as the messages print identifiers.\<close>

definition quoted :: "string \<Rightarrow> string" where
  "quoted s = [CHR 39] @ s @ [CHR 39]"

lemma starts_with_append: "starts_with p s \<longleftrightarrow> (\<exists>t. s = p @ t)"
  by (induction p s rule: starts_with.induct) auto

lemma starts_with_self [simp]: "starts_with p (p @ t)"
  by (simp add: starts_with_append)

lemma split_char_nonempty [simp]: "split_char c s \<noteq> []"
  by (induction s) (auto split: list.splits)

lemma split_char_join:
  "c \<notin> set x \<Longrightarrow> split_char c (x @ c # s) = x # split_char c s"
  by (induction x) (auto split: list.splits)

lemma split_char_none: "c \<notin> set x \<Longrightarrow> split_char c x = [x]"
  by (induction x) auto

lemma join_split: "join_with [c] (split_char c s) = s"
proof (induction s)
  case (Cons a s)
  obtain p ps where sp: "split_char c s = p # ps"
    by (metis list.exhaust split_char_nonempty)
  with Cons show ?case by (cases ps) auto
qed simp

lemma split_join:
  "xs \<noteq> [] \<Longrightarrow> (\<And>x. x \<in> set xs \<Longrightarrow> c \<notin> set x) \<Longrightarrow> split_char c (join_with [c] xs) = xs"
  by (induction "[c]" xs rule: join_with.induct) (simp_all add: split_char_none split_char_join)

lemma str_includes_iff: "str_includes p s \<longleftrightarrow> (\<exists>u v. s = u @ p @ v)"
proof (induction s)
  case Nil
  then show ?case by auto
next
  case (Cons c s)
  show ?case
  proof
    assume "str_includes p (c # s)"
    then consider "starts_with p (c # s)" | "str_includes p s" by auto
    then show "\<exists>u v. c # s = u @ p @ v"
    proof cases
      case 1
      then obtain t where "c # s = p @ t" by (auto simp: starts_with_append)
      then have "c # s = [] @ p @ t" by simp
      then show ?thesis by blast
    next
      case 2
      then obtain u v where "s = u @ p @ v" using Cons.IH by auto
      then have "c # s = (c # u) @ p @ v" by simp
      then show ?thesis by blast
    qed
  next
    assume "\<exists>u v. c # s = u @ p @ v"
    then obtain u v where uv: "c # s = u @ p @ v" by blast
    show "str_includes p (c # s)"
    proof (cases u)
      case Nil
      with uv have "starts_with p (c # s)" by (auto simp: starts_with_append)
      then show ?thesis by simp
    next
      case (Cons a u')
      with uv have "s = u' @ p @ v" by simp
      with Cons.IH show ?thesis by auto
    qed
  qed
qed

section \<open>Lists and options\<close>

text \<open>\<open>xs.find(p)\<close>, \<open>xs.some(p)\<close> is \<open>list_ex\<close> and \<open>xs.every(p)\<close> is \<open>list_all\<close>.\<close>

fun find_first :: "('a \<Rightarrow> bool) \<Rightarrow> 'a list \<Rightarrow> 'a option" where
  "find_first p [] = None"
| "find_first p (x # xs) = (if p x then Some x else find_first p xs)"

lemma find_first_SomeD: "find_first p xs = Some x \<Longrightarrow> x \<in> set xs \<and> p x"
  by (induction xs) (auto split: if_splits)

lemma find_first_None: "find_first p xs = None \<longleftrightarrow> (\<forall>x \<in> set xs. \<not> p x)"
  by (induction xs) auto

lemma find_first_append:
  "find_first p (xs @ ys) = (case find_first p xs of Some x \<Rightarrow> Some x | None \<Rightarrow> find_first p ys)"
  by (induction xs) auto

text \<open>A keyed collection in insertion order: \<open>Map\<close> and plain objects.\<close>

fun assoc_get :: "'k \<Rightarrow> ('k \<times> 'v) list \<Rightarrow> 'v option" where
  "assoc_get k [] = None"
| "assoc_get k ((k', v) # r) = (if k' = k then Some v else assoc_get k r)"

fun assoc_set :: "'k \<Rightarrow> 'v \<Rightarrow> ('k \<times> 'v) list \<Rightarrow> ('k \<times> 'v) list" where
  "assoc_set k v [] = [(k, v)]"
| "assoc_set k v ((k', v') # r) = (if k' = k then (k, v) # r else (k', v') # assoc_set k v r)"

definition assoc_del :: "'k \<Rightarrow> ('k \<times> 'v) list \<Rightarrow> ('k \<times> 'v) list" where
  "assoc_del k m = filter (\<lambda>e. fst e \<noteq> k) m"

lemma assoc_get_set [simp]: "assoc_get k (assoc_set k' v m) = (if k = k' then Some v else assoc_get k m)"
  by (induction m rule: assoc_get.induct [of _ k]) auto

lemma assoc_get_del [simp]: "assoc_get k (assoc_del k' m) = (if k = k' then None else assoc_get k m)"
  by (induction m) (auto simp: assoc_del_def)

lemma assoc_get_None: "assoc_get k m = None \<longleftrightarrow> k \<notin> fst ` set m"
  by (induction k m rule: assoc_get.induct) auto

lemma assoc_get_SomeD: "assoc_get k m = Some v \<Longrightarrow> (k, v) \<in> set m"
  by (induction m) (auto split: if_splits)

lemma assoc_set_keys: "fst ` set (assoc_set k v m) = insert k (fst ` set m)"
  by (induction m rule: assoc_get.induct [of _ k]) auto

lemma assoc_set_distinct: "distinct (map fst m) \<Longrightarrow> distinct (map fst (assoc_set k v m))"
proof (induction m)
  case (Cons e m)
  obtain a b where "e = (a, b)" by (cases e)
  with Cons show ?case using assoc_set_keys [of k v m] by auto
qed simp

lemma assoc_del_distinct: "distinct (map fst m) \<Longrightarrow> distinct (map fst (assoc_del k m))"
  by (simp add: assoc_del_def distinct_map_filter)

lemma assoc_get_unique:
  "distinct (map fst m) \<Longrightarrow> (k, v) \<in> set m \<Longrightarrow> assoc_get k m = Some v"
  by (induction m) force+

end
