(* ===== verification/Iso_Time.thy ===== *)
theory Iso_Time
  imports Prelude "HOL-Library.Monad_Syntax"
begin

text \<open>
  \<open>Date.prototype.toISOString\<close> and the ISO part of \<open>Date.parse\<close>, on millisecond counts since
  1970-01-01: the proleptic Gregorian calendar in periods of 400 years that start on 1 March.
  \<open>iso_str\<close> is the text, \<open>to_iso\<close> raises on a time value outside the range of \<open>Date\<close>.  The main
  facts are that the parse inverts the text (\<open>iso_parse_iso_str\<close>) and that, in the years 0000 to
  9999, the order of the texts is the order of the times (\<open>iso_str_less_iff\<close>), which is what the
  SQL comparisons of timestamp columns rely on.
\<close>

section \<open>The calendar\<close>

definition civil_of_day :: "int \<Rightarrow> int \<times> int \<times> int" where
  "civil_of_day n = (let z = n + 719468; era = z div 146097; doe = z mod 146097;
     c = min 3 (doe div 36524); r1 = doe - c * 36524;
     q = r1 div 1461; r2 = r1 mod 1461;
     a = min 3 (r2 div 365); doy = r2 - a * 365;
     yoe = 100 * c + 4 * q + a;
     mp = (5 * doy + 2) div 153;
     d = doy - (153 * mp + 2) div 5 + 1;
     m = (if mp < 10 then mp + 3 else mp - 9)
   in (yoe + era * 400 + (if m \<le> 2 then 1 else 0), m, d))"

definition day_of_civil :: "int \<Rightarrow> int \<Rightarrow> int \<Rightarrow> int" where
  "day_of_civil y m d = (let y' = (if m \<le> 2 then y - 1 else y);
     era = y' div 400; yoe = y' mod 400;
     mp = (if m > 2 then m - 3 else m + 9);
     doy = (153 * mp + 2) div 5 + d - 1;
     doe = yoe * 365 + yoe div 4 - yoe div 100 + doy
   in era * 146097 + doe - 719468)"

lemma civil_parts:
  fixes doe :: int
  assumes "0 \<le> doe" "doe < 146097"
  defines "c \<equiv> min 3 (doe div 36524)"
  defines "r1 \<equiv> doe - c * 36524"
  defines "q \<equiv> r1 div 1461"
  defines "r2 \<equiv> r1 mod 1461"
  defines "a \<equiv> min 3 (r2 div 365)"
  defines "doy \<equiv> r2 - a * 365"
  shows "0 \<le> c" "c \<le> 3" "0 \<le> q" "q \<le> 24" "0 \<le> a" "a \<le> 3" "0 \<le> doy" "doy \<le> 365"
    "doe = c * 36524 + q * 1461 + a * 365 + doy"
    "doy = 365 \<Longrightarrow> a = 3 \<and> (q = 24 \<longrightarrow> c = 3)"
proof -
  define k where "k = doe div 36524"
  have k: "36524 * k \<le> doe" "doe < 36524 * k + 36524"
    unfolding k_def by presburger+
  have k0: "0 \<le> k" using k(2) assms(1) by linarith
  have c_k: "c = min 3 k" by (simp add: c_def k_def)
  show c: "0 \<le> c" "c \<le> 3" using k0 by (simp_all add: c_k)
  have r1: "0 \<le> r1 \<and> r1 \<le> 36524"
  proof (cases "k \<le> 3")
    case True
    then show ?thesis using k by (simp add: r1_def c_k)
  next
    case False
    then have "c = 3" by (simp add: c_k)
    moreover have "36524 * 4 \<le> 36524 * k" using False by linarith
    ultimately show ?thesis using k assms(2) by (simp add: r1_def)
  qed
  have qr: "r1 = q * 1461 + r2" by (simp add: q_def r2_def)
  have r2: "0 \<le> r2" "r2 \<le> 1460" unfolding r2_def by presburger+
  show q: "0 \<le> q" "q \<le> 24" using r1 qr r2 by linarith+
  define l where "l = r2 div 365"
  have l: "365 * l \<le> r2" "r2 < 365 * l + 365"
    unfolding l_def by presburger+
  have l0: "0 \<le> l" using l(2) r2 by linarith
  have a_l: "a = min 3 l" by (simp add: a_def l_def)
  show a: "0 \<le> a" "a \<le> 3" using l0 by (simp_all add: a_l)
  have "0 \<le> doy \<and> doy \<le> 365"
  proof (cases "l \<le> 3")
    case True
    then show ?thesis using l by (simp add: doy_def a_l)
  next
    case False
    then have "a = 3" by (simp add: a_l)
    moreover have "365 * 4 \<le> 365 * l" using False by linarith
    ultimately show ?thesis using l r2 by (simp add: doy_def)
  qed
  then show "0 \<le> doy" "doy \<le> 365" by simp_all
  show "doe = c * 36524 + q * 1461 + a * 365 + doy"
    using qr by (simp add: doy_def r1_def)
  show "a = 3 \<and> (q = 24 \<longrightarrow> c = 3)" if "doy = 365"
  proof
    show a3: "a = 3" using that l a_l by (simp add: doy_def min_def split: if_splits)
    show "q = 24 \<longrightarrow> c = 3"
    proof
      assume "q = 24"
      then have "r1 = 36524" using that a3 qr r1 by (simp add: doy_def)
      then show "c = 3" using k c_k by (simp add: r1_def min_def split: if_splits)
    qed
  qed
qed

lemma month_parts:
  fixes doy :: int
  assumes "0 \<le> doy" "doy \<le> 365"
  defines "mp \<equiv> (5 * doy + 2) div 153"
  shows "0 \<le> mp" "mp \<le> 11" "1 \<le> doy - (153 * mp + 2) div 5 + 1" "doy - (153 * mp + 2) div 5 + 1 \<le> 31"
proof -
  have m: "153 * mp \<le> 5 * doy + 2" "5 * doy + 2 < 153 * mp + 153"
    unfolding mp_def by presburger+
  define k where "k = (153 * mp + 2) div 5"
  have k: "5 * k \<le> 153 * mp + 2" "153 * mp + 2 < 5 * k + 5"
    unfolding k_def by presburger+
  show "0 \<le> mp" "mp \<le> 11" using m assms(1,2) by linarith+
  show "1 \<le> doy - (153 * mp + 2) div 5 + 1" "doy - (153 * mp + 2) div 5 + 1 \<le> 31"
    unfolding k_def [symmetric] using m k by linarith+
qed

lemma year_of_era_days:
  fixes c q a :: int
  assumes "0 \<le> c" "c \<le> 3" "0 \<le> q" "q \<le> 24" "0 \<le> a" "a \<le> 3"
  shows "(100 * c + 4 * q + a) div 4 = 25 * c + q" "(100 * c + 4 * q + a) div 100 = c"
    "0 \<le> 100 * c + 4 * q + a" "100 * c + 4 * q + a < 400"
  using assms by linarith+

text \<open>The first day of a year that begins on 1 March, and its growth.\<close>

definition year_start :: "int \<Rightarrow> int" where
  "year_start y = 365 * y + y div 4 - y div 100 + y div 400"

lemma year_start_era:
  assumes "0 \<le> yoe" "yoe < 400"
  shows "year_start (yoe + era * 400) = era * 146097 + (yoe * 365 + yoe div 4 - yoe div 100)"
proof -
  have "(yoe + era * 400) div 4 = yoe div 4 + 100 * era"
    "(yoe + era * 400) div 100 = yoe div 100 + 4 * era"
    "(yoe + era * 400) div 400 = era"
    using assms by linarith+
  note dv = this
  have "365 * (yoe + era * 400) + (a + 100 * era) - (b + 4 * era) + era
      = era * 146097 + (yoe * 365 + a - b)" for a b :: int
    by simp
  then show ?thesis unfolding year_start_def dv .
qed

lemma year_start_step: "year_start y + 365 \<le> year_start (y + 1)"
proof -
  define a where "a = y div 4"
  define a' where "a' = (y + 1) div 4"
  define b where "b = y div 100"
  define b' where "b' = (y + 1) div 100"
  have a: "4 * a \<le> y" "y + 1 < 4 * a' + 4" "a \<le> a'"
    unfolding a_def a'_def by (linarith, linarith, intro zdiv_mono1, auto)
  have b: "y < 100 * b + 100" "100 * b' \<le> y + 1"
    unfolding b_def b'_def by linarith+
  have "a - b \<le> a' - b'"
  proof (cases "b' \<le> b")
    case True
    with a show ?thesis by linarith
  next
    case False
    then have y: "y = 100 * b + 99" "b' = b + 1" using b by linarith+
    then have "a < 25 * b + 25" "25 * b + 24 < a'" using a(1,2) by presburger+
    with y show ?thesis by linarith
  qed
  moreover define c where "c = y div 400"
  moreover define c' where "c' = (y + 1) div 400"
  moreover have "c \<le> c'" unfolding c_def c'_def by (intro zdiv_mono1) auto
  ultimately have "365 * y + a - b + c + 365 \<le> 365 * (y + 1) + a' - b' + c'"
    by (simp only: distrib_left)
  then show ?thesis
    unfolding year_start_def a_def a'_def b_def b'_def c_def c'_def .
qed

lemma year_start_mono: "y \<le> y' \<Longrightarrow> year_start y \<le> year_start y'"
proof (induction "nat (y' - y)" arbitrary: y')
  case (Suc n)
  then have "year_start y \<le> year_start (y' - 1)" by simp
  with year_start_step [of "y' - 1"] show ?case by simp
qed simp

lemma leap_room:
  fixes c q a doy era :: int
  assumes "0 \<le> c" "c \<le> 3" "0 \<le> q" "q \<le> 24" "0 \<le> a" "a \<le> 3" "0 \<le> doy" "doy \<le> 365"
    and leap: "doy = 365 \<Longrightarrow> a = 3 \<and> (q = 24 \<longrightarrow> c = 3)"
  shows "year_start (100 * c + 4 * q + a + era * 400) + doy
    < year_start (100 * c + 4 * q + a + era * 400 + 1)"
proof (cases "doy = 365")
  case False
  then show ?thesis
    using assms(8) year_start_step [of "100 * c + 4 * q + a + era * 400"] by linarith
next
  case True
  note y = year_of_era_days [OF assms(1-6)]
  have a: "a = 3" using leap True by simp
  show ?thesis
  proof (cases "q = 24")
    case True
    then have "c = 3" using leap \<open>doy = 365\<close> by simp
    then show ?thesis
      using year_start_era [of 399 era] year_start_era [of 0 "era + 1"] True a \<open>doy = 365\<close>
      by (simp add: algebra_simps)
  next
    case False
    then have q: "q + 1 \<le> 24" "0 \<le> q + 1" using assms by simp_all
    have y': "(100 * c + 4 * (q + 1) + 0) div 4 = 25 * c + (q + 1)"
      "(100 * c + 4 * (q + 1) + 0) div 100 = c"
      "0 \<le> 100 * c + 4 * (q + 1) + 0" "100 * c + 4 * (q + 1) + 0 < 400"
      using year_of_era_days [OF assms(1,2) q(2,1) order.refl] by simp_all
    have e: "year_start (100 * c + 4 * q + a + era * 400)
        = era * 146097 + ((100 * c + 4 * q + a) * 365 + (25 * c + q) - c)"
      by (simp only: year_start_era [OF y(3,4), of era] y(1,2))
    have eq: "100 * c + 4 * q + a + era * 400 + 1 = 100 * c + 4 * (q + 1) + 0 + era * 400"
      using a by simp
    have e': "year_start (100 * c + 4 * q + a + era * 400 + 1)
        = era * 146097 + ((100 * c + 4 * (q + 1) + 0) * 365 + (25 * c + (q + 1)) - c)"
      unfolding eq by (subst year_start_era [OF y'(3,4)]) (simp only: y'(1,2))
    show ?thesis unfolding e e' using a \<open>doy = 365\<close> by simp
  qed
qed

lemma civil_of_dayE:
  assumes "civil_of_day n = (y, m, d)"
  obtains era yoe doy mp where "0 \<le> yoe" "yoe < 400" "0 \<le> doy" "doy \<le> 365"
    "0 \<le> mp" "mp \<le> 11" "d = doy - (153 * mp + 2) div 5 + 1" "1 \<le> d" "d \<le> 31"
    "m = (if mp < 10 then mp + 3 else mp - 9)"
    "y = yoe + era * 400 + (if m \<le> 2 then 1 else 0)"
    "n + 719468 = era * 146097 + (yoe * 365 + yoe div 4 - yoe div 100 + doy)"
    "year_start (yoe + era * 400) + doy < year_start (yoe + era * 400 + 1)"
    "mp = (5 * doy + 2) div 153"
proof -
  define z where "z = n + 719468"
  define era where "era = z div 146097"
  define doe where "doe = z mod 146097"
  have doe: "0 \<le> doe" "doe < 146097" by (auto simp: doe_def)
  define c where "c = min 3 (doe div 36524)"
  define r1 where "r1 = doe - c * 36524"
  define q where "q = r1 div 1461"
  define r2 where "r2 = r1 mod 1461"
  define a where "a = min 3 (r2 div 365)"
  define doy where "doy = r2 - a * 365"
  define mp where "mp = (5 * doy + 2) div 153"
  define yoe where "yoe = 100 * c + 4 * q + a"
  define m' where "m' = (if mp < 10 then mp + 3 else mp - 9)"
  note pr = civil_parts [OF doe, folded c_def, folded r1_def, folded q_def r2_def, folded a_def,
      folded doy_def]
  note mm = month_parts [OF pr(7,8), folded mp_def]
  note yy = year_of_era_days [OF pr(1-6), folded yoe_def]
  have day: "civil_of_day n =
      (yoe + era * 400 + (if m' \<le> 2 then 1 else 0), m', doy - (153 * mp + 2) div 5 + 1)"
    by (simp only: civil_of_day_def Let_def z_def era_def doe_def c_def r1_def q_def r2_def
        a_def doy_def mp_def yoe_def m'_def)
  have "(y, m, d) = (yoe + era * 400 + (if m' \<le> 2 then 1 else 0), m', doy - (153 * mp + 2) div 5 + 1)"
    by (rule trans [OF assms [symmetric] day])
  then have eqs: "y = yoe + era * 400 + (if m' \<le> 2 then 1 else 0)" "m = m'"
    "d = doy - (153 * mp + 2) div 5 + 1"
    by (simp_all only: prod.inject)
  then have ymd: "y = yoe + era * 400 + (if m \<le> 2 then 1 else 0)" "m = m'"
    "d = doy - (153 * mp + 2) div 5 + 1"
    by (simp_all only:)
  have "n + 719468 = era * 146097 + doe"
    unfolding z_def [symmetric] era_def doe_def by simp
  also have "doe = yoe * 365 + yoe div 4 - yoe div 100 + doy"
    unfolding yy(1,2) using pr(9) by (simp add: yoe_def)
  finally have n: "n + 719468 = era * 146097 + (yoe * 365 + yoe div 4 - yoe div 100 + doy)" .
  have "year_start (yoe + era * 400) + doy < year_start (yoe + era * 400 + 1)"
    unfolding yoe_def by (rule leap_room [OF pr(1-8,10)])
  then show ?thesis
    using that [of yoe doy mp era] n yy(3,4) pr(7,8) mm ymd mp_def by (simp only: m'_def)
qed

lemma civil_of_day_range:
  assumes "civil_of_day n = (y, m, d)"
  shows "1 \<le> m \<and> m \<le> 12 \<and> 1 \<le> d \<and> d \<le> 31"
  using assms
proof (rule civil_of_dayE)
  fix mp assume "0 \<le> mp" "mp \<le> 11" "1 \<le> d" "d \<le> 31" "m = (if mp < 10 then mp + 3 else mp - 9)"
  then show ?thesis by (simp split: if_splits)
qed

lemma day_of_civil_of_day:
  assumes "civil_of_day n = (y, m, d)"
  shows "day_of_civil y m d = n"
  using assms
proof (rule civil_of_dayE)
  fix era yoe doy mp
  assume h: "0 \<le> yoe" "yoe < 400" "0 \<le> mp" "mp \<le> 11" "d = doy - (153 * mp + 2) div 5 + 1"
    "m = (if mp < 10 then mp + 3 else mp - 9)"
    "y = yoe + era * 400 + (if m \<le> 2 then 1 else 0)"
    "n + 719468 = era * 146097 + (yoe * 365 + yoe div 4 - yoe div 100 + doy)"
  have y': "(if m \<le> 2 then y - 1 else y) = yoe + era * 400"
    using h(7) by simp
  have mp': "(if m > 2 then m - 3 else m + 9) = mp" using h(3,4,6) by simp
  have dv: "(yoe + era * 400) div 400 = era" "(yoe + era * 400) mod 400 = yoe"
    using h(1,2) by simp_all
  show ?thesis
    unfolding day_of_civil_def Let_def y' mp' dv using h(5,8) by linarith
qed

lemma civil_of_day_mono:
  assumes "n < n'" "civil_of_day n = (y, m, d)" "civil_of_day n' = (y', m', d')"
  shows "y < y' \<or> (y = y' \<and> (m < m' \<or> (m = m' \<and> d < d')))"
proof -
  from assms(2) obtain era yoe doy mp where p: "0 \<le> yoe" "yoe < 400" "0 \<le> mp" "mp \<le> 11"
    "d = doy - (153 * mp + 2) div 5 + 1" "m = (if mp < 10 then mp + 3 else mp - 9)"
    "y = yoe + era * 400 + (if m \<le> 2 then 1 else 0)" "0 \<le> doy"
    "n + 719468 = era * 146097 + (yoe * 365 + yoe div 4 - yoe div 100 + doy)"
    "year_start (yoe + era * 400) + doy < year_start (yoe + era * 400 + 1)"
    "mp = (5 * doy + 2) div 153"
    by (rule civil_of_dayE)
  from assms(3) obtain era' yoe' doy' mp' where p': "0 \<le> yoe'" "yoe' < 400" "0 \<le> mp'" "mp' \<le> 11"
    "d' = doy' - (153 * mp' + 2) div 5 + 1" "m' = (if mp' < 10 then mp' + 3 else mp' - 9)"
    "y' = yoe' + era' * 400 + (if m' \<le> 2 then 1 else 0)" "0 \<le> doy'"
    "n' + 719468 = era' * 146097 + (yoe' * 365 + yoe' div 4 - yoe' div 100 + doy')"
    "year_start (yoe' + era' * 400) + doy' < year_start (yoe' + era' * 400 + 1)"
    "mp' = (5 * doy' + 2) div 153"
    by (rule civil_of_dayE)
  define Y Y' where "Y = yoe + era * 400" and "Y' = yoe' + era' * 400"
  have n: "n + 719468 = year_start Y + doy" "n' + 719468 = year_start Y' + doy'"
    using p(9) p'(9) year_start_era [OF p(1,2), of era] year_start_era [OF p'(1,2), of era']
    by (simp_all add: Y_def Y'_def)
  have room: "year_start Y' + doy' < year_start (Y' + 1)" using p'(10) by (simp add: Y'_def)
  have "Y \<le> Y'"
  proof (rule ccontr)
    assume "\<not> Y \<le> Y'"
    then have "year_start (Y' + 1) \<le> year_start Y" by (intro year_start_mono) simp
    with n room p(8) assms(1) show False by linarith
  qed
  moreover have "doy < doy'" if "Y = Y'" using n assms(1) that by simp
  ultimately consider "Y < Y'" | "Y = Y'" "doy < doy'" by (cases "Y = Y'") auto
  then show ?thesis
  proof cases
    case 1
    then have "Y + 1 \<le> Y'" by simp
    then show ?thesis
      using p(3,4) p'(3,4) unfolding p(6,7) p'(6,7) Y_def Y'_def by (auto split: if_splits)
  next
    case 2
    have "mp \<le> mp'" unfolding p(11) p'(11) using 2(2) by (intro zdiv_mono1) auto
    then consider "mp < mp'" | "mp = mp'" by linarith
    then show ?thesis
    proof cases
      case 1
      then show ?thesis
        using 2(1) p(3,4) p'(3,4) unfolding p(6,7) p'(6,7) Y_def Y'_def by (simp split: if_splits)
    next
      case same: 2
      then have "d < d'" using 2(2) p(5) p'(5) by linarith
      then show ?thesis using 2(1) same p(6,7) p'(6,7) by (simp add: Y_def Y'_def)
    qed
  qed
qed

section \<open>The text\<close>

definition day_ms :: int where "day_ms = 86400000"

definition dec2 :: "int \<Rightarrow> string" where "dec2 n = pad_start 2 (nat_str (nat n))"
definition dec3 :: "int \<Rightarrow> string" where "dec3 n = pad_start 3 (nat_str (nat n))"

definition year_str :: "int \<Rightarrow> string" where
  "year_str y = (if 0 \<le> y \<and> y \<le> 9999 then pad_start 4 (nat_str (nat y))
     else (if y < 0 then ''-'' else ''+'') @ pad_start 6 (nat_str (nat \<bar>y\<bar>)))"

definition clock_str :: "int \<Rightarrow> string" where
  "clock_str r = dec2 (r div 3600000) @ '':'' @ dec2 (r div 60000 mod 60) @ '':'' @
     dec2 (r div 1000 mod 60) @ ''.'' @ dec3 (r mod 1000) @ ''Z''"

definition date_str :: "int \<Rightarrow> string" where
  "date_str n = (case civil_of_day n of (y, m, d) \<Rightarrow>
     year_str y @ ''-'' @ dec2 m @ ''-'' @ dec2 d)"

definition iso_str :: "int \<Rightarrow> string" where
  "iso_str t = date_str (t div day_ms) @ ''T'' @ clock_str (t mod day_ms)"

text \<open>The years in which the text has four digits: 0000 to 9999.\<close>

definition common_era :: "int \<Rightarrow> bool" where
  "common_era t \<longleftrightarrow> (case civil_of_day (t div day_ms) of (y, _, _) \<Rightarrow> 0 \<le> y \<and> y \<le> 9999)"

text \<open>The order of the parts.\<close>

lemma dec_less:
  "0 \<le> x \<Longrightarrow> 0 \<le> y \<Longrightarrow> 0 < k \<Longrightarrow> x < 10 ^ k \<Longrightarrow> y < 10 ^ k \<Longrightarrow>
    pad_start k (nat_str (nat x)) < pad_start k (nat_str (nat y)) \<longleftrightarrow> x < y"
  by (subst pad_dec_less) (auto simp: nat_less_iff)

lemma dec_length:
  "0 \<le> x \<Longrightarrow> 0 < k \<Longrightarrow> x < 10 ^ k \<Longrightarrow> length (pad_start k (nat_str (nat x))) = k"
  by (rule length_pad_dec) (auto simp: nat_less_iff)

lemma dec_mono:
  "0 \<le> x \<Longrightarrow> x < y \<Longrightarrow> 0 < k \<Longrightarrow> y < 10 ^ k \<Longrightarrow>
    pad_start k (nat_str (nat x)) < pad_start k (nat_str (nat y))"
  by (subst dec_less) auto

text \<open>A lexicographic step: a first field of fixed width, then the rest.\<close>

lemma field_less:
  fixes u u' v v' :: string
  assumes "length u = length u'" "u < u' \<or> (u = u' \<and> v < v')"
  shows "u @ v < u' @ v'"
  using assms by (simp add: less_append_same_length)

lemma clock_parts_less:
  fixes h h' m m' s s' l l' :: int
  assumes "h * 3600000 + m * 60000 + s * 1000 + l < h' * 3600000 + m' * 60000 + s' * 1000 + l'"
    "0 \<le> m" "m < 60" "0 \<le> s" "s < 60" "0 \<le> l" "l < 1000"
    "0 \<le> m'" "m' < 60" "0 \<le> s'" "s' < 60" "0 \<le> l'" "l' < 1000"
  shows "h < h' \<or> (h = h' \<and> (m < m' \<or> (m = m' \<and> (s < s' \<or> (s = s' \<and> l < l')))))"
proof -
  have "h \<le> h'" using assms by linarith
  moreover have "m \<le> m'" if "h = h'" using that assms by linarith
  moreover have "s \<le> s'" if "h = h'" "m = m'" using that assms by linarith
  moreover have "l < l'" if "h = h'" "m = m'" "s = s'" using that assms by linarith
  ultimately show ?thesis by (meson le_less)
qed

lemma clock_str_mono:
  assumes "0 \<le> r" "r < r'" "r' < day_ms"
  shows "clock_str r < clock_str r'"
proof -
  have split: "x = (x div 3600000) * 3600000 + (x div 60000 mod 60) * 60000 +
      (x div 1000 mod 60) * 1000 + x mod 1000" for x :: int
  proof -
    have "x div 3600000 = x div 60000 div 60" "x div 60000 = x div 1000 div 60"
      by (simp_all add: zdiv_zmult2_eq [symmetric])
    then have "x div 60000 = 60 * (x div 3600000) + x div 60000 mod 60"
      "x div 1000 = 60 * (x div 60000) + x div 1000 mod 60" by simp_all
    moreover have "x = 1000 * (x div 1000) + x mod 1000" by simp
    ultimately show ?thesis by linarith
  qed
  define h m s l where "h x = x div 3600000" and "m x = x div 60000 mod 60"
    and "s x = x div 1000 mod 60" and "l x = x mod 1000" for x :: int
  have rng: "0 \<le> h x \<and> h x < 10 ^ 2 \<and> 0 \<le> m x \<and> m x < 60 \<and> 0 \<le> s x \<and> s x < 60 \<and> 0 \<le> l x \<and> l x < 10 ^ 3"
    if "0 \<le> x" "x < day_ms" for x
  proof -
    have "h x * 3600000 \<le> x" unfolding h_def by linarith
    then have "h x < 100" using that(2) by (simp add: day_ms_def)
    moreover have "0 \<le> h x" using that(1) by (simp add: h_def pos_imp_zdiv_nonneg_iff)
    ultimately show ?thesis by (simp add: m_def s_def l_def)
  qed
  note R = rng [of r] and R' = rng [of r']
  have b: "0 \<le> r'" "r < day_ms" using assms by simp_all
  have eq: "r = h r * 3600000 + m r * 60000 + s r * 1000 + l r"
    "r' = h r' * 3600000 + m r' * 60000 + s r' * 1000 + l r'"
    unfolding h_def m_def s_def l_def by (rule split)+
  have "h r < h r' \<or> (h r = h r' \<and> (m r < m r' \<or> (m r = m r' \<and>
      (s r < s r' \<or> (s r = s r' \<and> l r < l r')))))"
    using eq assms(2) R R' assms b by (intro clock_parts_less) auto
  then show ?thesis
    unfolding clock_str_def h_def [symmetric] m_def [symmetric] s_def [symmetric] l_def [symmetric]
    using R R' assms b unfolding dec2_def dec3_def
    by (elim disjE conjE) (auto intro!: field_less dec_mono simp: dec_length)
qed

lemma year_str_mono: "0 \<le> y \<Longrightarrow> y < y' \<Longrightarrow> y' \<le> 9999 \<Longrightarrow> year_str y < year_str y'"
  by (simp add: year_str_def dec_mono)

lemma length_year_str: "0 \<le> y \<Longrightarrow> y \<le> 9999 \<Longrightarrow> length (year_str y) = 4"
  by (simp add: year_str_def dec_length)

lemma length_dec2: "0 \<le> n \<Longrightarrow> n < 100 \<Longrightarrow> length (dec2 n) = 2"
  by (simp add: dec2_def dec_length)

lemma dec2_mono: "0 \<le> n \<Longrightarrow> n < n' \<Longrightarrow> n' < 100 \<Longrightarrow> dec2 n < dec2 n'"
  by (simp add: dec2_def dec_mono)

lemma date_str_parts:
  assumes "common_era t" "civil_of_day (t div day_ms) = (y, m, d)"
  shows "length (year_str y) = 4" "length (dec2 m) = 2" "length (dec2 d) = 2"
    "0 \<le> y" "y \<le> 9999" "1 \<le> m" "m \<le> 12" "1 \<le> d" "d \<le> 31"
  using assms civil_of_day_range [OF assms(2)]
  by (auto simp: common_era_def length_year_str length_dec2)

lemma length_date_str: "common_era t \<Longrightarrow> length (date_str (t div day_ms)) = 10"
proof -
  assume c: "common_era t"
  obtain y m d where e: "civil_of_day (t div day_ms) = (y, m, d)" by (metis prod_cases3)
  show ?thesis using date_str_parts [OF c e] by (simp add: date_str_def e)
qed

lemma iso_str_mono:
  assumes "common_era t" "common_era t'" "t < t'"
  shows "iso_str t < iso_str t'"
proof -
  define n n' where "n = t div day_ms" and "n' = t' div day_ms"
  obtain y m d where e: "civil_of_day n = (y, m, d)" by (metis prod_cases3)
  obtain y' m' d' where e': "civil_of_day n' = (y', m', d')" by (metis prod_cases3)
  note p = date_str_parts [OF assms(1) e [unfolded n_def]]
  note p' = date_str_parts [OF assms(2) e' [unfolded n'_def]]
  have le: "n \<le> n'" unfolding n_def n'_def using assms(3) by (intro zdiv_mono1) (auto simp: day_ms_def)
  have "date_str n < date_str n'" if "n < n'"
    unfolding date_str_def e e' prod.case
    using civil_of_day_mono [OF that e e'] p p'
    by (elim disjE conjE) (auto intro!: field_less year_str_mono dec2_mono)
  moreover have "clock_str (t mod day_ms) < clock_str (t' mod day_ms)" if "n = n'"
  proof (rule clock_str_mono)
    have "t = n * day_ms + t mod day_ms" "t' = n' * day_ms + t' mod day_ms"
      by (simp_all add: n_def n'_def)
    then have "n * day_ms + t mod day_ms < n * day_ms + t' mod day_ms"
      using that assms(3) by simp
    then show "t mod day_ms < t' mod day_ms" by simp
  qed (auto simp: day_ms_def)
  moreover have "length (date_str n) = length (date_str n')"
    using length_date_str [OF assms(1)] length_date_str [OF assms(2)] by (simp add: n_def n'_def)
  moreover have "n < n' \<or> n = n'" using le by linarith
  ultimately show ?thesis
    unfolding iso_str_def n_def [symmetric] n'_def [symmetric]
    by (elim disjE) (auto intro!: field_less)
qed

lemma iso_str_less_iff:
  assumes "common_era t" "common_era t'"
  shows "iso_str t < iso_str t' \<longleftrightarrow> t < t'"
  using iso_str_mono [of t t'] iso_str_mono [of t' t] assms
  by (metis less_imp_not_less linorder_neqE_linordered_idom order_less_irrefl)

lemma iso_str_le_iff:
  assumes "common_era t" "common_era t'"
  shows "iso_str t \<le> iso_str t' \<longleftrightarrow> t \<le> t'"
  using iso_str_less_iff [OF assms(2,1)] by (metis not_less)

section \<open>Reading a timestamp\<close>

fun take_dec :: "nat \<Rightarrow> string \<Rightarrow> (int \<times> string) option" where
  "take_dec k s = (if length s \<ge> k \<and> list_all is_dec (take k s)
     then Some (int (str_val 10 (take k s)), drop k s) else None)"

fun expect :: "char \<Rightarrow> string \<Rightarrow> string option" where
  "expect c (x # xs) = (if x = c then Some xs else None)"
| "expect c [] = None"

fun parse_year :: "string \<Rightarrow> (int \<times> string) option" where
  "parse_year [] = None"
| "parse_year (c # s) = (if c = CHR ''+'' then take_dec 6 s
     else if c = CHR ''-'' then
       (case take_dec 6 s of Some (y, r) \<Rightarrow> if y = 0 then None else Some (- y, r) | None \<Rightarrow> None)
     else take_dec 4 (c # s))"

text \<open>An optional fraction: at least one digit, of which the first three count.\<close>

definition parse_fraction :: "string \<Rightarrow> (int \<times> string) option" where
  "parse_fraction s = (case expect (CHR ''.'') s of
       None \<Rightarrow> Some (0, s)
     | Some r \<Rightarrow> (let ds = takeWhile is_dec r in
         if ds = [] then None
         else Some (int (str_val 10 (take 3 (ds @ ''00''))), dropWhile is_dec r)))"

definition iso_parse :: "string \<Rightarrow> int option" where
  "iso_parse s = do {
     (y, s) \<leftarrow> parse_year s; s \<leftarrow> expect (CHR ''-'') s;
     (m, s) \<leftarrow> take_dec 2 s; s \<leftarrow> expect (CHR ''-'') s;
     (d, s) \<leftarrow> take_dec 2 s; s \<leftarrow> expect (CHR ''T'') s;
     (h, s) \<leftarrow> take_dec 2 s; s \<leftarrow> expect (CHR '':'') s;
     (mi, s) \<leftarrow> take_dec 2 s; s \<leftarrow> expect (CHR '':'') s;
     (sec, s) \<leftarrow> take_dec 2 s; (ms, s) \<leftarrow> parse_fraction s;
     s \<leftarrow> expect (CHR ''Z'') s;
     let n = day_of_civil y m d;
     let t = n * day_ms + h * 3600000 + mi * 60000 + sec * 1000 + ms;
     if s = [] \<and> civil_of_day n = (y, m, d) \<and> mi < 60 \<and> sec < 60 \<and>
        (h < 24 \<or> (h = 24 \<and> mi = 0 \<and> sec = 0 \<and> ms = 0)) \<and> \<bar>t\<bar> \<le> 8640000000000000
     then Some t else None }"

text \<open>The check \<open>Number.isFinite(Date.parse(s)) \<and> new Date(s).toISOString() === s\<close>: a text that
  \<open>toISOString\<close> produces is in the ISO format, so that only the ISO part of \<open>Date.parse\<close> matters.\<close>

definition canonical_iso :: "string \<Rightarrow> bool" where
  "canonical_iso s \<longleftrightarrow> (case iso_parse s of Some t \<Rightarrow> iso_str t = s | None \<Rightarrow> False)"

definition valid_time :: "int \<Rightarrow> bool" where
  "valid_time t \<longleftrightarrow> \<bar>t\<bar> \<le> 8640000000000000"

lemma list_all_dec: "list_all is_dec (pad_start k (nat_str n))"
  using is_dec_digit_char [of 0] digit_char_0
  by (auto simp: list_all_iff pad_start_def nat_str_dec)

lemma str_val_pad_dec [simp]: "str_val 10 (pad_start k (nat_str n)) = n"
proof -
  have "d < 16" if "d \<in> set (replicate (k - length (digits_of 10 n)) 0 @ digits_of 10 n)" for d
    using that dec_digits_lt [of d n] by auto
  then show ?thesis
    unfolding nat_str_def pad_start_map_digit
    by (subst str_val_map_digit) (auto simp: digits_val_zeros digits_val_digits_of)
qed

lemma take_dec_pad:
  "0 \<le> x \<Longrightarrow> 0 < k \<Longrightarrow> x < 10 ^ k \<Longrightarrow> take_dec k (pad_start k (nat_str (nat x)) @ r) = Some (x, r)"
  using list_all_dec [of k "nat x"] by (simp add: dec_length)

lemma pad_dec_Cons: obtains c s where "pad_start k (nat_str n) = c # s" "is_dec c"
proof (cases "pad_start k (nat_str n)")
  case Nil
  then show ?thesis by (simp add: pad_start_def)
next
  case (Cons c s)
  with list_all_dec [of k n] that show ?thesis by auto
qed

lemma parse_year_str:
  assumes "\<bar>y\<bar> \<le> 999999"
  shows "parse_year (year_str y @ r) = Some (y, r)"
proof (cases "0 \<le> y \<and> y \<le> 9999")
  case True
  obtain c s where cs: "pad_start 4 (nat_str (nat y)) = c # s" "is_dec c" by (rule pad_dec_Cons)
  have "c \<noteq> CHR ''+'' \<and> c \<noteq> CHR ''-''" using cs(2) by (auto simp: is_dec_def)
  then have "parse_year (year_str y @ r) = take_dec 4 (pad_start 4 (nat_str (nat y)) @ r)"
    using True cs by (simp add: year_str_def del: take_dec.simps)
  with True show ?thesis by (simp add: take_dec_pad del: take_dec.simps)
next
  case False
  then show ?thesis using assms take_dec_pad [of "\<bar>y\<bar>" 6 r]
    by (auto simp: year_str_def simp del: take_dec.simps)
qed

lemma parse_fraction_dec3:
  assumes "0 \<le> x" "x < 1000"
  shows "parse_fraction (CHR ''.'' # dec3 x @ ''Z'') = Some (x, ''Z'')"
proof -
  have a: "list_all is_dec (dec3 x)" "length (dec3 x) = 3"
    using list_all_dec assms by (simp_all add: dec3_def dec_length)
  have z: "\<not> is_dec (CHR ''Z'')" by (simp add: is_dec_def)
  have "takeWhile is_dec (dec3 x @ ''Z'') = dec3 x" "dropWhile is_dec (dec3 x @ ''Z'') = ''Z''"
    using a(1) z by (simp_all add: list_all_iff takeWhile_append2 dropWhile_append2)
  moreover have "dec3 x \<noteq> []" using a(2) by auto
  ultimately show ?thesis using a(2) assms by (simp add: parse_fraction_def dec3_def)
qed

lemma take_dec2: "0 \<le> x \<Longrightarrow> x < 100 \<Longrightarrow> take_dec 2 (dec2 x @ r) = Some (x, r)"
  unfolding dec2_def by (rule take_dec_pad) auto

lemma valid_year_bound:
  assumes "valid_time t" "civil_of_day (t div day_ms) = (y, m, d)"
  shows "\<bar>y\<bar> \<le> 999999"
proof -
  have n: "- 100000001 < t div day_ms" "t div day_ms < 100000001"
    using assms(1) unfolding valid_time_def day_ms_def by linarith+
  have lo: "civil_of_day (- 100000001) = (- 271821, 4, 19)"
    and hi: "civil_of_day 100000001 = (275760, 9, 14)"
    by code_simp+
  have "- 271821 \<le> y" using civil_of_day_mono [OF n(1) lo assms(2)] by linarith
  moreover have "y \<le> 275760" using civil_of_day_mono [OF n(2) assms(2) hi] by linarith
  ultimately show ?thesis by linarith
qed

lemma clock_sum:
  fixes r :: int
  assumes "0 \<le> r" "r < day_ms"
  shows "(r div 3600000) * 3600000 + (r div 60000 mod 60) * 60000 + (r div 1000 mod 60) * 1000 + r mod 1000 = r"
    "0 \<le> r div 3600000" "r div 3600000 < 24"
proof -
  have "r div 3600000 = r div 60000 div 60" "r div 60000 = r div 1000 div 60"
    by (simp_all add: zdiv_zmult2_eq [symmetric])
  then have "r div 60000 = 60 * (r div 3600000) + r div 60000 mod 60"
    "r div 1000 = 60 * (r div 60000) + r div 1000 mod 60" by simp_all
  moreover have "r = 1000 * (r div 1000) + r mod 1000" by simp
  ultimately show "(r div 3600000) * 3600000 + (r div 60000 mod 60) * 60000
      + (r div 1000 mod 60) * 1000 + r mod 1000 = r" by linarith
  show "0 \<le> r div 3600000" "r div 3600000 < 24"
    using assms unfolding day_ms_def by (simp add: pos_imp_zdiv_nonneg_iff, linarith)
qed

lemma iso_parse_parts:
  assumes "\<bar>y\<bar> \<le> 999999" "0 \<le> m" "m < 100" "0 \<le> d" "d < 100" "0 \<le> h" "h < 24"
    "0 \<le> mi" "mi < 60" "0 \<le> s" "s < 60" "0 \<le> l" "l < 1000"
    "day_of_civil y m d = n" "civil_of_day n = (y, m, d)"
    "n * day_ms + h * 3600000 + mi * 60000 + s * 1000 + l = t" "\<bar>t\<bar> \<le> 8640000000000000"
  shows "iso_parse (year_str y @ CHR ''-'' # dec2 m @ CHR ''-'' # dec2 d @ CHR ''T'' #
      dec2 h @ CHR '':'' # dec2 mi @ CHR '':'' # dec2 s @ CHR ''.'' # dec3 l @ ''Z'') = Some t"
proof -
  have two: "take_dec 2 (dec2 m @ r) = Some (m, r)" "take_dec 2 (dec2 d @ r) = Some (d, r)"
    "take_dec 2 (dec2 h @ r) = Some (h, r)" "take_dec 2 (dec2 mi @ r) = Some (mi, r)"
    "take_dec 2 (dec2 s @ r) = Some (s, r)" for r
    using assms by (simp_all add: take_dec2 del: take_dec.simps)
  show ?thesis
    by (simp add: iso_parse_def parse_year_str [OF assms(1)] two parse_fraction_dec3 [OF assms(12,13)]
        assms Let_def del: take_dec.simps parse_year.simps)
qed

theorem iso_parse_iso_str:
  assumes "valid_time t"
  shows "iso_parse (iso_str t) = Some t"
proof -
  obtain y m d where e: "civil_of_day (t div day_ms) = (y, m, d)" by (metis prod_cases3)
  note y = valid_year_bound [OF assms e]
  note md = civil_of_day_range [OF e]
  define r where "r = t mod day_ms"
  have r: "0 \<le> r" "r < day_ms" by (simp_all add: r_def day_ms_def)
  note c = clock_sum [OF r]
  have t: "(t div day_ms) * day_ms + (r div 3600000) * 3600000 + (r div 60000 mod 60) * 60000
      + (r div 1000 mod 60) * 1000 + r mod 1000 = t"
  proof -
    have "(t div day_ms) * day_ms + r = t" by (simp add: r_def)
    with c(1) show ?thesis by linarith
  qed
  have str: "iso_str t = year_str y @ CHR ''-'' # dec2 m @ CHR ''-'' # dec2 d @ CHR ''T'' #
      dec2 (r div 3600000) @ CHR '':'' # dec2 (r div 60000 mod 60) @ CHR '':'' #
      dec2 (r div 1000 mod 60) @ CHR ''.'' # dec3 (r mod 1000) @ ''Z''"
    by (simp add: iso_str_def date_str_def e clock_str_def r_def)
  show ?thesis
    unfolding str
    by (rule iso_parse_parts [OF y _ _ _ _ c(2,3) _ _ _ _ _ _ day_of_civil_of_day [OF e] e t])
      (use md assms in \<open>simp_all add: valid_time_def\<close>)
qed

lemma canonical_iso_str: "valid_time t \<Longrightarrow> canonical_iso (iso_str t)"
  by (simp add: canonical_iso_def iso_parse_iso_str)

lemma canonical_isoE:
  assumes "canonical_iso s"
  obtains t where "iso_parse s = Some t" "s = iso_str t"
  using assms by (auto simp: canonical_iso_def split: option.splits)

end
