(* ===== verification/Regex.thy ===== *)
theory Regex
  imports Prelude
begin

text \<open>
  The regular expressions the code tests anchored strings with (\<open>/^...$/\<close>), without captures,
  lookahead or back references: their language by the inductive relation \<open>accepts\<close>, and the
  executable test \<open>re_test\<close> by derivatives, which decides it (\<open>re_test_iff\<close>).
\<close>

datatype regex =
    Eps
  | Sym "char \<Rightarrow> bool"
  | Cat regex regex
  | Alt regex regex
  | Rep regex

inductive accepts :: "regex \<Rightarrow> string \<Rightarrow> bool" where
  accepts_eps: "accepts Eps []"
| accepts_sym: "p c \<Longrightarrow> accepts (Sym p) [c]"
| accepts_cat: "accepts r u \<Longrightarrow> accepts q v \<Longrightarrow> accepts (Cat r q) (u @ v)"
| accepts_left: "accepts r u \<Longrightarrow> accepts (Alt r q) u"
| accepts_right: "accepts q u \<Longrightarrow> accepts (Alt r q) u"
| accepts_stop: "accepts (Rep r) []"
| accepts_more: "accepts r u \<Longrightarrow> accepts (Rep r) v \<Longrightarrow> accepts (Rep r) (u @ v)"

inductive_simps accepts_simps [simp]:
  "accepts Eps s" "accepts (Sym p) s" "accepts (Alt r q) s"
inductive_cases accepts_catE: "accepts (Cat r q) s"

fun nullable :: "regex \<Rightarrow> bool" where
  "nullable Eps = True"
| "nullable (Sym p) = False"
| "nullable (Cat r q) = (nullable r \<and> nullable q)"
| "nullable (Alt r q) = (nullable r \<or> nullable q)"
| "nullable (Rep r) = True"

text \<open>\<open>None\<close> is the expression that accepts nothing.\<close>

fun alt_opt :: "regex option \<Rightarrow> regex option \<Rightarrow> regex option" where
  "alt_opt None b = b"
| "alt_opt a None = a"
| "alt_opt (Some a) (Some b) = Some (Alt a b)"

fun cat_opt :: "regex option \<Rightarrow> regex \<Rightarrow> regex option" where
  "cat_opt None q = None"
| "cat_opt (Some Eps) q = Some q"
| "cat_opt (Some a) q = Some (Cat a q)"

fun deriv :: "char \<Rightarrow> regex \<Rightarrow> regex option" where
  "deriv c Eps = None"
| "deriv c (Sym p) = (if p c then Some Eps else None)"
| "deriv c (Cat r q) = (if nullable r then alt_opt (cat_opt (deriv c r) q) (deriv c q)
     else cat_opt (deriv c r) q)"
| "deriv c (Alt r q) = alt_opt (deriv c r) (deriv c q)"
| "deriv c (Rep r) = cat_opt (deriv c r) (Rep r)"

fun re_test :: "regex \<Rightarrow> string \<Rightarrow> bool" where
  "re_test r [] = nullable r"
| "re_test r (c # s) = (case deriv c r of None \<Rightarrow> False | Some r' \<Rightarrow> re_test r' s)"

definition accepts_some :: "regex option \<Rightarrow> string \<Rightarrow> bool" where
  "accepts_some a s \<longleftrightarrow> (case a of None \<Rightarrow> False | Some r \<Rightarrow> accepts r s)"

lemma accepts_cat_iff: "accepts (Cat r q) s \<longleftrightarrow> (\<exists>u v. s = u @ v \<and> accepts r u \<and> accepts q v)"
proof
  assume "accepts (Cat r q) s"
  then show "\<exists>u v. s = u @ v \<and> accepts r u \<and> accepts q v" by (rule accepts_catE) blast
qed (auto intro: accepts_cat)

lemma nullable_iff: "nullable r \<longleftrightarrow> accepts r []"
  by (induction r) (auto simp: accepts_cat_iff intro: accepts_stop)

lemma accepts_alt_opt [simp]: "accepts_some (alt_opt a b) s \<longleftrightarrow> accepts_some a s \<or> accepts_some b s"
  by (induction a b rule: alt_opt.induct) (auto simp: accepts_some_def)

lemma accepts_cat_opt [simp]:
  "accepts_some (cat_opt a q) s \<longleftrightarrow> (\<exists>u v. s = u @ v \<and> accepts_some a u \<and> accepts q v)"
  by (induction a q rule: cat_opt.induct) (auto simp: accepts_some_def accepts_cat_iff)

lemma accepts_rep_Cons:
  "accepts (Rep r) (c # s) \<longleftrightarrow> (\<exists>u v. s = u @ v \<and> accepts r (c # u) \<and> accepts (Rep r) v)"
proof
  have "accepts (Rep r) w \<Longrightarrow> w = c # s \<Longrightarrow>
      \<exists>u v. s = u @ v \<and> accepts r (c # u) \<and> accepts (Rep r) v" for w
  proof (induction "Rep r" w arbitrary: rule: accepts.induct)
    case (accepts_more u v)
    then show ?case by (cases u) auto
  qed simp
  then show "accepts (Rep r) (c # s) \<Longrightarrow>
      \<exists>u v. s = u @ v \<and> accepts r (c # u) \<and> accepts (Rep r) v" by blast
next
  assume "\<exists>u v. s = u @ v \<and> accepts r (c # u) \<and> accepts (Rep r) v"
  then obtain u v where "s = u @ v" "accepts r (c # u)" "accepts (Rep r) v" by blast
  then show "accepts (Rep r) (c # s)" using accepts_more [of r "c # u" v] by simp
qed

lemma accepts_deriv: "accepts_some (deriv c r) s \<longleftrightarrow> accepts r (c # s)"
proof (induction r arbitrary: s)
  case (Cat r q)
  have "(\<exists>u v. c # s = u @ v \<and> accepts r u \<and> accepts q v) \<longleftrightarrow>
      (\<exists>u v. s = u @ v \<and> accepts r (c # u) \<and> accepts q v) \<or> (accepts r [] \<and> accepts q (c # s))"
    by (auto simp: Cons_eq_append_conv)
  then show ?case using Cat by (auto simp: accepts_cat_iff nullable_iff)
next
  case (Rep r)
  then show ?case by (simp add: accepts_rep_Cons)
next
  case (Alt r q)
  then show ?case by simp
qed (auto simp: accepts_some_def)

theorem re_test_iff: "re_test r s \<longleftrightarrow> accepts r s"
proof (induction s arbitrary: r)
  case (Cons c s)
  have "re_test r (c # s) \<longleftrightarrow> accepts_some (deriv c r) s"
    using Cons by (auto simp: accepts_some_def split: option.splits)
  then show ?case by (simp add: accepts_deriv)
qed (simp add: nullable_iff)

text \<open>The usual abbreviations: literal texts, one of, optional, one or more, counted repetition.\<close>

fun lit :: "string \<Rightarrow> regex" where
  "lit [] = Eps"
| "lit (c # s) = Cat (Sym ((=) c)) (lit s)"

fun seq :: "regex list \<Rightarrow> regex" where
  "seq [] = Eps"
| "seq [r] = r"
| "seq (r # q # rs) = Cat r (seq (q # rs))"

fun one_of :: "regex list \<Rightarrow> regex" where
  "one_of [] = Sym (\<lambda>_. False)"
| "one_of [r] = r"
| "one_of (r # q # rs) = Alt r (one_of (q # rs))"

definition opt :: "regex \<Rightarrow> regex" where "opt r = Alt r Eps"
definition some :: "regex \<Rightarrow> regex" where "some r = Cat r (Rep r)"
definition times :: "nat \<Rightarrow> regex \<Rightarrow> regex" where "times n r = seq (replicate n r)"

fun upto_times :: "nat \<Rightarrow> regex \<Rightarrow> regex" where
  "upto_times 0 r = Eps"
| "upto_times (Suc n) r = opt (Cat r (upto_times n r))"

lemma accepts_lit [simp]: "accepts (lit w) s \<longleftrightarrow> s = w"
  by (induction w arbitrary: s) (auto simp: accepts_cat_iff)

lemma accepts_opt_iff [simp]: "accepts (opt r) s \<longleftrightarrow> accepts r s \<or> s = []"
  by (simp add: opt_def)

lemma accepts_one_of: "accepts (one_of rs) s \<longleftrightarrow> (\<exists>r \<in> set rs. accepts r s)"
  by (induction rs rule: one_of.induct) auto

lemma accepts_rep_sym: "accepts (Rep (Sym p)) s \<longleftrightarrow> list_all p s"
proof (induction s)
  case Nil
  show ?case by (simp add: accepts_stop)
next
  case (Cons c s)
  show ?case by (simp add: accepts_rep_Cons Cons)
qed

lemma accepts_sym_cat:
  "accepts (Cat (Sym p) q) s \<longleftrightarrow> (case s of [] \<Rightarrow> False | c # t \<Rightarrow> p c \<and> accepts q t)"
proof (cases s)
  case (Cons c t)
  then show ?thesis using accepts_cat [OF accepts_sym, of p c q t] by (auto simp: accepts_cat_iff)
qed (auto simp: accepts_cat_iff)

lemma accepts_plus_sym: "accepts (some (Sym p)) s \<longleftrightarrow> s \<noteq> [] \<and> list_all p s"
  unfolding some_def by (cases s) (auto simp: accepts_sym_cat accepts_rep_sym)

lemma accepts_times_sym: "accepts (times n (Sym p)) s \<longleftrightarrow> length s = n \<and> list_all p s"
proof (induction n arbitrary: s)
  case 0
  then show ?case by (auto simp: times_def)
next
  case (Suc n)
  show ?case
  proof (cases "n = 0")
    case True
    then show ?thesis by (cases s) (auto simp: times_def)
  next
    case False
    then have "times (Suc n) (Sym p) = Cat (Sym p) (times n (Sym p))"
      by (cases n) (simp_all add: times_def)
    then show ?thesis using Suc by (cases s) (auto simp: accepts_sym_cat)
  qed
qed

end
