(* ===== verification/Core.thy ===== *)
theory Core
  imports Iso_Time Regex
begin

text \<open>
  The package \<open>core\<close>: the platform's error classes (\<open>errors/\<close>), correlation ids, the operation
  contexts and the subject extracted from them, the timestamp check of \<open>time/time.ts\<close>, the test a
  declarative pruning filter must pass, and the key redaction of \<open>logging/Logger.ts\<close>.
  An error keeps its class, its message and whether a retry may help; the user message, severity
  and correlation id, which no caller branches on, are left out.
\<close>

section \<open>Errors\<close>

datatype error_class =
    ValidationError | AuthorizationError | AuthenticationError | SyncError | ConflictError
  | DatabaseError | MigrationError | FileError | HardwareError | NetworkError
  | CompatibilityError | PlainError | TypeError | RangeError

text \<open>The class \<open>PlainError\<close> is JavaScript's \<open>Error\<close>, without a platform code.\<close>

fun error_code :: "error_class \<Rightarrow> string option" where
  "error_code ValidationError = Some ''VALIDATION_ERROR''"
| "error_code AuthorizationError = Some ''AUTHORIZATION_ERROR''"
| "error_code AuthenticationError = Some ''AUTHENTICATION_ERROR''"
| "error_code SyncError = Some ''SYNC_ERROR''"
| "error_code ConflictError = Some ''CONFLICT_ERROR''"
| "error_code DatabaseError = Some ''DATABASE_ERROR''"
| "error_code MigrationError = Some ''MIGRATION_ERROR''"
| "error_code FileError = Some ''FILE_ERROR''"
| "error_code HardwareError = Some ''HARDWARE_ERROR''"
| "error_code NetworkError = Some ''NETWORK_ERROR''"
| "error_code CompatibilityError = Some ''COMPATIBILITY_ERROR''"
| "error_code _ = None"

record js_error =
  err_class :: error_class
  err_message :: string
  err_retryable :: bool

definition platform_error :: "error_class \<Rightarrow> string \<Rightarrow> bool option \<Rightarrow> js_error" where
  "platform_error c msg retryable = \<lparr>err_class = c, err_message = msg,
     err_retryable = (case retryable of Some b \<Rightarrow> b | None \<Rightarrow> c = NetworkError)\<rparr>"

abbreviation raise :: "error_class \<Rightarrow> string \<Rightarrow> js_error" where
  "raise c msg \<equiv> platform_error c msg None"

text \<open>What a callback may throw: an \<open>Error\<close>, or any other value with its \<open>String(...)\<close> text.\<close>

datatype thrown = Thrown js_error | OtherValue string

fun thrown_message :: "thrown \<Rightarrow> string" where
  "thrown_message (Thrown e) = err_message e"
| "thrown_message (OtherValue s) = s"

section \<open>Correlation ids and contexts\<close>

definition generateCorrelationId :: "string \<Rightarrow> nat \<Rightarrow> nat list \<Rightarrow> string" where
  "generateCorrelationId prefix now_ms bytes =
     prefix @ ''_'' @ pad_start 12 (hex_str now_ms) @
     join_with '''' (map (\<lambda>b. pad_start 2 (hex_str b)) bytes)"

record operation_context =
  ctx_correlation :: string
  ctx_user :: "string option"
  ctx_device :: string
  ctx_org :: string

record principal =
  pr_session :: string
  pr_user :: string
  pr_device :: string
  pr_org :: string
  pr_roles :: "string list"

datatype any_context = Untrusted operation_context | Trusted string principal

record context_subject =
  sub_user :: "string option"
  sub_device :: string
  sub_org :: string

definition createOperationContext ::
    "string option \<Rightarrow> string \<Rightarrow> string option option \<Rightarrow> string \<Rightarrow> string \<Rightarrow> operation_context" where
  "createOperationContext correlationId generated userId deviceId organisationId =
     \<lparr>ctx_correlation = (case correlationId of Some c \<Rightarrow> c | None \<Rightarrow> generated),
      ctx_user = (case userId of Some u \<Rightarrow> u | None \<Rightarrow> None),
      ctx_device = deviceId, ctx_org = organisationId\<rparr>"

definition createRequestContext :: "string option \<Rightarrow> string \<Rightarrow> string" where
  "createRequestContext correlationId generated =
     (case correlationId of Some c \<Rightarrow> c | None \<Rightarrow> generated)"

fun isTrustedOperationContext :: "any_context \<Rightarrow> bool" where
  "isTrustedOperationContext (Trusted _ _) = True"
| "isTrustedOperationContext (Untrusted _) = False"

fun extractContextSubject :: "any_context \<Rightarrow> context_subject" where
  "extractContextSubject (Trusted _ p) =
     \<lparr>sub_user = Some (pr_user p), sub_device = pr_device p, sub_org = pr_org p\<rparr>"
| "extractContextSubject (Untrusted c) =
     \<lparr>sub_user = ctx_user c, sub_device = ctx_device c, sub_org = ctx_org c\<rparr>"

section \<open>Timestamps\<close>

definition dec_re :: regex where "dec_re = Sym is_dec"

definition range_re :: "char \<Rightarrow> char \<Rightarrow> regex" where
  "range_re a b = Sym (\<lambda>c. a \<le> c \<and> c \<le> b)"

text \<open>\<open>/^(\d{4}-\d{2}-\d{2})T(?:[01]\d|2[0-3]):[0-5]\d:[0-5]\d(?:\.\d{1,9})?Z$/\<close>\<close>

definition utc_iso_re :: regex where
  "utc_iso_re = seq
    [times 4 dec_re, lit ''-'', times 2 dec_re, lit ''-'', times 2 dec_re, lit ''T'',
     one_of [Cat (range_re (CHR ''0'') (CHR ''1'')) dec_re,
             Cat (lit ''2'') (range_re (CHR ''0'') (CHR ''3''))],
     lit '':'', range_re (CHR ''0'') (CHR ''5''), dec_re,
     lit '':'', range_re (CHR ''0'') (CHR ''5''), dec_re,
     opt (seq [lit ''.'', dec_re, upto_times 8 dec_re]), lit ''Z'']"

definition isValidUtcIsoTimestamp :: "string \<Rightarrow> bool" where
  "isValidUtcIsoTimestamp s \<longleftrightarrow> re_test utc_iso_re s \<and>
     (case iso_parse s of None \<Rightarrow> False | Some t \<Rightarrow> take 10 (iso_str t) = take 10 s)"

section \<open>Declarative pruning filters\<close>

definition is_alpha_us :: "char \<Rightarrow> bool" where
  "is_alpha_us c \<longleftrightarrow> is_lower c \<or> is_upper c \<or> c = CHR ''_''"

definition is_word_char :: "char \<Rightarrow> bool" where
  "is_word_char c \<longleftrightarrow> is_alpha_us c \<or> is_dec c"

definition blank_re :: regex where
  "blank_re = Sym (\<lambda>c. (of_char c :: nat) \<in> {9, 10, 13, 32})"

text \<open>A literal keyword under the flag \<open>i\<close>.\<close>

definition kw :: "string \<Rightarrow> regex" where
  "kw w = foldr (\<lambda>c r. Cat (Sym (\<lambda>x. upper_char x = c)) r) w Eps"

definition pruning_operand_re :: regex where
  "pruning_operand_re = one_of
    [seq [lit [CHR 39], Rep (one_of [lit [CHR 39, CHR 39], Sym (\<lambda>c. c \<noteq> CHR 39)]), lit [CHR 39]],
     seq [opt (one_of [lit ''-'', lit ''+'']),
       one_of [seq [some dec_re, opt (seq [lit ''.'', Rep dec_re])], seq [lit ''.'', some dec_re]],
       opt (seq [kw ''E'', opt (one_of [lit ''-'', lit ''+'']), some dec_re])],
     kw ''TRUE'', kw ''FALSE'', kw ''NULL'']"

definition pruning_filter_re :: regex where
  "pruning_filter_re = seq
    [Rep blank_re, Sym is_alpha_us, Rep (Sym is_word_char), Rep blank_re,
     one_of
      [seq [one_of [lit ''='', lit ''<>'', lit ''!='', lit ''<='', lit ''>='', lit ''<'', lit ''>''],
            Rep blank_re, pruning_operand_re],
       seq [kw ''IS'', some blank_re, opt (seq [kw ''NOT'', some blank_re]), kw ''NULL'']],
     Rep blank_re]"

definition isSafePruningFilterCondition :: "string \<Rightarrow> bool" where
  "isSafePruningFilterCondition s \<longleftrightarrow> length s \<le> 512 \<and> re_test pruning_filter_re s"

record pruning_policy =
  pol_id :: string
  pol_display :: string
  pol_table :: string
  pol_column :: string
  pol_days :: int
  pol_filter :: "string option"

end
