(* ===== verification/Ops.thy ===== *)
theory Ops
  imports Core "HOL-Library.Multiset" "HOL-Library.Product_Lexorder" "HOL-Library.Option_ord"
begin

text \<open>
  Operations on stored state and the fragments of SQL the repositories use.  An operation maps a
  state to its result, which is an error or a value, and the state it leaves; an error ends it
  with the writes made so far, and only \<open>transaction\<close> takes them back.  The lemmas give the
  invariant rules (\<open>preserves\<close>) and the laws of the table functions.
\<close>

type_synonym ('s, 'a) op = "'s \<Rightarrow> (js_error + 'a) \<times> 's"

definition ret :: "'a \<Rightarrow> ('s, 'a) op" where
  "ret a = (\<lambda>s. (Inr a, s))"

definition throw :: "js_error \<Rightarrow> ('s, 'a) op" where
  "throw e = (\<lambda>s. (Inl e, s))"

definition andthen :: "('s, 'a) op \<Rightarrow> ('a \<Rightarrow> ('s, 'b) op) \<Rightarrow> ('s, 'b) op" where
  "andthen m f = (\<lambda>s. case m s of (Inl e, s') \<Rightarrow> (Inl e, s') | (Inr a, s') \<Rightarrow> f a s')"

definition get :: "('s \<Rightarrow> 'a) \<Rightarrow> ('s, 'a) op" where
  "get f = (\<lambda>s. (Inr (f s), s))"

definition modify :: "('s \<Rightarrow> 's) \<Rightarrow> ('s, unit) op" where
  "modify f = (\<lambda>s. (Inr (), f s))"

definition guard :: "bool \<Rightarrow> js_error \<Rightarrow> ('s, unit) op" where
  "guard b e = (if b then ret () else throw e)"

definition from_result :: "js_error + 'a \<Rightarrow> ('s, 'a) op" where
  "from_result r = (\<lambda>s. (r, s))"

text \<open>\<open>try m catch (e) h\<close>: the handler runs on the state the failed operation left.\<close>

definition catch_op :: "('s, 'a) op \<Rightarrow> (js_error \<Rightarrow> ('s, 'a) op) \<Rightarrow> ('s, 'a) op" where
  "catch_op m h = (\<lambda>s. case m s of (Inl e, s') \<Rightarrow> h e s' | (Inr a, s') \<Rightarrow> (Inr a, s'))"

definition transaction :: "('s, 'a) op \<Rightarrow> ('s, 'a) op" where
  "transaction m = (\<lambda>s. case m s of (Inl e, s') \<Rightarrow> (Inl e, s) | (Inr a, s') \<Rightarrow> (Inr a, s'))"

fun for_each :: "('a \<Rightarrow> ('s, 'b) op) \<Rightarrow> 'a list \<Rightarrow> ('s, 'b list) op" where
  "for_each f [] = ret []"
| "for_each f (x # xs) = andthen (f x) (\<lambda>y. andthen (for_each f xs) (\<lambda>ys. ret (y # ys)))"

lemmas op_defs = ret_def throw_def andthen_def get_def modify_def guard_def from_result_def
  catch_op_def transaction_def

declare op_defs [op_simps]

lemma run_ops [simp]:
  "ret a s = (Inr a, s)" "throw e s = (Inl e, s)" "get f s = (Inr (f s), s)"
  "modify g s = (Inr (), g s)" "from_result r s = (r, s)"
  by (simp_all add: op_defs)

lemma run_guard [simp]: "guard b e s = (if b then Inr () else Inl e, s)"
  by (simp add: op_defs)

lemma run_andthen_Inl: "m s = (Inl e, s') \<Longrightarrow> andthen m f s = (Inl e, s')"
  by (simp add: andthen_def)

lemma run_andthen_Inr: "m s = (Inr a, s') \<Longrightarrow> andthen m f s = f a s'"
  by (simp add: andthen_def)

lemma run_andthen_get [simp]: "andthen (get g) f s = f (g s) s"
  by (simp add: op_defs)

lemma run_andthen_guard [simp]: "andthen (guard b e) f s = (if b then f () s else (Inl e, s))"
  by (simp add: op_defs)

lemma run_andthen_modify [simp]: "andthen (modify g) f s = f () (g s)"
  by (simp add: op_defs)

lemma run_andthen_ret [simp]: "andthen (ret a) f s = f a s"
  by (simp add: op_defs)

lemma run_andthen_throw [simp]: "andthen (throw e) f s = (Inl e, s)"
  by (simp add: op_defs)

lemma run_andthen_result [simp]:
  "andthen (from_result r) f s = (case r of Inl e \<Rightarrow> (Inl e, s) | Inr a \<Rightarrow> f a s)"
  by (simp add: op_defs)

lemma andthen_assoc: "andthen (andthen m f) g = andthen m (\<lambda>x. andthen (f x) g)"
  by (auto simp: andthen_def split: prod.splits sum.splits)

lemma andthen_InrE:
  assumes "andthen m f s = (Inr b, s'')"
  obtains a s' where "m s = (Inr a, s')" "f a s' = (Inr b, s'')"
  using assms by (auto simp: andthen_def split: prod.splits sum.splits)

lemma transaction_error: "transaction m s = (Inl e, s') \<Longrightarrow> s' = s"
  by (auto simp: transaction_def split: prod.splits sum.splits)

lemma transaction_Inr: "transaction m s = (Inr a, s') \<longleftrightarrow> m s = (Inr a, s')"
  by (auto simp: transaction_def split: prod.splits sum.splits)

section \<open>Invariants of operations\<close>

definition preserves :: "('s \<Rightarrow> bool) \<Rightarrow> ('s, 'a) op \<Rightarrow> bool" where
  "preserves I m \<longleftrightarrow> (\<forall>s. I s \<longrightarrow> I (snd (m s)))"

named_theorems preserve "invariant rules of operations"

lemma preservesD: "preserves I m \<Longrightarrow> I s \<Longrightarrow> I (snd (m s))"
  by (simp add: preserves_def)

lemma preservesI: "(\<And>s. I s \<Longrightarrow> I (snd (m s))) \<Longrightarrow> preserves I m"
  by (simp add: preserves_def)

lemma preserves_ret [preserve]: "preserves I (ret a)"
  and preserves_throw [preserve]: "preserves I (throw e)"
  and preserves_get [preserve]: "preserves I (get f)"
  and preserves_from_result [preserve]: "preserves I (from_result r)"
  and preserves_guard [preserve]: "preserves I (guard b e)"
  and preserves_Pair [preserve]: "preserves I (Pair x)"
  by (simp_all add: preserves_def)

lemma preserves_modify: "(\<And>s. I s \<Longrightarrow> I (g s)) \<Longrightarrow> preserves I (modify g)"
  by (simp add: preserves_def)

lemma preserves_andthen [preserve]:
  "preserves I m \<Longrightarrow> (\<And>a. preserves I (f a)) \<Longrightarrow> preserves I (andthen m f)"
  unfolding preserves_def andthen_def
  by (auto split: prod.splits sum.splits)

lemma preserves_catch [preserve]:
  "preserves I m \<Longrightarrow> (\<And>e. preserves I (h e)) \<Longrightarrow> preserves I (catch_op m h)"
  unfolding preserves_def catch_op_def
  by (auto split: prod.splits sum.splits)

lemma preserves_transaction [preserve]: "preserves I m \<Longrightarrow> preserves I (transaction m)"
  unfolding preserves_def transaction_def
  by (auto split: prod.splits sum.splits)

lemma preserves_if [preserve]:
  "(b \<Longrightarrow> preserves I m) \<Longrightarrow> (\<not> b \<Longrightarrow> preserves I m') \<Longrightarrow> preserves I (if b then m else m')"
  by simp

lemma preserves_option [preserve]:
  "(x = None \<Longrightarrow> preserves I m) \<Longrightarrow> (\<And>a. x = Some a \<Longrightarrow> preserves I (f a)) \<Longrightarrow>
    preserves I (case x of None \<Rightarrow> m | Some a \<Rightarrow> f a)"
  by (cases x) auto

lemma preserves_for_each [preserve]:
  "(\<And>x. x \<in> set xs \<Longrightarrow> preserves I (f x)) \<Longrightarrow> preserves I (for_each f xs)"
  by (induction xs) (auto intro!: preserve)

section \<open>Evolution of the state\<close>

text \<open>A preorder on states that every operation of a component moves along: what is never undone.\<close>

definition moves :: "('s \<Rightarrow> 's \<Rightarrow> bool) \<Rightarrow> ('s, 'a) op \<Rightarrow> bool" where
  "moves R m \<longleftrightarrow> (\<forall>s. R s (snd (m s)))"

lemma movesD: "moves R m \<Longrightarrow> R s (snd (m s))"
  by (simp add: moves_def)

lemma movesI: "(\<And>s. R s (snd (m s))) \<Longrightarrow> moves R m"
  by (simp add: moves_def)

lemma moves_modify: "(\<And>s. R s (g s)) \<Longrightarrow> moves R (modify g)"
  by (simp add: moves_def)

locale evolution =
  fixes R :: "'s \<Rightarrow> 's \<Rightarrow> bool"
  assumes R_refl: "R s s"
    and R_trans: "R s t \<Longrightarrow> R t u \<Longrightarrow> R s u"
begin

lemma moves_ret: "moves R (ret a)"
  and moves_throw: "moves R (throw e)"
  and moves_get: "moves R (get f)"
  and moves_from_result: "moves R (from_result r)"
  and moves_guard: "moves R (guard b e)"
  and moves_Pair: "moves R (Pair x)"
  by (simp_all add: moves_def R_refl)

lemma moves_andthen: "moves R m \<Longrightarrow> (\<And>a. moves R (f a)) \<Longrightarrow> moves R (andthen m f)"
  unfolding moves_def andthen_def
  by (auto split: prod.splits sum.splits) (metis R_trans snd_conv)+

lemma moves_catch: "moves R m \<Longrightarrow> (\<And>e. moves R (h e)) \<Longrightarrow> moves R (catch_op m h)"
  unfolding moves_def catch_op_def
  by (auto split: prod.splits sum.splits) (metis R_trans snd_conv)+

lemma moves_transaction: "moves R m \<Longrightarrow> moves R (transaction m)"
  unfolding moves_def transaction_def
  by (auto split: prod.splits sum.splits simp: R_refl) (metis snd_conv)

lemma moves_if: "(b \<Longrightarrow> moves R m) \<Longrightarrow> (\<not> b \<Longrightarrow> moves R m') \<Longrightarrow> moves R (if b then m else m')"
  by simp

lemma moves_option:
  "moves R m \<Longrightarrow> (\<And>a. x = Some a \<Longrightarrow> moves R (f a)) \<Longrightarrow> moves R (case x of None \<Rightarrow> m | Some a \<Rightarrow> f a)"
  by (cases x) auto

lemma moves_for_each: "(\<And>x. x \<in> set xs \<Longrightarrow> moves R (f x)) \<Longrightarrow> moves R (for_each f xs)"
  by (induction xs) (auto intro!: moves_andthen moves_ret moves_Pair)

lemmas moves_rules = moves_ret moves_throw moves_get moves_from_result moves_guard moves_Pair
  moves_andthen moves_catch moves_transaction moves_if moves_option moves_for_each

text \<open>A history of operations, each given by the state it leaves.\<close>

lemma moves_star:
  assumes "\<And>s t. step s t \<Longrightarrow> R s t" "step\<^sup>*\<^sup>* s t"
  shows "R s t"
  using assms(2) by (induction rule: rtranclp_induct) (auto intro: R_refl R_trans assms(1))

end

section \<open>Tables\<close>

definition sql_update :: "('r \<Rightarrow> bool) \<Rightarrow> ('r \<Rightarrow> 'r) \<Rightarrow> 'r list \<Rightarrow> 'r list" where
  "sql_update p f rows = map (\<lambda>r. if p r then f r else r) rows"

definition sql_delete :: "('r \<Rightarrow> bool) \<Rightarrow> 'r list \<Rightarrow> 'r list" where
  "sql_delete p rows = filter (\<lambda>r. \<not> p r) rows"

definition sql_count :: "('r \<Rightarrow> bool) \<Rightarrow> 'r list \<Rightarrow> nat" where
  "sql_count p rows = length (filter p rows)"

definition order_by :: "('r \<Rightarrow> 'k :: linorder) \<Rightarrow> 'r list \<Rightarrow> 'r list" where
  "order_by key rows = sort_key key rows"

definition order_by_desc :: "('r \<Rightarrow> 'k :: linorder) \<Rightarrow> 'r list \<Rightarrow> 'r list" where
  "order_by_desc key rows = rev (sort_key key (rev rows))"

text \<open>\<open>GROUP BY key\<close> with \<open>COUNT(*)\<close>, in the order of the keys.\<close>

definition group_count :: "('r \<Rightarrow> 'k :: linorder) \<Rightarrow> 'r list \<Rightarrow> ('k \<times> nat) list" where
  "group_count key rows =
     map (\<lambda>k. (k, sql_count (\<lambda>r. key r = k) rows)) (sort (remdups (map key rows)))"

lemma set_sql_update: "set (sql_update p f rows) = (\<lambda>r. if p r then f r else r) ` set rows"
  by (simp add: sql_update_def)

lemma length_sql_update [simp]: "length (sql_update p f rows) = length rows"
  by (simp add: sql_update_def)

lemma sql_update_Nil [simp]: "sql_update p f [] = []"
  and sql_update_Cons [simp]:
    "sql_update p f (r # rows) = (if p r then f r else r) # sql_update p f rows"
  and sql_update_append [simp]:
    "sql_update p f (rows @ rows') = sql_update p f rows @ sql_update p f rows'"
  by (simp_all add: sql_update_def)

lemma map_sql_update:
  "(\<And>r. p r \<Longrightarrow> key (f r) = key r) \<Longrightarrow> map key (sql_update p f rows) = map key rows"
  by (simp add: sql_update_def)

lemma sql_update_none: "\<forall>r \<in> set rows. \<not> p r \<Longrightarrow> sql_update p f rows = rows"
  by (simp add: sql_update_def map_idI)

lemma set_sql_delete [simp]: "set (sql_delete p rows) = {r \<in> set rows. \<not> p r}"
  by (auto simp: sql_delete_def)

lemma sql_delete_distinct:
  "distinct (map key rows) \<Longrightarrow> distinct (map key (sql_delete p rows))"
  by (simp add: sql_delete_def distinct_map_filter)

lemma sql_count_delete: "sql_count p rows + length (sql_delete p rows) = length rows"
  unfolding sql_count_def sql_delete_def by (rule sum_length_filter_compl)

lemma set_order_by [simp]: "set (order_by key rows) = set rows"
  by (simp add: order_by_def)

lemma set_order_by_desc [simp]: "set (order_by_desc key rows) = set rows"
  by (simp add: order_by_desc_def)

lemma sorted_order_by [simp]: "sorted (map key (order_by key rows))"
  by (simp add: order_by_def)

lemma length_order_by [simp]: "length (order_by key rows) = length rows"
  by (simp add: order_by_def)

lemma distinct_order_by [simp]:
  "distinct (map f (order_by key rows)) \<longleftrightarrow> distinct (map f rows)"
  unfolding order_by_def
  by (metis distinct_map distinct_sort length_sort card_distinct distinct_card set_sort)

text \<open>The first row of an ordered table is least.\<close>

lemma order_by_first:
  assumes "order_by key rows = r # rest"
  shows "r \<in> set rows" "\<And>r'. r' \<in> set rows \<Longrightarrow> key r \<le> key r'"
proof -
  have "set (r # rest) = set rows" using set_order_by [of key rows] assms by simp
  then show "r \<in> set rows" by auto
  have "sorted (map key (r # rest))" using sorted_order_by [of key rows] assms by simp
  then show "key r \<le> key r'" if "r' \<in> set rows" for r'
    using that \<open>set (r # rest) = set rows\<close> by auto
qed

text \<open>Rows that only move along a preorder of rows; new rows may be added, none is removed.\<close>

definition rows_move :: "('r \<Rightarrow> 'r \<Rightarrow> bool) \<Rightarrow> 'r list \<Rightarrow> 'r list \<Rightarrow> bool" where
  "rows_move E rows rows' \<longleftrightarrow> (\<forall>r \<in> set rows. \<exists>r' \<in> set rows'. E r r')"

lemma rows_move_refl: "(\<And>r. E r r) \<Longrightarrow> rows_move E rows rows"
  by (auto simp: rows_move_def)

lemma rows_move_trans:
  "(\<And>a b c. E a b \<Longrightarrow> E b c \<Longrightarrow> E a c) \<Longrightarrow> rows_move E x y \<Longrightarrow> rows_move E y z \<Longrightarrow> rows_move E x z"
  unfolding rows_move_def by meson

lemma rows_move_update:
  assumes "\<And>r. E r r" "\<And>r. hit r \<Longrightarrow> E r (f r)"
  shows "rows_move E rows (sql_update hit f rows)"
  unfolding rows_move_def
proof
  fix r assume "r \<in> set rows"
  then have "(if hit r then f r else r) \<in> set (sql_update hit f rows)" by (auto simp: set_sql_update)
  moreover have "E r (if hit r then f r else r)" using assms by simp
  ultimately show "\<exists>r' \<in> set (sql_update hit f rows). E r r'" by blast
qed

lemma rows_move_append: "(\<And>r. E r r) \<Longrightarrow> rows_move E rows (rows @ new)"
  by (auto simp: rows_move_def)

section \<open>Array.prototype.sort and Double overflow\<close>

text \<open>A stable sort by a comparison function: \<open>xs.sort(cmp)\<close> for a consistent \<open>cmp\<close>.\<close>

fun js_insert :: "('a \<Rightarrow> 'a \<Rightarrow> int) \<Rightarrow> 'a \<Rightarrow> 'a list \<Rightarrow> 'a list" where
  "js_insert cmp x [] = [x]"
| "js_insert cmp x (y # ys) = (if cmp x y \<le> 0 then x # y # ys else y # js_insert cmp x ys)"

definition js_sort :: "('a \<Rightarrow> 'a \<Rightarrow> int) \<Rightarrow> 'a list \<Rightarrow> 'a list" where
  "js_sort cmp xs = foldr (js_insert cmp) xs []"

lemma mset_js_insert [simp]: "mset (js_insert cmp x xs) = add_mset x (mset xs)"
  by (induction xs) auto

lemma mset_js_sort [simp]: "mset (js_sort cmp xs) = mset xs"
  by (induction xs) (simp_all add: js_sort_def)

lemma set_js_sort [simp]: "set (js_sort cmp xs) = set xs"
  by (metis mset_js_sort set_mset_mset)

lemma length_js_sort [simp]: "length (js_sort cmp xs) = length xs"
  by (metis mset_js_sort size_mset)

lemma distinct_js_sort [simp]: "distinct (map f (js_sort cmp xs)) \<longleftrightarrow> distinct (map f xs)"
  by (metis mset_js_sort mset_map mset_eq_imp_distinct_iff)

lemma js_sort_sorted:
  assumes "\<And>x y. cmp x y \<le> 0 \<or> cmp y x \<le> 0"
    "\<And>x y z. cmp x y \<le> 0 \<Longrightarrow> cmp y z \<le> 0 \<Longrightarrow> cmp x z \<le> 0"
  shows "sorted_wrt (\<lambda>x y. cmp x y \<le> 0) (js_sort cmp xs)"
proof (induction xs)
  case (Cons a xs)
  have ins: "sorted_wrt (\<lambda>x y. cmp x y \<le> 0) (js_insert cmp a ys)"
    if "sorted_wrt (\<lambda>x y. cmp x y \<le> 0) ys" for ys
    using that
  proof (induction ys)
    case (Cons y ys)
    have set: "set (js_insert cmp a ys) = insert a (set ys)"
      by (metis mset_js_insert set_mset_add_mset_insert set_mset_mset)
    show ?case
    proof (cases "cmp a y \<le> 0")
      case True
      then show ?thesis using Cons.prems assms(2) [OF True] by auto
    next
      case False
      then have "cmp y a \<le> 0" using assms(1) by blast
      then show ?thesis using Cons False set by auto
    qed
  qed simp
  then show ?case using Cons by (simp add: js_sort_def)
qed (simp add: js_sort_def)

text \<open>Doubles: a result beyond the largest one is infinite; rounding is not modelled.\<close>

definition to_double :: "rat \<Rightarrow> jsnum" where
  "to_double q = (if q \<ge> 2 ^ 1024 then PosInf else if q \<le> - (2 ^ 1024) then NegInf else Fin q)"

fun js_mul :: "jsnum \<Rightarrow> jsnum \<Rightarrow> jsnum" where
  "js_mul (Fin a) (Fin b) = to_double (a * b)"
| "js_mul NaN _ = NaN"
| "js_mul _ NaN = NaN"
| "js_mul (Fin a) b = (if a = 0 then NaN else if a > 0 then b else if b = PosInf then NegInf else PosInf)"
| "js_mul b (Fin a) = (if a = 0 then NaN else if a > 0 then b else if b = PosInf then NegInf else PosInf)"
| "js_mul a b = (if a = b then PosInf else NegInf)"

fun js_min :: "jsnum \<Rightarrow> jsnum \<Rightarrow> jsnum" where
  "js_min NaN _ = NaN"
| "js_min _ NaN = NaN"
| "js_min a b = (if js_less b a then b else a)"

fun js_max :: "jsnum \<Rightarrow> jsnum \<Rightarrow> jsnum" where
  "js_max NaN _ = NaN"
| "js_max _ NaN = NaN"
| "js_max a b = (if js_less a b then b else a)"

fun js_map :: "(rat \<Rightarrow> rat) \<Rightarrow> jsnum \<Rightarrow> jsnum" where
  "js_map f (Fin a) = Fin (f a)"
| "js_map f x = x"

definition js_pow :: "rat \<Rightarrow> int \<Rightarrow> jsnum" where
  "js_pow m k = to_double (if 0 \<le> k then m ^ nat k else 1 / m ^ nat (- k))"

text \<open>\<open>new Date(t).toISOString()\<close>\<close>

fun to_iso :: "jsnum \<Rightarrow> js_error + string" where
  "to_iso (Fin q) = (let t = (if 0 \<le> q then \<lfloor>q\<rfloor> else \<lceil>q\<rceil>) in
     if valid_time t then Inr (iso_str t) else Inl (raise RangeError ''Invalid time value''))"
| "to_iso _ = Inl (raise RangeError ''Invalid time value'')"

text \<open>An operation of one table as an operation of the database that holds it.\<close>

definition lift_op :: "('s \<Rightarrow> 't) \<Rightarrow> ('t \<Rightarrow> 's \<Rightarrow> 's) \<Rightarrow> ('t, 'a) op \<Rightarrow> ('s, 'a) op" where
  "lift_op g p m = (\<lambda>s. case m (g s) of (r, t) \<Rightarrow> (r, p t s))"

lemma preserves_lift:
  assumes "preserves J m" "\<And>s. I s \<Longrightarrow> J (g s)" "\<And>s t. I s \<Longrightarrow> J t \<Longrightarrow> I (p t s)"
  shows "preserves I (lift_op g p m)"
  using assms unfolding preserves_def lift_op_def by (auto split: prod.splits) (metis snd_conv)

end
