(* ===== verification/Json.thy ===== *)
theory Json
  imports Ops
begin

text \<open>
  JSON values as the runtime has them, \<open>JSON.stringify\<close> and \<open>JSON.parse\<close>.  An object is the list of
  its own properties in enumeration order: array-index keys ascending, then the others in insertion
  order.  A number is a rational; the round trip (\<open>json_parse_stringify\<close>) is for integers.  The
  parser takes the whole grammar, with fuel one more than the length of the text, which is enough
  because every nested call has consumed a character.
\<close>

datatype json =
    JNull
  | JBool bool
  | JNum rat
  | JStr string
  | JArr "json list"
  | JObj "(string \<times> json) list"

section \<open>Keys and objects\<close>

text \<open>A canonical array index: \<open>0\<close> or a decimal without leading zero, at most $2^{32} - 2$.\<close>

definition is_index :: "string \<Rightarrow> bool" where
  "is_index k \<longleftrightarrow> k \<noteq> [] \<and> list_all is_dec k \<and> (hd k = CHR ''0'' \<longrightarrow> k = ''0'') \<and>
     str_val 10 k \<le> 4294967294"

fun obj_insert :: "string \<Rightarrow> 'v \<Rightarrow> (string \<times> 'v) list \<Rightarrow> (string \<times> 'v) list" where
  "obj_insert k v [] = [(k, v)]"
| "obj_insert k v ((k', v') # r) =
     (if is_index k \<and> (\<not> is_index k' \<or> str_val 10 k < str_val 10 k') then (k, v) # (k', v') # r
      else (k', v') # obj_insert k v r)"

text \<open>\<open>o[k] = v\<close>\<close>

definition obj_put :: "string \<Rightarrow> 'v \<Rightarrow> (string \<times> 'v) list \<Rightarrow> (string \<times> 'v) list" where
  "obj_put k v m = (if assoc_get k m = None then obj_insert k v m else assoc_set k v m)"

fun js_ordered :: "string list \<Rightarrow> bool" where
  "js_ordered [] = True"
| "js_ordered (k # ks) = ((if is_index k
      then list_all (\<lambda>k'. is_index k' \<longrightarrow> str_val 10 k < str_val 10 k') ks
      else list_all (\<lambda>k'. \<not> is_index k') ks) \<and> js_ordered ks)"

definition js_object :: "(string \<times> 'v) list \<Rightarrow> bool" where
  "js_object m \<longleftrightarrow> distinct (map fst m) \<and> js_ordered (map fst m)"

fun wf_json :: "json \<Rightarrow> bool" where
  "wf_json (JNum q) = (of_int \<lfloor>q\<rfloor> = q)"
| "wf_json (JArr vs) = list_all wf_json vs"
| "wf_json (JObj m) = (js_object m \<and> list_all (\<lambda>e. wf_json (snd e)) m)"
| "wf_json _ = True"

text \<open>JSON values that are false as a condition.\<close>

fun js_false :: "json \<Rightarrow> bool" where
  "js_false JNull = True"
| "js_false (JBool b) = (\<not> b)"
| "js_false (JNum q) = (q = 0)"
| "js_false (JStr s) = (s = [])"
| "js_false _ = False"

section \<open>Writing\<close>

definition escape_char :: "char \<Rightarrow> string" where
  "escape_char c = (let n = of_char c :: nat in
     if n = 34 then [CHR 92, CHR 34]
     else if n = 92 then [CHR 92, CHR 92]
     else if n = 8 then [CHR 92, CHR ''b'']
     else if n = 9 then [CHR 92, CHR ''t'']
     else if n = 10 then [CHR 92, CHR ''n'']
     else if n = 12 then [CHR 92, CHR ''f'']
     else if n = 13 then [CHR 92, CHR ''r'']
     else if n < 32 then CHR 92 # CHR ''u'' # pad_start 4 (hex_str n)
     else [c])"

definition json_str :: "string \<Rightarrow> string" where
  "json_str s = CHR 34 # concat (map escape_char s) @ [CHR 34]"

text \<open>A fraction prints its decimal expansion, as far as it is finite.\<close>

fun frac_digits :: "nat \<Rightarrow> rat \<Rightarrow> nat list" where
  "frac_digits 0 q = []"
| "frac_digits (Suc n) q = (if q = 0 then []
     else nat \<lfloor>10 * q\<rfloor> # frac_digits n (10 * q - of_int \<lfloor>10 * q\<rfloor>))"

definition num_str :: "rat \<Rightarrow> string" where
  "num_str q = (if of_int \<lfloor>q\<rfloor> = q then int_str \<lfloor>q\<rfloor>
     else (if q < 0 then ''-'' else '''') @ int_str \<lfloor>\<bar>q\<bar>\<rfloor> @ ''.'' @
       map digit_char (frac_digits 400 (\<bar>q\<bar> - of_int \<lfloor>\<bar>q\<bar>\<rfloor>)))"

fun stringify :: "json \<Rightarrow> string" where
  "stringify JNull = ''null''"
| "stringify (JBool b) = (if b then ''true'' else ''false'')"
| "stringify (JNum q) = num_str q"
| "stringify (JStr s) = json_str s"
| "stringify (JArr vs) = ''['' @ join_with '','' (map stringify vs) @ '']''"
| "stringify (JObj m) = ''{'' @ join_with '','' (map (\<lambda>e. json_str (fst e) @ '':'' @ stringify (snd e)) m) @ ''}''"

section \<open>Reading\<close>

definition json_space :: "char \<Rightarrow> bool" where
  "json_space c \<longleftrightarrow> (of_char c :: nat) \<in> {9, 10, 13, 32}"

definition skip_ws :: "string \<Rightarrow> string" where
  "skip_ws s = dropWhile json_space s"

fun hex4 :: "char \<Rightarrow> char \<Rightarrow> char \<Rightarrow> char \<Rightarrow> char option" where
  "hex4 a b c d = (let w = map lower_char [a, b, c, d] in
     if list_all is_hex w \<and> str_val 16 w < 256 then Some (char_of (str_val 16 w)) else None)"

definition simple_escape :: "char \<Rightarrow> char option" where
  "simple_escape e = (if e \<in> {CHR 34, CHR 92, CHR ''/''} then Some e
     else if e = CHR ''b'' then Some (char_of (8 :: nat)) else if e = CHR ''f'' then Some (char_of (12 :: nat))
     else if e = CHR ''n'' then Some (char_of (10 :: nat)) else if e = CHR ''r'' then Some (char_of (13 :: nat))
     else if e = CHR ''t'' then Some (char_of (9 :: nat)) else None)"

definition add_char :: "char \<Rightarrow> (string \<times> string) option \<Rightarrow> (string \<times> string) option" where
  "add_char c res = (case res of Some (w, r) \<Rightarrow> Some (c # w, r) | None \<Rightarrow> None)"

function parse_chars :: "string \<Rightarrow> (string \<times> string) option" where
  "parse_chars s = (case s of
       [] \<Rightarrow> None
     | c # r \<Rightarrow>
         if c = CHR 34 then Some ([], r)
         else if c = CHR 92 then
           (case r of
              e # r' \<Rightarrow>
                if e = CHR ''u'' then
                  (case r' of h1 # h2 # h3 # h4 # r'' \<Rightarrow>
                     (case hex4 h1 h2 h3 h4 of Some x \<Rightarrow> add_char x (parse_chars r'') | None \<Rightarrow> None)
                   | _ \<Rightarrow> None)
                else (case simple_escape e of Some x \<Rightarrow> add_char x (parse_chars r') | None \<Rightarrow> None)
            | [] \<Rightarrow> None)
         else if (of_char c :: nat) < 32 then None
         else add_char c (parse_chars r))"
  by pat_completeness auto
termination by (relation "measure length") auto

declare parse_chars.simps [simp del]

text \<open>A number: sign, integer part without leading zero, fraction, exponent.\<close>

definition take_digits :: "string \<Rightarrow> string \<times> string" where
  "take_digits s = (takeWhile is_dec s, dropWhile is_dec s)"

fun parse_sign :: "string \<Rightarrow> int \<times> string" where
  "parse_sign [] = (1, [])"
| "parse_sign (c # r) = (if c = CHR ''-'' then (- 1, r) else (1, c # r))"

fun parse_frac :: "string \<Rightarrow> (rat \<times> string) option" where
  "parse_frac [] = Some (0, [])"
| "parse_frac (c # r) = (if c = CHR ''.'' then
     (case take_digits r of (ds, r') \<Rightarrow> if ds = [] then None
        else Some (of_nat (str_val 10 ds) / 10 ^ length ds, r'))
     else Some (0, c # r))"

fun parse_exp :: "string \<Rightarrow> (rat \<times> string) option" where
  "parse_exp [] = Some (1, [])"
| "parse_exp (c # r) = (if c = CHR ''e'' \<or> c = CHR ''E'' then
     (let (sg, r') = (case r of x # y \<Rightarrow> if x = CHR ''+'' then (1, y) else parse_sign r | [] \<Rightarrow> (1, []));
          (ds, r'') = take_digits r'
      in if ds = [] then None
         else Some (if sg = 1 then 10 ^ str_val 10 ds else 1 / 10 ^ str_val 10 ds, r''))
     else Some (1, c # r))"

definition parse_number :: "string \<Rightarrow> (rat \<times> string) option" where
  "parse_number s = (case parse_sign s of (sg, r) \<Rightarrow> (case take_digits r of (ds, r1) \<Rightarrow>
     if ds = [] \<or> (hd ds = CHR ''0'' \<and> tl ds \<noteq> []) then None
     else (case parse_frac r1 of None \<Rightarrow> None | Some (f, r2) \<Rightarrow>
       (case parse_exp r2 of None \<Rightarrow> None | Some (e, r3) \<Rightarrow>
         Some (of_int sg * (of_nat (str_val 10 ds) + f) * e, r3)))))"

definition eat :: "string \<Rightarrow> string \<Rightarrow> string option" where
  "eat w s = (if starts_with w s then Some (drop (length w) s) else None)"

fun parse_value :: "nat \<Rightarrow> string \<Rightarrow> (json \<times> string) option"
and parse_elems :: "nat \<Rightarrow> string \<Rightarrow> (json list \<times> string) option"
and parse_members :: "nat \<Rightarrow> (string \<times> json) list \<Rightarrow> string \<Rightarrow> (json \<times> string) option" where
  "parse_value 0 s = None"
| "parse_value (Suc n) s = (case skip_ws s of
       [] \<Rightarrow> None
     | c # r \<Rightarrow>
         if c = CHR 34 then map_option (\<lambda>(w, r'). (JStr w, r')) (parse_chars r)
         else if c = CHR ''['' then
           (case eat '']'' (skip_ws r) of Some r' \<Rightarrow> Some (JArr [], r')
            | None \<Rightarrow> map_option (\<lambda>(vs, r'). (JArr vs, r')) (parse_elems n r))
         else if c = CHR ''{'' then
           (case eat ''}'' (skip_ws r) of Some r' \<Rightarrow> Some (JObj [], r')
            | None \<Rightarrow> parse_members n [] r)
         else if c = CHR ''n'' then map_option (\<lambda>r'. (JNull, r')) (eat ''null'' (c # r))
         else if c = CHR ''t'' then map_option (\<lambda>r'. (JBool True, r')) (eat ''true'' (c # r))
         else if c = CHR ''f'' then map_option (\<lambda>r'. (JBool False, r')) (eat ''false'' (c # r))
         else map_option (\<lambda>(q, r'). (JNum q, r')) (parse_number (c # r)))"
| "parse_elems 0 s = None"
| "parse_elems (Suc n) s = (case parse_value n s of None \<Rightarrow> None | Some (v, r) \<Rightarrow>
     (case eat '','' (skip_ws r) of
        Some r' \<Rightarrow> map_option (\<lambda>(vs, r''). (v # vs, r'')) (parse_elems n r')
      | None \<Rightarrow> map_option (\<lambda>r'. ([v], r')) (eat '']'' (skip_ws r))))"
| "parse_members 0 m s = None"
| "parse_members (Suc n) m s = (case eat [CHR 34] (skip_ws s) of None \<Rightarrow> None | Some r \<Rightarrow>
     (case parse_chars r of None \<Rightarrow> None | Some (k, r1) \<Rightarrow>
       (case eat '':'' (skip_ws r1) of None \<Rightarrow> None | Some r2 \<Rightarrow>
         (case parse_value n r2 of None \<Rightarrow> None | Some (v, r3) \<Rightarrow>
           (case eat '','' (skip_ws r3) of
              Some r4 \<Rightarrow> parse_members n (obj_put k v m) r4
            | None \<Rightarrow> map_option (\<lambda>r4. (JObj (obj_put k v m), r4)) (eat ''}'' (skip_ws r3)))))))"

definition json_parse :: "string \<Rightarrow> js_error + json" where
  "json_parse s = (case parse_value (length s + 1) s of
       Some (v, r) \<Rightarrow> if skip_ws r = [] then Inr v else Inl (raise PlainError ''SyntaxError: JSON.parse'')
     | None \<Rightarrow> Inl (raise PlainError ''SyntaxError: JSON.parse''))"

section \<open>The parser inverts the printer\<close>

lemma lower_digit_char [simp]: "d < 16 \<Longrightarrow> lower_char (digit_char d) = digit_char d"
  by (simp add: lower_char_def is_upper_def of_char_digit_char)

lemma pad4_byte:
  assumes "n < 256"
  shows "pad_start 4 (hex_str n) = map digit_char [0, 0, n div 16, n mod 16]"
proof (cases "n < 16")
  case True
  then have "digits_of 16 n = [n]" by (subst digits_of.simps) simp
  then show ?thesis using True pad_start_map_digit [of 4 "[n]"] by (simp add: hex_str_def numeral_3_eq_3)
next
  case False
  then have "digits_of 16 n = digits_of 16 (n div 16) @ [n mod 16]" by (subst digits_of.simps) simp
  also have "digits_of 16 (n div 16) = [n div 16]" using assms by (subst digits_of.simps) simp
  finally show ?thesis
    using pad_start_map_digit [of 4 "[n div 16, n mod 16]"] by (simp add: hex_str_def numeral_2_eq_2)
qed

lemma hex4_pad:
  assumes "n < 256"
  shows "hex4 (digit_char 0) (digit_char 0) (digit_char (n div 16)) (digit_char (n mod 16)) = Some (char_of n)"
proof -
  have d: "n div 16 < 16" "n mod 16 < 16" using assms by simp_all
  have "str_val 16 (map digit_char [0, 0, n div 16, n mod 16]) = n"
    using d by (subst str_val_map_digit) (auto simp: digits_val_def)
  then show ?thesis using d assms by simp
qed

lemma char_of_lits:
  "char_of (8 :: nat) = CHR 8" "char_of (9 :: nat) = CHR 9" "char_of (10 :: nat) = CHR 10"
  "char_of (12 :: nat) = CHR 12" "char_of (13 :: nat) = CHR 13"
  by code_simp+

lemma of_char_eq_lits:
  "(of_char c :: nat) = 34 \<longleftrightarrow> c = CHR 34" "(of_char c :: nat) = 92 \<longleftrightarrow> c = CHR 92"
  "(of_char c :: nat) = 8 \<longleftrightarrow> c = CHR 8" "(of_char c :: nat) = 9 \<longleftrightarrow> c = CHR 9"
  "(of_char c :: nat) = 10 \<longleftrightarrow> c = CHR 10" "(of_char c :: nat) = 12 \<longleftrightarrow> c = CHR 12"
  "(of_char c :: nat) = 13 \<longleftrightarrow> c = CHR 13"
proof -
  have "(of_char c :: nat) = of_char d \<longleftrightarrow> c = d" for d by (rule of_char_eq_iff)
  from this [of "CHR 34"] this [of "CHR 92"] this [of "CHR 8"] this [of "CHR 9"] this [of "CHR 10"]
    this [of "CHR 12"] this [of "CHR 13"]
  show "(of_char c :: nat) = 34 \<longleftrightarrow> c = CHR 34" "(of_char c :: nat) = 92 \<longleftrightarrow> c = CHR 92"
    "(of_char c :: nat) = 8 \<longleftrightarrow> c = CHR 8" "(of_char c :: nat) = 9 \<longleftrightarrow> c = CHR 9"
    "(of_char c :: nat) = 10 \<longleftrightarrow> c = CHR 10" "(of_char c :: nat) = 12 \<longleftrightarrow> c = CHR 12"
    "(of_char c :: nat) = 13 \<longleftrightarrow> c = CHR 13" by simp_all
qed

lemma parse_escape: "parse_chars (escape_char c @ t) = add_char c (parse_chars t)"
proof -
  define n where "n = (of_char c :: nat)"
  have c: "c = char_of n" and n: "n < 256" by (simp_all add: n_def)
  consider "n \<in> {34, 92, 8, 9, 10, 12, 13}" | "n < 32" "n \<notin> {8, 9, 10, 12, 13}" | "n \<ge> 32" "n \<noteq> 34" "n \<noteq> 92"
    by fastforce
  then show ?thesis
  proof cases
    case 1
    then have "c \<in> {CHR 34, CHR 92, CHR 8, CHR 9, CHR 10, CHR 12, CHR 13}"
      by (simp add: n_def of_char_eq_lits)
    then show ?thesis
      by (elim insertE emptyE)
        (simp_all add: escape_char_def parse_chars.simps [of "_ # _"] simple_escape_def char_of_lits)
  next
    case 2
    then have "escape_char c = CHR 92 # CHR ''u'' # map digit_char [0, 0, n div 16, n mod 16]"
      unfolding escape_char_def n_def [symmetric] Let_def using pad4_byte [OF n] by auto
    then show ?thesis
      using hex4_pad [OF n] c [symmetric] by (subst parse_chars.simps) (simp del: hex4.simps)
  next
    case 3
    then have "escape_char c = [c]" "c \<noteq> CHR 34" "c \<noteq> CHR 92" "\<not> (of_char c :: nat) < 32"
      unfolding escape_char_def n_def [symmetric] Let_def by (auto simp: n_def)
    then show ?thesis by (subst parse_chars.simps) simp
  qed
qed

lemma parse_json_chars: "parse_chars (concat (map escape_char s) @ CHR 34 # r) = Some (s, r)"
proof (induction s)
  case Nil
  show ?case by (subst parse_chars.simps) simp
next
  case (Cons c s)
  then show ?case by (simp add: parse_escape add_char_def)
qed

lemma digits_of_lead: "2 \<le> b \<Longrightarrow> 0 < n \<Longrightarrow> hd (digits_of b n) \<noteq> 0"
proof (induction b n rule: digits_of.induct)
  case (1 b n)
  show ?case
  proof (cases "n < b")
    case True
    then show ?thesis using 1 by (subst digits_of.simps) simp
  next
    case False
    then have "0 < n div b" using 1 by (simp add: div_greater_zero_iff)
    then have "hd (digits_of b (n div b)) \<noteq> 0" using 1 False by simp
    then show ?thesis using 1 False by (subst digits_of.simps) simp
  qed
qed

lemma nat_str_lead: "hd (nat_str n) = CHR ''0'' \<Longrightarrow> tl (nat_str n) = []"
proof (cases "n = 0")
  case True
  then show ?thesis by (simp add: nat_str_def digits_of.simps)
next
  case False
  then have "hd (digits_of 10 n) \<noteq> 0" by (intro digits_of_lead) auto
  moreover have "hd (digits_of 10 n) < 16" using dec_digits_lt [of "hd (digits_of 10 n)" n] by simp
  ultimately have "hd (nat_str n) \<noteq> digit_char 0"
    unfolding nat_str_def by (simp add: hd_map digit_char_inj)
  then show "hd (nat_str n) = CHR ''0'' \<Longrightarrow> tl (nat_str n) = []" by (simp add: digit_char_0)
qed

fun num_end :: "string \<Rightarrow> bool" where
  "num_end [] = True"
| "num_end (c # r) = (\<not> is_dec c \<and> c \<notin> {CHR ''.'', CHR ''e'', CHR ''E''})"

lemma take_digits_nat_str: "num_end r \<Longrightarrow> take_digits (nat_str n @ r) = (nat_str n, r)"
proof -
  assume e: "num_end r"
  have all: "list_all is_dec (nat_str n)" by (simp add: list_all_iff nat_str_dec)
  show ?thesis
  proof (cases r)
    case Nil
    then show ?thesis using all
      by (simp add: take_digits_def list_all_iff takeWhile_eq_all_conv dropWhile_eq_Nil_conv)
  next
    case (Cons c r')
    then show ?thesis using all e
      by (simp add: take_digits_def list_all_iff takeWhile_append2 dropWhile_append2)
  qed
qed

lemma nat_str_hd: obtains c w where "nat_str n = c # w" "is_dec c"
proof (cases "nat_str n")
  case (Cons c w)
  then show ?thesis using that nat_str_dec [of c n] by simp
qed simp

lemma parse_number_int: "num_end r \<Longrightarrow> parse_number (int_str i @ r) = Some (of_int i, r)"
proof -
  assume e: "num_end r"
  have fe: "parse_frac r = Some (0, r)" "parse_exp r = Some (1, r)" using e by (cases r; simp)+
  have lead: "\<not> (hd (nat_str n) = CHR ''0'' \<and> tl (nat_str n) \<noteq> [])" for n
    using nat_str_lead by blast
  show ?thesis
  proof (cases "i < 0")
    case True
    then show ?thesis
      using lead [of "nat (- i)"] fe e
      by (simp add: parse_number_def int_str_def take_digits_nat_str)
  next
    case False
    obtain c w where cw: "nat_str (nat i) = c # w" "is_dec c" by (rule nat_str_hd)
    then have "c \<noteq> CHR ''-''" by (auto simp: is_dec_def)
    then have "parse_sign (nat_str (nat i) @ r) = (1, nat_str (nat i) @ r)" using cw by simp
    then show ?thesis
      using lead [of "nat i"] fe e False
      by (simp add: parse_number_def int_str_def take_digits_nat_str)
  qed
qed

lemma ws_lits [simp]:
  "\<not> json_space (CHR 34)" "\<not> json_space (CHR ''['')" "\<not> json_space (CHR ''{'')"
  "\<not> json_space (CHR ''n'')" "\<not> json_space (CHR ''t'')" "\<not> json_space (CHR ''f'')"
  "\<not> json_space (CHR '','')" "\<not> json_space (CHR '':'')" "\<not> json_space (CHR '']'')"
  "\<not> json_space (CHR ''}'')" "\<not> json_space (CHR ''-'')"
  by (simp_all add: json_space_def)

lemma skip_ws_id: "\<not> json_space c \<Longrightarrow> skip_ws (c # r) = c # r"
  by (simp add: skip_ws_def)

lemma dec_not_space: "is_dec c \<Longrightarrow> \<not> json_space c"
  by (auto simp: is_dec_def json_space_def Let_def)

definition value_start :: "char \<Rightarrow> bool" where
  "value_start c \<longleftrightarrow> \<not> json_space c \<and> c \<noteq> CHR '']'' \<and> c \<noteq> CHR ''}''"

lemma dec_value_start: "is_dec c \<Longrightarrow> value_start c"
  by (auto simp: value_start_def dec_not_space is_dec_def)

lemma int_str_start: obtains c w where "int_str i = c # w" "is_dec c \<or> c = CHR ''-''"
proof (cases "i < 0")
  case True
  then show ?thesis using that by (simp add: int_str_def)
next
  case False
  obtain c w where "nat_str (nat i) = c # w" "is_dec c" by (rule nat_str_hd)
  then show ?thesis using that False by (simp add: int_str_def)
qed

lemma stringify_start:
  assumes "wf_json v"
  obtains c w where "stringify v = c # w" "value_start c"
proof (cases v)
  case (JNum q)
  obtain c w where cw: "int_str \<lfloor>q\<rfloor> = c # w" "is_dec c \<or> c = CHR ''-''" by (rule int_str_start)
  have "value_start c" using cw(2) dec_value_start by (auto simp: value_start_def)
  moreover have "stringify v = c # w" using assms JNum cw(1) by (simp add: num_str_def)
  ultimately show ?thesis using that by blast
next
  case (JBool b)
  then show ?thesis using that by (cases b) (simp_all add: value_start_def)
qed (use that in \<open>auto simp: json_str_def value_start_def\<close>)

lemma skip_stringify [simp]: "wf_json v \<Longrightarrow> skip_ws (stringify v @ r) = stringify v @ r"
proof -
  assume "wf_json v"
  then obtain c w where "stringify v = c # w" "value_start c" by (rule stringify_start)
  then show ?thesis by (simp add: skip_ws_id value_start_def)
qed

lemma eat_self [simp]: "eat w (w @ r) = Some r"
  by (simp add: eat_def)

lemma eat_Cons [simp]: "eat [c] (d # r) = (if c = d then Some r else None)"
  by (simp add: eat_def)

lemma parse_value_str: "parse_value (Suc n) (json_str s @ r) = Some (JStr s, r)"
  by (simp add: json_str_def skip_ws_id parse_json_chars)

lemma parse_value_num:
  assumes "of_int \<lfloor>q\<rfloor> = q" "num_end r"
  shows "parse_value (Suc n) (num_str q @ r) = Some (JNum q, r)"
proof -
  have num: "parse_number (num_str q @ r) = Some (q, r)"
    using parse_number_int [OF assms(2), of "\<lfloor>q\<rfloor>"] assms(1) by (simp add: num_str_def)
  obtain c w where "int_str \<lfloor>q\<rfloor> = c # w" "is_dec c \<or> c = CHR ''-''" by (rule int_str_start)
  then have cw: "num_str q = c # w" "is_dec c \<or> c = CHR ''-''"
    using assms(1) by (simp_all add: num_str_def)
  then have ne: "c \<notin> {CHR 34, CHR ''['', CHR ''{'', CHR ''n'', CHR ''t'', CHR ''f''}" "\<not> json_space c"
    by (auto simp: is_dec_def dec_not_space)
  show ?thesis using num ne cw(1) by (simp add: skip_ws_id)
qed

text \<open>Appending to an object in enumeration order.\<close>

lemma obj_put_append:
  assumes "k \<notin> fst ` set m" "js_ordered (map fst m @ [k])"
  shows "obj_put k v m = m @ [(k, v)]"
proof -
  have "obj_insert k v m = m @ [(k, v)]"
    using assms(2)
    by (induction m) (auto split: if_splits simp: list_all_append)
  then show ?thesis using assms(1) by (simp add: obj_put_def assoc_get_None)
qed

lemma js_ordered_append: "js_ordered (ks @ ks') \<Longrightarrow> js_ordered ks"
  by (induction ks) (auto simp: list_all_append split: if_splits)

definition parses :: "json \<Rightarrow> bool" where
  "parses v \<longleftrightarrow> (\<forall>n r. length (stringify v) \<le> n \<and> num_end r \<longrightarrow> parse_value n (stringify v @ r) = Some (v, r))"

lemma parsesD: "parses v \<Longrightarrow> length (stringify v) \<le> n \<Longrightarrow> num_end r \<Longrightarrow>
    parse_value n (stringify v @ r) = Some (v, r)"
  by (simp add: parses_def)

lemma parse_elems_join:
  assumes "vs \<noteq> []" "\<And>v. v \<in> set vs \<Longrightarrow> parses v"
    "length (join_with '','' (map stringify vs)) < n"
  shows "parse_elems n (join_with '','' (map stringify vs) @ CHR '']'' # r) = Some (vs, r)"
  using assms
proof (induction vs arbitrary: n)
  case (Cons v vs)
  obtain m where n: "n = Suc m" using Cons.prems(3) by (cases n) auto
  show ?case
  proof (cases vs)
    case Nil
    have "parse_value m (stringify v @ CHR '']'' # r) = Some (v, CHR '']'' # r)"
      using Cons.prems n Nil by (intro parsesD) (auto simp: is_dec_def)
    then show ?thesis using n Nil by (simp add: skip_ws_id)
  next
    case (Cons w ws)
    let ?rest = "join_with '','' (map stringify vs) @ CHR '']'' # r"
    have "parse_value m (stringify v @ CHR '','' # ?rest) = Some (v, CHR '','' # ?rest)"
      using Cons.prems n Cons by (intro parsesD) (auto simp: is_dec_def)
    moreover have "parse_elems m ?rest = Some (vs, r)"
      using Cons.prems n Cons by (intro Cons.IH) auto
    ultimately show ?thesis using n Cons by (simp add: skip_ws_id)
  qed
qed simp

abbreviation member_str :: "string \<times> json \<Rightarrow> string" where
  "member_str e \<equiv> json_str (fst e) @ '':'' @ stringify (snd e)"

lemma parse_members_join:
  assumes "m \<noteq> []" "\<And>e. e \<in> set m \<Longrightarrow> parses (snd e) \<and> wf_json (snd e)"
    "js_object (m0 @ m)" "length (join_with '','' (map member_str m)) < n"
  shows "parse_members n m0 (join_with '','' (map member_str m) @ CHR ''}'' # r) = Some (JObj (m0 @ m), r)"
  using assms
proof (induction m arbitrary: n m0)
  case (Cons e m)
  obtain k v where e: "e = (k, v)" by (cases e)
  obtain j where n: "n = Suc j" using Cons.prems(4) by (cases n) auto
  have put: "obj_put k v m0 = m0 @ [(k, v)]"
    using Cons.prems(3) js_ordered_append [of "map fst m0 @ [k]" "map fst m"] e
    by (intro obj_put_append) (auto simp: js_object_def)
  have pv: "parse_value j (stringify v @ t) = Some (v, t)"
    if "length (stringify v) \<le> j" "num_end t" for t
    using Cons.prems(2) [of e] e that by (auto intro: parsesD)
  show ?case
  proof (cases m)
    case Nil
    then show ?thesis
      using pv [of "CHR ''}'' # r"] Cons.prems(4) n e put
      by (simp add: skip_ws_id json_str_def parse_json_chars is_dec_def)
  next
    case (Cons f m')
    let ?rest = "join_with '','' (map member_str m) @ CHR ''}'' # r"
    have "parse_value j (stringify v @ CHR '','' # ?rest) = Some (v, CHR '','' # ?rest)"
      using Cons.prems(4) n e Cons by (intro pv) (auto simp: is_dec_def)
    moreover have "parse_members j (m0 @ [(k, v)]) ?rest = Some (JObj ((m0 @ [(k, v)]) @ m), r)"
      using Cons.prems n e Cons by (intro Cons.IH) auto
    ultimately show ?thesis
      using n e Cons put by (simp add: skip_ws_id json_str_def parse_json_chars)
  qed
qed simp

lemma join_start:
  assumes "xs \<noteq> []" "hd xs = c # w"
  shows "\<exists>u. join_with sep xs = c # u"
  using assms by (induction sep xs rule: join_with.induct) auto

lemma parses_wf: "wf_json v \<Longrightarrow> parses v"
proof (induction v)
  case (JArr vs)
  have IH: "parses v" if "v \<in> set vs" for v using JArr that by (auto simp: list_all_iff)
  show ?case
    unfolding parses_def
  proof (intro allI impI, elim conjE)
    fix n r assume len: "length (stringify (JArr vs)) \<le> n" and "num_end r"
    obtain m where n: "n = Suc m" using len by (cases n) auto
    show "parse_value n (stringify (JArr vs) @ r) = Some (JArr vs, r)"
    proof (cases vs)
      case Nil
      then show ?thesis using n by (simp add: skip_ws_id)
    next
      case (Cons w ws)
      obtain c u where "stringify w = c # u" "value_start c"
        using JArr.prems Cons by (auto elim: stringify_start)
      then obtain t where t: "join_with '','' (map stringify vs) = c # t" "value_start c"
        using join_start [of "map stringify vs" c u "'',''"] Cons by auto
      have "parse_elems m (join_with '','' (map stringify vs) @ CHR '']'' # r) = Some (vs, r)"
        using len n Cons by (intro parse_elems_join IH) auto
      then show ?thesis using n t by (auto simp: skip_ws_id value_start_def)
    qed
  qed
next
  case (JObj m)
  have IH: "parses (snd e) \<and> wf_json (snd e)" if "e \<in> set m" for e
    using JObj that by (cases e) (auto simp: list_all_iff)
  show ?case
    unfolding parses_def
  proof (intro allI impI, elim conjE)
    fix n r assume len: "length (stringify (JObj m)) \<le> n" and "num_end r"
    obtain j where n: "n = Suc j" using len by (cases n) auto
    show "parse_value n (stringify (JObj m) @ r) = Some (JObj m, r)"
    proof (cases m)
      case Nil
      then show ?thesis using n by (simp add: skip_ws_id)
    next
      case (Cons f m')
      obtain t where t: "join_with '','' (map member_str m) = CHR 34 # t"
        using join_start [of "map member_str m" "CHR 34" _ "'',''"] Cons by (auto simp: json_str_def)
      have "parse_members j [] (join_with '','' (map member_str m) @ CHR ''}'' # r) = Some (JObj ([] @ m), r)"
        using len n Cons JObj.prems IH by (intro parse_members_join) auto
      then show ?thesis using n t by (simp add: skip_ws_id)
    qed
  qed
next
  case (JNum q)
  show ?case
    unfolding parses_def
  proof (intro allI impI, elim conjE)
    fix n r assume len: "length (stringify (JNum q)) \<le> n" and r: "num_end r"
    obtain c w where "stringify (JNum q) = c # w" using stringify_start [OF JNum] by blast
    then obtain j where "n = Suc j" using len by (cases n) auto
    then show "parse_value n (stringify (JNum q) @ r) = Some (JNum q, r)"
      using parse_value_num [OF _ r, of q j] JNum by (simp del: parse_value.simps)
  qed
next
  case (JStr w)
  show ?case
    unfolding parses_def
  proof (intro allI impI, elim conjE)
    fix n r assume len: "length (stringify (JStr w)) \<le> n"
    then obtain j where "n = Suc j" by (cases n) (auto simp: json_str_def)
    then show "parse_value n (stringify (JStr w) @ r) = Some (JStr w, r)"
      using parse_value_str [of j w r] by (simp del: parse_value.simps)
  qed
next
  case (JBool b)
  show ?case
    unfolding parses_def
  proof (intro allI impI, elim conjE)
    fix n r assume len: "length (stringify (JBool b)) \<le> n"
    then obtain j where "n = Suc j" by (cases n; cases b) auto
    then show "parse_value n (stringify (JBool b) @ r) = Some (JBool b, r)"
      by (cases b) (simp_all add: skip_ws_id eat_def)
  qed
next
  case JNull
  show ?case
    unfolding parses_def
  proof (intro allI impI, elim conjE)
    fix n r assume len: "length (stringify JNull) \<le> n"
    then obtain j where "n = Suc j" by (cases n) auto
    then show "parse_value n (stringify JNull @ r) = Some (JNull, r)"
      by (simp add: skip_ws_id eat_def)
  qed
qed

theorem json_parse_stringify:
  assumes "wf_json v"
  shows "json_parse (stringify v) = Inr v"
proof -
  have "parse_value (length (stringify v) + 1) (stringify v @ []) = Some (v, [])"
    by (rule parsesD [OF parses_wf [OF assms] le_add1]) (simp only: num_end.simps)
  then have "parse_value (length (stringify v) + 1) (stringify v) = Some (v, [])"
    by (simp only: append_Nil2)
  then show ?thesis
    unfolding json_parse_def by (simp only: option.case prod.case skip_ws_def dropWhile.simps simp_thms if_True)
qed

lemma stringify_inj: "wf_json v \<Longrightarrow> wf_json w \<Longrightarrow> stringify v = stringify w \<Longrightarrow> v = w"
  by (metis json_parse_stringify sum.inject(2))

declare parse_value.simps [simp del]
declare parse_elems.simps [simp del]
declare parse_members.simps [simp del]

end
