(* ===== verification/Hlc.thy ===== *)
theory Hlc
  imports Ops
begin

text \<open>
  The hybrid logical clock (\<open>sync-protocol/src/hlc/HybridLogicalClock.ts\<close>): the clock's state,
  the local tick \<open>hlc_now\<close> and the merge \<open>hlc_update\<close>, the text of a timestamp, its parser with the
  legacy format, and the comparison.  The clock reading is an argument; \<open>localeCompare\<close>, which
  breaks ties between nodes, is a parameter with the laws of the locale \<open>collation\<close>.
\<close>

section \<open>Collation\<close>

locale collation =
  fixes lc :: "string \<Rightarrow> string \<Rightarrow> int"
  assumes lc_refl: "lc a a = 0"
    and lc_anti: "lc a b < 0 \<longleftrightarrow> 0 < lc b a"
    and lc_trans: "lc a b \<le> 0 \<Longrightarrow> lc b c \<le> 0 \<Longrightarrow> lc a c \<le> 0"
begin

lemma lc_zero_sym: "lc a b = 0 \<longleftrightarrow> lc b a = 0"
  using lc_anti [of a b] lc_anti [of b a] by linarith

lemma lc_total: "lc a b \<le> 0 \<or> lc b a \<le> 0"
  using lc_anti [of a b] lc_anti [of b a] by linarith

end

definition cmp_units :: "string \<Rightarrow> string \<Rightarrow> int" where
  "cmp_units a b = (if a < b then - 1 else if a = b then 0 else 1)"

interpretation units: collation cmp_units
  by unfold_locales (auto simp: cmp_units_def split: if_splits)

section \<open>The clock\<close>

record hlc_timestamp =
  ts_physical :: int
  ts_counter :: int
  ts_node :: string

record hlc =
  hlc_latest :: int
  hlc_counter :: int
  hlc_node :: string

definition new_hlc :: "string \<Rightarrow> int \<Rightarrow> hlc" where
  "new_hlc nodeId now_ms = \<lparr>hlc_latest = now_ms, hlc_counter = 0, hlc_node = nodeId\<rparr>"

definition int_hex :: "int \<Rightarrow> string" where
  "int_hex i = (if i < 0 then CHR ''-'' # hex_str (nat (- i)) else hex_str (nat i))"

definition hlc_format :: "int \<Rightarrow> int \<Rightarrow> string \<Rightarrow> string" where
  "hlc_format physical counter nodeId =
     pad_start 12 (int_hex physical) @ ''_'' @ pad_start 4 (int_hex counter) @ ''_'' @ nodeId"

definition hlc_increment :: "(hlc, unit) op" where
  "hlc_increment = andthen (get id) (\<lambda>c.
     if hlc_counter c < max_safe_integer then modify (\<lambda>c. c\<lparr>hlc_counter := hlc_counter c + 1\<rparr>)
     else andthen (guard (hlc_latest c < max_safe_integer)
         (raise RangeError ''HLC timestamp space exhausted''))
       (\<lambda>_. modify (\<lambda>c. c\<lparr>hlc_latest := hlc_latest c + 1, hlc_counter := 0\<rparr>)))"

definition hlc_stamp :: "hlc \<Rightarrow> string" where
  "hlc_stamp c = hlc_format (hlc_latest c) (hlc_counter c) (hlc_node c)"

definition hlc_now :: "int \<Rightarrow> (hlc, string) op" where
  "hlc_now physical = andthen (get id) (\<lambda>c.
     andthen
       (if physical > hlc_latest c
        then modify (\<lambda>c. c\<lparr>hlc_latest := physical, hlc_counter := 0\<rparr>)
        else hlc_increment)
       (\<lambda>_. get hlc_stamp))"

section \<open>Texts\<close>

definition line_char :: "char \<Rightarrow> bool" where
  "line_char c \<longleftrightarrow> (of_char c :: nat) \<noteq> 10 \<and> (of_char c :: nat) \<noteq> 13"

definition node_ok :: "string \<Rightarrow> bool" where
  "node_ok n \<longleftrightarrow> n \<noteq> [] \<and> list_all line_char n"

text \<open>\<open>/^([0-9a-f]+)_([0-9a-f]+)_(.+)$/\<close> and \<open>/^(ISO)([:|])(\d+)\2(.+)$/\<close>, with their groups.\<close>

definition parse_canonical :: "string \<Rightarrow> hlc_timestamp option" where
  "parse_canonical s = (let p = takeWhile is_hex s; r1 = dropWhile is_hex s in
     case r1 of CHR ''_'' # r2 \<Rightarrow>
       (let c = takeWhile is_hex r2; r3 = dropWhile is_hex r2 in
        case r3 of CHR ''_'' # n \<Rightarrow>
          if p \<noteq> [] \<and> c \<noteq> [] \<and> node_ok n \<and> safe_int (int (str_val 16 p)) \<and> safe_int (int (str_val 16 c))
          then Some \<lparr>ts_physical = int (str_val 16 p), ts_counter = int (str_val 16 c), ts_node = n\<rparr>
          else None
        | _ \<Rightarrow> None)
     | _ \<Rightarrow> None)"

definition legacy_date_re :: regex where
  "legacy_date_re = seq [times 4 dec_re, lit ''-'', times 2 dec_re, lit ''-'', times 2 dec_re, lit ''T'',
     times 2 dec_re, lit '':'', times 2 dec_re, lit '':'', times 2 dec_re, lit ''.'', times 3 dec_re, lit ''Z'']"

definition parse_legacy :: "string \<Rightarrow> hlc_timestamp option" where
  "parse_legacy s = (let d = take 24 s in
     case drop 24 s of sep # r1 \<Rightarrow>
       (let c = takeWhile is_dec r1 in
        case dropWhile is_dec r1 of sep' # n \<Rightarrow>
          if re_test legacy_date_re d \<and> sep \<in> set '':|'' \<and> sep' = sep \<and> c \<noteq> [] \<and> node_ok n \<and>
             canonical_iso d \<and> safe_int (int (str_val 10 c))
          then Some \<lparr>ts_physical = the (iso_parse d), ts_counter = int (str_val 10 c), ts_node = n\<rparr>
          else None
        | _ \<Rightarrow> None)
     | _ \<Rightarrow> None)"

definition hlc_parse :: "string \<Rightarrow> js_error + hlc_timestamp" where
  "hlc_parse s = (case parse_canonical s of Some t \<Rightarrow> Inr t
     | None \<Rightarrow> (case parse_legacy s of Some t \<Rightarrow> Inr t
        | None \<Rightarrow> Inl (raise RangeError ''Invalid HLC timestamp'')))"

definition hlc_update :: "int \<Rightarrow> string \<Rightarrow> (hlc, string) op" where
  "hlc_update physical remoteStr = andthen (from_result (hlc_parse remoteStr)) (\<lambda>remote.
     andthen (get id) (\<lambda>c.
       andthen
         (if physical > hlc_latest c \<and> physical > ts_physical remote
          then modify (\<lambda>c. c\<lparr>hlc_latest := physical, hlc_counter := 0\<rparr>)
          else if hlc_latest c = ts_physical remote
          then andthen (modify (\<lambda>c. c\<lparr>hlc_counter := max (hlc_counter c) (ts_counter remote)\<rparr>))
            (\<lambda>_. hlc_increment)
          else if ts_physical remote > hlc_latest c
          then andthen (modify (\<lambda>c. c\<lparr>hlc_latest := ts_physical remote, hlc_counter := ts_counter remote\<rparr>))
            (\<lambda>_. hlc_increment)
          else hlc_increment)
         (\<lambda>_. get hlc_stamp)))"

definition hlc_order :: "(string \<Rightarrow> string \<Rightarrow> int) \<Rightarrow> hlc_timestamp \<Rightarrow> hlc_timestamp \<Rightarrow> int" where
  "hlc_order lc a b =
     (if ts_physical a \<noteq> ts_physical b then (if ts_physical a < ts_physical b then - 1 else 1)
      else if ts_counter a \<noteq> ts_counter b then (if ts_counter a < ts_counter b then - 1 else 1)
      else lc (ts_node a) (ts_node b))"

definition hlc_compare :: "(string \<Rightarrow> string \<Rightarrow> int) \<Rightarrow> string \<Rightarrow> string \<Rightarrow> js_error + int" where
  "hlc_compare lc a b = (case hlc_parse a of Inl e \<Rightarrow> Inl e | Inr pa \<Rightarrow>
     (case hlc_parse b of Inl e \<Rightarrow> Inl e | Inr pb \<Rightarrow> Inr (hlc_order lc pa pb)))"

section \<open>Texts read back\<close>

lemma takeWhile_stop: "list_all p u \<Longrightarrow> \<not> p x \<Longrightarrow> takeWhile p (u @ x # v) = u"
  and dropWhile_stop: "list_all p u \<Longrightarrow> \<not> p x \<Longrightarrow> dropWhile p (u @ x # v) = x # v"
  by (induction u) auto

lemma not_hex_us [simp]: "\<not> is_hex (CHR ''_'')"
  by (simp add: is_hex_def char_digit_def)

lemma list_all_hex: "list_all is_hex (pad_start k (hex_str n))"
  by (simp add: list_all_iff pad_hex_hex)

lemma parse_canonical_format:
  assumes "0 \<le> p" "0 \<le> c" "p \<le> max_safe_integer" "c \<le> max_safe_integer" "node_ok n"
  shows "parse_canonical (hlc_format p c n) = Some \<lparr>ts_physical = p, ts_counter = c, ts_node = n\<rparr>"
  using assms
  by (simp add: parse_canonical_def hlc_format_def int_hex_def takeWhile_stop dropWhile_stop
      list_all_hex safe_int_def)

lemma hlc_parse_format:
  assumes "0 \<le> p" "0 \<le> c" "p \<le> max_safe_integer" "c \<le> max_safe_integer" "node_ok n"
  shows "hlc_parse (hlc_format p c n) = Inr \<lparr>ts_physical = p, ts_counter = c, ts_node = n\<rparr>"
  by (simp add: hlc_parse_def parse_canonical_format [OF assms])


lemma hlc_parse_range:
  assumes "hlc_parse s = Inr t"
  shows "0 \<le> ts_counter t" "ts_counter t \<le> max_safe_integer" "ts_physical t \<le> max_safe_integer"
    "node_ok (ts_node t)"
proof -
  have "parse_canonical s = Some t \<or> parse_legacy s = Some t"
    using assms by (auto simp: hlc_parse_def split: option.splits)
  then have "0 \<le> ts_counter t \<and> ts_counter t \<le> max_safe_integer \<and>
      ts_physical t \<le> max_safe_integer \<and> node_ok (ts_node t)"
  proof
    assume "parse_canonical s = Some t"
    then show ?thesis
      by (auto simp: parse_canonical_def Let_def safe_int_def split: list.splits char.splits if_splits
          bool.splits)
  next
    assume l: "parse_legacy s = Some t"
    have "\<bar>u\<bar> \<le> 8640000000000000" if "iso_parse d = Some u" for d u
      using that by (auto simp: iso_parse_def Let_def bind_eq_Some_conv split: prod.splits if_splits)
    then have "u \<le> max_safe_integer" if "iso_parse d = Some u" for d u
      using that by (fastforce simp: max_safe_integer_def)
    with l show ?thesis
      by (auto simp: parse_legacy_def Let_def safe_int_def canonical_iso_def
          split: list.splits if_splits option.splits)
  qed
  then show "0 \<le> ts_counter t" "ts_counter t \<le> max_safe_integer" "ts_physical t \<le> max_safe_integer"
    "node_ok (ts_node t)" by simp_all
qed

section \<open>Monotonicity\<close>

definition wf_hlc :: "hlc \<Rightarrow> bool" where
  "wf_hlc c \<longleftrightarrow> 0 \<le> hlc_latest c \<and> hlc_latest c \<le> max_safe_integer \<and>
     0 \<le> hlc_counter c \<and> hlc_counter c \<le> max_safe_integer \<and> node_ok (hlc_node c)"

definition hlc_key :: "hlc \<Rightarrow> int \<times> int" where
  "hlc_key c = (hlc_latest c, hlc_counter c)"

definition ts_key :: "hlc_timestamp \<Rightarrow> int \<times> int" where
  "ts_key t = (ts_physical t, ts_counter t)"

lemmas hlc_key_defs = hlc_key_def ts_key_def less_prod_def

lemma wf_hlc_stamp:
  "wf_hlc c \<Longrightarrow> hlc_parse (hlc_stamp c) =
    Inr \<lparr>ts_physical = hlc_latest c, ts_counter = hlc_counter c, ts_node = hlc_node c\<rparr>"
  by (simp add: hlc_stamp_def wf_hlc_def hlc_parse_format)

lemma hlc_increment_step:
  assumes "hlc_increment c = (Inr u, c')" "wf_hlc c"
  shows "wf_hlc c'" "hlc_key c < hlc_key c'"
  using assms
  by (auto simp: hlc_increment_def wf_hlc_def hlc_key_defs split: if_splits)

lemma hlc_now_step:
  assumes "hlc_now physical c = (Inr s, c')" "wf_hlc c" "physical \<le> max_safe_integer"
  shows "wf_hlc c'" "hlc_key c < hlc_key c'" "s = hlc_stamp c'"
proof -
  have "wf_hlc c' \<and> hlc_key c < hlc_key c' \<and> s = hlc_stamp c'"
  proof (cases "physical > hlc_latest c")
    case True
    then show ?thesis using assms by (auto simp: hlc_now_def wf_hlc_def hlc_key_defs)
  next
    case False
    then show ?thesis
      using assms by (auto simp: hlc_now_def elim!: andthen_InrE dest: hlc_increment_step)
  qed
  then show "wf_hlc c'" "hlc_key c < hlc_key c'" "s = hlc_stamp c'" by simp_all
qed

lemma hlc_update_step:
  assumes "hlc_update physical r c = (Inr s, c')" "wf_hlc c" "physical \<le> max_safe_integer"
  shows "wf_hlc c'" "hlc_key c < hlc_key c'" "s = hlc_stamp c'"
    "\<exists>t. hlc_parse r = Inr t \<and> ts_key t < hlc_key c'"
proof -
  obtain t where t: "hlc_parse r = Inr t"
    using assms(1) by (auto simp: hlc_update_def split: sum.splits)
  note rt = hlc_parse_range [OF t]
  have bump: "wf_hlc c' \<and> hlc_key c < hlc_key c' \<and> ts_key t < hlc_key c'"
    if "hlc_increment d = (Inr u, c')" "wf_hlc d" "hlc_key c \<le> hlc_key d" "ts_key t \<le> hlc_key d" for d u
    using hlc_increment_step [OF that(1,2)] that(3,4) by force
  consider (clock) "physical > hlc_latest c" "physical > ts_physical t"
    | (same) "\<not> (physical > hlc_latest c \<and> physical > ts_physical t)" "hlc_latest c = ts_physical t"
    | (remote) "\<not> (physical > hlc_latest c \<and> physical > ts_physical t)" "ts_physical t > hlc_latest c"
    | (own) "\<not> (physical > hlc_latest c \<and> physical > ts_physical t)" "ts_physical t < hlc_latest c"
    by linarith
  then have "wf_hlc c' \<and> hlc_key c < hlc_key c' \<and> s = hlc_stamp c' \<and> ts_key t < hlc_key c'"
  proof cases
    case clock
    then show ?thesis using assms t by (auto simp: hlc_update_def wf_hlc_def hlc_key_defs)
  next
    case same
    let ?d = "c\<lparr>hlc_counter := max (hlc_counter c) (ts_counter t)\<rparr>"
    from same have "hlc_increment ?d = (Inr (), c') \<and> s = hlc_stamp c'"
      using assms(1) t by (auto simp: hlc_update_def elim!: andthen_InrE)
    then show ?thesis
      using bump [of ?d "()"] assms(2) rt same(2)
      by (auto simp: wf_hlc_def hlc_key_def ts_key_def less_eq_prod_def)
  next
    case remote
    let ?d = "c\<lparr>hlc_latest := ts_physical t, hlc_counter := ts_counter t\<rparr>"
    from remote have "hlc_increment ?d = (Inr (), c') \<and> s = hlc_stamp c'"
      using assms(1) t by (auto simp: hlc_update_def elim!: andthen_InrE)
    then show ?thesis
      using bump [of ?d "()"] assms(2) rt remote(2)
      by (auto simp: wf_hlc_def hlc_key_def ts_key_def less_eq_prod_def)
  next
    case own
    then have "hlc_increment c = (Inr (), c') \<and> s = hlc_stamp c'"
      using assms(1) t by (auto simp: hlc_update_def elim!: andthen_InrE)
    then show ?thesis
      using bump [of c "()"] assms(2) own(2)
      by (auto simp: hlc_key_def ts_key_def less_eq_prod_def)
  qed
  then show "wf_hlc c'" "hlc_key c < hlc_key c'" "s = hlc_stamp c'"
    "\<exists>t. hlc_parse r = Inr t \<and> ts_key t < hlc_key c'"
    using t by simp_all
qed

text \<open>A call that throws issues nothing and never sets the clock back; a text that is no timestamp leaves it alone.\<close>

lemma hlc_increment_Inl: "hlc_increment c = (Inl e, c') \<Longrightarrow> c' = c"
  by (auto simp: hlc_increment_def split: if_splits)

lemma hlc_now_Inl: "hlc_now physical c = (Inl e, c') \<Longrightarrow> c' = c"
  by (cases "hlc_increment c"; cases "fst (hlc_increment c)")
    (auto simp: hlc_now_def run_andthen_Inr run_andthen_Inl dest: hlc_increment_Inl split: if_splits)

lemma hlc_update_Inl:
  assumes "hlc_update physical r c = (Inl e, c')" "wf_hlc c"
  shows "wf_hlc c' \<and> hlc_key c \<le> hlc_key c' \<and> (isl (hlc_parse r) \<longrightarrow> c' = c)"
proof (cases "hlc_parse r")
  case (Inl e')
  then show ?thesis using assms by (simp add: hlc_update_def)
next
  case (Inr t)
  note rt = hlc_parse_range [OF Inr]
  have inc: "c' = d" if "andthen hlc_increment (\<lambda>_. get hlc_stamp) d = (Inl e, c')" for d
    using that by (cases "hlc_increment d"; cases "fst (hlc_increment d)")
      (auto simp: run_andthen_Inr run_andthen_Inl dest: hlc_increment_Inl)
  let ?same = "c\<lparr>hlc_counter := max (hlc_counter c) (ts_counter t)\<rparr>"
  let ?remote = "c\<lparr>hlc_latest := ts_physical t, hlc_counter := ts_counter t\<rparr>"
  have "c' = (if hlc_latest c = ts_physical t then ?same else if ts_physical t > hlc_latest c then ?remote else c)"
    using assms(1) Inr inc by (auto simp: hlc_update_def andthen_assoc split: if_splits)
  moreover have "wf_hlc ?same" "hlc_key c \<le> hlc_key ?same"
    using assms(2) rt by (auto simp: wf_hlc_def hlc_key_def less_eq_prod_def)
  moreover have "wf_hlc ?remote \<and> hlc_key c \<le> hlc_key ?remote" if "ts_physical t > hlc_latest c"
    using assms(2) rt that by (auto simp: wf_hlc_def hlc_key_def less_eq_prod_def)
  ultimately show ?thesis using assms(2) Inr by auto
qed

text \<open>A history of one clock: local ticks and received timestamps, with the clock reading of each.  Its stamps are
  listed with the events that issued them; an event that throws issues nothing and the clock goes on.\<close>

datatype hlc_event = Tick int | Receive int string

fun hlc_step :: "hlc_event \<Rightarrow> (hlc, string) op" where
  "hlc_step (Tick t) = hlc_now t"
| "hlc_step (Receive t r) = hlc_update t r"

fun hlc_run :: "hlc_event list \<Rightarrow> hlc \<Rightarrow> (hlc_event \<times> string) list" where
  "hlc_run [] c = []"
| "hlc_run (e # es) c = (case hlc_step e c of (Inr s, c') \<Rightarrow> (e, s) # hlc_run es c' | (Inl _, c') \<Rightarrow> hlc_run es c')"

fun event_clock :: "hlc_event \<Rightarrow> int" where
  "event_clock (Tick t) = t"
| "event_clock (Receive t _) = t"

text \<open>The timestamp an event brings in.\<close>

fun event_remote :: "hlc_event \<Rightarrow> string option" where
  "event_remote (Tick t) = None"
| "event_remote (Receive _ r) = Some r"

lemma hlc_step_ok:
  assumes "hlc_step e c = (Inr s, c')" "wf_hlc c" "event_clock e \<le> max_safe_integer"
  shows "wf_hlc c'" "hlc_key c < hlc_key c'" "s = hlc_stamp c'"
    "event_remote e = Some r \<Longrightarrow> \<exists>t. hlc_parse r = Inr t \<and> ts_key t < hlc_key c'"
  using assms hlc_now_step hlc_update_step by (cases e; fastforce)+

lemma hlc_step_Inl:
  assumes "hlc_step e c = (Inl err, c')" "wf_hlc c"
  shows "wf_hlc c'" "hlc_key c \<le> hlc_key c'"
  using assms hlc_update_Inl by (cases e; fastforce dest: hlc_now_Inl)+

lemma hlc_order_key: "ts_key a < ts_key b \<Longrightarrow> hlc_order lc a b = - 1"
  by (auto simp: hlc_order_def hlc_key_defs)

lemma hlc_run_above:
  assumes "wf_hlc c" "\<forall>e \<in> set es. event_clock e \<le> max_safe_integer" "(e', s) \<in> set (hlc_run es c)"
  shows "\<exists>t. hlc_parse s = Inr t \<and> hlc_key c < ts_key t"
  using assms
proof (induction es arbitrary: c)
  case (Cons e es)
  obtain r c' where st: "hlc_step e c = (r, c')" by fastforce
  show ?case
  proof (cases r)
    case (Inl err)
    note ok = hlc_step_Inl [OF st [unfolded Inl] Cons.prems(1)]
    have "\<exists>t. hlc_parse s = Inr t \<and> hlc_key c' < ts_key t" using Cons.IH [OF ok(1)] Cons.prems st Inl by simp
    then show ?thesis using ok(2) by (meson order_le_less_trans)
  next
    case (Inr s')
    note ok = hlc_step_ok [OF st [unfolded Inr] Cons.prems(1)]
    from Cons.prems st Inr consider "s = s'" | "(e', s) \<in> set (hlc_run es c')" by auto
    then show ?thesis
    proof cases
      case 1
      then show ?thesis
        using ok Cons.prems(2) wf_hlc_stamp [of c'] by (simp add: hlc_key_def ts_key_def)
    next
      case 2
      have "\<exists>t. hlc_parse s = Inr t \<and> hlc_key c' < ts_key t" using Cons.IH [OF ok(1) _ 2] Cons.prems(2) by simp
      then show ?thesis using ok(2) Cons.prems(2) by (meson order.strict_trans list.set_intros(1))
    qed
  qed
qed simp

lemma hlc_compare_above: "wf_hlc c \<Longrightarrow> hlc_parse r = Inr t \<Longrightarrow> ts_key t < hlc_key c \<Longrightarrow> hlc_compare lc r (hlc_stamp c) = Inr (- 1)"
  using wf_hlc_stamp [of c] by (auto simp: hlc_compare_def hlc_key_def ts_key_def intro!: hlc_order_key)

lemma hlc_compare_below: "wf_hlc c \<Longrightarrow> hlc_parse u = Inr t \<Longrightarrow> hlc_key c < ts_key t \<Longrightarrow> hlc_compare lc (hlc_stamp c) u = Inr (- 1)"
  using wf_hlc_stamp [of c] by (auto simp: hlc_compare_def hlc_key_def ts_key_def intro!: hlc_order_key)

lemma hlc_format_fields:
  assumes "0 \<le> p" "p < 16 ^ 12" "0 \<le> p'" "p' < 16 ^ 12"
    "0 \<le> c" "c < 65536" "0 \<le> c'" "c' < 65536"
  shows "hlc_format p c n < hlc_format p' c' n' \<longleftrightarrow>
    p < p' \<or> (p = p' \<and> (c < c' \<or> (c = c' \<and> n < n')))"
proof -
  define P P' C C' where "P = pad_start 12 (int_hex p)" and "P' = pad_start 12 (int_hex p')"
    and "C = pad_start 4 (int_hex c)" and "C' = pad_start 4 (int_hex c')"
  note F = P_def P'_def C_def C'_def
  have np: "nat p < 16 ^ 12" "nat p' < 16 ^ 12" "nat c < 16 ^ 4" "nat c' < 16 ^ 4"
    using assms by (simp_all add: nat_less_iff)
  have len: "length P = length P'" "length C = length C'"
    using assms np by (simp_all add: F int_hex_def length_pad_hex)
  have less: "P < P' \<longleftrightarrow> p < p'" "C < C' \<longleftrightarrow> c < c'" "P' < P \<longleftrightarrow> p' < p" "C' < C \<longleftrightarrow> c' < c"
    using assms np by (auto simp: F int_hex_def pad_hex_less nat_less_eq_zless)
  then have eq: "P = P' \<longleftrightarrow> p = p'" "C = C' \<longleftrightarrow> c = c'"
    by (metis less_irrefl linorder_neqE, metis less_irrefl linorder_neqE)
  show ?thesis
    unfolding hlc_format_def F [symmetric]
    by (simp add: less_append_same_length len less eq)
qed

lemma hlc_format_wide: "hlc_format p 65536 n < hlc_format p 65535 n"
proof -
  have "pad_start 4 (int_hex 65536) = map digit_char [1, 0, 0, 0, 0]"
    "pad_start 4 (int_hex 65535) = map digit_char [15, 15, 15, 15]"
    by (simp_all add: int_hex_def hex_str_def digits_of.simps pad_start_def)
  then show ?thesis by (simp add: hlc_format_def less_append_same_length digit_char_less)
qed

section \<open>Properties\<close>

text \<open>A timestamp the clock issues parses back to the clock's time, counter and node: the text
  loses nothing for times and counters up to the largest safe integer and any node id without line
  breaks.\<close>

theorem hlc_format_round_trip:
  assumes "0 \<le> p" "0 \<le> c" "p \<le> max_safe_integer" "c \<le> max_safe_integer" "node_ok n"
  shows "hlc_parse (hlc_format p c n) = Inr \<lparr>ts_physical = p, ts_counter = c, ts_node = n\<rparr>"
  by (rule hlc_parse_format [OF assms])

theorem hlc_format_round_trip_witness:
  "hlc_parse (hlc_format 1700000000000 65536 ''node_a'') =
    Inr \<lparr>ts_physical = 1700000000000, ts_counter = 65536, ts_node = ''node_a''\<rparr>"
  by (rule hlc_format_round_trip)
    (simp_all add: max_safe_integer_def node_ok_def line_char_def)

text \<open>C6. The stamps one clock issues in any history of local ticks and received texts, those that throw
  (malformed timestamps, an exhausted clock) included, are strictly increasing under the clock's own
  comparison, whatever the wall clock readings do and whatever the collation of node ids; a stamp
  issued for a received timestamp is greater than that timestamp; and a malformed text
  is refused with the clock as it was.\<close>

theorem hlc_history_increasing:
  assumes "wf_hlc c" "\<forall>e \<in> set es. event_clock e \<le> max_safe_integer"
  shows "sorted_wrt (\<lambda>a b. hlc_compare lc a b = Inr (- 1)) (map snd (hlc_run es c)) \<and>
    (\<forall>(e, s) \<in> set (hlc_run es c). \<forall>r. event_remote e = Some r \<longrightarrow> hlc_compare lc r s = Inr (- 1)) \<and>
    (\<forall>t r err. hlc_parse r = Inl err \<longrightarrow> hlc_update t r c = (Inl err, c))"
proof (intro conjI)
  show "\<forall>t r err. hlc_parse r = Inl err \<longrightarrow> hlc_update t r c = (Inl err, c)" by (simp add: hlc_update_def)
  have "sorted_wrt (\<lambda>a b. hlc_compare lc a b = Inr (- 1)) (map snd (hlc_run es c)) \<and>
    (\<forall>(e, s) \<in> set (hlc_run es c). \<forall>r. event_remote e = Some r \<longrightarrow> hlc_compare lc r s = Inr (- 1))"
    using assms
  proof (induction es arbitrary: c)
    case (Cons e es)
    obtain r c' where st: "hlc_step e c = (r, c')" by fastforce
    show ?case
    proof (cases r)
      case (Inl err)
      show ?thesis using Cons.IH [OF hlc_step_Inl(1) [OF st [unfolded Inl] Cons.prems(1)]] Cons.prems(2) st Inl by simp
    next
      case (Inr s)
      note ok = hlc_step_ok [OF st [unfolded Inr] Cons.prems(1)]
      have later: "hlc_compare lc s (snd u) = Inr (- 1)" if "u \<in> set (hlc_run es c')" for u
        using hlc_run_above [of c' es "fst u" "snd u"] that ok Cons.prems(2) hlc_compare_below [of c'] by auto
      have "hlc_compare lc q s = Inr (- 1)" if "event_remote e = Some q" for q
        using ok(4) [OF _ that] ok(1,3) Cons.prems(2) hlc_compare_above [of c'] by auto
      then show ?thesis using later Cons.IH [OF ok(1)] Cons.prems(2) st Inr by simp
    qed
  qed simp
  then show "sorted_wrt (\<lambda>a b. hlc_compare lc a b = Inr (- 1)) (map snd (hlc_run es c))"
    "\<forall>(e, s) \<in> set (hlc_run es c). \<forall>r. event_remote e = Some r \<longrightarrow> hlc_compare lc r s = Inr (- 1)" by blast+
qed

theorem hlc_history_increasing_witness:
  "sorted_wrt (\<lambda>a b. hlc_compare cmp_units a b = Inr (- 1))
     (map snd (hlc_run [Tick 5, Tick 3, Receive 4 ''00000000000a_0007_b'', Receive 12 ''bad'', Tick 10] (new_hlc ''a'' 4))) \<and>
   map snd (hlc_run [Tick 5, Tick 3, Receive 4 ''00000000000a_0007_b'', Receive 12 ''bad'', Tick 10] (new_hlc ''a'' 4)) =
     [''000000000005_0000_a'', ''000000000005_0001_a'', ''00000000000a_0008_a'', ''00000000000a_0009_a'']"
proof
  show "sorted_wrt (\<lambda>a b. hlc_compare cmp_units a b = Inr (- 1))
     (map snd (hlc_run [Tick 5, Tick 3, Receive 4 ''00000000000a_0007_b'', Receive 12 ''bad'', Tick 10] (new_hlc ''a'' 4)))"
    using hlc_history_increasing [of "new_hlc ''a'' 4"
        "[Tick 5, Tick 3, Receive 4 ''00000000000a_0007_b'', Receive 12 ''bad'', Tick 10]" cmp_units]
    by (simp add: wf_hlc_def new_hlc_def max_safe_integer_def node_ok_def line_char_def)
qed code_simp

text \<open>Comparing timestamps is a total preorder: every pair of well-formed timestamps compares,
  swapping the arguments swaps the sign, and the order is transitive, for every collation with the
  laws of one.\<close>

theorem hlc_compare_preorder:
  assumes "collation lc" "hlc_parse a = Inr ta" "hlc_parse b = Inr tb" "hlc_parse c = Inr tc"
  shows "\<exists>x y z w. hlc_compare lc a b = Inr x \<and> hlc_compare lc b a = Inr y \<and>
    hlc_compare lc b c = Inr z \<and> hlc_compare lc a c = Inr w \<and>
    (x < 0 \<longleftrightarrow> 0 < y) \<and> (x = 0 \<longleftrightarrow> y = 0) \<and> (x \<le> 0 \<and> z \<le> 0 \<longrightarrow> w \<le> 0)"
proof -
  have anti: "hlc_order lc u v < 0 \<longleftrightarrow> 0 < hlc_order lc v u" for u v
    using collation.lc_anti [OF assms(1)] by (simp add: hlc_order_def)
  have zero: "hlc_order lc u v = 0 \<longleftrightarrow> hlc_order lc v u = 0" for u v
    using anti [of u v] anti [of v u] by linarith
  have trans: "hlc_order lc ta tc \<le> 0" if "hlc_order lc ta tb \<le> 0" "hlc_order lc tb tc \<le> 0"
    using that collation.lc_trans [OF assms(1), of "ts_node ta" "ts_node tb" "ts_node tc"]
    by (auto simp: hlc_order_def split: if_splits)
  show ?thesis
    using assms(2-4) anti zero trans by (simp add: hlc_compare_def)
qed

theorem hlc_compare_preorder_witness:
  "\<exists>x y z w. hlc_compare cmp_units ''5_1_a'' ''5_2_a'' = Inr x \<and> hlc_compare cmp_units ''5_2_a'' ''5_1_a'' = Inr y \<and>
    hlc_compare cmp_units ''5_2_a'' ''6_0_a'' = Inr z \<and> hlc_compare cmp_units ''5_1_a'' ''6_0_a'' = Inr w \<and>
    (x < 0 \<longleftrightarrow> 0 < y) \<and> (x = 0 \<longleftrightarrow> y = 0) \<and> (x \<le> 0 \<and> z \<le> 0 \<longrightarrow> w \<le> 0)"
  by (rule hlc_compare_preorder [OF units.collation_axioms]; code_simp)

text \<open>Up to 16^12 milliseconds and with counters below 65536, the order of the texts, which the
  \<open>ORDER BY logical_timestamp\<close> of the inbox and the outbox uses, is the order of the timestamps
  (with node ids compared by code units); with a counter of 65536 the two orders part: the text
  sorts before the text of the preceding stamp 65535.\<close>

theorem hlc_text_order:
  "(0 \<le> p \<and> p < 16 ^ 12 \<and> 0 \<le> p' \<and> p' < 16 ^ 12 \<and> 0 \<le> c \<and> c < 65536 \<and> 0 \<le> c' \<and> c' < 65536 \<and>
      node_ok n \<and> node_ok n' \<longrightarrow>
     (hlc_format p c n < hlc_format p' c' n' \<longleftrightarrow>
      (\<exists>x < 0. hlc_compare cmp_units (hlc_format p c n) (hlc_format p' c' n') = Inr x))) \<and>
   hlc_format p 65536 n < hlc_format p 65535 n"
proof (intro conjI impI hlc_format_wide, elim conjE)
  assume h: "0 \<le> p" "p < 16 ^ 12" "0 \<le> p'" "p' < 16 ^ 12" "0 \<le> c" "c < 65536" "0 \<le> c'" "c' < 65536"
    "node_ok n" "node_ok n'"
  then have m: "p \<le> max_safe_integer" "p' \<le> max_safe_integer" "c \<le> max_safe_integer" "c' \<le> max_safe_integer"
    by (simp_all add: max_safe_integer_def)
  show "hlc_format p c n < hlc_format p' c' n' \<longleftrightarrow>
      (\<exists>x < 0. hlc_compare cmp_units (hlc_format p c n) (hlc_format p' c' n') = Inr x)"
    using h m by (auto simp: hlc_format_fields hlc_compare_def hlc_parse_format hlc_order_def cmp_units_def)
qed

theorem hlc_text_order_witness:
  "hlc_format 5 7 ''a'' < hlc_format 5 8 ''a'' \<longleftrightarrow>
    (\<exists>x < 0. hlc_compare cmp_units (hlc_format 5 7 ''a'') (hlc_format 5 8 ''a'') = Inr x)"
  using hlc_text_order [of 5 5 7 8 "''a''" "''a''"] by (simp add: node_ok_def line_char_def)

section \<open>Sync namespaces\<close>

text \<open>\<open>sync-protocol/src/namespace/NamespaceGenerator.ts\<close>: five segments joined by slashes.\<close>

record namespace_components =
  ns_application :: string
  ns_organisation :: string
  ns_group :: string
  ns_feature :: string
  ns_entity :: string

definition segment_char :: "char \<Rightarrow> bool" where
  "segment_char c \<longleftrightarrow> is_lower c \<or> is_dec c \<or> c = CHR ''_'' \<or> c = CHR ''-''"

definition segment_ok :: "string \<Rightarrow> bool" where
  "segment_ok v \<longleftrightarrow> v \<noteq> [] \<and> re_test (some (Sym segment_char)) v"

definition namespace_entries :: "namespace_components \<Rightarrow> (string \<times> string) list" where
  "namespace_entries n = [(''applicationId'', ns_application n), (''organisationId'', ns_organisation n),
     (''syncGroupId'', ns_group n), (''featureId'', ns_feature n), (''entityType'', ns_entity n)]"

definition namespace_generate :: "namespace_components \<Rightarrow> js_error + string" where
  "namespace_generate n =
     (case find_first (\<lambda>(k, v). \<not> segment_ok v) (namespace_entries n) of
        Some (k, v) \<Rightarrow> Inl (raise ValidationError (''Invalid segment '' @ quoted v @ '' for namespace key '' @ quoted k @
          ''. Segments must only contain lowercase alphanumeric characters, underscores, or hyphens.''))
      | None \<Rightarrow> Inr (join_with ''/'' (map snd (namespace_entries n))))"

definition namespace_parse :: "string \<Rightarrow> js_error + namespace_components" where
  "namespace_parse s = (case split_char (CHR ''/'') s of
     [a, b, c, d, e] \<Rightarrow> Inr \<lparr>ns_application = a, ns_organisation = b, ns_group = c, ns_feature = d, ns_entity = e\<rparr>
   | _ \<Rightarrow> Inl (raise ValidationError (''Namespace '' @ quoted s @
       '' is invalid. Must contain exactly 5 segments: application/organisation/sync-group/feature/entity.'')))"

text \<open>The loop over the pattern's segments, with the namespace's segments still to compare.\<close>

fun match_segments :: "string list \<Rightarrow> string list \<Rightarrow> bool" where
  "match_segments [] ns = (ns = [])"
| "match_segments (p # ps) [] = (p = ''*'')"
| "match_segments (p # ps) (n # ns) = (p = ''*'' \<or> (p = n \<and> match_segments ps ns))"

definition namespace_matches :: "string \<Rightarrow> string \<Rightarrow> bool" where
  "namespace_matches pattern namespace =
     (if pattern = ''*'' \<or> pattern = namespace then True
      else let ps = split_char (CHR ''/'') pattern; ns = split_char (CHR ''/'') namespace in
        if length ps > length ns then False else match_segments ps ns)"

lemma segment_no_slash: "segment_ok v \<Longrightarrow> CHR ''/'' \<notin> set v"
  by (auto simp: segment_ok_def re_test_iff accepts_plus_sym list_all_iff segment_char_def
      is_lower_def is_dec_def Let_def dest!: bspec)

lemma namespace_generate_ok:
  "namespace_generate n = Inr s \<longleftrightarrow>
    (\<forall>e \<in> set (namespace_entries n). segment_ok (snd e)) \<and> s = join_with ''/'' (map snd (namespace_entries n))"
proof (cases "find_first (\<lambda>(k, v). \<not> segment_ok v) (namespace_entries n)")
  case None
  then have "\<forall>e \<in> set (namespace_entries n). segment_ok (snd e)"
    by (fastforce simp: find_first_None)
  with None show ?thesis by (auto simp: namespace_generate_def)
next
  case (Some e)
  then show ?thesis
    using find_first_SomeD [OF Some] by (cases e) (fastforce simp: namespace_generate_def)
qed

lemma match_segments_iff:
  "length ps \<le> length ns \<Longrightarrow> match_segments ps ns \<longleftrightarrow>
    ps = ns \<or> (\<exists>pre rest tail. ps = pre @ ''*'' # rest \<and> ns = pre @ tail)"
proof (induction ps ns rule: match_segments.induct)
  case (3 p ps n ns)
  show ?case
  proof (cases "p = ''*''")
    case True
    then have "p # ps = [] @ ''*'' # ps \<and> n # ns = [] @ n # ns" by simp
    then show ?thesis using True by auto
  next
    case False
    have "(\<exists>pre rest tail. p # ps = pre @ ''*'' # rest \<and> n # ns = pre @ tail) \<longleftrightarrow>
        p = n \<and> (\<exists>pre rest tail. ps = pre @ ''*'' # rest \<and> ns = pre @ tail)"
      using False by (auto simp: Cons_eq_append_conv)
    then show ?thesis using 3 False by auto
  qed
qed auto

text \<open>A generated namespace parses back to the components it was made from, so that distinct
  components never share a namespace; and it matches exactly the patterns \<open>*\<close>, itself, or a prefix
  of its segments followed by a \<open>*\<close> segment.\<close>

theorem namespace_round_trip:
  assumes "namespace_generate n = Inr s"
  shows "namespace_parse s = Inr n \<and>
    (namespace_matches pat s \<longleftrightarrow> pat = s \<or>
      (\<exists>pre rest tail. split_char (CHR ''/'') pat = pre @ ''*'' # rest \<and>
         map snd (namespace_entries n) = pre @ tail \<and> length (pre @ ''*'' # rest) \<le> 5))"
proof -
  let ?segs = "map snd (namespace_entries n)"
  have ok: "segment_ok v" if "v \<in> set ?segs" for v
    using assms that by (auto simp: namespace_generate_ok)
  have s: "s = join_with ''/'' ?segs" using assms by (simp add: namespace_generate_ok)
  have split: "split_char (CHR ''/'') s = ?segs"
    unfolding s by (rule split_join) (auto simp: namespace_entries_def intro!: segment_no_slash ok)
  then have parse: "namespace_parse s = Inr n"
    by (simp add: namespace_parse_def namespace_entries_def)
  have star: "(pat = ''*'') \<longrightarrow> split_char (CHR ''/'') pat = [] @ ''*'' # []" by simp
  have eq: "split_char (CHR ''/'') pat = ?segs \<longleftrightarrow> pat = s"
    using split join_split [of "CHR ''/''" pat] s by metis
  have len: "length ?segs = 5" by (simp add: namespace_entries_def)
  have "namespace_matches pat s \<longleftrightarrow> pat = s \<or>
      (\<exists>pre rest tail. split_char (CHR ''/'') pat = pre @ ''*'' # rest \<and>
         ?segs = pre @ tail \<and> length (pre @ ''*'' # rest) \<le> 5)"
  proof (cases "pat = ''*''")
    case True
    then have "split_char (CHR ''/'') pat = [] @ ''*'' # [] \<and> ?segs = [] @ ?segs" by simp
    then show ?thesis using True by (fastforce simp: namespace_matches_def)
  next
    case False
    then have "namespace_matches pat s \<longleftrightarrow> pat = s \<or>
        (length (split_char (CHR ''/'') pat) \<le> 5 \<and> match_segments (split_char (CHR ''/'') pat) ?segs)"
      using split len by (auto simp: namespace_matches_def Let_def)
    also have "\<dots> \<longleftrightarrow> pat = s \<or> (length (split_char (CHR ''/'') pat) \<le> 5 \<and>
        (\<exists>pre rest tail. split_char (CHR ''/'') pat = pre @ ''*'' # rest \<and> ?segs = pre @ tail))"
      using match_segments_iff [of "split_char (CHR ''/'') pat" ?segs] unfolding eq len by blast
    finally show ?thesis by metis
  qed
  with parse show ?thesis by simp
qed

theorem namespace_round_trip_witness:
  "namespace_parse ''app/org/g-1/notes/note'' = Inr \<lparr>ns_application = ''app'', ns_organisation = ''org'',
     ns_group = ''g-1'', ns_feature = ''notes'', ns_entity = ''note''\<rparr>"
  by (rule namespace_round_trip [THEN conjunct1]) code_simp

end
