(* ===== verification/Tasks.thy ===== *)
theory Tasks
  imports Json Hlc
begin

text \<open>
  The durable task queue of \<open>packages/tasks\<close>: the retry calculator (\<open>TaskRetryCalculator.ts\<close>), the
  table \<open>core_background_tasks\<close> and the operations of \<open>TaskQueueService.ts\<close> on it.  The state of an
  operation is the table; clock readings, generated ids and the random factor are arguments.
  A payload that \<open>JSON.stringify\<close> cannot write is told apart from one it writes.
\<close>

section \<open>Data\<close>

datatype task_state = PENDING | RUNNING | COMPLETED | FAILED | CANCELLED

record retry_policy =
  pol_max_attempts :: jsnum
  pol_initial_delay :: jsnum
  pol_multiplier :: jsnum
  pol_max_delay :: jsnum
  pol_jitter :: jsnum

definition DEFAULT_RETRY_POLICY :: retry_policy where
  "DEFAULT_RETRY_POLICY = \<lparr>pol_max_attempts = Fin 3, pol_initial_delay = Fin 1000,
     pol_multiplier = Fin 2, pol_max_delay = Fin 60000, pol_jitter = Fin (1 / 4)\<rparr>"

datatype payload_arg = Serializable json | Undefined | Throws string

text \<open>The partial policy of a definition: each field may be absent.\<close>

record policy_overrides =
  ov_max_attempts :: "jsnum option"
  ov_initial_delay :: "jsnum option"
  ov_multiplier :: "jsnum option"
  ov_max_delay :: "jsnum option"
  ov_jitter :: "jsnum option"

record task_definition =
  def_type :: string
  def_unique_key :: "string option"
  def_payload :: payload_arg
  def_scheduled_at :: "string option"
  def_policy :: policy_overrides
  def_timeout :: "jsnum option"
  def_org :: string
  def_user :: "string option"
  def_correlation :: string

record task_row =
  task_id :: string
  task_created_at :: string
  task_updated_at :: string
  task_type :: string
  task_unique_key :: "string option"
  task_org :: string
  task_user :: "string option"
  task_payload_json :: string
  task_status :: task_state
  task_attempts :: int
  task_max_attempts :: int
  task_retry_delay :: rat
  task_multiplier :: rat
  task_max_delay :: rat
  task_jitter :: rat
  task_scheduled_at :: string
  task_started_at :: "string option"
  task_completed_at :: "string option"
  task_failed_at :: "string option"
  task_last_error :: "string option"
  task_timeout :: int
  task_correlation :: string

type_synonym task_table = "task_row list"

text \<open>A record returned to a caller: the row with its payload parsed.\<close>

type_synonym task_record = "task_row \<times> json"

section \<open>The retry calculator\<close>

definition is_platform_error :: "js_error \<Rightarrow> bool" where
  "is_platform_error e \<longleftrightarrow> error_code (err_class e) \<noteq> None"

definition NON_RETRYABLE_CLASSES :: "(error_class \<times> string) list" where
  "NON_RETRYABLE_CLASSES = [(AuthorizationError, ''AuthorizationError''),
     (ValidationError, ''ValidationError''), (CompatibilityError, ''CompatibilityError'')]"

record retry_decision =
  dec_retryable :: bool
  dec_delay :: "jsnum option"
  dec_reason :: string

fun jsnum_str :: "jsnum \<Rightarrow> string" where
  "jsnum_str (Fin q) = num_str q"
| "jsnum_str PosInf = ''Infinity''"
| "jsnum_str NegInf = ''-Infinity''"
| "jsnum_str NaN = ''NaN''"

record numeric_policy =
  np_max_attempts :: int
  np_initial_delay :: rat
  np_multiplier :: rat
  np_max_delay :: rat
  np_jitter :: rat

definition retry_delay :: "int \<Rightarrow> numeric_policy \<Rightarrow> rat \<Rightarrow> jsnum" where
  "retry_delay attempt p rnd =
     (let base = js_mul (Fin (np_initial_delay p)) (js_pow (np_multiplier p) (attempt - 1));
          capped = js_min base (Fin (np_max_delay p));
          jitterFactor = 1 + (rnd * 2 - 1) * np_jitter p
      in js_max (Fin 0) (js_map (\<lambda>q. of_int (js_round q)) (js_mul capped (Fin jitterFactor))))"

definition permanent :: "string \<Rightarrow> retry_decision" where
  "permanent reason = \<lparr>dec_retryable = False, dec_delay = None, dec_reason = reason\<rparr>"

definition decide :: "thrown \<Rightarrow> int \<Rightarrow> numeric_policy \<Rightarrow> rat \<Rightarrow> retry_decision" where
  "decide err attempt p rnd =
     (case (case err of Thrown e \<Rightarrow>
          if is_platform_error e \<and> \<not> err_retryable e
          then Some (permanent (''Non-retryable PlatformError ('' @ the (error_code (err_class e)) @ ''): '' @ err_message e))
          else map_option (\<lambda>(_, n). permanent (''Permanent error class '' @ n @ ''; will not retry.''))
            (find_first (\<lambda>(c, _). err_class e = c) NON_RETRYABLE_CLASSES)
        | OtherValue _ \<Rightarrow> None) of
        Some d \<Rightarrow> d
      | None \<Rightarrow>
          if attempt \<ge> np_max_attempts p
          then permanent (''Attempt '' @ int_str attempt @ '' reached maxAttempts ('' @
            int_str (np_max_attempts p) @ '').'')
          else let delay = retry_delay attempt p rnd in
            \<lparr>dec_retryable = True, dec_delay = Some delay,
             dec_reason = ''Transient error; retry attempt '' @ int_str (attempt + 1) @ '' after '' @
               jsnum_str delay @ ''ms.''\<rparr>)"

definition isNonRetryableClass :: "thrown \<Rightarrow> bool" where
  "isNonRetryableClass err = (case err of
       Thrown e \<Rightarrow> err_class e \<in> fst ` set NON_RETRYABLE_CLASSES \<or> (is_platform_error e \<and> \<not> err_retryable e)
     | OtherValue _ \<Rightarrow> False)"

section \<open>Enqueueing\<close>

definition rowToRecord :: "task_row \<Rightarrow> js_error + task_record" where
  "rowToRecord row = (case json_parse (task_payload_json row) of
       Inr payload \<Rightarrow> Inr (row, payload)
     | Inl _ \<Rightarrow> Inl (raise DatabaseError (''Task '' @ quoted (task_id row) @
         '' contains malformed persisted payload JSON'')))"

definition merge_policy :: "policy_overrides \<Rightarrow> retry_policy" where
  "merge_policy ov = (let pick = (\<lambda>x y. case x of Some v \<Rightarrow> v | None \<Rightarrow> y); d = DEFAULT_RETRY_POLICY in
     \<lparr>pol_max_attempts = pick (ov_max_attempts ov) (pol_max_attempts d),
      pol_initial_delay = pick (ov_initial_delay ov) (pol_initial_delay d),
      pol_multiplier = pick (ov_multiplier ov) (pol_multiplier d),
      pol_max_delay = pick (ov_max_delay ov) (pol_max_delay d),
      pol_jitter = pick (ov_jitter ov) (pol_jitter d)\<rparr>)"

definition policy_valid :: "retry_policy \<Rightarrow> bool" where
  "policy_valid p \<longleftrightarrow>
     is_safe_integer (pol_max_attempts p) \<and> js_less (Fin 0) (pol_max_attempts p) \<and>
     is_finite (pol_initial_delay p) \<and> \<not> js_less (pol_initial_delay p) (Fin 0) \<and>
     is_finite (pol_multiplier p) \<and> \<not> js_le (pol_multiplier p) (Fin 0) \<and>
     is_finite (pol_max_delay p) \<and> \<not> js_less (pol_max_delay p) (Fin 0) \<and>
     is_finite (pol_jitter p) \<and> \<not> js_less (pol_jitter p) (Fin 0) \<and> \<not> js_less (Fin 1) (pol_jitter p)"

definition invalid_field :: "string \<Rightarrow> string \<Rightarrow> js_error" where
  "invalid_field field value =
     raise ValidationError (''Invalid task definition field '' @ field @ '': '' @ value)"

definition effective_timeout :: "task_definition \<Rightarrow> jsnum" where
  "effective_timeout d = (case def_timeout d of Some t \<Rightarrow> t | None \<Rightarrow> Fin 30000)"

text \<open>The checks in the code's order; the result is the serialised payload.\<close>

definition validate_definition :: "task_definition \<Rightarrow> js_error + string" where
  "validate_definition d = (let policy = merge_policy (def_policy d); timeoutMs = effective_timeout d in
     if trim (def_type d) = [] then Inl (invalid_field ''taskType'' (def_type d))
     else if trim (def_org d) = [] then Inl (invalid_field ''organisationId'' (def_org d))
     else if trim (def_correlation d) = [] then Inl (invalid_field ''correlationId'' (def_correlation d))
     else if \<not> policy_valid policy then Inl (invalid_field ''retryPolicy'' ''[object Object]'')
     else if \<not> is_safe_integer timeoutMs \<or> js_le timeoutMs (Fin 0)
       then Inl (invalid_field ''timeoutMs'' (jsnum_str timeoutMs))
     else (case def_payload d of
         Serializable v \<Rightarrow> Inr (stringify v)
       | Undefined \<Rightarrow> Inl (invalid_field ''payload'' ''undefined'')
       | Throws m \<Rightarrow> Inl (invalid_field ''payload'' m)))"

definition active :: "task_row \<Rightarrow> bool" where
  "active r \<longleftrightarrow> task_status r = PENDING \<or> task_status r = RUNNING"

definition find_active :: "string \<Rightarrow> task_table \<Rightarrow> task_row option" where
  "find_active key rows = find_first (\<lambda>r. task_unique_key r = Some key \<and> active r) rows"

definition new_task_row :: "task_definition \<Rightarrow> string \<Rightarrow> string \<Rightarrow> string \<Rightarrow> task_row" where
  "new_task_row d payload newId now = (let p = merge_policy (def_policy d) in
     \<lparr>task_id = newId, task_created_at = now, task_updated_at = now, task_type = def_type d,
      task_unique_key = def_unique_key d, task_org = def_org d, task_user = def_user d,
      task_payload_json = payload, task_status = PENDING, task_attempts = 0,
      task_max_attempts = \<lfloor>num_val (pol_max_attempts p)\<rfloor>,
      task_retry_delay = num_val (pol_initial_delay p), task_multiplier = num_val (pol_multiplier p),
      task_max_delay = num_val (pol_max_delay p), task_jitter = num_val (pol_jitter p),
      task_scheduled_at = (case def_scheduled_at d of Some t \<Rightarrow> t | None \<Rightarrow> now),
      task_started_at = None, task_completed_at = None, task_failed_at = None, task_last_error = None,
      task_timeout = \<lfloor>num_val (effective_timeout d)\<rfloor>, task_correlation = def_correlation d\<rparr>)"

text \<open>INSERT, with the primary key and the partial unique index of the table.\<close>

definition insert_task :: "task_row \<Rightarrow> (task_table, unit) op" where
  "insert_task row = andthen (get id) (\<lambda>rows.
     andthen (guard (\<forall>r \<in> set rows. task_id r \<noteq> task_id row)
       (raise PlainError ''UNIQUE constraint failed: core_background_tasks.id''))
     (\<lambda>_. andthen (guard (task_unique_key row = None \<or> \<not> active row \<or>
          (\<forall>r \<in> set rows. \<not> (task_unique_key r = task_unique_key row \<and> active r)))
        (raise PlainError ''UNIQUE constraint failed: core_background_tasks.unique_key''))
     (\<lambda>_. modify (\<lambda>rows. rows @ [row]))))"

fun truthy :: "string option \<Rightarrow> bool" where
  "truthy (Some s) = (s \<noteq> [])"
| "truthy None = False"

text \<open>The part of \<open>enqueue\<close> from the INSERT on: a rejected insert reads the winner of the race.\<close>

definition enqueue_insert :: "task_definition \<Rightarrow> string \<Rightarrow> string \<Rightarrow> string \<Rightarrow> (task_table, task_record) op" where
  "enqueue_insert d payload newId now =
     andthen
       (catch_op (andthen (insert_task (new_task_row d payload newId now)) (\<lambda>_. ret None))
         (\<lambda>e. if truthy (def_unique_key d)
              then andthen (get (find_active (the (def_unique_key d)))) (\<lambda>winner.
                case winner of Some w \<Rightarrow> andthen (from_result (rowToRecord w)) (\<lambda>r. ret (Some r))
                | None \<Rightarrow> throw e)
              else throw e))
       (\<lambda>winner. case winner of Some r \<Rightarrow> ret r
        | None \<Rightarrow> andthen (get (find_first (\<lambda>r. task_id r = newId))) (\<lambda>row.
            case row of Some r \<Rightarrow> from_result (rowToRecord r)
            | None \<Rightarrow> throw (raise DatabaseError (
                ''TaskQueueService.enqueue: failed to retrieve task after insert (id='' @ newId @ '')''))))"

definition enqueue :: "task_definition \<Rightarrow> string \<Rightarrow> string \<Rightarrow> (task_table, task_record) op" where
  "enqueue d newId now =
     andthen (from_result (validate_definition d)) (\<lambda>payload.
     andthen (if truthy (def_unique_key d) then get (find_active (the (def_unique_key d))) else ret None)
     (\<lambda>existing. case existing of
        Some row \<Rightarrow> from_result (rowToRecord row)
      | None \<Rightarrow> enqueue_insert d payload newId now))"

section \<open>Claiming and finishing\<close>

definition MAX_TASK_LIST_SIZE :: int where "MAX_TASK_LIST_SIZE = 100"

definition claimable :: "string \<Rightarrow> string list \<Rightarrow> task_row \<Rightarrow> bool" where
  "claimable now types r \<longleftrightarrow> task_status r = PENDING \<and> task_scheduled_at r \<le> now \<and>
     (types = [] \<or> task_type r \<in> set types)"

definition claim_ids :: "nat \<Rightarrow> string list \<Rightarrow> string \<Rightarrow> task_table \<Rightarrow> string list" where
  "claim_ids limit types now rows =
     map task_id (take limit (order_by task_scheduled_at (filter (claimable now types) rows)))"

definition start_task :: "string \<Rightarrow> task_row \<Rightarrow> task_row" where
  "start_task now r = r\<lparr>task_status := RUNNING, task_started_at := Some now, task_updated_at := now,
     task_attempts := task_attempts r + 1\<rparr>"

definition quarantine :: "string \<Rightarrow> string \<Rightarrow> (task_table, unit) op" where
  "quarantine now taskId = modify (sql_update (\<lambda>r. task_id r = taskId \<and> task_status r = RUNNING)
     (\<lambda>r. r\<lparr>task_status := FAILED, task_failed_at := Some now,
        task_last_error := Some ''Task payload contains malformed JSON'', task_updated_at := now\<rparr>))"

fun collect_claimed :: "string \<Rightarrow> task_row list \<Rightarrow> (task_table, task_record list) op" where
  "collect_claimed now [] = ret []"
| "collect_claimed now (row # rows) = (case rowToRecord row of
       Inr t \<Rightarrow> andthen (collect_claimed now rows) (\<lambda>ts. ret (t # ts))
     | Inl e \<Rightarrow> if err_class e \<noteq> DatabaseError then throw e
         else andthen (quarantine now (task_id row)) (\<lambda>_. collect_claimed now rows))"

text \<open>The UPDATE ... RETURNING statement: the rows it returns and the table it leaves.\<close>

definition claim_update :: "nat \<Rightarrow> string list \<Rightarrow> string \<Rightarrow> (task_table, task_row list) op" where
  "claim_update limit types now = andthen (get id) (\<lambda>rows.
     let ids = claim_ids limit types now rows;
         hit = (\<lambda>r. task_id r \<in> set ids \<and> task_status r = PENDING)
     in andthen (modify (sql_update hit (start_task now)))
          (\<lambda>_. ret (map (start_task now) (filter hit rows))))"

definition claimNextBatch ::
    "(string \<Rightarrow> string \<Rightarrow> int) \<Rightarrow> jsnum \<Rightarrow> string list \<Rightarrow> string \<Rightarrow> string \<Rightarrow> (task_table, task_record list) op" where
  "claimNextBatch lc limit types now now' =
     andthen (guard (is_safe_integer limit \<and> \<not> js_le limit (Fin 0))
       (raise ValidationError (''Task batch limit must be a positive safe integer; received '' @ jsnum_str limit)))
     (\<lambda>_. andthen (claim_update (nat \<lfloor>num_val limit\<rfloor>) types now)
     (\<lambda>rows. collect_claimed now'
        (js_sort (\<lambda>a b. lc (task_scheduled_at a) (task_scheduled_at b)) rows)))"

definition markCompleted :: "string \<Rightarrow> string \<Rightarrow> (task_table, unit) op" where
  "markCompleted taskId now = modify (sql_update
     (\<lambda>r. task_id r = taskId \<and> task_status r = RUNNING)
     (\<lambda>r. r\<lparr>task_status := COMPLETED, task_completed_at := Some now, task_updated_at := now\<rparr>))"

definition row_policy :: "task_row \<Rightarrow> numeric_policy" where
  "row_policy r = \<lparr>np_max_attempts = task_max_attempts r, np_initial_delay = task_retry_delay r,
     np_multiplier = task_multiplier r, np_max_delay = task_max_delay r, np_jitter = task_jitter r\<rparr>"

text \<open>The write of \<open>markFailed\<close>, for the row it read before: it takes effect only on a row that is
  still RUNNING in the same attempt.\<close>

definition fail_write :: "task_row \<Rightarrow> thrown \<Rightarrow> string \<Rightarrow> int \<Rightarrow> rat \<Rightarrow> (task_table, bool) op" where
  "fail_write row err now now_ms rnd =
     (let decision = decide err (task_attempts row) (row_policy row) rnd;
          same = (\<lambda>r. task_id r = task_id row \<and> task_status r = RUNNING \<and> task_attempts r = task_attempts row)
      in case (dec_retryable decision, dec_delay decision) of
        (True, Some delay) \<Rightarrow>
          andthen (from_result (to_iso (js_map (\<lambda>q. of_int now_ms + q) delay))) (\<lambda>next.
          andthen (get (sql_count same)) (\<lambda>n.
          andthen (modify (sql_update same
            (\<lambda>r. r\<lparr>task_status := PENDING, task_scheduled_at := next,
               task_last_error := Some (thrown_message err), task_failed_at := None, task_updated_at := now\<rparr>)))
          (\<lambda>_. ret (0 < n))))
      | _ \<Rightarrow>
          andthen (modify (sql_update same
            (\<lambda>r. r\<lparr>task_status := FAILED, task_failed_at := Some now,
               task_last_error := Some (thrown_message err), task_updated_at := now\<rparr>)))
          (\<lambda>_. ret False))"

definition markFailed :: "string \<Rightarrow> thrown \<Rightarrow> string \<Rightarrow> int \<Rightarrow> rat \<Rightarrow> (task_table, bool) op" where
  "markFailed taskId err now now_ms rnd =
     andthen (get (find_first (\<lambda>r. task_id r = taskId))) (\<lambda>found. case found of
       None \<Rightarrow> ret False
     | Some row \<Rightarrow> if task_status row \<noteq> RUNNING then ret False else fail_write row err now now_ms rnd)"

definition cancel :: "string \<Rightarrow> string \<Rightarrow> string \<Rightarrow> (task_table, unit) op" where
  "cancel taskId reason now = modify (sql_update (\<lambda>r. task_id r = taskId \<and> active r)
     (\<lambda>r. r\<lparr>task_status := CANCELLED, task_last_error := Some reason, task_updated_at := now\<rparr>))"

definition recoverHangingTasks :: "jsnum \<Rightarrow> int \<Rightarrow> (task_table, nat) op" where
  "recoverHangingTasks timeoutMs now_ms =
     andthen (from_result (to_iso (js_map (\<lambda>t. of_int now_ms - t) timeoutMs))) (\<lambda>cutoff.
     andthen (from_result (to_iso (Fin (of_int now_ms)))) (\<lambda>nowIso.
       let hanging = (\<lambda>r. task_status r = RUNNING \<and>
             (case task_started_at r of Some s \<Rightarrow> s \<le> cutoff | None \<Rightarrow> False))
       in andthen (get (sql_count hanging)) (\<lambda>n.
          andthen (modify (sql_update hanging
            (\<lambda>r. r\<lparr>task_status := PENDING, task_started_at := None,
               task_last_error := Some ''Recovered after process crash or timeout'',
               task_updated_at := nowIso, task_scheduled_at := nowIso\<rparr>)))
          (\<lambda>_. ret n))))"

fun map_result :: "('a \<Rightarrow> js_error + 'b) \<Rightarrow> 'a list \<Rightarrow> js_error + 'b list" where
  "map_result f [] = Inr []"
| "map_result f (x # xs) = (case f x of Inl e \<Rightarrow> Inl e | Inr y \<Rightarrow>
     (case map_result f xs of Inl e \<Rightarrow> Inl e | Inr ys \<Rightarrow> Inr (y # ys)))"

definition listByState :: "string \<Rightarrow> task_state \<Rightarrow> jsnum \<Rightarrow> (task_table, task_record list) op" where
  "listByState org st limit =
     andthen (guard (is_safe_integer limit \<and> \<not> js_le limit (Fin 0) \<and> \<not> js_less (Fin (of_int MAX_TASK_LIST_SIZE)) limit)
       (raise ValidationError ''Task list limit must be a positive safe integer no greater than 100''))
     (\<lambda>_. andthen (get (\<lambda>rows. take (nat \<lfloor>num_val limit\<rfloor>)
        (order_by_desc task_created_at (filter (\<lambda>r. task_org r = org \<and> task_status r = st) rows))))
     (\<lambda>rows. from_result (map_result rowToRecord rows)))"

definition findById :: "string \<Rightarrow> (task_table, task_record option) op" where
  "findById taskId = andthen (get (find_first (\<lambda>r. task_id r = taskId))) (\<lambda>found. case found of
     None \<Rightarrow> ret None | Some row \<Rightarrow> andthen (from_result (rowToRecord row)) (\<lambda>r. ret (Some r)))"

section \<open>Well-formed tables\<close>

definition terminal :: "task_state \<Rightarrow> bool" where
  "terminal s \<longleftrightarrow> s = COMPLETED \<or> s = FAILED \<or> s = CANCELLED"

definition active_keys :: "task_table \<Rightarrow> string list" where
  "active_keys rows = map (\<lambda>r. the (task_unique_key r)) (filter (\<lambda>r. task_unique_key r \<noteq> None \<and> active r) rows)"

text \<open>Ids are unique, a unique key has at most one active task, and the numbers are in range.\<close>

definition row_ok :: "task_row \<Rightarrow> bool" where
  "row_ok r \<longleftrightarrow> 0 \<le> task_attempts r \<and> 0 < task_max_attempts r \<and> 0 < task_timeout r \<and>
     0 \<le> task_retry_delay r \<and> 0 < task_multiplier r \<and> 0 \<le> task_max_delay r \<and>
     0 \<le> task_jitter r \<and> task_jitter r \<le> 1 \<and>
     (task_status r = RUNNING \<longrightarrow> 0 < task_attempts r \<and> task_started_at r \<noteq> None)"

definition task_inv :: "task_table \<Rightarrow> bool" where
  "task_inv rows \<longleftrightarrow> distinct (map task_id rows) \<and> distinct (active_keys rows) \<and> list_all row_ok rows"

text \<open>The attempts bound, which every operation but the recovery keeps.\<close>

definition attempts_ok :: "task_row \<Rightarrow> bool" where
  "attempts_ok r \<longleftrightarrow> task_attempts r \<le> task_max_attempts r \<and>
     (task_status r = PENDING \<longrightarrow> task_attempts r < task_max_attempts r)"

section \<open>Updates keep the table well formed\<close>

lemma active_keys_Cons [simp]:
  "active_keys (r # rows) = (case task_unique_key r of Some k \<Rightarrow> if active r then [k] else [] | None \<Rightarrow> []) @ active_keys rows"
  by (auto simp: active_keys_def split: option.splits)

lemma active_keys_Nil [simp]: "active_keys [] = []"
  by (simp add: active_keys_def)

lemma active_keys_append [simp]: "active_keys (a @ b) = active_keys a @ active_keys b"
  by (simp add: active_keys_def)

lemma active_keys_in: "k \<in> set (active_keys rows) \<longleftrightarrow> (\<exists>r \<in> set rows. task_unique_key r = Some k \<and> active r)"
  by (force simp: active_keys_def image_iff)

text \<open>An update that keeps ids and keys and activates nothing.\<close>

lemma update_keys:
  assumes "\<And>r. hit r \<Longrightarrow> task_unique_key (f r) = task_unique_key r \<and> (active (f r) \<longrightarrow> active r)"
  shows "set (active_keys (sql_update hit f rows)) \<subseteq> set (active_keys rows)"
    "distinct (active_keys rows) \<Longrightarrow> distinct (active_keys (sql_update hit f rows))"
proof (induction rows)
  case (Cons r rows)
  have key: "task_unique_key (if hit r then f r else r) = task_unique_key r"
    "active (if hit r then f r else r) \<longrightarrow> active r" using assms by auto
  { case 1
    show ?case using Cons(1) key by (auto split: option.splits) }
  { case 2
    then show ?case using Cons key by (auto split: option.splits if_splits) }
qed simp_all

lemma update_inv:
  assumes "\<And>r. hit r \<Longrightarrow> task_id (f r) = task_id r \<and> task_unique_key (f r) = task_unique_key r \<and>
      (active (f r) \<longrightarrow> active r)"
    "\<And>r. hit r \<Longrightarrow> row_ok r \<Longrightarrow> row_ok (f r)" "task_inv rows"
  shows "task_inv (sql_update hit f rows)"
  using assms update_keys(2) [of hit f rows]
  by (auto simp: task_inv_def map_sql_update set_sql_update list_all_iff)

lemma update_preserves_inv:
  assumes "\<And>r. hit r \<Longrightarrow> task_id (f r) = task_id r \<and> task_unique_key (f r) = task_unique_key r \<and>
      (active (f r) \<longrightarrow> active r)"
    "\<And>r. hit r \<Longrightarrow> row_ok r \<Longrightarrow> row_ok (f r)"
  shows "preserves task_inv (modify (sql_update hit f))"
  by (rule preserves_modify) (rule update_inv [OF assms])

lemmas row_defs = row_ok_def active_def start_task_def

lemma insert_task_run:
  "insert_task row rows =
    (if \<exists>r \<in> set rows. task_id r = task_id row
     then (Inl (raise PlainError ''UNIQUE constraint failed: core_background_tasks.id''), rows)
     else if task_unique_key row \<noteq> None \<and> active row \<and>
        (\<exists>r \<in> set rows. task_unique_key r = task_unique_key row \<and> active r)
     then (Inl (raise PlainError ''UNIQUE constraint failed: core_background_tasks.unique_key''), rows)
     else (Inr (), rows @ [row]))"
  by (auto simp: insert_task_def)

lemma insert_inv:
  assumes "task_inv rows" "row_ok row" "insert_task row rows = (x, rows')"
  shows "task_inv rows'"
  using assms
  by (fastforce simp: insert_task_run task_inv_def active_keys_in split: if_splits option.splits)

lemma insert_task_preserves [preserve]: "row_ok row \<Longrightarrow> preserves task_inv (insert_task row)"
  using insert_inv by (metis preservesI prod.collapse)

lemma policy_valid_nums:
  assumes "policy_valid p"
  shows "0 < \<lfloor>num_val (pol_max_attempts p)\<rfloor>" "0 \<le> num_val (pol_initial_delay p)"
    "0 < num_val (pol_multiplier p)" "0 \<le> num_val (pol_max_delay p)"
    "0 \<le> num_val (pol_jitter p)" "num_val (pol_jitter p) \<le> 1"
proof -
  have "0 < \<lfloor>q\<rfloor>" if "of_int \<lfloor>q\<rfloor> = q" "0 < q" for q :: rat
    using that by (metis of_int_0_less_iff)
  then show "0 < \<lfloor>num_val (pol_max_attempts p)\<rfloor>"
    using assms by (cases "pol_max_attempts p") (auto simp: policy_valid_def)
  have num: "is_finite x \<Longrightarrow> \<not> js_less x (Fin 0) \<Longrightarrow> 0 \<le> num_val x"
    "is_finite x \<Longrightarrow> \<not> js_le x (Fin 0) \<Longrightarrow> 0 < num_val x"
    "is_finite x \<Longrightarrow> \<not> js_less (Fin 1) x \<Longrightarrow> num_val x \<le> 1" for x
    by (cases x; auto)+
  show "0 \<le> num_val (pol_initial_delay p)" "0 < num_val (pol_multiplier p)"
    "0 \<le> num_val (pol_max_delay p)" "0 \<le> num_val (pol_jitter p)" "num_val (pol_jitter p) \<le> 1"
    using assms by (auto simp: policy_valid_def intro: num)
qed

lemma validate_ok:
  assumes "validate_definition d = Inr payload"
  shows "policy_valid (merge_policy (def_policy d))" "0 < \<lfloor>num_val (effective_timeout d)\<rfloor>"
    "trim (def_type d) \<noteq> []" "trim (def_org d) \<noteq> []" "trim (def_correlation d) \<noteq> []"
    "\<exists>v. def_payload d = Serializable v \<and> payload = stringify v"
proof -
  have *: "policy_valid (merge_policy (def_policy d)) \<and> is_safe_integer (effective_timeout d) \<and>
      \<not> js_le (effective_timeout d) (Fin 0) \<and> trim (def_type d) \<noteq> [] \<and> trim (def_org d) \<noteq> [] \<and>
      trim (def_correlation d) \<noteq> [] \<and> (\<exists>v. def_payload d = Serializable v \<and> payload = stringify v)"
    using assms by (auto simp: validate_definition_def Let_def split: if_splits payload_arg.splits)
  have "0 < \<lfloor>q\<rfloor>" if "of_int \<lfloor>q\<rfloor> = q" "0 < q" for q :: rat
    using that by (metis of_int_0_less_iff)
  then show "0 < \<lfloor>num_val (effective_timeout d)\<rfloor>"
    using * by (cases "effective_timeout d") auto
  show "policy_valid (merge_policy (def_policy d))" "trim (def_type d) \<noteq> []" "trim (def_org d) \<noteq> []"
    "trim (def_correlation d) \<noteq> []" "\<exists>v. def_payload d = Serializable v \<and> payload = stringify v"
    using * by blast+
qed

lemma new_task_ok: "validate_definition d = Inr payload \<Longrightarrow> row_ok (new_task_row d payload newId now)"
  using validate_ok(1,2) policy_valid_nums [OF validate_ok(1)]
  by (simp add: row_ok_def new_task_row_def Let_def)

lemma enqueue_insert_preserves [preserve]:
  "validate_definition d = Inr payload \<Longrightarrow> preserves task_inv (enqueue_insert d payload newId now)"
  unfolding enqueue_insert_def by (intro preserve new_task_ok)

lemma enqueue_preserves [preserve]: "preserves task_inv (enqueue d newId now)"
proof (cases "validate_definition d")
  case (Inl e)
  then show ?thesis by (simp add: preserves_def enqueue_def)
next
  case (Inr payload)
  have "preserves task_inv (andthen (if truthy (def_unique_key d) then get (find_active (the (def_unique_key d))) else ret None)
      (\<lambda>existing. case existing of Some row \<Rightarrow> from_result (rowToRecord row)
        | None \<Rightarrow> enqueue_insert d payload newId now))"
    by (intro preserve Inr)
  then show ?thesis by (simp add: preserves_def enqueue_def Inr)
qed

lemma quarantine_preserves [preserve]: "preserves task_inv (quarantine now i)"
  unfolding quarantine_def by (rule update_preserves_inv) (auto simp: row_defs)

lemma collect_preserves [preserve]: "preserves task_inv (collect_claimed now rows)"
  by (induction rows) (auto intro!: preserve split: sum.splits)

lemma claim_update_preserves [preserve]: "preserves task_inv (claim_update limit types now)"
proof (rule preservesI)
  fix rows assume "task_inv rows"
  then show "task_inv (snd (claim_update limit types now rows))"
    unfolding claim_update_def by (simp add: Let_def) (rule update_inv, auto simp: row_defs)
qed

lemma claim_preserves [preserve]: "preserves task_inv (claimNextBatch lc limit types now now')"
  unfolding claimNextBatch_def by (intro preserve)

lemma markCompleted_preserves [preserve]: "preserves task_inv (markCompleted i now)"
  unfolding markCompleted_def by (rule update_preserves_inv) (auto simp: row_defs)

lemma fail_write_preserves [preserve]: "preserves task_inv (fail_write row err now ms rnd)"
  unfolding fail_write_def Let_def
  by (auto intro!: preserve update_preserves_inv simp: row_defs split: option.splits bool.splits)

lemma markFailed_preserves [preserve]: "preserves task_inv (markFailed i err now ms rnd)"
  unfolding markFailed_def by (intro preserve)

lemma cancel_preserves [preserve]: "preserves task_inv (cancel i reason now)"
  unfolding cancel_def by (rule update_preserves_inv) (auto simp: row_defs)

lemma recover_preserves [preserve]: "preserves task_inv (recoverHangingTasks t ms)"
  unfolding recoverHangingTasks_def Let_def
  by (intro preserve update_preserves_inv) (auto simp: row_defs)

section \<open>What never changes\<close>

text \<open>A row keeps its id, key and limits, its attempts never decrease, and a finished row is final.\<close>

definition row_move :: "task_row \<Rightarrow> task_row \<Rightarrow> bool" where
  "row_move r r' \<longleftrightarrow> task_id r' = task_id r \<and> task_unique_key r' = task_unique_key r \<and>
     task_max_attempts r' = task_max_attempts r \<and> task_attempts r \<le> task_attempts r' \<and>
     (terminal (task_status r) \<longrightarrow> r' = r)"

definition table_move :: "task_table \<Rightarrow> task_table \<Rightarrow> bool" where
  "table_move = rows_move row_move"

lemma row_move_refl: "row_move r r"
  by (simp add: row_move_def)

lemma row_move_trans: "row_move a b \<Longrightarrow> row_move b c \<Longrightarrow> row_move a c"
  by (auto simp: row_move_def)

interpretation task_evo: evolution table_move
proof unfold_locales
  show "table_move s s" for s
    unfolding table_move_def by (rule rows_move_refl) (rule row_move_refl)
  show "table_move s u" if "table_move s t" "table_move t u" for s t u
    using that rows_move_trans [of row_move s t u] row_move_trans unfolding table_move_def by blast
qed

lemma update_moves:
  assumes "\<And>r. hit r \<Longrightarrow> row_move r (f r)"
  shows "moves table_move (modify (sql_update hit f))"
  unfolding table_move_def
  by (rule moves_modify) (rule rows_move_update, auto intro: row_move_refl assms)

lemmas move_defs = row_move_def terminal_def active_def start_task_def

lemma insert_task_moves: "moves table_move (insert_task row)"
proof -
  have "moves table_move (modify (\<lambda>rows. rows @ [row]))"
    unfolding table_move_def by (intro moves_modify rows_move_append row_move_refl)
  then show ?thesis unfolding insert_task_def by (intro task_evo.moves_rules)
qed

lemma enqueue_insert_moves: "moves table_move (enqueue_insert d payload i now)"
  unfolding enqueue_insert_def by (intro task_evo.moves_rules insert_task_moves)

lemma enqueue_moves: "moves table_move (enqueue d i now)"
  unfolding enqueue_def by (intro task_evo.moves_rules enqueue_insert_moves)

lemma quarantine_moves: "moves table_move (quarantine now i)"
  unfolding quarantine_def by (rule update_moves) (auto simp: move_defs)

lemma collect_moves: "moves table_move (collect_claimed now rows)"
  by (induction rows) (auto intro!: task_evo.moves_rules quarantine_moves split: sum.splits)

lemma claim_update_moves: "moves table_move (claim_update limit types now)"
proof (rule movesI)
  fix rows
  show "table_move rows (snd (claim_update limit types now rows))"
    using movesD [OF update_moves [of "\<lambda>r. task_id r \<in> set (claim_ids limit types now rows) \<and>
        task_status r = PENDING" "start_task now"], of rows]
    by (simp add: claim_update_def Let_def move_defs)
qed

lemma claim_moves: "moves table_move (claimNextBatch lc limit types now now')"
  unfolding claimNextBatch_def by (intro task_evo.moves_rules claim_update_moves collect_moves)

lemma completed_moves: "moves table_move (markCompleted i now)"
  unfolding markCompleted_def by (rule update_moves) (auto simp: move_defs)

lemma fail_write_moves: "moves table_move (fail_write row err now ms rnd)"
  unfolding fail_write_def Let_def
  by (auto intro!: task_evo.moves_rules update_moves simp: move_defs split: option.splits bool.splits)

lemma mark_failed_moves: "moves table_move (markFailed i err now ms rnd)"
  unfolding markFailed_def by (intro task_evo.moves_rules fail_write_moves)

lemma cancel_moves: "moves table_move (cancel i reason now)"
  unfolding cancel_def by (rule update_moves) (auto simp: move_defs)

lemma recover_moves: "moves table_move (recoverHangingTasks t ms)"
  unfolding recoverHangingTasks_def Let_def
  by (intro task_evo.moves_rules update_moves) (auto simp: move_defs)

section \<open>Histories\<close>

text \<open>One step of any caller.  The two halves of \<open>enqueue\<close> and of \<open>markFailed\<close> are steps of their
  own, so that other callers may run between the read and the write.\<close>

inductive task_step :: "task_table \<Rightarrow> task_table \<Rightarrow> bool" where
  step_enqueue: "task_step rows (snd (enqueue d i now rows))"
| step_insert: "validate_definition d = Inr payload \<Longrightarrow> task_step rows (snd (enqueue_insert d payload i now rows))"
| step_claim: "task_step rows (snd (claimNextBatch lc limit types now now' rows))"
| step_complete: "task_step rows (snd (markCompleted i now rows))"
| step_fail: "task_step rows (snd (fail_write row err now ms rnd rows))"
| step_mark_failed: "task_step rows (snd (markFailed i err now ms rnd rows))"
| step_cancel: "task_step rows (snd (cancel i reason now rows))"
| step_recover: "task_step rows (snd (recoverHangingTasks t ms rows))"

lemma task_step_inv: "task_step rows rows' \<Longrightarrow> task_inv rows \<Longrightarrow> task_inv rows'"
  by (induction rule: task_step.induct) (auto intro: preservesD preserve)

lemma task_step_moves: "task_step rows rows' \<Longrightarrow> table_move rows rows'"
  by (induction rule: task_step.induct)
    (rule movesD [OF enqueue_moves] movesD [OF enqueue_insert_moves] movesD [OF claim_moves]
      movesD [OF completed_moves] movesD [OF fail_write_moves] movesD [OF mark_failed_moves]
      movesD [OF cancel_moves] movesD [OF recover_moves])+

lemma task_inv_Nil: "task_inv []"
  by (simp add: task_inv_def)

lemma task_history_inv: "task_step\<^sup>*\<^sup>* rows rows' \<Longrightarrow> task_inv rows \<Longrightarrow> task_inv rows'"
  by (induction rule: rtranclp_induct) (auto intro: task_step_inv)

text \<open>C4. In every table reachable from the empty one by any interleaving of enqueueing (with the
  duplicate check and the insert as separate steps), claiming, completing, failing (with the read
  and the write as separate steps), cancelling and recovering, task ids are unique, at most one
  task per unique key is pending or running, and a running task has at least one attempt and a
  start time.\<close>

theorem reachable_tasks_well_formed:
  assumes "task_step\<^sup>*\<^sup>* [] rows"
  shows "distinct (map task_id rows) \<and> distinct (active_keys rows) \<and>
    (\<forall>r \<in> set rows. task_status r = RUNNING \<longrightarrow> 0 < task_attempts r \<and> task_started_at r \<noteq> None)"
  using task_history_inv [OF assms task_inv_Nil] by (simp add: task_inv_def list_all_iff row_ok_def)

text \<open>C5. A completed, failed or cancelled task is final: whatever happens to the table afterwards, the
  row stays exactly as it is; and no task ever loses an attempt, or changes its id or its key.\<close>

theorem finished_tasks_final:
  assumes "task_step\<^sup>*\<^sup>* rows rows'" "r \<in> set rows"
  shows "\<exists>r' \<in> set rows'. row_move r r' \<and> (terminal (task_status r) \<longrightarrow> r' = r)"
proof -
  have "table_move rows rows'" using task_evo.moves_star [OF task_step_moves assms(1)] .
  then show ?thesis using assms(2) by (auto simp: table_move_def rows_move_def row_move_def)
qed

end
