(* ===== verification/Task_Claims.thy ===== *)
theory Task_Claims
  imports Tasks
begin

text \<open>
  Properties of the task queue: what a claim returns and that no two claims share a task, the
  deduplication by unique key, the outcome of a failure on every branch, the bounds of the retry
  delay, and the attempts bound with the recovery operation that breaks it.
\<close>

section \<open>Claims\<close>

definition claim_hits :: "nat \<Rightarrow> string list \<Rightarrow> string \<Rightarrow> task_table \<Rightarrow> task_row list" where
  "claim_hits limit types now rows =
     filter (\<lambda>r. task_id r \<in> set (claim_ids limit types now rows) \<and> task_status r = PENDING) rows"

lemma claim_update_run:
  "claim_update limit types now rows =
    (Inr (map (start_task now) (claim_hits limit types now rows)),
     sql_update (\<lambda>r. task_id r \<in> set (claim_ids limit types now rows) \<and> task_status r = PENDING)
       (start_task now) rows)"
  by (simp add: claim_update_def claim_hits_def Let_def)

lemma claim_ids_in:
  "i \<in> set (claim_ids limit types now rows) \<Longrightarrow> \<exists>r \<in> set rows. task_id r = i \<and> claimable now types r"
  by (auto simp: claim_ids_def dest!: in_set_takeD)

lemma same_id:
  "distinct (map task_id rows) \<Longrightarrow> r \<in> set rows \<Longrightarrow> r' \<in> set rows \<Longrightarrow> task_id r = task_id r' \<Longrightarrow> r = r'"
  by (metis distinct_map inj_onD)

lemma claim_hits_claimable:
  assumes "distinct (map task_id rows)" "r \<in> set (claim_hits limit types now rows)"
  shows "r \<in> set rows" "claimable now types r"
proof -
  have r: "r \<in> set rows" "task_id r \<in> set (claim_ids limit types now rows)"
    using assms(2) by (auto simp: claim_hits_def)
  from claim_ids_in [OF r(2)] obtain r' where "r' \<in> set rows" "task_id r' = task_id r" "claimable now types r'"
    by blast
  with same_id [OF assms(1)] r show "r \<in> set rows" "claimable now types r" by metis+
qed

lemma claim_hits_ids:
  assumes "distinct (map task_id rows)"
  shows "set (map task_id (claim_hits limit types now rows)) = set (claim_ids limit types now rows)"
proof
  show "set (claim_ids limit types now rows) \<subseteq> set (map task_id (claim_hits limit types now rows))"
    using claim_ids_in [of _ limit types now rows]
    by (fastforce simp: claim_hits_def claimable_def image_iff)
qed (auto simp: claim_hits_def)

lemma claim_ids_distinct:
  assumes "distinct (map task_id rows)"
  shows "distinct (claim_ids limit types now rows)"
proof -
  have "distinct (map task_id (order_by task_scheduled_at (filter (claimable now types) rows)))"
    using assms by (simp add: distinct_map_filter)
  then show ?thesis unfolding claim_ids_def take_map [symmetric] by (rule distinct_take)
qed

lemma claim_hits_length:
  assumes "distinct (map task_id rows)"
  shows "length (claim_hits limit types now rows) = length (claim_ids limit types now rows)"
proof -
  have "distinct (map task_id (claim_hits limit types now rows))"
    using assms by (simp add: claim_hits_def distinct_map_filter)
  then show ?thesis
    using claim_hits_ids [OF assms, of limit types now] claim_ids_distinct [OF assms, of limit types now]
    by (metis distinct_card length_map)
qed

text \<open>The taken ones are the earliest.\<close>

lemma claim_earliest:
  assumes "distinct (map task_id rows)" "r \<in> set (claim_hits limit types now rows)"
    "r' \<in> set rows" "claimable now types r'" "r' \<notin> set (claim_hits limit types now rows)"
  shows "task_scheduled_at r \<le> task_scheduled_at r'"
proof -
  define ord where "ord = order_by task_scheduled_at (filter (claimable now types) rows)"
  have ids: "claim_ids limit types now rows = map task_id (take limit ord)"
    by (simp add: claim_ids_def ord_def)
  have set: "set ord = {r \<in> set rows. claimable now types r}" by (simp add: ord_def)
  have eq: "s = s'" if "s \<in> set rows" "s' \<in> set rows" "task_id s = task_id s'" for s s'
    using same_id [OF assms(1) that] .
  have r: "r \<in> set rows" "claimable now types r" using claim_hits_claimable [OF assms(1,2)] .
  have "task_id r \<in> set (map task_id (take limit ord))"
    using assms(2) by (simp add: claim_hits_def ids)
  then have "r \<in> set (take limit ord)"
    using eq r(1) set by (auto dest: in_set_takeD)
  moreover have "r' \<notin> set (take limit ord)"
    using assms(3-5) by (auto simp: claim_hits_def ids claimable_def)
  then have "r' \<in> set (drop limit ord)"
    using assms(3,4) set by (metis (mono_tags, lifting) Un_iff append_take_drop_id mem_Collect_eq set_append)
  moreover have "sorted (map task_scheduled_at (take limit ord @ drop limit ord))"
    by (simp add: ord_def)
  ultimately show ?thesis unfolding map_append sorted_append by auto
qed

section \<open>Collecting\<close>

definition corrupt :: "task_row \<Rightarrow> bool" where
  "corrupt r \<longleftrightarrow> (case rowToRecord r of Inl _ \<Rightarrow> True | Inr _ \<Rightarrow> False)"

definition records :: "task_row list \<Rightarrow> task_record list" where
  "records rows = concat (map (\<lambda>r. case rowToRecord r of Inr t \<Rightarrow> [t] | Inl _ \<Rightarrow> []) rows)"

definition quarantine_all :: "string \<Rightarrow> task_row list \<Rightarrow> task_table \<Rightarrow> task_table" where
  "quarantine_all now bad tbl = foldl (\<lambda>t r. snd (quarantine now (task_id r) t)) tbl bad"

lemma rowToRecord_Inr: "rowToRecord r = Inr t \<Longrightarrow> fst t = r \<and> json_parse (task_payload_json r) = Inr (snd t)"
  by (auto simp: rowToRecord_def split: sum.splits)

lemma rowToRecord_Inl: "rowToRecord r = Inl e \<Longrightarrow> err_class e = DatabaseError"
  by (auto simp: rowToRecord_def platform_error_def split: sum.splits)

lemma collect_run:
  "collect_claimed now rows tbl = (Inr (records rows), quarantine_all now (filter corrupt rows) tbl)"
proof (induction rows arbitrary: tbl)
  case Nil
  show ?case by (simp add: records_def quarantine_all_def)
next
  case (Cons r rows)
  show ?case
  proof (cases "rowToRecord r")
    case (Inl e)
    have "quarantine now (task_id r) tbl = (Inr (), snd (quarantine now (task_id r) tbl))"
      by (simp add: quarantine_def)
    then show ?thesis
      using Cons [of "snd (quarantine now (task_id r) tbl)"] Inl rowToRecord_Inl [OF Inl]
      by (simp add: records_def quarantine_all_def corrupt_def run_andthen_Inr)
  next
    case (Inr t)
    then show ?thesis
      using Cons [of tbl] by (simp add: records_def quarantine_all_def corrupt_def run_andthen_Inr)
  qed
qed

lemma records_in: "t \<in> set (records rows) \<longleftrightarrow> (\<exists>r \<in> set rows. rowToRecord r = Inr t)"
  by (cases t, induction rows) (auto simp: records_def split: sum.splits)

lemma records_length: "length (records rows) \<le> length rows"
  by (induction rows) (auto simp: records_def split: sum.splits)

lemma quarantine_all_not_pending:
  assumes "\<forall>r \<in> set tbl. task_id r \<in> S \<longrightarrow> task_status r \<noteq> PENDING"
  shows "\<forall>r \<in> set (quarantine_all now bad tbl). task_id r \<in> S \<longrightarrow> task_status r \<noteq> PENDING"
  using assms
proof (induction bad arbitrary: tbl)
  case (Cons b bad)
  have "\<forall>r \<in> set (snd (quarantine now (task_id b) tbl)). task_id r \<in> S \<longrightarrow> task_status r \<noteq> PENDING"
    using Cons.prems by (auto simp: quarantine_def set_sql_update)
  from Cons.IH [OF this] show ?case by (simp add: quarantine_all_def)
qed (simp add: quarantine_all_def)

lemma quarantine_all_keeps:
  "r \<in> set tbl \<Longrightarrow> task_id r \<notin> task_id ` set bad \<Longrightarrow> r \<in> set (quarantine_all now bad tbl)"
proof (induction bad arbitrary: tbl)
  case (Cons b bad)
  then have "r \<in> set (snd (quarantine now (task_id b) tbl))"
    by (auto simp: quarantine_def set_sql_update image_iff)
  with Cons show ?case by (simp add: quarantine_all_def)
qed (simp add: quarantine_all_def)

lemma claim_run:
  assumes "is_safe_integer limit" "\<not> js_le limit (Fin 0)"
  shows "claimNextBatch lc limit types now now' rows =
    (let claimed = js_sort (\<lambda>a b. lc (task_scheduled_at a) (task_scheduled_at b))
           (map (start_task now) (claim_hits (nat \<lfloor>num_val limit\<rfloor>) types now rows));
         tbl = snd (claim_update (nat \<lfloor>num_val limit\<rfloor>) types now rows)
     in (Inr (records claimed), quarantine_all now' (filter corrupt claimed) tbl))"
  using assms by (simp add: claimNextBatch_def run_andthen_Inr [OF claim_update_run] collect_run Let_def
      claim_update_run)


section \<open>Deduplication\<close>

lemma find_active_in: "find_active k rows = Some r \<Longrightarrow> r \<in> set rows \<and> task_unique_key r = Some k \<and> active r"
  by (auto simp: find_active_def dest: find_first_SomeD)

lemma active_key_unique:
  assumes "task_inv rows" "r \<in> set rows" "r' \<in> set rows" "active r" "active r'"
    "task_unique_key r = Some k" "task_unique_key r' = Some k"
  shows "r = r'"
proof -
  have "inj_on (\<lambda>r. the (task_unique_key r)) (set (filter (\<lambda>r. task_unique_key r \<noteq> None \<and> active r) rows))"
    using assms(1) by (simp add: task_inv_def active_keys_def distinct_map)
  then show ?thesis by (rule inj_onD) (use assms(2-) in auto)
qed

lemma find_active_unique:
  assumes "task_inv rows" "r \<in> set rows" "active r" "task_unique_key r = Some k"
  shows "find_active k rows = Some r"
proof (cases "find_active k rows")
  case None
  then show ?thesis using assms by (auto simp: find_active_def find_first_None)
next
  case (Some r')
  then show ?thesis using find_active_in [OF Some] active_key_unique [OF assms(1)] assms(2-) by blast
qed

lemma new_task_simps [simp]:
  "task_id (new_task_row d payload i now) = i"
  "task_unique_key (new_task_row d payload i now) = def_unique_key d"
  "active (new_task_row d payload i now)"
  "task_status (new_task_row d payload i now) = PENDING"
  by (simp_all add: new_task_row_def Let_def active_def)

lemma insert_duplicate:
  assumes "truthy (def_unique_key d)" "def_unique_key d = Some k" "find_active k rows = Some row"
    "rowToRecord row = Inr t"
  shows "enqueue_insert d payload i now rows = (Inr t, rows)"
proof -
  have row: "row \<in> set rows" "task_unique_key row = Some k" "active row"
    using find_active_in [OF assms(3)] by auto
  obtain e where "insert_task (new_task_row d payload i now) rows = (Inl e, rows)"
  proof (cases "\<exists>r \<in> set rows. task_id r = i")
    case True
    then show ?thesis using that by (simp add: insert_task_run)
  next
    case False
    moreover have "\<exists>r \<in> set rows. task_unique_key r = Some k \<and> active r" using row by blast
    ultimately show ?thesis using that assms(2) by (simp add: insert_task_run)
  qed
  then show ?thesis
    using assms by (simp add: enqueue_insert_def andthen_def catch_op_def)
qed

lemma enqueue_insert_new:
  assumes "enqueue_insert d payload i now rows = (Inr t, rows')" "truthy (def_unique_key d)"
    "def_unique_key d = Some k"
  shows "fst t \<in> set rows' \<and> active (fst t) \<and> task_unique_key (fst t) = Some k \<and> rowToRecord (fst t) = Inr t"
proof (cases "insert_task (new_task_row d payload i now) rows")
  case (Pair x tbl)
  show ?thesis
  proof (cases x)
    case (Inl e)
    with Pair have tbl: "tbl = rows" by (auto simp: insert_task_run split: if_splits)
    obtain w where w: "find_active k rows = Some w" "rowToRecord w = Inr t" "rows' = rows"
      using assms Pair Inl tbl
      by (auto simp: enqueue_insert_def andthen_def catch_op_def split: option.splits sum.splits)
    then show ?thesis using find_active_in [OF w(1)] rowToRecord_Inr [OF w(2)] by auto
  next
    case (Inr u)
    let ?row = "new_task_row d payload i now"
    from Pair Inr have tbl: "tbl = rows @ [?row]" "\<forall>r \<in> set rows. task_id r \<noteq> task_id ?row"
      by (auto simp: insert_task_run split: if_splits)
    have "find_first (\<lambda>r. task_id r = i) tbl = Some ?row"
      using tbl by (auto simp: find_first_append split: option.splits dest!: find_first_SomeD)
    then have "rowToRecord ?row = Inr t" "rows' = tbl"
      using assms Pair Inr by (auto simp: enqueue_insert_def andthen_def catch_op_def)
    then show ?thesis
      using rowToRecord_Inr tbl assms(3)
      by fastforce
  qed
qed

text \<open>C2. Deduplication holds under races: after a successful \<open>enqueue\<close> with a unique key, the
  returned task is stored, active and the only active task with that key; enqueueing the
  definition again, from the start or (as a competing caller that has already passed the duplicate
  check) from the insert on, with any new id, returns the same record and leaves the table as it is.\<close>

theorem enqueue_deduplicates:
  assumes "task_inv rows" "def_unique_key d = Some k" "k \<noteq> []" "enqueue d i now rows = (Inr (row, payload), rows')"
  shows "row \<in> set rows' \<and> active row \<and> task_unique_key row = Some k \<and>
    (\<forall>r \<in> set rows'. task_unique_key r = Some k \<and> active r \<longrightarrow> r = row) \<and>
    (\<forall>i' now'. enqueue d i' now' rows' = (Inr (row, payload), rows')) \<and>
    (\<forall>body i' now'. enqueue_insert d body i' now' rows' = (Inr (row, payload), rows'))"
proof -
  have key: "truthy (def_unique_key d)" "the (def_unique_key d) = k" using assms by simp_all
  obtain body where v: "validate_definition d = Inr body"
    using assms(4) by (auto simp: enqueue_def split: sum.splits)
  have inv: "task_inv rows'"
    using preservesD [OF enqueue_preserves assms(1), of d i now] assms(4) by simp
  have stored: "row \<in> set rows' \<and> active row \<and> task_unique_key row = Some k \<and> rowToRecord row = Inr (row, payload)"
  proof (cases "find_active k rows")
    case None
    then have "enqueue_insert d body i now rows = (Inr (row, payload), rows')"
      using assms(4) key v by (simp add: enqueue_def)
    from enqueue_insert_new [OF this key(1) assms(2)] show ?thesis by simp
  next
    case (Some r)
    then have "rowToRecord r = Inr (row, payload)" "rows' = rows"
      using assms(4) key v by (simp_all add: enqueue_def)
    then show ?thesis using find_active_in [OF Some] rowToRecord_Inr by fastforce
  qed
  then have fa: "find_active k rows' = Some row" using find_active_unique [OF inv] by blast
  have "enqueue d i' now' rows' = (Inr (row, payload), rows')" for i' now'
    using stored fa key v by (simp add: enqueue_def)
  moreover have "enqueue_insert d x i' now' rows' = (Inr (row, payload), rows')" for x i' now'
    using insert_duplicate [OF key(1) assms(2) fa] stored by blast
  ultimately show ?thesis using stored active_key_unique [OF inv] by blast
qed

section \<open>Failures\<close>

text \<open>Whether a failure is permanent whatever the attempts.\<close>

lemma decide_cases:
  "decide err attempt p rnd =
    (if isNonRetryableClass err then permanent (dec_reason (decide err attempt p rnd))
     else if attempt \<ge> np_max_attempts p then permanent (dec_reason (decide err attempt p rnd))
     else \<lparr>dec_retryable = True, dec_delay = Some (retry_delay attempt p rnd),
       dec_reason = dec_reason (decide err attempt p rnd)\<rparr>)"
proof (cases err)
  case (Thrown e)
  then show ?thesis
    by (cases "is_platform_error e \<and> \<not> err_retryable e")
      (auto simp: decide_def isNonRetryableClass_def NON_RETRYABLE_CLASSES_def permanent_def Let_def
        is_platform_error_def)
next
  case (OtherValue s)
  then show ?thesis by (simp add: decide_def isNonRetryableClass_def permanent_def Let_def)
qed

lemma decide_permanent:
  assumes "isNonRetryableClass err \<or> attempt \<ge> np_max_attempts p"
  shows "dec_retryable (decide err attempt p rnd) = False" "dec_delay (decide err attempt p rnd) = None"
  by (subst decide_cases, use assms in \<open>auto simp: permanent_def\<close>)+

lemma decide_retry:
  assumes "\<not> (isNonRetryableClass err \<or> attempt \<ge> np_max_attempts p)"
  shows "dec_retryable (decide err attempt p rnd) = True"
    "dec_delay (decide err attempt p rnd) = Some (retry_delay attempt p rnd)"
  by (subst decide_cases, use assms in auto)+

lemma update_one:
  assumes "distinct (map task_id rows)" "row \<in> set rows" "task_status row = RUNNING"
  shows "sql_update (\<lambda>r. task_id r = task_id row \<and> task_status r = RUNNING \<and> task_attempts r = task_attempts row) f rows
    = map (\<lambda>r. if r = row then f row else r) rows"
    "sql_count (\<lambda>r. task_id r = task_id row \<and> task_status r = RUNNING \<and> task_attempts r = task_attempts row) rows > 0"
proof -
  have eq: "(task_id r = task_id row \<and> task_status r = RUNNING \<and> task_attempts r = task_attempts row) \<longleftrightarrow> r = row"
    if "r \<in> set rows" for r
    using same_id [OF assms(1) that assms(2)] assms(3) by auto
  then show "sql_update (\<lambda>r. task_id r = task_id row \<and> task_status r = RUNNING \<and> task_attempts r = task_attempts row) f rows
    = map (\<lambda>r. if r = row then f row else r) rows"
    by (auto simp: sql_update_def)
  have "row \<in> set (filter (\<lambda>r. task_id r = task_id row \<and> task_status r = RUNNING \<and> task_attempts r = task_attempts row) rows)"
    using assms by simp
  then show "sql_count (\<lambda>r. task_id r = task_id row \<and> task_status r = RUNNING \<and> task_attempts r = task_attempts row) rows > 0"
    unfolding sql_count_def by (metis length_pos_if_in_set)
qed

lemma markFailed_run:
  assumes "task_inv rows" "row \<in> set rows" "task_status row = RUNNING"
  defines "put \<equiv> \<lambda>new. map (\<lambda>r. if r = row then new else r) rows"
  shows "markFailed (task_id row) err now now_ms rnd rows =
    (if isNonRetryableClass err \<or> task_attempts row \<ge> task_max_attempts row
     then (Inr False, put (row\<lparr>task_status := FAILED, task_failed_at := Some now,
         task_last_error := Some (thrown_message err), task_updated_at := now\<rparr>))
     else (case to_iso (js_map (\<lambda>q. of_int now_ms + q) (retry_delay (task_attempts row) (row_policy row) rnd)) of
         Inl e \<Rightarrow> (Inl e, rows)
       | Inr t \<Rightarrow> (Inr True, put (row\<lparr>task_status := PENDING, task_scheduled_at := t,
           task_last_error := Some (thrown_message err), task_failed_at := None, task_updated_at := now\<rparr>))))"
proof -
  have d: "distinct (map task_id rows)" using assms(1) by (simp add: task_inv_def)
  have found: "find_first (\<lambda>r. task_id r = task_id row) rows = Some row"
  proof (cases "find_first (\<lambda>r. task_id r = task_id row) rows")
    case None
    then show ?thesis using assms(2) by (auto simp: find_first_None)
  next
    case (Some r)
    then show ?thesis using same_id [OF d _ assms(2)] find_first_SomeD [OF Some] by auto
  qed
  note upd = update_one [OF d assms(2,3)]
  have pol: "np_max_attempts (row_policy row) = task_max_attempts row" by (simp add: row_policy_def)
  have run: "markFailed (task_id row) err now now_ms rnd rows = fail_write row err now now_ms rnd rows"
    using found assms(3) by (simp add: markFailed_def)
  show ?thesis
  proof (cases "isNonRetryableClass err \<or> task_attempts row \<ge> task_max_attempts row")
    case True
    then have c: "isNonRetryableClass err \<or> np_max_attempts (row_policy row) \<le> task_attempts row"
      using pol by simp
    show ?thesis
      using True decide_permanent [OF c] by (simp add: run fail_write_def Let_def upd(1) put_def)
  next
    case False
    then have c: "\<not> (isNonRetryableClass err \<or> np_max_attempts (row_policy row) \<le> task_attempts row)"
      using pol by simp
    show ?thesis
      using False upd(2) decide_retry [OF c]
      by (auto simp: run fail_write_def Let_def upd(1) put_def split: sum.splits)
  qed
qed

text \<open>C3. The outcome of \<open>markFailed\<close> for a running task: with an authorization, validation,
  compatibility or non-retryable platform error, or in its last attempt, the task fails for good and
  the call returns false; otherwise, when the next date is representable, the task is pending again,
  due after the computed delay, and the call returns true; when it is not, the call throws a
  RangeError and the task stays running.  No other row changes.\<close>

theorem markFailed_outcome:
  assumes "task_inv rows" "row \<in> set rows" "task_status row = RUNNING"
  defines "put \<equiv> \<lambda>new. map (\<lambda>r. if r = row then new else r) rows"
  shows "markFailed (task_id row) err now now_ms rnd rows =
    (if isNonRetryableClass err \<or> task_attempts row \<ge> task_max_attempts row
     then (Inr False, put (row\<lparr>task_status := FAILED, task_failed_at := Some now,
         task_last_error := Some (thrown_message err), task_updated_at := now\<rparr>))
     else (case to_iso (js_map (\<lambda>q. of_int now_ms + q) (retry_delay (task_attempts row) (row_policy row) rnd)) of
         Inl e \<Rightarrow> (Inl e, rows)
       | Inr t \<Rightarrow> (Inr True, put (row\<lparr>task_status := PENDING, task_scheduled_at := t,
           task_last_error := Some (thrown_message err), task_failed_at := None, task_updated_at := now\<rparr>))))"
  using markFailed_run [OF assms(1-3)] unfolding put_def .

text \<open>For a policy with an initial delay and a maximal delay of at least a millisecond and at most
  $10^{15}$, the retry delay is an integer between 0 and the maximum plus its jitter, and is within the
  jitter of min(initial * multiplier^(attempt - 1), max), even where the power overflows a double.\<close>

theorem retry_delay_bounds:
  assumes "1 \<le> attempt" "1 \<le> np_initial_delay p" "np_initial_delay p \<le> 10 ^ 15" "0 < np_multiplier p"
    "0 \<le> np_max_delay p" "np_max_delay p \<le> 10 ^ 15" "0 \<le> np_jitter p" "np_jitter p \<le> 1"
    "0 \<le> rnd" "rnd < 1"
  defines "capped \<equiv> min (np_initial_delay p * np_multiplier p ^ nat (attempt - 1)) (np_max_delay p)"
  shows "\<exists>d :: int. retry_delay attempt p rnd = Fin (of_int d) \<and> 0 \<le> d \<and>
    of_int d \<le> np_max_delay p * (1 + np_jitter p) + 1 / 2 \<and>
    \<bar>of_int d - capped\<bar> \<le> capped * np_jitter p + 1 / 2"
proof -
  let ?w = "np_multiplier p ^ nat (attempt - 1)"
  let ?f = "1 + (rnd * 2 - 1) * np_jitter p"
  have big: "(10 :: rat) ^ 15 * 2 < 2 ^ 1024"
  proof -
    have "(10 :: rat) ^ 15 * 2 < 2 ^ 64" by simp
    also have "(2 :: rat) ^ 64 \<le> 2 ^ 1024" by (rule power_increasing) simp_all
    finally show ?thesis .
  qed
  have w0: "0 < ?w" using assms(4) by simp
  have "(0 :: rat) < 10 ^ 15" by simp
  then have max_big: "np_max_delay p < 2 ^ 1024" using assms(6) big by linarith
  have cap0: "0 \<le> capped" using assms(2,5) w0 by (simp add: capped_def)
  have cap_max: "capped \<le> np_max_delay p" by (simp add: capped_def)
  have not_neg: "\<not> x \<le> - (2 ^ 1024)" if "0 \<le> x" for x :: rat
  proof -
    have "(0 :: rat) < 2 ^ 1024" by simp
    with that show ?thesis by linarith
  qed
  have base: "js_min (js_mul (Fin (np_initial_delay p)) (js_pow (np_multiplier p) (attempt - 1))) (Fin (np_max_delay p))
      = Fin capped"
  proof (cases "?w \<ge> 2 ^ 1024")
    case True
    then have "np_initial_delay p * ?w \<ge> 1 * 2 ^ 1024"
      using assms(2) by (intro mult_mono) simp_all
    then have "capped = np_max_delay p" using max_big by (simp add: capped_def)
    then show ?thesis using True assms(1,2) by (simp add: js_pow_def to_double_def)
  next
    case False
    have nn: "0 \<le> np_initial_delay p * ?w" using assms(2) w0 by simp
    show ?thesis
    proof (cases "np_initial_delay p * ?w \<ge> 2 ^ 1024")
      case True
      then have "capped = np_max_delay p" using max_big by (simp add: capped_def)
      then show ?thesis using True False assms(1) not_neg w0 by (simp add: js_pow_def to_double_def)
    next
      case small: False
      then show ?thesis
        using False assms(1) not_neg w0 nn by (simp add: js_pow_def to_double_def capped_def min_def)
    qed
  qed
  have j: "\<bar>(rnd * 2 - 1) * np_jitter p\<bar> \<le> np_jitter p"
  proof -
    have "\<bar>rnd * 2 - 1\<bar> * np_jitter p \<le> 1 * np_jitter p"
      using assms(7,9,10) by (intro mult_right_mono) auto
    then show ?thesis using assms(7) by (simp add: abs_mult)
  qed
  have f0: "0 \<le> ?f" "?f \<le> 1 + np_jitter p" using j assms(8) by linarith+
  have dev: "\<bar>capped * ?f - capped\<bar> \<le> capped * np_jitter p"
  proof -
    have "capped * ?f - capped = capped * ((rnd * 2 - 1) * np_jitter p)" by (simp add: algebra_simps)
    then show ?thesis using j cap0 by (simp only: abs_mult abs_of_nonneg mult_left_mono)
  qed
  have prod_le: "capped * ?f \<le> np_max_delay p * (1 + np_jitter p)"
    using cap0 cap_max f0 assms(5) by (intro mult_mono) auto
  have prod0: "0 \<le> capped * ?f" using cap0 f0 by simp
  have "np_max_delay p * (1 + np_jitter p) \<le> 10 ^ 15 * 2"
    using assms(5-8) by (intro mult_mono) auto
  with prod_le big have small: "capped * ?f < 2 ^ 1024" by linarith
  define d where "d = js_round (capped * ?f)"
  have d: "capped * ?f - 1 / 2 < of_int d" "of_int d \<le> capped * ?f + 1 / 2"
    using js_round_bounds by (simp_all add: d_def)
  have d0: "0 \<le> d" using prod0 by (simp add: d_def js_round_def)
  have "js_mul (Fin capped) (Fin ?f) = Fin (capped * ?f)"
    using small prod0 not_neg by (simp add: to_double_def)
  then have "retry_delay attempt p rnd = Fin (of_int d)"
    using base d0 by (simp add: retry_delay_def Let_def d_def)
  then show ?thesis using d d0 dev prod_le by (intro exI [of _ d]) linarith
qed

section \<open>The attempts bound and recovery\<close>

text \<open>The steps other than the recovery of hanging tasks; enqueueing includes the racing insert.\<close>

inductive normal_step :: "task_table \<Rightarrow> task_table \<Rightarrow> bool" where
  normal_enqueue: "normal_step rows (snd (enqueue d i now rows))"
| normal_claim: "normal_step rows (snd (claimNextBatch lc limit types now now' rows))"
| normal_complete: "normal_step rows (snd (markCompleted i now rows))"
| normal_fail: "normal_step rows (snd (markFailed i err now ms rnd rows))"
| normal_cancel: "normal_step rows (snd (cancel i reason now rows))"

definition bounded :: "task_table \<Rightarrow> bool" where
  "bounded rows \<longleftrightarrow> (\<forall>r \<in> set rows. attempts_ok r)"

lemma bounded_update:
  assumes "\<And>r. hit r \<Longrightarrow> attempts_ok r \<Longrightarrow> attempts_ok (f r)"
  shows "preserves bounded (modify (sql_update hit f))"
  by (rule preserves_modify) (auto simp: bounded_def set_sql_update intro: assms)

lemma bounded_insert: "attempts_ok row \<Longrightarrow> preserves bounded (insert_task row)"
  by (rule preservesI) (auto simp: insert_task_run bounded_def)

lemma bounded_enqueue: "preserves bounded (enqueue d i now)"
proof (cases "validate_definition d")
  case (Inl e)
  then show ?thesis by (simp add: preserves_def enqueue_def)
next
  case (Inr body)
  have "attempts_ok (new_task_row d body i now)"
    using policy_valid_nums(1) [OF validate_ok(1) [OF Inr]]
    by (simp add: attempts_ok_def new_task_row_def Let_def)
  then have "preserves bounded (andthen (if truthy (def_unique_key d) then get (find_active (the (def_unique_key d))) else ret None)
      (\<lambda>existing. case existing of Some row \<Rightarrow> from_result (rowToRecord row)
        | None \<Rightarrow> enqueue_insert d body i now))"
    unfolding enqueue_insert_def by (intro preserve bounded_insert)
  then show ?thesis by (simp add: preserves_def enqueue_def Inr)
qed

lemma bounded_collect: "preserves bounded (collect_claimed now rows)"
proof (induction rows)
  case (Cons r rows)
  have "preserves bounded (quarantine now i)" for i
    unfolding quarantine_def by (rule bounded_update) (auto simp: attempts_ok_def)
  then show ?case using Cons by (auto intro!: preserve split: sum.splits)
qed (auto intro!: preserve)

lemma bounded_claim: "preserves bounded (claimNextBatch lc limit types now now')"
proof -
  have "preserves bounded (claim_update n types now)" for n
    by (rule preservesI) (auto simp: claim_update_run bounded_def set_sql_update attempts_ok_def start_task_def)
  then show ?thesis unfolding claimNextBatch_def by (intro preserve bounded_collect)
qed

lemma bounded_fail:
  assumes "task_inv rows" "bounded rows"
  shows "bounded (snd (markFailed i err now ms rnd rows))"
proof (cases "find_first (\<lambda>r. task_id r = i) rows")
  case None
  then show ?thesis using assms by (simp add: markFailed_def)
next
  case (Some row)
  note row = find_first_SomeD [OF Some]
  show ?thesis
  proof (cases "task_status row = RUNNING")
    case False
    then show ?thesis using Some assms(2) by (simp add: markFailed_def)
  next
    case True
    have "attempts_ok row" using assms(2) row by (simp add: bounded_def)
    with markFailed_run [OF assms(1) _ True, of err now ms rnd] row assms(2)
    show ?thesis by (auto simp: bounded_def attempts_ok_def split: sum.splits)
  qed
qed

lemma bounded_complete: "preserves bounded (markCompleted i now)"
  unfolding markCompleted_def by (rule bounded_update) (auto simp: attempts_ok_def)

lemma bounded_cancel: "preserves bounded (cancel i reason now)"
  unfolding cancel_def by (rule bounded_update) (auto simp: attempts_ok_def)

lemma normal_step_bounded:
  "normal_step rows rows' \<Longrightarrow> task_inv rows \<and> bounded rows \<Longrightarrow> task_inv rows' \<and> bounded rows'"
  by (induction rule: normal_step.induct)
    (auto intro: bounded_fail preservesD [OF bounded_enqueue] preservesD [OF bounded_claim]
      preservesD [OF bounded_complete] preservesD [OF bounded_cancel] preservesD [OF enqueue_preserves]
      preservesD [OF claim_preserves] preservesD [OF markCompleted_preserves]
      preservesD [OF markFailed_preserves] preservesD [OF cancel_preserves])

text \<open>Without the recovery of hanging tasks, no task is ever attempted more often than its
  \<open>maxAttempts\<close>: in every history of enqueues, claims, completions, failures and cancellations from
  the empty table the attempts stay within the bound, and a pending task has an attempt left.\<close>

theorem attempts_within_limit:
  assumes "normal_step\<^sup>*\<^sup>* [] rows" "r \<in> set rows"
  shows "task_attempts r \<le> task_max_attempts r \<and>
    (task_status r = PENDING \<longrightarrow> task_attempts r < task_max_attempts r)"
proof -
  have "task_inv rows \<and> bounded rows"
    using assms(1)
  proof (induction rule: rtranclp_induct)
    case base
    show ?case by (simp add: task_inv_Nil bounded_def)
  next
    case (step y z)
    show ?case by (rule normal_step_bounded [OF step(2,3)])
  qed
  then show ?thesis using assms(2) by (simp add: bounded_def attempts_ok_def)
qed

text \<open>The recovery breaks that bound: a task that hangs in its last attempt is put back to pending
  without looking at its attempts, and the next claim runs it for the attempt after the last one.\<close>

theorem recovery_exceeds_limit:
  assumes "task_status r = RUNNING" "task_attempts r = task_max_attempts r" "task_started_at r = Some s"
    "to_iso (js_map (\<lambda>t. of_int ms - t) timeout) = Inr cutoff" "s \<le> cutoff"
    "valid_time ms" "iso_str ms \<le> now" "rowToRecord (start_task now (snd (recoverHangingTasks timeout ms [r]) ! 0)) = Inr t"
  shows "fst (claimNextBatch lc (Fin 1) [] now now' (snd (recoverHangingTasks timeout ms [r]))) = Inr [t] \<and>
    task_attempts (fst t) = task_max_attempts (fst t) + 1"
proof -
  let ?r = "r\<lparr>task_status := PENDING, task_started_at := None,
     task_last_error := Some ''Recovered after process crash or timeout'',
     task_updated_at := iso_str ms, task_scheduled_at := iso_str ms\<rparr>"
  have rec: "snd (recoverHangingTasks timeout ms [r]) = [?r]"
    using assms by (simp add: recoverHangingTasks_def Let_def)
  have "claim_hits 1 [] now [?r] = [?r]"
    using assms(7) by (simp add: claim_hits_def claim_ids_def claimable_def order_by_def)
  then have "fst (claimNextBatch lc (Fin 1) [] now now' [?r]) = Inr (records [start_task now ?r])"
    by (simp add: claim_run safe_int_def max_safe_integer_def Let_def js_sort_def)
  moreover have "rowToRecord (start_task now ?r) = Inr t" using assms(8) rec by simp
  ultimately show ?thesis
    using rowToRecord_Inr assms(2) by (fastforce simp: rec records_def start_task_def)
qed

text \<open>A delay that \<open>enqueue\<close> accepts can make \<open>markFailed\<close> throw: when the clock plus the delay is
  past the last date, the call raises a RangeError and the failed task stays running, unchanged.\<close>

theorem huge_delay_keeps_running:
  assumes "task_inv rows" "row \<in> set rows" "task_status row = RUNNING" "\<not> isNonRetryableClass err"
    "task_attempts row < task_max_attempts row"
    "retry_delay (task_attempts row) (row_policy row) rnd = Fin (of_int d)" "\<not> valid_time (now_ms + d)"
  shows "markFailed (task_id row) err now now_ms rnd rows = (Inl (raise RangeError ''Invalid time value''), rows)"
proof -
  have "to_iso (Fin (of_int (now_ms + d))) = Inl (raise RangeError ''Invalid time value'')"
    using assms(7) by (simp del: of_int_add)
  then show ?thesis
    using markFailed_run [OF assms(1-3), of err now now_ms rnd] assms(4-6) by simp
qed

section \<open>Witnesses\<close>

definition sample_task :: task_definition where
  "sample_task = \<lparr>def_type = ''mail'', def_unique_key = Some ''k'', def_payload = Serializable JNull,
     def_scheduled_at = None, def_policy = \<lparr>ov_max_attempts = None, ov_initial_delay = None,
       ov_multiplier = None, ov_max_delay = None, ov_jitter = None\<rparr>,
     def_timeout = None, def_org = ''o'', def_user = None, def_correlation = ''c''\<rparr>"

definition sample_row :: task_row where
  "sample_row = new_task_row sample_task ''null'' ''t1'' ''2026''"

definition running_row :: task_row where
  "running_row = start_task ''2027'' sample_row"

lemma sample_valid: "validate_definition sample_task = Inr ''null''"
  by code_simp

lemma null_text: "json_parse ''null'' = Inr JNull"
  using json_parse_stringify [of JNull] by simp

lemma sample_fields [simp]:
  "task_id sample_row = ''t1''" "task_unique_key sample_row = Some ''k''" "task_status sample_row = PENDING"
  "task_attempts sample_row = 0" "task_max_attempts sample_row = 3" "task_payload_json sample_row = ''null''"
  "task_scheduled_at sample_row = ''2026''" "task_retry_delay sample_row = 1000" "task_multiplier sample_row = 2"
  "task_max_delay sample_row = 60000" "task_jitter sample_row = 1 / 4" "task_timeout sample_row = 30000"
  "task_type sample_row = ''mail''"
  by (simp_all add: sample_row_def new_task_row_def sample_task_def Let_def merge_policy_def
      DEFAULT_RETRY_POLICY_def effective_timeout_def)

lemma sample_enqueue: "enqueue sample_task ''t1'' ''2026'' [] = (Inr (sample_row, JNull), [sample_row])"
proof -
  have "rowToRecord sample_row = Inr (sample_row, JNull)" by (simp add: rowToRecord_def null_text)
  moreover have key: "def_unique_key sample_task = Some ''k''" by (simp add: sample_task_def)
  moreover have "insert_task (new_task_row sample_task ''null'' ''t1'' ''2026'') [] = (Inr (), [sample_row])"
    by (simp add: insert_task_run sample_row_def)
  ultimately show ?thesis
    by (simp add: enqueue_def sample_valid enqueue_insert_def andthen_def catch_op_def find_active_def)
qed

lemma sample_inv: "task_inv [sample_row]" "task_inv [running_row]"
  by (auto simp: task_inv_def row_ok_def running_row_def start_task_def active_def)

lemma claim_one: "claimNextBatch cmp_units (Fin 1) [] ''2027'' ''2027'' [sample_row] =
    (Inr [(running_row, JNull)], [running_row])"
proof -
  have ids: "claim_ids 1 [] ''2027'' [sample_row] = [''t1'']"
    by (simp add: claim_ids_def claimable_def order_by_def less_char_def)
  then have h: "claim_hits 1 [] ''2027'' [sample_row] = [sample_row]"
    by (simp add: claim_hits_def)
  have u: "snd (claim_update 1 [] ''2027'' [sample_row]) = [running_row]"
    by (simp add: claim_update_run ids [simplified] running_row_def)
  have r: "rowToRecord running_row = Inr (running_row, JNull)"
    by (simp add: rowToRecord_def running_row_def start_task_def null_text)
  show ?thesis
    using h [simplified] u [simplified] r
    by (simp add: claim_run safe_int_def max_safe_integer_def Let_def js_sort_def records_def corrupt_def
        quarantine_all_def running_row_def [symmetric])
qed

lemma sample_step: "task_step [] [sample_row]"
  using step_enqueue [of "[]" sample_task "''t1''" "''2026''"] sample_enqueue by simp

theorem reachable_tasks_well_formed_witness: "distinct (map task_id [sample_row])"
  using reachable_tasks_well_formed [of "[sample_row]"] sample_step by blast

theorem finished_tasks_final_witness:
  "\<exists>r' \<in> set [sample_row\<lparr>task_status := CANCELLED\<rparr>]. row_move (sample_row\<lparr>task_status := CANCELLED\<rparr>) r' \<and>
     (terminal (task_status (sample_row\<lparr>task_status := CANCELLED\<rparr>)) \<longrightarrow> r' = sample_row\<lparr>task_status := CANCELLED\<rparr>)"
  by (rule finished_tasks_final [of "[sample_row\<lparr>task_status := CANCELLED\<rparr>]"]) simp_all


theorem enqueue_deduplicates_witness:
  "enqueue sample_task ''t2'' ''2030'' [sample_row] = (Inr (sample_row, JNull), [sample_row])"
  using enqueue_deduplicates [OF task_inv_Nil _ _ sample_enqueue, of "''k''"] by (simp add: sample_task_def)

theorem retry_delay_bounds_witness:
  "\<exists>d :: int. retry_delay 3 (row_policy sample_row) (1 / 2) = Fin (of_int d) \<and> 0 \<le> d \<and>
    of_int d \<le> np_max_delay (row_policy sample_row) * (1 + np_jitter (row_policy sample_row)) + 1 / 2 \<and>
    \<bar>of_int d - min (np_initial_delay (row_policy sample_row) * np_multiplier (row_policy sample_row) ^ nat (3 - 1))
       (np_max_delay (row_policy sample_row))\<bar>
      \<le> min (np_initial_delay (row_policy sample_row) * np_multiplier (row_policy sample_row) ^ nat (3 - 1))
         (np_max_delay (row_policy sample_row)) * np_jitter (row_policy sample_row) + 1 / 2"
  by (rule retry_delay_bounds) (simp_all add: row_policy_def)

lemma running_fields [simp]:
  "task_id running_row = ''t1''" "task_status running_row = RUNNING" "task_attempts running_row = 1"
  "task_max_attempts running_row = 3" "task_started_at running_row = Some ''2027''"
  "task_payload_json running_row = ''null''"
  by (simp_all add: running_row_def start_task_def)

theorem markFailed_outcome_witness:
  "fst (markFailed ''t1'' (Thrown (raise ValidationError ''bad'')) ''2028'' 0 0 [running_row]) = Inr False"
  using markFailed_outcome [OF sample_inv(2), of running_row "Thrown (raise ValidationError ''bad'')" "''2028''" 0 0]
  by (simp add: isNonRetryableClass_def NON_RETRYABLE_CLASSES_def platform_error_def)

theorem attempts_within_limit_witness: "task_attempts sample_row \<le> task_max_attempts sample_row"
  using attempts_within_limit [of "[sample_row]" sample_row] normal_enqueue [of "[]" sample_task "''t1''" "''2026''"]
    sample_enqueue by auto

theorem recovery_exceeds_limit_witness:
  "\<exists>t. task_attempts (fst t) = task_max_attempts (fst (t :: task_record)) + 1"
proof -
  let ?r = "running_row\<lparr>task_attempts := 3, task_started_at := Some ''1970''\<rparr>"
  have iso: "iso_str 60000 = ''1970-01-01T00:01:00.000Z''" "iso_str 0 = ''1970-01-01T00:00:00.000Z''"
    by code_simp+
  let ?rec = "recoverHangingTasks (Fin 60000) 60000 [?r]"
  let ?t = "(start_task ''2027'' (snd ?rec ! 0), JNull)"
  have "task_payload_json (snd ?rec ! 0) = ''null''"
    by (simp add: recoverHangingTasks_def Let_def valid_time_def iso sql_update_def)
  then have "rowToRecord (start_task ''2027'' (snd ?rec ! 0)) = Inr ?t"
    by (simp add: rowToRecord_def start_task_def null_text)
  from recovery_exceeds_limit [of ?r "''1970''" 60000 "Fin 60000" "iso_str 0" "''2027''" ?t, OF _ _ _ _ _ _ _ this]
  show ?thesis by (auto simp: valid_time_def iso less_char_def)
qed

theorem huge_delay_keeps_running_witness:
  "fst (markFailed ''t1'' (OtherValue ''x'') ''2028'' 8640000000000000 (1 / 2) [running_row])
    = Inl (raise RangeError ''Invalid time value'')"
proof -
  have fl: "\<lfloor>(2001 :: rat) / 2\<rfloor> = 1000" by (simp add: floor_eq_iff)
  have d: "retry_delay (task_attempts running_row) (row_policy running_row) (1 / 2) = Fin (of_int 1000)"
    by (simp add: retry_delay_def row_policy_def running_row_def start_task_def js_pow_def to_double_def
        Let_def js_round_def fl)
  show ?thesis
    using huge_delay_keeps_running [OF sample_inv(2) _ _ _ _ d, of "OtherValue ''x''" 8640000000000000 "''2028''"]
    by (simp add: isNonRetryableClass_def valid_time_def)
qed

end
