(* ===== verification/Envelope.thy ===== *)
theory Envelope
  imports Hlc Json
begin

text \<open>
  Signed sync envelopes (\<open>sync-protocol/src/envelope/SyncEnvelopeBuilder.ts\<close>): validation of an
  untrusted runtime value, the canonical bytes of an operation, building and verifying.  Envelopes
  and operations are JSON values, as the code receives them.  The signing and verifying callbacks
  are parameters.  The main facts are that the canonical bytes determine the operation up to the
  order of keys (\<open>canonicalize_eq_iff\<close>) and that what \<open>build\<close> returns validates.
\<close>

section \<open>Values and bytes\<close>

fun jfield :: "string \<Rightarrow> json \<Rightarrow> json option" where
  "jfield k (JObj m) = assoc_get k m"
| "jfield k _ = None"

fun is_record :: "json option \<Rightarrow> bool" where
  "is_record (Some (JObj m)) = True"
| "is_record _ = False"

text \<open>The text of a value in a template literal.\<close>

fun js_text :: "json \<Rightarrow> string" where
  "js_text JNull = ''null''"
| "js_text (JBool b) = (if b then ''true'' else ''false'')"
| "js_text (JNum q) = num_str q"
| "js_text (JStr s) = s"
| "js_text (JArr vs) = join_with '','' (map (\<lambda>v. if v = JNull then '''' else js_text v) vs)"
| "js_text (JObj m) = ''[object Object]''"

definition opt_text :: "json option \<Rightarrow> string" where
  "opt_text v = (case v of Some x \<Rightarrow> js_text x | None \<Rightarrow> ''undefined'')"

text \<open>\<open>TextEncoder\<close> on code units below 256.\<close>

definition utf8_char :: "char \<Rightarrow> nat list" where
  "utf8_char c = (let n = of_char c :: nat in
     if n < 128 then [n] else [192 + n div 64, 128 + n mod 64])"

definition utf8 :: "string \<Rightarrow> nat list" where
  "utf8 s = concat (map utf8_char s)"

definition MAX_SYNC_ENVELOPE_SIZE_BYTES :: nat where
  "MAX_SYNC_ENVELOPE_SIZE_BYTES = 10 * 1024 * 1024"

lemma utf8_char_prefix: "utf8_char c @ x = utf8_char d @ y \<Longrightarrow> c = d \<and> x = y"
proof -
  assume e: "utf8_char c @ x = utf8_char d @ y"
  have "(of_char c :: nat) = of_char d \<and> x = y"
    using e by (auto simp: utf8_char_def Let_def split: if_splits)
      (metis div_mult_mod_eq of_char_eq_iff)
  then show ?thesis by simp
qed

lemma utf8_inj: "utf8 s = utf8 t \<Longrightarrow> s = t"
proof (induction s arbitrary: t)
  case Nil
  then show ?case by (cases t) (auto simp: utf8_def utf8_char_def Let_def split: if_splits)
next
  case (Cons c s)
  then obtain d u where t: "t = d # u"
    by (cases t) (auto simp: utf8_def utf8_char_def Let_def split: if_splits)
  with Cons.prems have "utf8_char c @ utf8 s = utf8_char d @ utf8 u" by (simp add: utf8_def)
  with utf8_char_prefix Cons.IH t show ?case by blast
qed

section \<open>Canonical form\<close>

text \<open>A fresh object to which the entries are added one by one.\<close>

definition obj_build :: "(string \<times> 'v) list \<Rightarrow> (string \<times> 'v) list" where
  "obj_build es = foldl (\<lambda>m e. obj_put (fst e) (snd e) m) [] es"

fun sortedKeys :: "json \<Rightarrow> json" where
  "sortedKeys (JArr vs) = JArr (map sortedKeys vs)"
| "sortedKeys (JObj m) = JObj (obj_build (sort_key fst (map (\<lambda>e. (fst e, sortedKeys (snd e))) m)))"
| "sortedKeys v = v"

section \<open>Validation\<close>

definition lower_hex_re :: "nat \<Rightarrow> regex" where
  "lower_hex_re n = times n (Sym is_hex)"

definition isValidSignatureHex :: "string \<Rightarrow> bool" where
  "isValidSignatureHex s \<longleftrightarrow> re_test (lower_hex_re 128) s"

definition public_key_ok :: "string \<Rightarrow> bool" where
  "public_key_ok s \<longleftrightarrow> starts_with ''ed25519_pk_'' s \<and> re_test (lower_hex_re 64) (drop 11 s)"

definition plain :: "string \<Rightarrow> js_error" where
  "plain m = raise PlainError m"

definition validatePublicKeyFormat :: "json option \<Rightarrow> js_error + unit" where
  "validatePublicKeyFormat v = (case v of
     Some (JStr s) \<Rightarrow> if public_key_ok s then Inr ()
       else Inl (plain (''Invalid signer public key format. Expected '' @
         quoted ''ed25519_pk_<64-hex-chars>'' @ '', got: '' @ quoted s))
   | _ \<Rightarrow> Inl (plain (''Invalid signer public key format. Expected '' @
       quoted ''ed25519_pk_<64-hex-chars>'' @ '', got: '' @ quoted (opt_text v))))"

definition validateSignatureFormat :: "string \<Rightarrow> js_error + unit" where
  "validateSignatureFormat s = (if isValidSignatureHex s then Inr () else Inl (plain (
     ''Invalid signature format: expected 128-char lowercase hex string (64 raw bytes), got length '' @
     nat_str (length s))))"

definition OPERATION_TYPES :: "string list" where
  "OPERATION_TYPES = [''create'', ''update'', ''delete'']"

definition REQUIRED_OPERATION_FIELDS :: "string list" where
  "REQUIRED_OPERATION_FIELDS = [''operationId'', ''applicationId'', ''organisationId'', ''syncGroupId'',
     ''featureId'', ''entityType'', ''entityId'', ''authorId'', ''deviceId'', ''logicalTimestamp'']"

fun field_ok :: "json option \<Rightarrow> bool" where
  "field_ok (Some (JStr s)) = (trim s \<noteq> [] \<and> length s \<le> 1024)"
| "field_ok _ = False"

fun version_ok :: "json option \<Rightarrow> bool" where
  "version_ok (Some (JNum q)) = (is_safe_integer (Fin q) \<and> \<not> q < 1)"
| "version_ok _ = False"

fun jstr :: "json option \<Rightarrow> string" where
  "jstr (Some (JStr s)) = s"
| "jstr _ = []"

definition validateOperation :: "json option \<Rightarrow> js_error + unit" where
  "validateOperation v = (case v of
     Some (JObj m) \<Rightarrow>
       (case find_first (\<lambda>f. \<not> field_ok (assoc_get f m)) REQUIRED_OPERATION_FIELDS of
          Some f \<Rightarrow> Inl (plain (''Invalid sync operation field: '' @ f))
        | None \<Rightarrow>
            if assoc_get ''operation'' m \<notin> Some ` JStr ` set OPERATION_TYPES
            then Inl (plain ''Invalid sync operation type'')
            else if \<not> version_ok (assoc_get ''schemaVersion'' m) \<or> \<not> version_ok (assoc_get ''protocolVersion'' m)
            then Inl (plain ''Invalid sync operation version'')
            else if assoc_get ''payload'' m = None
            then Inl (plain ''Sync operation payload is required'')
            else (case hlc_parse (jstr (assoc_get ''logicalTimestamp'' m)) of Inl e \<Rightarrow> Inl e | Inr _ \<Rightarrow> Inr ()))
   | _ \<Rightarrow> Inl (plain ''Invalid sync operation''))"

definition canonicalize :: "json \<Rightarrow> js_error + nat list" where
  "canonicalize operation = (case validateOperation (Some operation) of
     Inl e \<Rightarrow> Inl e | Inr _ \<Rightarrow> Inr (utf8 (stringify (sortedKeys operation))))"

fun signed_at_ok :: "json option \<Rightarrow> bool" where
  "signed_at_ok (Some (JStr s)) = canonical_iso s"
| "signed_at_ok _ = False"

fun signature_ok :: "json option \<Rightarrow> bool" where
  "signature_ok (Some (JStr s)) = isValidSignatureHex s"
| "signature_ok _ = False"

definition validateEnvelope :: "json \<Rightarrow> js_error + unit" where
  "validateEnvelope e =
     (if \<not> is_record (Some e) then Inl (plain ''Invalid sync envelope'')
      else (case validateOperation (jfield ''operation'' e) of Inl err \<Rightarrow> Inl err | Inr _ \<Rightarrow>
        if jfield ''envelopeId'' e \<noteq> jfield ''operationId'' (the (jfield ''operation'' e))
        then Inl (plain ''Envelope ID must match operation ID'')
        else if \<not> signed_at_ok (jfield ''signedAt'' e)
        then Inl (plain ''Invalid envelope signing timestamp'')
        else (case validatePublicKeyFormat (jfield ''signerPublicKey'' e) of Inl err \<Rightarrow> Inl err | Inr _ \<Rightarrow>
          if \<not> signature_ok (jfield ''signature'' e)
          then Inl (plain ''Invalid envelope signature format'')
          else if length (utf8 (stringify e)) > MAX_SYNC_ENVELOPE_SIZE_BYTES
          then Inl (plain ''Sync envelope exceeds the 10485760-byte transport limit'')
          else Inr ())))"

section \<open>Building and verifying\<close>

definition envelope_json :: "json \<Rightarrow> string \<Rightarrow> string \<Rightarrow> string \<Rightarrow> json" where
  "envelope_json operation signedAt publicKey signature = JObj
     [(''envelopeId'', JStr (jstr (jfield ''operationId'' operation))), (''signedAt'', JStr signedAt),
      (''signerPublicKey'', JStr publicKey), (''signature'', JStr signature), (''operation'', operation)]"

definition build :: "json \<Rightarrow> string \<Rightarrow> (nat list \<Rightarrow> js_error + string) \<Rightarrow> string \<Rightarrow> js_error + json" where
  "build operation signerPublicKey signFn now =
     (case validateOperation (Some operation) of Inl e \<Rightarrow> Inl e | Inr _ \<Rightarrow>
     (case validatePublicKeyFormat (Some (JStr signerPublicKey)) of Inl e \<Rightarrow> Inl e | Inr _ \<Rightarrow>
     (case canonicalize operation of Inl e \<Rightarrow> Inl e | Inr bytes \<Rightarrow>
       if length bytes > MAX_SYNC_ENVELOPE_SIZE_BYTES
       then Inl (plain ''Sync operation exceeds the 10485760-byte transport limit'')
       else (case signFn bytes of Inl e \<Rightarrow> Inl e | Inr signature \<Rightarrow>
         (case validateSignatureFormat signature of Inl e \<Rightarrow> Inl e | Inr _ \<Rightarrow>
           (let envelope = envelope_json operation now signerPublicKey signature in
            case validateEnvelope envelope of Inl e \<Rightarrow> Inl e | Inr _ \<Rightarrow> Inr envelope))))))"

definition verify ::
    "(string \<Rightarrow> nat list \<Rightarrow> string \<Rightarrow> js_error + bool) \<Rightarrow> json \<Rightarrow> js_error + bool" where
  "verify verifyFn envelope = (case validateEnvelope envelope of Inl _ \<Rightarrow> Inr False | Inr _ \<Rightarrow>
     (case canonicalize (the (jfield ''operation'' envelope)) of Inl e \<Rightarrow> Inl e | Inr bytes \<Rightarrow>
       verifyFn (jstr (jfield ''signerPublicKey'' envelope)) bytes (jstr (jfield ''signature'' envelope))))"

section \<open>Objects and key order\<close>

lemma assoc_get_insert:
  "assoc_get k' m = None \<Longrightarrow> assoc_get k (obj_insert k' v m) = (if k = k' then Some v else assoc_get k m)"
  by (induction k' v m rule: obj_insert.induct) (auto split: if_splits)

lemma assoc_get_put: "assoc_get k (obj_put k' v m) = (if k = k' then Some v else assoc_get k m)"
  by (simp add: obj_put_def assoc_get_insert)

lemma assoc_get_build:
  "distinct (map fst es) \<Longrightarrow> assoc_get k (obj_build es) = assoc_get k es"
proof -
  have "distinct (map fst es) \<Longrightarrow> assoc_get k (foldl (\<lambda>m e. obj_put (fst e) (snd e) m) m es)
      = (case assoc_get k es of Some v \<Rightarrow> Some v | None \<Rightarrow> assoc_get k m)" for m
  proof (induction es arbitrary: m)
    case (Cons e es)
    obtain a b where e: "e = (a, b)" by (cases e)
    have "k = a \<Longrightarrow> assoc_get k es = None"
      using Cons.prems e by (auto simp: assoc_get_None)
    then show ?case using Cons e by (auto simp: assoc_get_put split: option.splits)
  qed simp
  then show "distinct (map fst es) \<Longrightarrow> assoc_get k (obj_build es) = assoc_get k es"
    by (simp add: obj_build_def split: option.splits)
qed

lemma set_obj_insert: "set (obj_insert k v m) = insert (k, v) (set m)"
  by (induction k v m rule: obj_insert.induct) auto

lemma obj_insert_ordered:
  "js_ordered (map fst m) \<Longrightarrow> k \<notin> fst ` set m \<Longrightarrow> (\<And>k'. is_index k \<Longrightarrow> k' \<in> fst ` set m \<Longrightarrow> is_index k' \<Longrightarrow>
      str_val 10 k \<noteq> str_val 10 k') \<Longrightarrow> js_ordered (map fst (obj_insert k v m))"
proof (induction k v m rule: obj_insert.induct)
  case (2 k v k' v' r)
  show ?case
  proof (cases "is_index k \<and> (\<not> is_index k' \<or> str_val 10 k < str_val 10 k')")
    case True
    then show ?thesis using "2.prems"(1) by (auto simp: list_all_iff split: if_splits)
  next
    case False
    have "js_ordered (map fst (obj_insert k v r))" using 2 False by (auto split: if_splits)
    moreover have "str_val 10 k' < str_val 10 k" if "is_index k" "is_index k'"
      using False that "2.prems"(3) [of k'] by auto
    ultimately show ?thesis
      using False "2.prems"(1) by (auto simp: list_all_iff set_obj_insert split: if_splits)
  qed
qed simp

text \<open>Two index keys with the same value are the same key.\<close>

lemma dec_char_val: "is_dec c \<Longrightarrow> \<exists>d < 10. char_digit c = Some d \<and> c = digit_char d"
proof -
  assume "is_dec c"
  then have n: "48 \<le> (of_char c :: nat)" "(of_char c :: nat) \<le> 57" by (simp_all add: is_dec_def Let_def)
  define d where "d = (of_char c :: nat) - 48"
  have d: "d < 10" "char_digit c = Some d" using n by (simp_all add: d_def char_digit_def Let_def)
  have "(of_char (digit_char d) :: nat) = of_char c" using n d(1) by (simp add: of_char_digit_char d_def)
  then have "c = digit_char d" by simp
  with d show ?thesis by blast
qed

lemma index_digits:
  assumes "is_index k"
  obtains ds where "k = map digit_char ds" "\<And>d. d \<in> set ds \<Longrightarrow> d < 10" "ds \<noteq> []" "hd ds = 0 \<longrightarrow> ds = [0]"
proof -
  define ds where "ds = map (\<lambda>c. the (char_digit c)) k"
  have all: "\<forall>c \<in> set k. is_dec c" using assms by (simp add: is_index_def list_all_iff)
  have k: "k = map digit_char ds" unfolding ds_def map_map
    by (rule map_idI [symmetric]) (use all dec_char_val in force)
  have lt: "d < 10" if "d \<in> set ds" for d
    using that all dec_char_val by (force simp: ds_def)
  have ne: "ds \<noteq> []" using assms by (auto simp: is_index_def ds_def)
  have "hd ds = 0 \<longrightarrow> ds = [0]"
  proof
    assume "hd ds = 0"
    then have "hd k = CHR ''0''" using ne by (simp add: k hd_map digit_char_0)
    then have "k = ''0''" using assms by (simp add: is_index_def)
    then show "ds = [0]" by (simp add: ds_def char_digit_def)
  qed
  then show ?thesis using that [of ds] k lt ne by fastforce
qed

lemma digits_val_lead: "ds \<noteq> [] \<Longrightarrow> 0 < b \<Longrightarrow> hd ds \<noteq> 0 \<Longrightarrow> b ^ (length ds - 1) \<le> digits_val b ds"
  by (cases ds) (auto simp: digits_val_Cons intro: trans_le_add1)

lemma index_val_inj:
  assumes "is_index k" "is_index k'" "str_val 10 k = str_val 10 k'"
  shows "k = k'"
proof -
  obtain ds where ds: "k = map digit_char ds" "\<And>d. d \<in> set ds \<Longrightarrow> d < 10" "ds \<noteq> []" "hd ds = 0 \<longrightarrow> ds = [0]"
    using index_digits [OF assms(1)] by metis
  obtain es where es: "k' = map digit_char es" "\<And>d. d \<in> set es \<Longrightarrow> d < 10" "es \<noteq> []" "hd es = 0 \<longrightarrow> es = [0]"
    using index_digits [OF assms(2)] by metis
  have lt16: "d \<in> set ds \<Longrightarrow> d < 16" "d \<in> set es \<Longrightarrow> d < 16" for d
    using ds(2) [of d] es(2) [of d] by auto
  have v: "digits_val 10 ds = digits_val 10 es"
    using assms(3) lt16 by (simp add: ds(1) es(1) str_val_map_digit)
  have len: "length xs \<le> length ys"
    if "digits_val 10 xs = digits_val 10 ys" "xs \<noteq> []" "ys \<noteq> []" "hd xs = 0 \<longrightarrow> xs = [0]" "\<And>d. d \<in> set ys \<Longrightarrow> d < 10"
    for xs ys :: "nat list"
  proof (cases "hd xs = 0")
    case True
    then show ?thesis using that by (cases ys) auto
  next
    case False
    then have "10 ^ (length xs - 1) \<le> digits_val 10 ys" using digits_val_lead [of xs 10] that by simp
    also have "\<dots> < 10 ^ length ys" by (rule digits_val_bound) (use that in auto)
    finally have "length xs - 1 < length ys" by simp
    then show ?thesis by simp
  qed
  have "length ds = length es" using len [of ds es] len [of es ds] v ds es by force
  moreover have "\<not> ds < es" "\<not> es < ds"
    using digits_val_less [OF calculation, of 10] digits_val_less [OF calculation [symmetric], of 10] ds(2) es(2) v
    by auto
  ultimately have "ds = es" by (metis linorder_neqE)
  then show ?thesis by (simp add: ds es)
qed

lemma obj_put_object: "js_object m \<Longrightarrow> js_object (obj_put k v m)"
proof (cases "assoc_get k m")
  case None
  then have k: "k \<notin> fst ` set m" by (simp add: assoc_get_None)
  assume o: "js_object m"
  have "js_ordered (map fst (obj_insert k v m))"
    using o k index_val_inj by (intro obj_insert_ordered) (auto simp: js_object_def)
  moreover have "distinct (map fst (obj_insert k v m))"
    using o k by (induction k v m rule: obj_insert.induct)
      (auto simp: js_object_def set_obj_insert split: if_splits)
  ultimately show ?thesis using None by (simp add: obj_put_def js_object_def)
next
  case (Some w)
  assume "js_object m"
  moreover have "map fst (assoc_set k v m) = map fst m"
    using Some by (induction m) (auto split: if_splits)
  ultimately show ?thesis using Some by (simp add: obj_put_def js_object_def)
qed

lemma obj_build_object: "js_object (obj_build es)"
proof -
  have "js_object m \<Longrightarrow> js_object (foldl (\<lambda>m e. obj_put (fst e) (snd e) m) m es)" for m
    by (induction es arbitrary: m) (auto intro: obj_put_object)
  then show ?thesis by (simp add: obj_build_def js_object_def)
qed

section \<open>Values up to the order of keys\<close>

inductive same_value :: "json \<Rightarrow> json \<Rightarrow> bool" where
  same_null: "same_value JNull JNull"
| same_bool: "same_value (JBool b) (JBool b)"
| same_num: "same_value (JNum q) (JNum q)"
| same_str: "same_value (JStr s) (JStr s)"
| same_arr: "list_all2 same_value vs ws \<Longrightarrow> same_value (JArr vs) (JArr ws)"
| same_obj: "fst ` set m = fst ` set m' \<Longrightarrow>
    (\<And>k v w. assoc_get k m = Some v \<Longrightarrow> assoc_get k m' = Some w \<Longrightarrow> same_value v w) \<Longrightarrow>
    same_value (JObj m) (JObj m')"

inductive_cases same_objE: "same_value (JObj m) w"
inductive_cases same_arrE: "same_value (JArr vs) w"

lemma sort_key_unique:
  assumes "distinct (map fst xs)" "distinct (map fst ys)" "set xs = set ys"
  shows "sort_key fst xs = sort_key fst (ys :: ('k :: linorder \<times> 'v) list)"
proof -
  have "map fst (sort_key fst xs) = map fst (sort_key fst ys)"
    by (rule sorted_distinct_set_unique) (use assms in \<open>simp_all add: distinct_map\<close>)
  moreover have "inj_on fst (set (sort_key fst xs) \<union> set (sort_key fst ys))"
    using assms by (simp add: distinct_map)
  ultimately show ?thesis by (rule map_inj_on)
qed

lemma keys_map_snd: "map fst (map (\<lambda>e. (fst e, f (snd e))) m) = map fst m"
  by simp

lemma assoc_get_map_snd: "assoc_get k (map (\<lambda>e. (fst e, f (snd e))) m) = map_option f (assoc_get k m)"
  by (induction m) auto

lemma assoc_get_sort:
  assumes "distinct (map fst es)"
  shows "assoc_get k (sort_key fst es) = assoc_get k es"
proof -
  have d: "distinct (map fst (sort_key fst es))" using assms by (simp add: distinct_map)
  show ?thesis
  proof (cases "assoc_get k es")
    case None
    then have "k \<notin> fst ` set (sort_key fst es)" by (simp add: assoc_get_None)
    then show ?thesis using None assoc_get_None [of k "sort_key fst es"] by simp
  next
    case (Some v)
    then have "(k, v) \<in> set (sort_key fst es)" by (auto dest: assoc_get_SomeD)
    then show ?thesis using Some assoc_get_unique [OF d] by simp
  qed
qed

lemma sorted_keys_get:
  assumes "js_object m"
  shows "assoc_get k (obj_build (sort_key fst (map (\<lambda>e. (fst e, sortedKeys (snd e))) m)))
    = map_option sortedKeys (assoc_get k m)"
proof -
  have d: "distinct (map fst (map (\<lambda>e. (fst e, sortedKeys (snd e))) m))"
    using assms unfolding keys_map_snd by (simp add: js_object_def)
  have d': "distinct (map fst (sort_key fst (map (\<lambda>e. (fst e, sortedKeys (snd e))) m)))"
    using d distinct_order_by [of fst fst] unfolding order_by_def by blast
  show ?thesis by (simp only: assoc_get_build [OF d'] assoc_get_sort [OF d] assoc_get_map_snd)
qed

lemma set_assoc: "distinct (map fst m) \<Longrightarrow> set m = {(k, v). assoc_get k m = Some v}"
  by (auto intro: assoc_get_unique dest: assoc_get_SomeD)

lemma same_sorted: "same_value a b \<Longrightarrow> wf_json a \<Longrightarrow> wf_json b \<Longrightarrow> sortedKeys a = sortedKeys b"
proof (induction rule: same_value.induct)
  case (same_arr vs ws)
  then show ?case by (auto simp: list_all2_conv_all_nth list_all_length intro: nth_equalityI)
next
  case (same_obj m m')
  define f where "f = (\<lambda>e :: string \<times> json. (fst e, sortedKeys (snd e)))"
  have o: "js_object m" "js_object m'" using same_obj.prems by simp_all
  have mf: "map fst (map f x) = map fst x" for x unfolding f_def by (rule keys_map_snd)
  from o have d: "distinct (map fst (map f m))" "distinct (map fst (map f m'))"
    unfolding js_object_def mf by blast+
  have "assoc_get k (map f m) = assoc_get k (map f m')" for k
  proof (cases "assoc_get k m")
    case None
    then have "assoc_get k m' = None" using same_obj.hyps(1) by (simp add: assoc_get_None)
    then show ?thesis using None by (simp add: f_def assoc_get_map_snd)
  next
    case (Some v)
    then have "assoc_get k m' \<noteq> None" using same_obj.hyps(1) assoc_get_None by (metis option.distinct(1))
    then obtain w where w: "assoc_get k m' = Some w" by blast
    have "wf_json v" "wf_json w"
      using same_obj.prems assoc_get_SomeD [OF Some] assoc_get_SomeD [OF w] by (auto simp: list_all_iff)
    then have "sortedKeys v = sortedKeys w" using same_obj.IH [OF Some w] by simp
    then show ?thesis using Some w by (simp add: f_def assoc_get_map_snd)
  qed
  then have "set (map f m) = set (map f m')" using set_assoc [OF d(1)] set_assoc [OF d(2)] by simp
  then have "sort_key fst (map f m) = sort_key fst (map f m')" by (rule sort_key_unique [OF d])
  then show ?case by (simp add: f_def)
qed simp_all

lemma sorted_same: "sortedKeys a = sortedKeys b \<Longrightarrow> wf_json a \<Longrightarrow> wf_json b \<Longrightarrow> same_value a b"
proof (induction a arbitrary: b)
  case (JArr vs)
  obtain ws where b: "b = JArr ws" "map sortedKeys vs = map sortedKeys ws"
    using JArr.prems(1) by (cases b) auto
  have len: "length vs = length ws" using b(2) map_eq_imp_length_eq by blast
  have "same_value (vs ! i) (ws ! i)" if "i < length vs" for i
    using JArr b len that by (auto simp: list_all_length list_eq_iff_nth_eq)
  then show ?case using b len by (auto intro!: same_arr list_all2_all_nthI)
next
  case (JObj m)
  obtain m' where b: "b = JObj m'" using JObj.prems(1) by (cases b) auto
  have o: "js_object m" "js_object m'" using JObj.prems b by simp_all
  have eq: "map_option sortedKeys (assoc_get k m) = map_option sortedKeys (assoc_get k m')" for k
    using JObj.prems(1) b sorted_keys_get [OF o(1), of k] sorted_keys_get [OF o(2), of k] by simp
  have "assoc_get k m = None \<longleftrightarrow> assoc_get k m' = None" for k
    using eq [of k] by (cases "assoc_get k m"; cases "assoc_get k m'") auto
  then have "fst ` set m = fst ` set m'" unfolding assoc_get_None by blast
  moreover have "same_value v w" if vw: "assoc_get k m = Some v" "assoc_get k m' = Some w" for k v w
  proof -
    have "wf_json v" "wf_json w"
      using JObj.prems b assoc_get_SomeD [OF vw(1)] assoc_get_SomeD [OF vw(2)] by (auto simp: list_all_iff)
    moreover have "sortedKeys v = sortedKeys w" using eq [of k] vw by simp
    moreover have "(k, v) \<in> set m" using assoc_get_SomeD [OF vw(1)] .
    ultimately show ?thesis using JObj.IH [of "(k, v)" v w] by simp
  qed
  ultimately show ?case unfolding b by (rule same_obj)
next
  case JNull
  then show ?case by (cases b) (simp_all add: same_null)
next
  case (JBool x)
  then show ?case by (cases b) (simp_all add: same_bool)
next
  case (JNum x)
  then show ?case by (cases b) (simp_all add: same_num)
next
  case (JStr x)
  then show ?case by (cases b) (simp_all add: same_str)
qed

lemma obj_build_values: "e \<in> set (obj_build es) \<Longrightarrow> \<exists>e' \<in> set es. snd e = snd e'"
proof -
  have put: "snd ` set (obj_put k v m) \<subseteq> insert v (snd ` set m)" for k and v :: 'a and m
  proof -
    have "snd ` set (assoc_set k v m) \<subseteq> insert v (snd ` set m)"
      by (induction m rule: assoc_get.induct [of _ k]) auto
    moreover have "snd ` set (obj_insert k v m) = insert v (snd ` set m)" by (simp add: set_obj_insert)
    ultimately show ?thesis by (simp add: obj_put_def)
  qed
  have "snd ` set (foldl (\<lambda>m e. obj_put (fst e) (snd e) m) m es) \<subseteq> snd ` set m \<union> snd ` set es" for m
  proof (induction es arbitrary: m)
    case (Cons e es)
    have "snd ` set (foldl (\<lambda>m e. obj_put (fst e) (snd e) m) m (e # es))
        \<subseteq> snd ` set (obj_put (fst e) (snd e) m) \<union> snd ` set es"
      using Cons [of "obj_put (fst e) (snd e) m"] by (simp only: foldl_Cons)
    also have "\<dots> \<subseteq> insert (snd e) (snd ` set m) \<union> snd ` set es"
      using put [of "fst e" "snd e" m] by (rule Un_mono) (rule order.refl)
    finally show ?case by (simp only: list.set image_insert) blast
  qed simp
  from this [of "[]"] show "e \<in> set (obj_build es) \<Longrightarrow> \<exists>e' \<in> set es. snd e = snd e'"
    by (auto simp: obj_build_def)
qed

lemma wf_sortedKeys: "wf_json v \<Longrightarrow> wf_json (sortedKeys v)"
proof (induction v)
  case (JObj m)
  have "wf_json (snd e)" if "e \<in> set (obj_build (sort_key fst (map (\<lambda>e. (fst e, sortedKeys (snd e))) m)))" for e
  proof -
    from obj_build_values [OF that] obtain e' where e': "e' \<in> set m" "snd e = sortedKeys (snd e')" by auto
    then have "wf_json (snd e')" using JObj.prems by (auto simp: list_all_iff)
    moreover have "snd e' \<in> Basic_BNFs.snds e'" by (cases e') simp
    ultimately show ?thesis using JObj.IH [OF e'(1)] e'(2) by simp
  qed
  then show ?case by (auto simp: list_all_iff obj_build_object)
qed (auto simp: list_all_iff)

lemma canonicalize_Inr:
  "canonicalize v = Inr bs \<longleftrightarrow> validateOperation (Some v) = Inr () \<and> bs = utf8 (stringify (sortedKeys v))"
  by (auto simp: canonicalize_def split: sum.splits)

lemma canonicalize_same:
  assumes "wf_json a" "wf_json b" "canonicalize a = Inr x" "canonicalize b = Inr y"
  shows "x = y \<longleftrightarrow> same_value a b"
proof -
  have "x = y \<longleftrightarrow> sortedKeys a = sortedKeys b"
    using assms(3,4) utf8_inj stringify_inj [OF wf_sortedKeys [OF assms(1)] wf_sortedKeys [OF assms(2)]]
    unfolding canonicalize_Inr by metis
  then show ?thesis using same_sorted sorted_same assms(1,2) by blast
qed

section \<open>Properties\<close>

lemma wf_jfield: "wf_json v \<Longrightarrow> jfield k v = Some w \<Longrightarrow> wf_json w"
proof (cases v)
  case (JObj m)
  assume "wf_json v" "jfield k v = Some w"
  with JObj have "(k, w) \<in> set m" "list_all (\<lambda>e. wf_json (snd e)) m" by (auto dest: assoc_get_SomeD)
  then show "wf_json w" unfolding list_all_iff by (metis snd_conv)
qed simp_all

lemma build_Inr:
  assumes "build operation pk signFn now = Inr env"
  obtains bytes sig where "canonicalize operation = Inr bytes" "signFn bytes = Inr sig"
    "env = envelope_json operation now pk sig" "validateEnvelope env = Inr ()"
  using assms by (auto simp: build_def Let_def split: sum.splits if_splits)

lemma envelope_fields [simp]:
  "jfield ''operation'' (envelope_json op now pk sig) = Some op"
  "jfield ''signerPublicKey'' (envelope_json op now pk sig) = Some (JStr pk)"
  "jfield ''signature'' (envelope_json op now pk sig) = Some (JStr sig)"
  "jfield ''signedAt'' (envelope_json op now pk sig) = Some (JStr now)"
  "jfield ''envelopeId'' (envelope_json op now pk sig) = Some (JStr (jstr (jfield ''operationId'' op)))"
  by (simp_all add: envelope_json_def)

lemma verify_True:
  "verify f env = Inr True \<longleftrightarrow> validateEnvelope env = Inr () \<and>
    (\<exists>bytes. canonicalize (the (jfield ''operation'' env)) = Inr bytes \<and>
       f (jstr (jfield ''signerPublicKey'' env)) bytes (jstr (jfield ''signature'' env)) = Inr True)"
  by (auto simp: verify_def split: sum.splits)

lemma is_hex_regex: "re_test (lower_hex_re n) s \<longleftrightarrow> length s = n \<and> list_all is_hex s"
  by (simp add: lower_hex_re_def re_test_iff accepts_times_sym)

definition sample_operation :: json where
  "sample_operation = JObj [(''operationId'', JStr ''op1''), (''applicationId'', JStr ''app''),
     (''organisationId'', JStr ''org''), (''syncGroupId'', JStr ''g''), (''featureId'', JStr ''notes''),
     (''entityType'', JStr ''note''), (''entityId'', JStr ''n1''), (''operation'', JStr ''update''),
     (''payload'', JObj [(''b'', JNum 2), (''a'', JNum 1)]), (''authorId'', JStr ''u''), (''deviceId'', JStr ''d''),
     (''logicalTimestamp'', JStr ''00000000000a_0000_d''), (''schemaVersion'', JNum 1), (''protocolVersion'', JNum 1)]"

definition sample_key :: string where "sample_key = ''ed25519_pk_'' @ replicate 64 (CHR ''a'')"
definition sample_sig :: string where "sample_sig = replicate 128 (CHR ''0'')"

definition sample_envelope :: json where
  "sample_envelope = envelope_json sample_operation (iso_str 0) sample_key sample_sig"

lemma sample_operation_ok: "validateOperation (Some sample_operation) = Inr ()"
  by code_simp

lemma sample_operation_wf: "wf_json sample_operation"
  by code_simp

lemma sample_key_ok: "public_key_ok sample_key"
proof -
  have "drop 11 sample_key = replicate 64 (CHR ''a'')" by (simp add: sample_key_def)
  then show ?thesis
    by (simp add: public_key_ok_def is_hex_regex is_hex_def char_digit_def list_all_iff sample_key_def)
qed

lemma sample_sig_ok: "isValidSignatureHex sample_sig"
  by (simp add: isValidSignatureHex_def is_hex_regex sample_sig_def is_hex_def char_digit_def list_all_iff)

lemma length_utf8: "length (utf8 s) \<le> 2 * length s"
  by (induction s) (auto simp: utf8_def utf8_char_def Let_def)

lemma envelope_json_ok:
  assumes "validateOperation (Some op) = Inr ()" "jfield ''operationId'' op = Some (JStr i)"
    "length (stringify (envelope_json op (iso_str 0) sample_key sample_sig)) < 2000"
  shows "validateEnvelope (envelope_json op (iso_str 0) sample_key sample_sig) = Inr ()"
proof -
  let ?e = "envelope_json op (iso_str 0) sample_key sample_sig"
  have "length (utf8 (stringify ?e)) < 4000"
    using assms(3) length_utf8 [of "stringify ?e"] by linarith
  then have "length (utf8 (stringify ?e)) \<le> MAX_SYNC_ENVELOPE_SIZE_BYTES"
    by (simp add: MAX_SYNC_ENVELOPE_SIZE_BYTES_def)
  moreover have "is_record (Some ?e)" "jfield ''operation'' ?e = Some op"
    "jfield ''envelopeId'' ?e = Some (JStr i)" "jfield ''signedAt'' ?e = Some (JStr (iso_str 0))"
    "jfield ''signerPublicKey'' ?e = Some (JStr sample_key)" "jfield ''signature'' ?e = Some (JStr sample_sig)"
    using assms(2) by (simp_all add: envelope_json_def)
  ultimately show ?thesis
    using assms(1,2)
    by (simp add: validateEnvelope_def canonical_iso_str valid_time_def
        validatePublicKeyFormat_def sample_key_ok sample_sig_ok)
qed

lemma sample_envelope_ok: "validateEnvelope sample_envelope = Inr ()"
proof -
  have "length (stringify (envelope_json sample_operation (iso_str 0) sample_key sample_sig)) < 2000" by code_simp
  moreover have "jfield ''operationId'' sample_operation = Some (JStr ''op1'')"
    by (simp add: sample_operation_def)
  ultimately show ?thesis
    using envelope_json_ok [OF sample_operation_ok] by (simp add: sample_envelope_def)
qed

text \<open>C7. The canonical bytes a signature covers determine the operation, every own key of every nested
  object included (\<open>__proto__\<close> among them), and nothing but the order of keys is lost: two valid
  operations whose numbers are integral have the same canonical bytes exactly when they are the same value up to key order.\<close>

theorem canonical_bytes_bind_operation:
  assumes "wf_json a" "wf_json b" "canonicalize a = Inr x" "canonicalize b = Inr y"
  shows "x = y \<longleftrightarrow> same_value a b"
  by (rule canonicalize_same [OF assms])

theorem canonical_bytes_bind_operation_witness:
  "same_value sample_operation (sortedKeys sample_operation)"
proof -
  have v: "validateOperation (Some (sortedKeys sample_operation)) = Inr ()" by code_simp
  have i: "sortedKeys (sortedKeys sample_operation) = sortedKeys sample_operation" by code_simp
  show ?thesis
    using canonical_bytes_bind_operation [OF sample_operation_wf wf_sortedKeys [OF sample_operation_wf],
        of "utf8 (stringify (sortedKeys sample_operation))" "utf8 (stringify (sortedKeys sample_operation))"]
      sample_operation_ok v i
    by (simp add: canonicalize_def)
qed

text \<open>C8. What \<open>build\<close> returns is a valid envelope around the very operation, signed at the given time
  with the signature of its canonical bytes, and \<open>verify\<close> of it calls the verifier with exactly the
  key, bytes and signature of the signing; so a verifier that accepts what the signer signs accepts it.\<close>

theorem build_then_verify:
  assumes "build operation pk signFn now = Inr env"
  shows "validateEnvelope env = Inr () \<and> jfield ''operation'' env = Some operation \<and>
    (\<exists>bytes sig. canonicalize operation = Inr bytes \<and> signFn bytes = Inr sig \<and>
       (\<forall>verifyFn. verify verifyFn env = verifyFn pk bytes sig))"
  using assms
proof (rule build_Inr)
  fix bytes sig
  assume "canonicalize operation = Inr bytes" "signFn bytes = Inr sig"
    "env = envelope_json operation now pk sig" "validateEnvelope env = Inr ()"
  then show ?thesis by (auto simp: verify_def)
qed

lemma sample_build: "build sample_operation sample_key (\<lambda>_. Inr sample_sig) (iso_str 0) = Inr sample_envelope"
proof -
  have "length (stringify (sortedKeys sample_operation)) < 2000" by code_simp
  then have "length (utf8 (stringify (sortedKeys sample_operation))) < 4000"
    using length_utf8 [of "stringify (sortedKeys sample_operation)"] by linarith
  then show ?thesis
    using sample_envelope_ok
    by (simp add: build_def sample_operation_ok validatePublicKeyFormat_def sample_key_ok canonicalize_def
        MAX_SYNC_ENVELOPE_SIZE_BYTES_def validateSignatureFormat_def sample_sig_ok sample_envelope_def Let_def)
qed

theorem build_then_verify_witness: "validateEnvelope sample_envelope = Inr ()"
  using build_then_verify [OF sample_build] by blast

lemma verified_same:
  assumes "\<And>pk b b' s. f pk b s = Inr True \<Longrightarrow> f pk b' s = Inr True \<Longrightarrow> b = b'"
    "verify f e = Inr True" "verify f e' = Inr True"
    "jfield ''signerPublicKey'' e = jfield ''signerPublicKey'' e'" "jfield ''signature'' e = jfield ''signature'' e'"
    "jfield ''operation'' e = Some a" "jfield ''operation'' e' = Some b" "wf_json a" "wf_json b"
  shows "same_value a b \<and> validateEnvelope e = Inr () \<and> validateEnvelope e' = Inr ()"
proof -
  obtain x where x: "canonicalize a = Inr x" "f (jstr (jfield ''signerPublicKey'' e)) x (jstr (jfield ''signature'' e)) = Inr True"
    using assms(2,6) by (auto simp: verify_True)
  obtain y where y: "canonicalize b = Inr y" "f (jstr (jfield ''signerPublicKey'' e')) y (jstr (jfield ''signature'' e')) = Inr True"
    using assms(3,7) by (auto simp: verify_True)
  have "x = y" using assms(1) [OF x(2), of y] y(2) assms(4,5) by simp
  then show ?thesis using canonicalize_same [OF assms(8,9) x(1) y(1)] assms(2,3) by (simp add: verify_True)
qed

text \<open>Tampering is evident: if the verifier accepts at most one message per key and signature, then
  two envelopes with the same key and signature that both verify carry the same operation, up to the
  order of keys; and an envelope that does not validate is never handed to the verifier.\<close>

theorem tampering_evident:
  assumes "\<And>pk b b' s. f pk b s = Inr True \<Longrightarrow> f pk b' s = Inr True \<Longrightarrow> b = b'"
    "verify f e = Inr True" "verify f e' = Inr True"
    "jfield ''signerPublicKey'' e = jfield ''signerPublicKey'' e'" "jfield ''signature'' e = jfield ''signature'' e'"
    "jfield ''operation'' e = Some a" "jfield ''operation'' e' = Some b" "wf_json a" "wf_json b"
  shows "same_value a b \<and> validateEnvelope e = Inr () \<and> validateEnvelope e' = Inr ()"
  by (rule verified_same [OF assms])

theorem tampering_evident_witness: "same_value sample_operation sample_operation"
proof -
  let ?b = "utf8 (stringify (sortedKeys sample_operation))"
  let ?f = "\<lambda>pk b s. Inr (b = ?b) :: js_error + bool"
  have v: "verify ?f sample_envelope = Inr True"
    using sample_envelope_ok by (simp add: verify_def sample_envelope_def canonicalize_def sample_operation_ok)
  have o: "jfield ''operation'' sample_envelope = Some sample_operation" by (simp add: sample_envelope_def)
  show ?thesis
    using tampering_evident [OF _ v v refl refl o o sample_operation_wf sample_operation_wf] by blast
qed

end
