(* ===== verification/Outbox.thy ===== *)
theory Outbox
  imports Envelope
begin

text \<open>
  The durable outbound queue (\<open>sync/src/outbox/OutboxService.ts\<close>) on the table
  \<open>core_sync_outbox\<close>, with its unique envelope id and its reference to a sync group.  The state
  of an operation is the table; the ids of the existing sync groups are an argument.
\<close>

section \<open>Data\<close>

datatype outbox_status = OutPending | OutSent | OutFailed

record outbox_row =
  ob_id :: string
  ob_created_at :: string
  ob_envelope_id :: string
  ob_envelope_json :: "string option"
  ob_org :: string
  ob_group :: string
  ob_feature :: string
  ob_entity_type :: string
  ob_entity_id :: string
  ob_operation :: string
  ob_payload_json :: string
  ob_author :: string
  ob_device :: string
  ob_logical :: string
  ob_schema :: int
  ob_protocol :: int
  ob_signer :: string
  ob_signature :: string
  ob_status :: outbox_status
  ob_attempts :: int
  ob_last_attempt :: "string option"
  ob_sent_at :: "string option"

type_synonym outbox_table = "outbox_row list"

definition MAX_OUTBOX_BATCH_SIZE :: int where "MAX_OUTBOX_BATCH_SIZE = 50"

section \<open>Operations\<close>

fun jint :: "json option \<Rightarrow> int" where
  "jint (Some (JNum q)) = \<lfloor>q\<rfloor>"
| "jint _ = 0"

text \<open>The columns taken from an envelope.\<close>

definition outbox_row_of :: "json \<Rightarrow> string \<Rightarrow> string \<Rightarrow> outbox_row" where
  "outbox_row_of env newId now = (let op = the (jfield ''operation'' env); s = (\<lambda>k. jstr (jfield k op)) in
     \<lparr>ob_id = newId, ob_created_at = now, ob_envelope_id = jstr (jfield ''envelopeId'' env),
      ob_envelope_json = Some (stringify env), ob_org = s ''organisationId'', ob_group = s ''syncGroupId'',
      ob_feature = s ''featureId'', ob_entity_type = s ''entityType'', ob_entity_id = s ''entityId'',
      ob_operation = s ''operation'', ob_payload_json = stringify (the (jfield ''payload'' op)),
      ob_author = s ''authorId'', ob_device = s ''deviceId'', ob_logical = s ''logicalTimestamp'',
      ob_schema = jint (jfield ''schemaVersion'' op), ob_protocol = jint (jfield ''protocolVersion'' op),
      ob_signer = jstr (jfield ''signerPublicKey'' env), ob_signature = jstr (jfield ''signature'' env),
      ob_status = OutPending, ob_attempts = 0, ob_last_attempt = None, ob_sent_at = None\<rparr>)"

definition outbox_insert :: "string list \<Rightarrow> outbox_row \<Rightarrow> (outbox_table, unit) op" where
  "outbox_insert groups row = andthen (get id) (\<lambda>rows.
     andthen (guard (\<forall>r \<in> set rows. ob_id r \<noteq> ob_id row)
       (raise PlainError ''UNIQUE constraint failed: core_sync_outbox.id''))
     (\<lambda>_. andthen (guard (\<forall>r \<in> set rows. ob_envelope_id r \<noteq> ob_envelope_id row)
       (raise PlainError ''UNIQUE constraint failed: core_sync_outbox.envelope_id''))
     (\<lambda>_. andthen (guard (ob_group row \<in> set groups) (raise PlainError ''FOREIGN KEY constraint failed''))
     (\<lambda>_. modify (\<lambda>rows. rows @ [row])))))"

definition outbox_enqueue :: "string list \<Rightarrow> json \<Rightarrow> string \<Rightarrow> string \<Rightarrow> (outbox_table, outbox_row) op" where
  "outbox_enqueue groups env newId now =
     (case validateEnvelope env of
        Inl e \<Rightarrow> throw (raise ValidationError (''Invalid outbox envelope: '' @ err_message e))
      | Inr _ \<Rightarrow> andthen (outbox_insert groups (outbox_row_of env newId now))
          (\<lambda>_. ret (outbox_row_of env newId now)))"

definition outbox_markSent :: "string \<Rightarrow> string \<Rightarrow> (outbox_table, unit) op" where
  "outbox_markSent envelopeId now = modify (sql_update
     (\<lambda>r. ob_envelope_id r = envelopeId \<and> ob_status r = OutPending)
     (\<lambda>r. r\<lparr>ob_status := OutSent, ob_sent_at := Some now\<rparr>))"

definition failed_attempt :: "jsnum \<Rightarrow> string \<Rightarrow> outbox_row \<Rightarrow> outbox_row" where
  "failed_attempt maxAttempts now r = r\<lparr>ob_attempts := ob_attempts r + 1, ob_last_attempt := Some now,
     ob_status := (if of_int (ob_attempts r + 1) \<ge> num_val maxAttempts then OutFailed else ob_status r)\<rparr>"

definition outbox_markFailed :: "string \<Rightarrow> jsnum \<Rightarrow> string \<Rightarrow> (outbox_table, unit) op" where
  "outbox_markFailed envelopeId maxAttempts now =
     andthen (guard (is_safe_integer maxAttempts \<and> \<not> js_le maxAttempts (Fin 0))
       (raise ValidationError ''Outbox maxAttempts must be a positive safe integer''))
     (\<lambda>_. modify (sql_update (\<lambda>r. ob_envelope_id r = envelopeId \<and> ob_status r = OutPending)
       (failed_attempt maxAttempts now)))"

text \<open>The check of a stored envelope against its columns; the result is the stored text.\<close>

definition matches_row :: "outbox_row \<Rightarrow> json \<Rightarrow> bool" where
  "matches_row r env = (let op = the (jfield ''operation'' env); eq = (\<lambda>k v. jfield k op = Some (JStr v)) in
     jfield ''envelopeId'' env = Some (JStr (ob_envelope_id r)) \<and>
     jfield ''signerPublicKey'' env = Some (JStr (ob_signer r)) \<and>
     jfield ''signature'' env = Some (JStr (ob_signature r)) \<and>
     eq ''organisationId'' (ob_org r) \<and> eq ''syncGroupId'' (ob_group r) \<and> eq ''featureId'' (ob_feature r) \<and>
     eq ''entityType'' (ob_entity_type r) \<and> eq ''entityId'' (ob_entity_id r) \<and>
     eq ''operation'' (ob_operation r) \<and> stringify (the (jfield ''payload'' op)) = ob_payload_json r \<and>
     eq ''authorId'' (ob_author r) \<and> eq ''deviceId'' (ob_device r) \<and> eq ''logicalTimestamp'' (ob_logical r) \<and>
     jfield ''schemaVersion'' op = Some (JNum (of_int (ob_schema r))) \<and>
     jfield ''protocolVersion'' op = Some (JNum (of_int (ob_protocol r))))"

definition check_row :: "outbox_row \<Rightarrow> js_error + string" where
  "check_row r =
     (let corrupt = (\<lambda>m. Inl (raise ValidationError (''Invalid persisted outbox envelope: '' @ m))) in
      case ob_envelope_json r of
        None \<Rightarrow> corrupt ''Pending outbox row predates full-envelope persistence''
      | Some body \<Rightarrow>
          (case json_parse body of Inl e \<Rightarrow> corrupt (err_message e) | Inr env \<Rightarrow>
            (case validateEnvelope env of Inl e \<Rightarrow> corrupt (err_message e) | Inr _ \<Rightarrow>
              if matches_row r env then Inr body
              else corrupt ''Persisted sync envelope does not match its outbox metadata'')))"

fun check_rows :: "outbox_row list \<Rightarrow> js_error + string list" where
  "check_rows [] = Inr []"
| "check_rows (r # rs) = (case check_row r of Inl e \<Rightarrow> Inl e | Inr b \<Rightarrow>
     (case check_rows rs of Inl e \<Rightarrow> Inl e | Inr bs \<Rightarrow> Inr (b # bs)))"

definition pending_rows :: "string \<Rightarrow> outbox_table \<Rightarrow> outbox_row list" where
  "pending_rows org rows = order_by ob_created_at (filter (\<lambda>r. ob_status r = OutPending \<and> ob_org r = org) rows)"

definition pendingBatch :: "string \<Rightarrow> jsnum \<Rightarrow> (outbox_table, outbox_row list) op" where
  "pendingBatch org limit =
     andthen (guard (trim org \<noteq> []) (raise ValidationError ''Outbox organisationId must be a non-empty string''))
     (\<lambda>_. andthen (guard (is_safe_integer limit \<and> \<not> js_le limit (Fin 0) \<and>
         \<not> js_less (Fin (of_int MAX_OUTBOX_BATCH_SIZE)) limit)
       (raise ValidationError ''Outbox batch limit must be a positive safe integer no greater than 50''))
     (\<lambda>_. andthen (get (\<lambda>rows. take (nat \<lfloor>num_val limit\<rfloor>) (pending_rows org rows)))
     (\<lambda>rows. andthen (from_result (check_rows rows))
     (\<lambda>bodies. ret (map (\<lambda>(r, b). r\<lparr>ob_envelope_json := Some b\<rparr>) (zip rows bodies))))))"

section \<open>Well-formed outboxes\<close>

text \<open>What a stored row was made from: an envelope that validates.\<close>

definition carries :: "outbox_row \<Rightarrow> json \<Rightarrow> bool" where
  "carries r env \<longleftrightarrow> wf_json env \<and> validateEnvelope env = Inr () \<and> ob_envelope_json r = Some (stringify env) \<and>
     matches_row r env"

definition outbox_inv :: "outbox_table \<Rightarrow> bool" where
  "outbox_inv rows \<longleftrightarrow> distinct (map ob_envelope_id rows) \<and>
     (\<forall>r \<in> set rows. 0 \<le> ob_attempts r \<and> (\<exists>env. carries r env))"

lemma version_okD: "version_ok x \<Longrightarrow> \<exists>i. x = Some (JNum (of_int i))"
proof (cases x rule: version_ok.cases)
  case (1 q)
  assume "version_ok x"
  then have "of_int \<lfloor>q\<rfloor> = q" using 1 by simp
  then show ?thesis using 1 by metis
qed auto

lemma field_okD: "field_ok x \<Longrightarrow> \<exists>s. x = Some (JStr s)"
  by (cases x rule: field_ok.cases) auto

lemma validate_fields:
  assumes "validateOperation (Some v) = Inr ()"
  shows "\<exists>m. v = JObj m \<and> (\<forall>f \<in> set REQUIRED_OPERATION_FIELDS. \<exists>s. assoc_get f m = Some (JStr s)) \<and>
    (\<exists>s. assoc_get ''operation'' m = Some (JStr s)) \<and>
    (\<exists>i. assoc_get ''schemaVersion'' m = Some (JNum (of_int i))) \<and>
    (\<exists>i. assoc_get ''protocolVersion'' m = Some (JNum (of_int i))) \<and> assoc_get ''payload'' m \<noteq> None"
proof (cases v)
  case (JObj m)
  have fields: "find_first (\<lambda>f. \<not> field_ok (assoc_get f m)) REQUIRED_OPERATION_FIELDS = None"
    using assms JObj by (auto simp: validateOperation_def split: option.splits)
  have rest: "assoc_get ''operation'' m \<in> Some ` JStr ` set OPERATION_TYPES"
    "version_ok (assoc_get ''schemaVersion'' m)" "version_ok (assoc_get ''protocolVersion'' m)"
    "assoc_get ''payload'' m \<noteq> None"
    using assms JObj fields by (auto simp: validateOperation_def split: if_splits)
  have "\<forall>f \<in> set REQUIRED_OPERATION_FIELDS. \<exists>s. assoc_get f m = Some (JStr s)"
    using fields field_okD by (simp add: find_first_None)
  then show ?thesis using JObj rest(1,4) version_okD [OF rest(2)] version_okD [OF rest(3)] by blast
qed (use assms in \<open>auto simp: validateOperation_def\<close>)

lemma validateEnvelope_fields:
  assumes "validateEnvelope env = Inr ()"
  shows "\<exists>op. jfield ''operation'' env = Some op \<and> validateOperation (Some op) = Inr () \<and>
    jfield ''envelopeId'' env = jfield ''operationId'' op"
    "\<exists>s. jfield ''signerPublicKey'' env = Some (JStr s)" "\<exists>s. jfield ''signature'' env = Some (JStr s)"
proof -
  have op: "validateOperation (jfield ''operation'' env) = Inr ()"
    "jfield ''envelopeId'' env = jfield ''operationId'' (the (jfield ''operation'' env))"
    "validatePublicKeyFormat (jfield ''signerPublicKey'' env) = Inr ()"
    "signature_ok (jfield ''signature'' env)"
    using assms by (auto simp: validateEnvelope_def split: if_splits sum.splits)
  show "\<exists>op. jfield ''operation'' env = Some op \<and> validateOperation (Some op) = Inr () \<and>
    jfield ''envelopeId'' env = jfield ''operationId'' op"
    using op(1,2) by (cases "jfield ''operation'' env") (auto simp: validateOperation_def)
  show "\<exists>s. jfield ''signerPublicKey'' env = Some (JStr s)"
    using op(3) by (auto simp: validatePublicKeyFormat_def split: option.splits json.splits)
  show "\<exists>s. jfield ''signature'' env = Some (JStr s)"
    using op(4) by (cases "jfield ''signature'' env" rule: signature_ok.cases) auto
qed

lemma row_carries:
  assumes "validateEnvelope env = Inr ()" "wf_json env"
  shows "carries (outbox_row_of env i now) env"
proof -
  obtain op where op: "jfield ''operation'' env = Some op" "validateOperation (Some op) = Inr ()"
    "jfield ''envelopeId'' env = jfield ''operationId'' op"
    using validateEnvelope_fields(1) [OF assms(1)] by blast
  obtain k s where ks: "jfield ''signerPublicKey'' env = Some (JStr k)" "jfield ''signature'' env = Some (JStr s)"
    using validateEnvelope_fields(2,3) [OF assms(1)] by blast
  obtain m where m: "op = JObj m"
    "\<forall>f \<in> set REQUIRED_OPERATION_FIELDS. \<exists>s. assoc_get f m = Some (JStr s)"
    "\<exists>s. assoc_get ''operation'' m = Some (JStr s)"
    "\<exists>i. assoc_get ''schemaVersion'' m = Some (JNum (of_int i))"
    "\<exists>i. assoc_get ''protocolVersion'' m = Some (JNum (of_int i))"
    using validate_fields [OF op(2)] by blast
  have f: "jfield f op = Some (JStr (jstr (jfield f op)))"
    if "f \<in> set REQUIRED_OPERATION_FIELDS \<or> f = ''operation''" for f
    using that m(1-3) by auto
  have v: "jfield f op = Some (JNum (of_int (jint (jfield f op))))"
    if "f = ''schemaVersion'' \<or> f = ''protocolVersion''" for f
    using that m(1,4,5) by auto
  have req: "set REQUIRED_OPERATION_FIELDS = {''operationId'', ''applicationId'', ''organisationId'', ''syncGroupId'',
     ''featureId'', ''entityType'', ''entityId'', ''authorId'', ''deviceId'', ''logicalTimestamp''}"
    by (simp add: REQUIRED_OPERATION_FIELDS_def)
  have "matches_row (outbox_row_of env i now) env"
    using f [unfolded req] v op ks by (simp add: matches_row_def outbox_row_of_def Let_def)
  then show ?thesis using assms by (simp add: carries_def outbox_row_of_def Let_def)
qed

lemma carries_check: "carries r env \<Longrightarrow> check_row r = Inr (stringify env)"
  by (simp add: carries_def check_row_def json_parse_stringify)

section \<open>Invariant and evolution\<close>

lemma outbox_insert_run:
  "outbox_insert groups row rows =
    (if \<exists>r \<in> set rows. ob_id r = ob_id row
     then (Inl (raise PlainError ''UNIQUE constraint failed: core_sync_outbox.id''), rows)
     else if \<exists>r \<in> set rows. ob_envelope_id r = ob_envelope_id row
     then (Inl (raise PlainError ''UNIQUE constraint failed: core_sync_outbox.envelope_id''), rows)
     else if ob_group row \<notin> set groups then (Inl (raise PlainError ''FOREIGN KEY constraint failed''), rows)
     else (Inr (), rows @ [row]))"
  by (auto simp: outbox_insert_def)

lemma outbox_enqueue_run:
  "outbox_enqueue groups env i now rows = (Inr rec, rows') \<longleftrightarrow>
    validateEnvelope env = Inr () \<and> rec = outbox_row_of env i now \<and> rows' = rows @ [rec] \<and>
    (\<forall>r \<in> set rows. ob_id r \<noteq> i \<and> ob_envelope_id r \<noteq> ob_envelope_id rec) \<and> ob_group rec \<in> set groups"
  by (auto simp: outbox_enqueue_def andthen_def outbox_insert_run outbox_row_of_def Let_def
      split: sum.splits if_splits)

lemma outbox_enqueue_error: "outbox_enqueue groups env i now rows = (Inl e, rows') \<Longrightarrow> rows' = rows"
  by (auto simp: outbox_enqueue_def andthen_def outbox_insert_run split: sum.splits if_splits)

text \<open>A sent or failed row is final; what an envelope says never changes; attempts only grow.\<close>

definition outbox_move :: "outbox_row \<Rightarrow> outbox_row \<Rightarrow> bool" where
  "outbox_move r r' \<longleftrightarrow> ob_envelope_id r' = ob_envelope_id r \<and> ob_envelope_json r' = ob_envelope_json r \<and>
     ob_attempts r \<le> ob_attempts r' \<and> (ob_status r \<noteq> OutPending \<longrightarrow> r' = r) \<and>
     (\<forall>env. carries r env \<longrightarrow> carries r' env)"

definition outbox_moves :: "outbox_table \<Rightarrow> outbox_table \<Rightarrow> bool" where
  "outbox_moves = rows_move outbox_move"

lemma outbox_move_refl: "outbox_move r r"
  by (simp add: outbox_move_def)

lemma outbox_move_trans: "outbox_move a b \<Longrightarrow> outbox_move b c \<Longrightarrow> outbox_move a c"
  by (auto simp: outbox_move_def)

interpretation outbox_evo: evolution outbox_moves
proof unfold_locales
  show "outbox_moves s s" for s
    unfolding outbox_moves_def by (rule rows_move_refl) (rule outbox_move_refl)
  show "outbox_moves s u" if "outbox_moves s t" "outbox_moves t u" for s t u
    using that rows_move_trans [of outbox_move s t u] outbox_move_trans unfolding outbox_moves_def by blast
qed

lemma carries_status [simp]:
  "carries (r\<lparr>ob_status := s, ob_sent_at := t\<rparr>) = carries r"
  "carries (failed_attempt maxAttempts now r) = carries r"
  by (simp_all add: carries_def matches_row_def fun_eq_iff failed_attempt_def Let_def)

lemma failed_attempt_fields [simp]:
  "ob_envelope_id (failed_attempt maxAttempts now r) = ob_envelope_id r"
  "ob_envelope_json (failed_attempt maxAttempts now r) = ob_envelope_json r"
  "ob_attempts (failed_attempt maxAttempts now r) = ob_attempts r + 1"
  by (simp_all add: failed_attempt_def)

inductive outbox_step :: "outbox_table \<Rightarrow> outbox_table \<Rightarrow> bool" where
  out_enqueue: "wf_json env \<Longrightarrow> outbox_step rows (snd (outbox_enqueue groups env i now rows))"
| out_sent: "outbox_step rows (snd (outbox_markSent envelopeId now rows))"
| out_failed: "outbox_step rows (snd (outbox_markFailed envelopeId maxAttempts now rows))"

lemma sent_moves: "outbox_moves rows (snd (outbox_markSent envelopeId now rows))"
  unfolding outbox_moves_def outbox_markSent_def
  by (simp, intro rows_move_update outbox_move_refl) (simp add: outbox_move_def)

lemma failed_moves: "outbox_moves rows (snd (outbox_markFailed envelopeId maxAttempts now rows))"
proof (cases "is_safe_integer maxAttempts \<and> \<not> js_le maxAttempts (Fin 0)")
  case True
  then show ?thesis
    unfolding outbox_moves_def outbox_markFailed_def
    by (simp, intro rows_move_update outbox_move_refl) (simp add: outbox_move_def)
next
  case False
  then show ?thesis by (auto simp: outbox_markFailed_def outbox_evo.R_refl)
qed

lemma outbox_step_moves: "outbox_step rows rows' \<Longrightarrow> outbox_moves rows rows'"
proof (induction rule: outbox_step.induct)
  case (out_enqueue env rows groups i now)
  show ?case
  proof (cases "outbox_enqueue groups env i now rows")
    case (Pair x rows')
    show ?thesis
    proof (cases x)
      case (Inl e)
      then show ?thesis using Pair outbox_enqueue_error outbox_evo.R_refl by fastforce
    next
      case (Inr rec)
      then have "rows' = rows @ [rec]"
        using Pair outbox_enqueue_run [of groups env i now rows rec rows'] by simp
      then show ?thesis
        using Pair rows_move_append [of outbox_move rows "[rec]", OF outbox_move_refl]
        by (simp add: outbox_moves_def)
    qed
  qed
qed (rule sent_moves failed_moves)+

lemma update_outbox_inv:
  assumes "\<And>r. ob_envelope_id (f r) = ob_envelope_id r \<and> carries (f r) = carries r \<and> ob_attempts r \<le> ob_attempts (f r)"
    "outbox_inv rows"
  shows "outbox_inv (sql_update hit f rows)"
proof -
  have "map ob_envelope_id (sql_update hit f rows) = map ob_envelope_id rows"
    using assms(1) by (intro map_sql_update) simp
  moreover have "0 \<le> ob_attempts r' \<and> (\<exists>env. carries r' env)" if r': "r' \<in> set (sql_update hit f rows)" for r'
  proof -
    obtain r where r: "r \<in> set rows" "r' = (if hit r then f r else r)" using r' by (auto simp: set_sql_update)
    then have "0 \<le> ob_attempts r \<and> (\<exists>env. carries r env)" using assms(2) by (simp add: outbox_inv_def)
    then show ?thesis using r(2) assms(1) [of r] by auto
  qed
  ultimately show ?thesis using assms(2) by (simp add: outbox_inv_def)
qed

lemma outbox_step_inv: "outbox_step rows rows' \<Longrightarrow> outbox_inv rows \<Longrightarrow> outbox_inv rows'"
proof (induction rule: outbox_step.induct)
  case (out_enqueue env rows groups i now)
  show ?case
  proof (cases "outbox_enqueue groups env i now rows")
    case (Pair x rows')
    show ?thesis
    proof (cases x)
      case (Inl e)
      then show ?thesis using Pair outbox_enqueue_error out_enqueue by fastforce
    next
      case (Inr rec)
      note run = outbox_enqueue_run [of groups env i now rows rec rows', THEN iffD1, OF Pair [unfolded Inr]]
      have "carries rec env" using row_carries run out_enqueue(1) by blast
      then show ?thesis
        using Pair run out_enqueue(2) by (auto simp: outbox_inv_def outbox_row_of_def Let_def)
    qed
  qed
next
  case (out_sent rows envelopeId now)
  then show ?case by (auto simp: outbox_markSent_def intro!: update_outbox_inv)
next
  case (out_failed rows envelopeId maxAttempts now)
  then show ?case by (auto simp: outbox_markFailed_def intro!: update_outbox_inv)
qed

section \<open>Properties\<close>

lemma outbox_history_inv: "outbox_step\<^sup>*\<^sup>* rows rows' \<Longrightarrow> outbox_inv rows \<Longrightarrow> outbox_inv rows'"
  by (induction rule: rtranclp_induct) (auto intro: outbox_step_inv)

lemma outbox_inv_Nil: "outbox_inv []"
  by (simp add: outbox_inv_def)

lemma check_rows_carry:
  "(\<And>r. r \<in> set rows \<Longrightarrow> \<exists>env. carries r env) \<Longrightarrow> check_rows rows = Inr (map (\<lambda>r. the (ob_envelope_json r)) rows)"
proof (induction rows)
  case (Cons r rows)
  obtain env where "carries r env" using Cons.prems [of r] by auto
  then show ?case using Cons carries_check [of r env] by (simp add: carries_def)
qed simp

lemma pending_inv: "outbox_inv rows \<Longrightarrow> r \<in> set (take n (pending_rows org rows)) \<Longrightarrow> \<exists>env. carries r env"
  by (auto simp: pending_rows_def outbox_inv_def dest!: in_set_takeD)

lemma pendingBatch_run:
  assumes "outbox_inv rows" "trim org \<noteq> []" "is_safe_integer limit" "\<not> js_le limit (Fin 0)"
    "\<not> js_less (Fin (of_int MAX_OUTBOX_BATCH_SIZE)) limit"
  shows "pendingBatch org limit rows = (Inr (take (nat \<lfloor>num_val limit\<rfloor>) (pending_rows org rows)), rows)"
proof -
  let ?rs = "take (nat \<lfloor>num_val limit\<rfloor>) (pending_rows org rows)"
  have json: "ob_envelope_json r \<noteq> None" if "r \<in> set ?rs" for r
    using pending_inv [OF assms(1) that] by (auto simp: carries_def)
  have "map (\<lambda>(r, b). r\<lparr>ob_envelope_json := Some b\<rparr>) (zip xs (map (\<lambda>r. the (ob_envelope_json r)) xs)) = xs"
    if "\<forall>r \<in> set xs. ob_envelope_json r \<noteq> None" for xs
    using that by (induction xs) auto
  note same = this [of ?rs]
  have "check_rows ?rs = Inr (map (\<lambda>r. the (ob_envelope_json r)) ?rs)"
    using pending_inv [OF assms(1)] by (rule check_rows_carry)
  then show ?thesis
    using assms(2-5) same json by (simp add: pendingBatch_def)
qed

text \<open>In every reachable outbox a batch request with valid arguments succeeds: it returns the oldest
  pending rows of the organisation, at most the limit, unchanged, and the stored text of each parses
  to a valid envelope whose fields are the row's columns.\<close>

theorem pendingBatch_returns_envelopes:
  assumes "outbox_step\<^sup>*\<^sup>* [] rows" "trim org \<noteq> []" "is_safe_integer limit" "\<not> js_le limit (Fin 0)"
    "\<not> js_less (Fin (of_int MAX_OUTBOX_BATCH_SIZE)) limit"
  shows "\<exists>batch. pendingBatch org limit rows = (Inr batch, rows) \<and> batch = take (nat \<lfloor>num_val limit\<rfloor>) (pending_rows org rows) \<and>
    sorted (map ob_created_at batch) \<and>
    (\<forall>r \<in> set batch. r \<in> set rows \<and> ob_status r = OutPending \<and> ob_org r = org \<and>
       (\<exists>env. json_parse (the (ob_envelope_json r)) = Inr env \<and> validateEnvelope env = Inr () \<and> matches_row r env))"
proof -
  have inv: "outbox_inv rows" using outbox_history_inv [OF assms(1) outbox_inv_Nil] .
  let ?b = "take (nat \<lfloor>num_val limit\<rfloor>) (pending_rows org rows)"
  have "sorted (map ob_created_at ?b)"
    unfolding pending_rows_def take_map [symmetric] by (rule sorted_wrt_take) simp
  moreover have "r \<in> set rows \<and> ob_status r = OutPending \<and> ob_org r = org \<and>
      (\<exists>env. json_parse (the (ob_envelope_json r)) = Inr env \<and> validateEnvelope env = Inr () \<and> matches_row r env)"
    if r: "r \<in> set ?b" for r
  proof -
    have "r \<in> set rows" "ob_status r = OutPending" "ob_org r = org"
      using in_set_takeD [OF r] by (simp_all add: pending_rows_def)
    moreover obtain env where "carries r env" using pending_inv [OF inv r] by blast
    ultimately show ?thesis by (auto simp: carries_def json_parse_stringify)
  qed
  ultimately show ?thesis using pendingBatch_run [OF inv assms(2-5)] by blast
qed

text \<open>An enqueued envelope is never lost or altered: after any further enqueues, deliveries and
  failures there is a row with its id that still carries exactly the envelope; while the row is
  pending it is among the organisation's pending rows, and once sent or failed it never changes.\<close>

theorem outbox_keeps_envelopes:
  assumes "outbox_enqueue groups env i now rows = (Inr rec, rows1)" "wf_json env"
    "outbox_step\<^sup>*\<^sup>* rows1 rows2"
  shows "\<exists>r \<in> set rows2. ob_envelope_id r = ob_envelope_id rec \<and> ob_envelope_json r = Some (stringify env) \<and>
    carries r env \<and> (ob_status r = OutPending \<longrightarrow> r \<in> set (pending_rows (ob_org r) rows2)) \<and>
    (ob_status r \<noteq> OutPending \<longrightarrow> (\<forall>rows3. outbox_step\<^sup>*\<^sup>* rows2 rows3 \<longrightarrow> r \<in> set rows3))"
proof -
  have rec: "rec \<in> set rows1" "carries rec env"
    using assms(1) row_carries [OF _ assms(2)] by (auto simp: outbox_enqueue_run)
  have mv: "outbox_moves a b" if "outbox_step\<^sup>*\<^sup>* a b" for a b
    using outbox_evo.moves_star [OF outbox_step_moves that] .
  obtain r where r: "r \<in> set rows2" "outbox_move rec r"
    using mv [OF assms(3)] rec(1) by (auto simp: outbox_moves_def rows_move_def)
  have "r \<in> set rows3" if final: "ob_status r \<noteq> OutPending" and later: "outbox_step\<^sup>*\<^sup>* rows2 rows3" for rows3
  proof -
    obtain r' where "r' \<in> set rows3" "outbox_move r r'"
      using mv [OF later] r(1) by (auto simp: outbox_moves_def rows_move_def)
    then show ?thesis using final by (auto simp: outbox_move_def)
  qed
  then show ?thesis
    using r rec(2) by (intro bexI [of _ r]) (auto simp: outbox_move_def carries_def pending_rows_def)
qed

text \<open>Delivery is retried a bounded number of times: n reported failures of a fresh pending row, with
  a limit of m attempts, leave it with min n m attempts, pending while n is below m and failed
  from the m-th failure on.\<close>

theorem outbox_attempts:
  assumes "0 < m" "int m \<le> max_safe_integer" "ob_status r = OutPending" "ob_attempts r = 0"
  shows "\<exists>r'. ((\<lambda>t. snd (outbox_markFailed (ob_envelope_id r) (Fin (of_nat m)) now t)) ^^ n) [r] = [r'] \<and>
    ob_envelope_id r' = ob_envelope_id r \<and> ob_attempts r' = int (min n m) \<and>
    ob_status r' = (if n < m then OutPending else OutFailed)"
proof (induction n)
  case 0
  then show ?case using assms by simp
next
  case (Suc n)
  then obtain r' where r': "((\<lambda>t. snd (outbox_markFailed (ob_envelope_id r) (Fin (of_nat m)) now t)) ^^ n) [r] = [r']"
    "ob_envelope_id r' = ob_envelope_id r" "ob_attempts r' = int (min n m)"
    "ob_status r' = (if n < m then OutPending else OutFailed)" by blast
  have valid: "is_safe_integer (Fin (of_nat m))" "\<not> js_le (Fin (of_nat m)) (Fin 0)"
    using assms(1,2) by (simp_all add: safe_int_def)
  have step: "snd (outbox_markFailed (ob_envelope_id r) (Fin (of_nat m)) now [r'])
      = (if n < m then [failed_attempt (Fin (of_nat m)) now r'] else [r'])"
    using r' valid by (simp add: outbox_markFailed_def del: is_safe_integer.simps js_le.simps)
  have cmp: "(of_int (int n + 1) :: rat) \<ge> of_nat m \<longleftrightarrow> m \<le> Suc n"
    by (metis add.commute of_int_of_nat_eq of_nat_Suc of_nat_le_iff)
  show ?case
    using r' step cmp by (auto simp: failed_attempt_def)
qed

section \<open>Witnesses\<close>

definition sample_out :: outbox_row where
  "sample_out = outbox_row_of sample_envelope ''o1'' ''2026''"

lemma sample_envelope_wf: "wf_json sample_envelope"
proof -
  have "js_ordered [''envelopeId'', ''signedAt'', ''signerPublicKey'', ''signature'', ''operation'']"
    by code_simp
  then show ?thesis
    using sample_operation_wf by (simp add: sample_envelope_def envelope_json_def js_object_def)
qed

lemma sample_out_group: "ob_group sample_out = ''g''" "ob_org sample_out = ''org''"
  "ob_status sample_out = OutPending" "ob_attempts sample_out = 0"
  by (simp_all add: sample_out_def outbox_row_of_def sample_envelope_def sample_operation_def Let_def)

lemma sample_outbox: "outbox_enqueue [''g''] sample_envelope ''o1'' ''2026'' [] = (Inr sample_out, [sample_out])"
  using sample_out_group(1) by (simp add: outbox_enqueue_run sample_envelope_ok sample_out_def)

lemma sample_outbox_step: "outbox_step [] [sample_out]"
  using out_enqueue [OF sample_envelope_wf, of "[]" "[''g'']" "''o1''" "''2026''"] sample_outbox by simp

theorem pendingBatch_returns_envelopes_witness:
  "\<exists>batch. pendingBatch ''org'' (Fin 10) [sample_out] = (Inr batch, [sample_out]) \<and> length batch \<le> 10"
proof -
  have "trim ''org'' \<noteq> []" by code_simp
  moreover have "is_safe_integer (Fin 10)" "\<not> js_le (Fin 10) (Fin 0)"
    "\<not> js_less (Fin (of_int MAX_OUTBOX_BATCH_SIZE)) (Fin 10)"
    by (simp_all add: safe_int_def max_safe_integer_def MAX_OUTBOX_BATCH_SIZE_def)
  ultimately show ?thesis
    using pendingBatch_returns_envelopes [of "[sample_out]" "''org''" "Fin 10", OF r_into_rtranclp, OF sample_outbox_step]
    by (auto intro: exI [of _ "take 10 (pending_rows ''org'' [sample_out])"])
qed

theorem outbox_keeps_envelopes_witness: "carries sample_out sample_envelope"
  using outbox_keeps_envelopes [OF sample_outbox sample_envelope_wf rtranclp.rtrancl_refl] by simp

theorem outbox_attempts_witness:
  "\<exists>r'. ((\<lambda>t. snd (outbox_markFailed (ob_envelope_id sample_out) (Fin (of_nat 5)) ''2027'' t)) ^^ 7) [sample_out] = [r'] \<and>
    ob_status r' = OutFailed"
  using outbox_attempts [of 5 sample_out 7 "''2027''"] sample_out_group(3,4)
  by (auto simp: max_safe_integer_def)

end
