(* ===== verification/Inbox.thy ===== *)
theory Inbox
  imports Outbox
begin

text \<open>
  The durable inbound queue (\<open>sync/src/inbox/InboxService.ts\<close>) on \<open>core_sync_inbox\<close> and the
  deletion log (\<open>sync/src/tombstone/TombstoneService.ts\<close>) on \<open>core_sync_tombstones\<close>.  The verifier
  and the function that applies an operation to the domain are parameters; the latter returns an
  error or success for each record.
\<close>

section \<open>Data\<close>

datatype verification_status = Unverified | Verified | Rejected
datatype apply_status = ApplyPending | Applied | Conflict | ApplyFailed

record inbox_row =
  ib_id :: string
  ib_created_at :: string
  ib_envelope_id :: string
  ib_org :: string
  ib_from_device :: string
  ib_group :: string
  ib_feature :: string
  ib_entity_type :: string
  ib_entity_id :: string
  ib_operation :: string
  ib_payload_json :: string
  ib_logical :: string
  ib_schema :: int
  ib_protocol :: int
  ib_signer :: string
  ib_signature :: string
  ib_verification :: verification_status
  ib_apply :: apply_status
  ib_applied_at :: "string option"
  ib_conflict_id :: "string option"

type_synonym inbox_table = "inbox_row list"
type_synonym verify_fn = "string \<Rightarrow> nat list \<Rightarrow> string \<Rightarrow> js_error + bool"

section \<open>Receiving\<close>

definition inbox_row_of :: "json \<Rightarrow> verification_status \<Rightarrow> string \<Rightarrow> string \<Rightarrow> inbox_row" where
  "inbox_row_of env vs newId now = (let op = the (jfield ''operation'' env); s = (\<lambda>k. jstr (jfield k op)) in
     \<lparr>ib_id = newId, ib_created_at = now, ib_envelope_id = jstr (jfield ''envelopeId'' env),
      ib_org = s ''organisationId'', ib_from_device = s ''deviceId'', ib_group = s ''syncGroupId'',
      ib_feature = s ''featureId'', ib_entity_type = s ''entityType'', ib_entity_id = s ''entityId'',
      ib_operation = s ''operation'', ib_payload_json = stringify (the (jfield ''payload'' op)),
      ib_logical = s ''logicalTimestamp'', ib_schema = jint (jfield ''schemaVersion'' op),
      ib_protocol = jint (jfield ''protocolVersion'' op), ib_signer = jstr (jfield ''signerPublicKey'' env),
      ib_signature = jstr (jfield ''signature'' env), ib_verification = vs, ib_apply = ApplyPending,
      ib_applied_at = None, ib_conflict_id = None\<rparr>)"

definition verification_of :: "verify_fn \<Rightarrow> json \<Rightarrow> verification_status" where
  "verification_of verifyFn env = (if verify verifyFn env = Inr True then Verified else Rejected)"

text \<open>INSERT ... ON CONFLICT(envelope_id) DO NOTHING; the primary key still raises.\<close>

definition inbox_insert :: "inbox_row \<Rightarrow> (inbox_table, unit) op" where
  "inbox_insert row = andthen (get id) (\<lambda>rows.
     if \<exists>r \<in> set rows. ib_envelope_id r = ib_envelope_id row then ret ()
     else andthen (guard (\<forall>r \<in> set rows. ib_id r \<noteq> ib_id row)
         (raise PlainError ''UNIQUE constraint failed: core_sync_inbox.id''))
       (\<lambda>_. modify (\<lambda>rows. rows @ [row])))"

definition inbox_receive :: "verify_fn \<Rightarrow> json \<Rightarrow> string \<Rightarrow> string \<Rightarrow> (inbox_table, inbox_row) op" where
  "inbox_receive verifyFn env newId now =
     (case validateEnvelope env of
        Inl e \<Rightarrow> throw (raise ValidationError (''Invalid inbound sync envelope: '' @ err_message e))
      | Inr _ \<Rightarrow>
          (let vs = verification_of verifyFn env; row = inbox_row_of env vs newId now in
           andthen (inbox_insert row) (\<lambda>_.
           andthen (get (find_first (\<lambda>r. ib_envelope_id r = ib_envelope_id row))) (\<lambda>found. case found of
               None \<Rightarrow> throw (raise ValidationError (''Inbox insert for envelope '' @ quoted (ib_envelope_id row) @
                 '' completed without a stored row''))
             | Some stored \<Rightarrow>
                 if ib_signer stored \<noteq> ib_signer row \<or> ib_signature stored \<noteq> ib_signature row \<or>
                    (ib_id stored \<noteq> newId \<and> vs \<noteq> Verified)
                 then throw (raise ValidationError (''Envelope ID '' @ quoted (ib_envelope_id row) @
                   '' is already bound to a different signed operation''))
                 else ret stored))))"

section \<open>Applying\<close>

record apply_counts =
  cnt_applied :: nat
  cnt_failed :: nat
  cnt_conflicts :: nat

definition is_conflict_error :: "thrown \<Rightarrow> bool" where
  "is_conflict_error err = (case err of Thrown e \<Rightarrow> str_includes ''conflict'' (to_lower (err_message e)) | OtherValue _ \<Rightarrow> False)"

definition set_apply :: "apply_status \<Rightarrow> string option \<Rightarrow> string \<Rightarrow> (inbox_table, unit) op" where
  "set_apply st tm rowId = modify (sql_update (\<lambda>r. ib_id r = rowId)
     (\<lambda>r. r\<lparr>ib_apply := st, ib_applied_at := (case tm of Some t \<Rightarrow> Some t | None \<Rightarrow> ib_applied_at r)\<rparr>))"

text \<open>The domain state \<open>'d\<close> is changed by the caller's function, whose outcome is an error or unit; \<open>clock\<close> gives the
  time read after a row was applied.\<close>

fun apply_rows ::
    "(inbox_row \<Rightarrow> 'd \<Rightarrow> (thrown + unit) \<times> 'd) \<Rightarrow> (inbox_row \<Rightarrow> string) \<Rightarrow> inbox_row list \<Rightarrow> apply_counts \<Rightarrow>
     (inbox_table \<times> 'd, apply_counts) op" where
  "apply_rows f clock [] counts = ret counts"
| "apply_rows f clock (r # rs) counts = (\<lambda>(rows, dm). case f r dm of
      (Inr _, dm') \<Rightarrow> apply_rows f clock rs (counts\<lparr>cnt_applied := cnt_applied counts + 1\<rparr>)
         (snd (set_apply Applied (Some (clock r)) (ib_id r) rows), dm')
    | (Inl err, dm') \<Rightarrow>
        if is_conflict_error err
        then apply_rows f clock rs (counts\<lparr>cnt_conflicts := cnt_conflicts counts + 1\<rparr>)
               (snd (set_apply Conflict None (ib_id r) rows), dm')
        else apply_rows f clock rs (counts\<lparr>cnt_failed := cnt_failed counts + 1\<rparr>)
               (snd (set_apply ApplyFailed None (ib_id r) rows), dm'))"

definition applicable :: "inbox_table \<Rightarrow> inbox_row list" where
  "applicable rows = order_by ib_logical
     (filter (\<lambda>r. ib_apply r = ApplyPending \<and> ib_verification r = Verified) rows)"

definition applyPending ::
    "(inbox_row \<Rightarrow> 'd \<Rightarrow> (thrown + unit) \<times> 'd) \<Rightarrow> (inbox_row \<Rightarrow> string) \<Rightarrow> (inbox_table \<times> 'd, apply_counts) op" where
  "applyPending f clock = andthen (get (\<lambda>(rows, _). applicable rows))
     (\<lambda>rs. apply_rows f clock rs \<lparr>cnt_applied = 0, cnt_failed = 0, cnt_conflicts = 0\<rparr>)"

definition getByApplyStatus :: "apply_status \<Rightarrow> (inbox_table, inbox_row list) op" where
  "getByApplyStatus st = get (\<lambda>rows. order_by ib_logical (filter (\<lambda>r. ib_apply r = st) rows))"

section \<open>Tombstones\<close>

record tombstone_row =
  tb_id :: string
  tb_created_at :: string
  tb_org :: string
  tb_group :: string
  tb_feature :: string
  tb_entity_type :: string
  tb_entity_id :: string
  tb_deleted_at :: string
  tb_deleted_by :: string
  tb_operation_id :: string
  tb_replicated_at :: "string option"

type_synonym tombstone_table = "tombstone_row list"

definition tombstone_record :: "string \<Rightarrow> string \<Rightarrow> string \<Rightarrow> string \<Rightarrow> string \<Rightarrow> string \<Rightarrow> string \<Rightarrow>
    string option \<Rightarrow> string \<Rightarrow> string \<Rightarrow> (tombstone_table, tombstone_row) op" where
  "tombstone_record entityType entityId deletedBy operationId org grp feature deletedAt newId now =
     (let t = (case deletedAt of Some d \<Rightarrow> d | None \<Rightarrow> now);
          row = \<lparr>tb_id = newId, tb_created_at = t, tb_org = org, tb_group = grp, tb_feature = feature,
            tb_entity_type = entityType, tb_entity_id = entityId, tb_deleted_at = t, tb_deleted_by = deletedBy,
            tb_operation_id = operationId, tb_replicated_at = None\<rparr>
      in andthen (get id) (\<lambda>rows.
         andthen (guard (\<forall>r \<in> set rows. tb_id r \<noteq> newId)
           (raise PlainError ''UNIQUE constraint failed: core_sync_tombstones.id''))
         (\<lambda>_. andthen (guard (\<forall>r \<in> set rows. tb_operation_id r \<noteq> operationId)
           (raise PlainError ''UNIQUE constraint failed: core_sync_tombstones.delete_operation_id''))
         (\<lambda>_. andthen (modify (\<lambda>rows. rows @ [row])) (\<lambda>_. ret row)))))"

definition isDeleted :: "string \<Rightarrow> string \<Rightarrow> string \<Rightarrow> (tombstone_table, bool) op" where
  "isDeleted entityType entityId org =
     get (list_ex (\<lambda>r. tb_org r = org \<and> tb_entity_type r = entityType \<and> tb_entity_id r = entityId))"

definition propagatePending :: "(tombstone_table, tombstone_row list) op" where
  "propagatePending = get (\<lambda>rows. order_by tb_deleted_at (filter (\<lambda>r. tb_replicated_at r = None) rows))"

definition markReplicated :: "string \<Rightarrow> string \<Rightarrow> (tombstone_table, unit) op" where
  "markReplicated operationId now = modify (sql_update (\<lambda>r. tb_operation_id r = operationId)
     (\<lambda>r. r\<lparr>tb_replicated_at := Some now\<rparr>))"

section \<open>What receiving does\<close>

definition inbox_inv :: "inbox_table \<Rightarrow> bool" where
  "inbox_inv rows \<longleftrightarrow> distinct (map ib_id rows) \<and> distinct (map ib_envelope_id rows)"

lemma inbox_row_fields [simp]:
  "ib_id (inbox_row_of env vs i now) = i" "ib_verification (inbox_row_of env vs i now) = vs"
  "ib_apply (inbox_row_of env vs i now) = ApplyPending"
  "ib_envelope_id (inbox_row_of env vs i now) = jstr (jfield ''envelopeId'' env)"
  "ib_signer (inbox_row_of env vs i now) = jstr (jfield ''signerPublicKey'' env)"
  "ib_signature (inbox_row_of env vs i now) = jstr (jfield ''signature'' env)"
  by (simp_all add: inbox_row_of_def Let_def)

lemma inbox_insert_run:
  "inbox_insert row rows =
    (if \<exists>r \<in> set rows. ib_envelope_id r = ib_envelope_id row then (Inr (), rows)
     else if \<exists>r \<in> set rows. ib_id r = ib_id row
     then (Inl (raise PlainError ''UNIQUE constraint failed: core_sync_inbox.id''), rows)
     else (Inr (), rows @ [row]))"
  by (auto simp: inbox_insert_def)

lemma inbox_find:
  assumes "inbox_inv rows" "r \<in> set rows" "ib_envelope_id r = e"
  shows "find_first (\<lambda>r. ib_envelope_id r = e) rows = Some r"
proof (cases "find_first (\<lambda>r. ib_envelope_id r = e) rows")
  case None
  then show ?thesis using assms by (auto simp: find_first_None)
next
  case (Some r')
  have "inj_on ib_envelope_id (set rows)" using assms(1) by (simp add: inbox_inv_def distinct_map)
  then show ?thesis using find_first_SomeD [OF Some] assms(2,3) Some by (auto dest: inj_onD)
qed

text \<open>The binding check of an envelope against the stored row.\<close>

definition binds :: "verify_fn \<Rightarrow> json \<Rightarrow> inbox_row \<Rightarrow> bool" where
  "binds f env r \<longleftrightarrow> ib_signer r = jstr (jfield ''signerPublicKey'' env) \<and>
     ib_signature r = jstr (jfield ''signature'' env)"

lemma receive_known:
  assumes "inbox_inv rows" "r \<in> set rows" "ib_envelope_id r = jstr (jfield ''envelopeId'' env)"
    "validateEnvelope env = Inr ()"
  shows "inbox_receive f env i now rows =
    (if binds f env r \<and> (ib_id r = i \<or> verification_of f env = Verified) then (Inr r, rows)
     else (Inl (raise ValidationError (''Envelope ID '' @ quoted (jstr (jfield ''envelopeId'' env)) @
       '' is already bound to a different signed operation'')), rows))"
  using assms inbox_find [OF assms(1-3)]
  by (auto simp: inbox_receive_def Let_def andthen_def inbox_insert_run binds_def)

lemma receive_new:
  assumes "\<forall>r \<in> set rows. ib_envelope_id r \<noteq> jstr (jfield ''envelopeId'' env)" "\<forall>r \<in> set rows. ib_id r \<noteq> i"
    "validateEnvelope env = Inr ()"
  shows "inbox_receive f env i now rows =
    (Inr (inbox_row_of env (verification_of f env) i now), rows @ [inbox_row_of env (verification_of f env) i now])"
proof -
  have "find_first (\<lambda>r. ib_envelope_id r = jstr (jfield ''envelopeId'' env)) rows = None"
    using assms(1) by (simp add: find_first_None)
  then show ?thesis
    using assms by (auto simp: inbox_receive_def Let_def andthen_def inbox_insert_run find_first_append)
qed

text \<open>What a row must say of the envelope it stands for.\<close>

definition records_envelope :: "verify_fn \<Rightarrow> json \<Rightarrow> inbox_row \<Rightarrow> bool" where
  "records_envelope f env r \<longleftrightarrow> (\<exists>op p. jfield ''operation'' env = Some op \<and> jfield ''payload'' op = Some p \<and>
     ib_payload_json r = stringify p \<and>
     list_all (\<lambda>(v, k). v = jstr (jfield k op)) [(ib_org r, ''organisationId''), (ib_from_device r, ''deviceId''),
       (ib_group r, ''syncGroupId''), (ib_feature r, ''featureId''), (ib_entity_type r, ''entityType''),
       (ib_entity_id r, ''entityId''), (ib_operation r, ''operation''), (ib_logical r, ''logicalTimestamp'')] \<and>
     ib_schema r = jint (jfield ''schemaVersion'' op) \<and> ib_protocol r = jint (jfield ''protocolVersion'' op)) \<and>
     ib_envelope_id r = jstr (jfield ''envelopeId'' env) \<and> binds f env r \<and>
     ib_verification r = (if verify f env = Inr True then Verified else Rejected) \<and>
     ib_apply r = ApplyPending \<and> ib_applied_at r = None \<and> ib_conflict_id r = None"

lemma valid_operation:
  assumes "validateEnvelope env = Inr ()"
  obtains op p where "jfield ''operation'' env = Some op" "jfield ''payload'' op = Some p"
proof (cases "jfield ''operation'' env")
  case None
  then show ?thesis using assms by (simp add: validateEnvelope_def validateOperation_def split: if_splits)
next
  case (Some op)
  have valid: "validateOperation (Some op) = Inr ()" using assms Some by (simp add: validateEnvelope_def split: if_splits sum.splits)
  then obtain m where m: "op = JObj m" by (cases op) (simp_all add: validateOperation_def)
  obtain p where "assoc_get ''payload'' m = Some p"
    using valid by (cases "assoc_get ''payload'' m") (auto simp: m validateOperation_def split: option.splits if_splits)
  then show ?thesis using that Some m by simp
qed

lemma inbox_row_records:
  assumes "validateEnvelope env = Inr ()"
  shows "records_envelope f env (inbox_row_of env (verification_of f env) i now)"
proof -
  obtain op p where "jfield ''operation'' env = Some op" "jfield ''payload'' op = Some p" using assms by (rule valid_operation)
  then show ?thesis by (simp add: records_envelope_def inbox_row_of_def Let_def binds_def verification_of_def)
qed

text \<open>C9. Receiving is idempotent and binds an envelope id to one signed operation.  A first delivery appends one pending
  row with the fields of the envelope, verified exactly when the verifier accepts the
  signature and rejected otherwise; a later one for a known id returns the stored row and changes nothing.
  Delivering a verified envelope again, with any new row id, returns the stored row
  and changes nothing; and an envelope with the same id but another key or signature, or one that does not
  verify, is refused and changes nothing.\<close>

theorem receive_idempotent:
  assumes "inbox_inv rows" "inbox_receive f env i now rows = (Inr r, rows')"
  shows "inbox_inv rows' \<and>
    (if \<exists>s \<in> set rows. ib_envelope_id s = jstr (jfield ''envelopeId'' env) then r \<in> set rows \<and> rows' = rows
     else rows' = rows @ [r] \<and> records_envelope f env r \<and> ib_id r = i \<and> ib_created_at r = now) \<and> binds f env r \<and>
    (\<forall>i' now'. verification_of f env = Verified \<longrightarrow> inbox_receive f env i' now' rows' = (Inr r, rows')) \<and>
    (\<forall>env' i' now'. validateEnvelope env' = Inr () \<and> jfield ''envelopeId'' env' = jfield ''envelopeId'' env \<and>
       \<not> (binds f env' r \<and> (ib_id r = i' \<or> verification_of f env' = Verified)) \<longrightarrow>
       (\<exists>e. inbox_receive f env' i' now' rows' = (Inl e, rows') \<and> err_class e = ValidationError))"
proof -
  have valid: "validateEnvelope env = Inr ()"
    using assms(2) by (auto simp: inbox_receive_def split: sum.splits)
  let ?known = "\<exists>s \<in> set rows. ib_envelope_id s = jstr (jfield ''envelopeId'' env)"
  have stored: "(if ?known then r \<in> set rows \<and> rows' = rows
      else rows' = rows @ [r] \<and> records_envelope f env r \<and> ib_id r = i \<and> ib_created_at r = now)" "inbox_inv rows'"
    "r \<in> set rows'" "binds f env r" "ib_envelope_id r = jstr (jfield ''envelopeId'' env)"
  proof -
    have "(if ?known then r \<in> set rows \<and> rows' = rows
      else rows' = rows @ [r] \<and> records_envelope f env r \<and> ib_id r = i \<and> ib_created_at r = now) \<and> inbox_inv rows' \<and>
      r \<in> set rows' \<and> binds f env r \<and> ib_envelope_id r = jstr (jfield ''envelopeId'' env)"
    proof (cases ?known)
      case True
      then obtain s where s: "s \<in> set rows" "ib_envelope_id s = jstr (jfield ''envelopeId'' env)" by blast
      then show ?thesis
        using receive_known [OF assms(1) s valid, of f i now] assms by (auto split: if_splits)
    next
      case False
      have ids: "\<forall>s \<in> set rows. ib_id s \<noteq> i"
      proof (rule ccontr)
        assume "\<not> (\<forall>s \<in> set rows. ib_id s \<noteq> i)"
        then have "\<exists>s \<in> set rows. ib_id s = i" by blast
        then show False
          using assms(2) valid False by (auto simp: inbox_receive_def Let_def andthen_def inbox_insert_run)
      qed
      have r: "r = inbox_row_of env (verification_of f env) i now" "rows' = rows @ [r]"
        using receive_new [OF _ ids valid, of f now] False assms(2) by auto
      have "ib_created_at r = now" by (simp add: r(1) inbox_row_of_def Let_def)
      then show ?thesis using False ids r assms(1) inbox_row_records [OF valid, of f i now] by (auto simp: inbox_inv_def binds_def)
    qed
    then show "(if ?known then r \<in> set rows \<and> rows' = rows
      else rows' = rows @ [r] \<and> records_envelope f env r \<and> ib_id r = i \<and> ib_created_at r = now)" "inbox_inv rows'"
      "r \<in> set rows'" "binds f env r" "ib_envelope_id r = jstr (jfield ''envelopeId'' env)" by blast+
  qed
  have "\<forall>i' now'. verification_of f env = Verified \<longrightarrow> inbox_receive f env i' now' rows' = (Inr r, rows')"
    using receive_known [OF stored(2,3,5) valid] stored(4) by simp
  moreover have "\<forall>env' i' now'. validateEnvelope env' = Inr () \<and> jfield ''envelopeId'' env' = jfield ''envelopeId'' env \<and>
       \<not> (binds f env' r \<and> (ib_id r = i' \<or> verification_of f env' = Verified)) \<longrightarrow>
       (\<exists>e. inbox_receive f env' i' now' rows' = (Inl e, rows') \<and> err_class e = ValidationError)"
    using receive_known [OF stored(2,3)] stored(5) by (auto simp: platform_error_def)
  ultimately show ?thesis using stored by blast
qed

text \<open>A delivery that fails to verify is stored all the same, and from then on stands for its envelope
  id: the genuine envelope with that id, key and signature is answered with the stored rejected row,
  which is never applied, and one with the id and another signature is refused.\<close>

theorem rejected_delivery_sticks:
  assumes "inbox_inv rows" "inbox_receive f forged i now rows = (Inr r, rows')"
    "\<forall>s \<in> set rows. ib_envelope_id s \<noteq> jstr (jfield ''envelopeId'' forged)"
    "verification_of f forged = Rejected"
    "validateEnvelope genuine = Inr ()" "verification_of f genuine = Verified"
    "jfield ''envelopeId'' genuine = jfield ''envelopeId'' forged"
  shows "ib_verification r = Rejected \<and> r \<in> set rows' \<and> r \<notin> set (applicable rows') \<and>
    snd (inbox_receive f genuine i' now' rows') = rows' \<and>
    (if binds f genuine r then fst (inbox_receive f genuine i' now' rows') = Inr r
     else \<exists>e. fst (inbox_receive f genuine i' now' rows') = Inl e \<and> err_class e = ValidationError)"
proof -
  have valid: "validateEnvelope forged = Inr ()"
    using assms(2) by (auto simp: inbox_receive_def split: sum.splits)
  have ids: "\<forall>s \<in> set rows. ib_id s \<noteq> i"
    using assms(2,3) valid by (auto simp: inbox_receive_def Let_def andthen_def inbox_insert_run split: if_splits)
  have r: "r = inbox_row_of forged Rejected i now" "rows' = rows @ [r]"
    using receive_new [OF assms(3) ids valid, of f now] assms(2,4) by auto
  have inv: "inbox_inv rows'"
    using assms(1,3) ids r by (auto simp: inbox_inv_def)
  have "r \<in> set rows'" "ib_envelope_id r = jstr (jfield ''envelopeId'' genuine)"
    using r assms(7) by simp_all
  from receive_known [OF inv this assms(5), of f i' now'] show ?thesis
    using r assms(6) by (simp add: applicable_def platform_error_def)
qed

section \<open>What applying does\<close>

text \<open>The outcomes of the calls, one for each row in turn, each on the domain state the call before it left.\<close>

fun outcomes :: "(inbox_row \<Rightarrow> 'd \<Rightarrow> (thrown + unit) \<times> 'd) \<Rightarrow> inbox_row list \<Rightarrow> 'd \<Rightarrow> (thrown + unit) list" where
  "outcomes f [] dm = []"
| "outcomes f (r # rs) dm = fst (f r dm) # outcomes f rs (snd (f r dm))"

text \<open>What becomes of a row by the outcome of its call.\<close>

fun settled :: "(inbox_row \<Rightarrow> string) \<Rightarrow> inbox_row \<Rightarrow> thrown + unit \<Rightarrow> inbox_row" where
  "settled clock r (Inr _) = r\<lparr>ib_apply := Applied, ib_applied_at := Some (clock r)\<rparr>"
| "settled clock r (Inl err) = (if is_conflict_error err then r\<lparr>ib_apply := Conflict\<rparr> else r\<lparr>ib_apply := ApplyFailed\<rparr>)"

definition conflicting :: "thrown + unit \<Rightarrow> bool" where
  "conflicting out = (case out of Inl err \<Rightarrow> is_conflict_error err | Inr _ \<Rightarrow> False)"

lemma length_outcomes [simp]: "length (outcomes f rs dm) = length rs"
  by (induction rs arbitrary: dm) simp_all

lemma settled_id [simp]: "ib_id (settled clock r out) = ib_id r" "ib_apply (settled clock r out) \<noteq> ApplyPending"
  by (cases out; simp)+

lemma set_apply_map: "snd (set_apply st tm i rows) =
    map (\<lambda>r. if ib_id r = i then r\<lparr>ib_apply := st, ib_applied_at := (case tm of Some t \<Rightarrow> Some t | None \<Rightarrow> ib_applied_at r)\<rparr> else r) rows"
  by (simp add: set_apply_def sql_update_def)

definition count_outcomes :: "(thrown + unit) list \<Rightarrow> apply_counts \<Rightarrow> apply_counts" where
  "count_outcomes outs c = \<lparr>cnt_applied = cnt_applied c + length (filter (\<lambda>out. \<not> isl out) outs),
     cnt_failed = cnt_failed c + length (filter (\<lambda>out. isl out \<and> \<not> conflicting out) outs),
     cnt_conflicts = cnt_conflicts c + length (filter conflicting outs)\<rparr>"

text \<open>The row of the table with the id of a handled one, and the outcome of that one's call.\<close>

definition settle_in :: "(inbox_row \<Rightarrow> string) \<Rightarrow> inbox_row list \<Rightarrow> (thrown + unit) list \<Rightarrow> inbox_row \<Rightarrow> inbox_row" where
  "settle_in clock rs outs r = (case map_of (zip (map ib_id rs) outs) (ib_id r) of None \<Rightarrow> r | Some out \<Rightarrow> settled clock r out)"

lemma apply_rows_run:
  assumes "distinct (map ib_id rs)" "\<And>r r'. r \<in> set rows \<Longrightarrow> r' \<in> set rs \<Longrightarrow> ib_id r = ib_id r' \<Longrightarrow> clock r = clock r'"
  shows "apply_rows f clock rs c (rows, dm) = (Inr (count_outcomes (outcomes f rs dm) c),
    map (settle_in clock rs (outcomes f rs dm)) rows, fold (\<lambda>r dm. snd (f r dm)) rs dm)"
  using assms
proof (induction rs arbitrary: rows dm c)
  case Nil
  have "c = count_outcomes [] c" by (cases c) (simp add: count_outcomes_def)
  then show ?case by (simp add: settle_in_def)
next
  case (Cons x rs)
  obtain out dm' where call: "f x dm = (out, dm')" by fastforce
  let ?one = "\<lambda>r. if ib_id r = ib_id x then settled (\<lambda>_. clock x) r out else r"
  have step: "apply_rows f clock (x # rs) c (rows, dm) = apply_rows f clock rs (count_outcomes [out] c) (map ?one rows, dm')"
    using call by (cases out; cases c)
      (simp_all add: count_outcomes_def conflicting_def set_apply_map cong: if_cong map_cong)
  have same: "clock r = clock x" if "r \<in> set rows" "ib_id r = ib_id x" for r using Cons.prems(2) that by simp
  have one: "map ?one rows = map (\<lambda>r. if ib_id r = ib_id x then settled clock r out else r) rows"
    using same by (cases out) auto
  have "apply_rows f clock rs (count_outcomes [out] c) (map ?one rows, dm') = (Inr (count_outcomes (outcomes f rs dm') (count_outcomes [out] c)),
      map (settle_in clock rs (outcomes f rs dm')) (map ?one rows), fold (\<lambda>r dm. snd (f r dm)) rs dm')"
  proof (rule Cons.IH)
    show "distinct (map ib_id rs)" using Cons.prems(1) by simp
    fix r r' assume r: "r \<in> set (map ?one rows)" "r' \<in> set rs" "ib_id r = ib_id r'"
    then obtain r0 where r0: "r0 \<in> set rows" "r = ?one r0" by auto
    then have "ib_id r0 = ib_id r'" using r(3) by (auto split: if_splits)
    moreover have "ib_id x \<noteq> ib_id r'" using Cons.prems(1) r(2) by (metis distinct.simps(2) image_eqI list.set_map list.simps(9))
    ultimately have "r = r0" using r0(2) by auto
    then show "clock r = clock r'" using Cons.prems(2) r0(1) r(2,3) by simp
  qed
  moreover have "settle_in clock rs (outcomes f rs dm') (if ib_id r = ib_id x then settled clock r out else r) =
      settle_in clock (x # rs) (outcomes f (x # rs) dm) r" for r
  proof (cases "ib_id r = ib_id x")
    case True
    have "ib_id x \<notin> set (map ib_id rs)" using Cons.prems(1) by simp
    then have none: "map_of (zip (map ib_id rs) (outcomes f rs dm')) (ib_id x) = None" using map_of_zip_is_None [of "map ib_id rs" "outcomes f rs dm'" "ib_id x"] by simp
    show ?thesis using True call by (simp add: settle_in_def none)
  qed (simp add: settle_in_def call)
  moreover have "count_outcomes (outcomes f rs dm') (count_outcomes [out] c) = count_outcomes (outcomes f (x # rs) dm) c"
    by (simp add: count_outcomes_def call)
  ultimately show ?case unfolding step one by (simp add: call)
qed

text \<open>C10. Applying handles every verified pending row exactly once, in the order of the logical timestamps: the function is
  called on each of them in turn, on the state the call before left; the row becomes applied, with the
  time, when its call returned, conflict when it threw an error that says so and failed on any other, and
  is otherwise unchanged; the counts are those of the three outcomes; all other rows stay exactly
  as they were; and nothing verified is left pending, so a second run calls nothing.\<close>

theorem applyPending_once:
  assumes "inbox_inv rows"
  shows "let rs = applicable rows; outs = outcomes f rs dm; rows' = map (settle_in clock rs outs) rows;
      dm' = fold (\<lambda>r dm. snd (f r dm)) rs dm in
    applyPending f clock (rows, dm) = (Inr \<lparr>cnt_applied = length (filter (\<lambda>out. \<not> isl out) outs),
      cnt_failed = length (filter (\<lambda>out. isl out \<and> \<not> conflicting out) outs), cnt_conflicts = length (filter conflicting outs)\<rparr>, rows', dm') \<and>
    distinct rs \<and> set rs = {r \<in> set rows. ib_apply r = ApplyPending \<and> ib_verification r = Verified} \<and> sorted (map ib_logical rs) \<and>
    (\<forall>i < length rs. settled clock (rs ! i) (outs ! i) \<in> set rows') \<and> (\<forall>r \<in> set rows - set rs. r \<in> set rows') \<and>
    applyPending f clock (rows', dm') = (Inr \<lparr>cnt_applied = 0, cnt_failed = 0, cnt_conflicts = 0\<rparr>, rows', dm')"
proof -
  let ?rs = "applicable rows"
  let ?outs = "outcomes f ?rs dm"
  let ?rows' = "map (settle_in clock ?rs ?outs) rows"
  have inj: "inj_on ib_id (set rows)" and d: "distinct rows" using assms by (simp_all add: inbox_inv_def distinct_map)
  have set: "set ?rs = {r \<in> set rows. ib_apply r = ApplyPending \<and> ib_verification r = Verified}"
    by (auto simp: applicable_def)
  have dist: "distinct ?rs" using d by (simp add: applicable_def order_by_def)
  have ids: "distinct (map ib_id ?rs)" using dist inj_on_subset [OF inj] set by (auto simp: distinct_map)
  have sorted: "sorted (map ib_logical ?rs)" by (simp add: applicable_def)
  have run: "apply_rows f clock ?rs c (rows, dm) = (Inr (count_outcomes ?outs c), ?rows', fold (\<lambda>r dm. snd (f r dm)) ?rs dm)" for c
    by (rule apply_rows_run [OF ids]) (use inj set in \<open>auto dest: inj_onD\<close>)
  have handled: "settle_in clock ?rs ?outs (?rs ! i) = settled clock (?rs ! i) (?outs ! i)" if "i < length ?rs" for i
    using that ids map_of_zip_nth [of "map ib_id ?rs" ?outs i] by (simp add: settle_in_def)
  have other: "settle_in clock ?rs ?outs r = r" if "r \<in> set rows" "r \<notin> set ?rs" for r
  proof -
    have "ib_id r \<notin> ib_id ` set ?rs" using that set inj by (auto dest: inj_onD)
    then have "ib_id r \<notin> set (map ib_id ?rs)" by simp
    moreover have "length (map ib_id ?rs) = length ?outs" by simp
    ultimately have "map_of (zip (map ib_id ?rs) ?outs) (ib_id r) = None" by (simp only: map_of_zip_is_None not_False_eq_True)
    then show ?thesis by (simp only: settle_in_def option.case)
  qed
  have none: "applicable ?rows' = []"
  proof -
    have "\<not> (ib_apply r' = ApplyPending \<and> ib_verification r' = Verified)" if r': "r' \<in> set ?rows'" for r'
    proof -
      obtain r where r: "r \<in> set rows" "r' = settle_in clock ?rs ?outs r" using r' by auto
      show ?thesis
      proof (cases "r \<in> set ?rs")
        case True
        then obtain i where "i < length ?rs" "r = ?rs ! i" by (metis in_set_conv_nth)
        then show ?thesis using r(2) handled by simp
      next
        case False
        then show ?thesis using r other set by auto
      qed
    qed
    then have "filter (\<lambda>r. ib_apply r = ApplyPending \<and> ib_verification r = Verified) ?rows' = []" unfolding filter_empty_conv by blast
    then show ?thesis unfolding applicable_def [of ?rows'] by (simp only: order_by_def sort_key_simps(1))
  qed
  have "settled clock (?rs ! i) (?outs ! i) \<in> set ?rows'" if "i < length ?rs" for i
    using handled [OF that] nth_mem [OF that] set by (auto simp: image_iff) (metis (no_types, lifting))
  moreover have "r \<in> set ?rows'" if "r \<in> set rows - set ?rs" for r
    using other [of r] that by (auto simp: image_iff) (metis (no_types, lifting))
  moreover have "applyPending f clock (rows, dm) = (Inr (count_outcomes ?outs \<lparr>cnt_applied = 0, cnt_failed = 0, cnt_conflicts = 0\<rparr>),
      ?rows', fold (\<lambda>r dm. snd (f r dm)) ?rs dm)"
    using run by (simp add: applyPending_def)
  moreover have "applyPending f clock (?rows', dm') = (Inr \<lparr>cnt_applied = 0, cnt_failed = 0, cnt_conflicts = 0\<rparr>, ?rows', dm')" for dm'
    by (simp add: applyPending_def none)
  ultimately show ?thesis unfolding Let_def using dist set sorted by (auto simp: count_outcomes_def)
qed

section \<open>Tombstones stay\<close>

inductive tombstone_step :: "tombstone_table \<Rightarrow> tombstone_table \<Rightarrow> bool" where
  "tombstone_step t (snd (tombstone_record etype eid dby opid org grp feature dat newId now t))"
| "tombstone_step t (snd (markReplicated opid now t))"

definition replicated_move :: "tombstone_row \<Rightarrow> tombstone_row \<Rightarrow> bool" where
  "replicated_move r r' \<longleftrightarrow> r' = r\<lparr>tb_replicated_at := tb_replicated_at r'\<rparr> \<and>
     (tb_replicated_at r \<noteq> None \<longrightarrow> tb_replicated_at r' \<noteq> None)"

text \<open>No row is lost, and operation ids stay unique.\<close>

definition tombstone_grows :: "tombstone_table \<Rightarrow> tombstone_table \<Rightarrow> bool" where
  "tombstone_grows t t' \<longleftrightarrow> (\<forall>r \<in> set t. \<exists>r' \<in> set t'. replicated_move r r') \<and>
     (distinct (map tb_operation_id t) \<longrightarrow> distinct (map tb_operation_id t'))"

lemma tombstone_record_run:
  "tombstone_record etype eid dby opid org grp feature dat newId now t =
    (let d = (case dat of Some d \<Rightarrow> d | None \<Rightarrow> now);
         row = \<lparr>tb_id = newId, tb_created_at = d, tb_org = org, tb_group = grp, tb_feature = feature,
            tb_entity_type = etype, tb_entity_id = eid, tb_deleted_at = d, tb_deleted_by = dby,
            tb_operation_id = opid, tb_replicated_at = None\<rparr>
     in if \<exists>r \<in> set t. tb_id r = newId
        then (Inl (raise PlainError ''UNIQUE constraint failed: core_sync_tombstones.id''), t)
        else if \<exists>r \<in> set t. tb_operation_id r = opid
        then (Inl (raise PlainError ''UNIQUE constraint failed: core_sync_tombstones.delete_operation_id''), t)
        else (Inr row, t @ [row]))"
  by (auto simp: tombstone_record_def Let_def)

lemma markReplicated_run:
  "markReplicated opid now t =
    (Inr (), map (\<lambda>r. if tb_operation_id r = opid then r\<lparr>tb_replicated_at := Some now\<rparr> else r) t)"
  by (simp add: markReplicated_def sql_update_def)

lemma replicated_move_refl: "replicated_move r r"
  by (simp add: replicated_move_def)

lemma replicated_move_fields:
  assumes "replicated_move r r'"
  shows "tb_org r' = tb_org r" "tb_entity_type r' = tb_entity_type r" "tb_entity_id r' = tb_entity_id r"
    "tb_operation_id r' = tb_operation_id r"
proof -
  have eq: "r' = r\<lparr>tb_replicated_at := tb_replicated_at r'\<rparr>" using assms by (simp add: replicated_move_def)
  show "tb_org r' = tb_org r" "tb_entity_type r' = tb_entity_type r" "tb_entity_id r' = tb_entity_id r"
    "tb_operation_id r' = tb_operation_id r"
    by (subst eq, simp)+
qed

lemma replicated_move_trans: "replicated_move a b \<Longrightarrow> replicated_move b c \<Longrightarrow> replicated_move a c"
  by (cases a; cases b; cases c) (auto simp: replicated_move_def)

lemma tombstone_step_grows: "tombstone_step t t' \<Longrightarrow> tombstone_grows t t'"
proof (induction rule: tombstone_step.induct)
  case (1 t etype eid dby opid org grp feature dat newId now)
  then show ?case
    by (auto simp: tombstone_record_run Let_def tombstone_grows_def intro: replicated_move_refl)
next
  case (2 t opid now)
  have ids: "map tb_operation_id (snd (markReplicated opid now t)) = map tb_operation_id t"
    by (simp add: markReplicated_run)
  have "\<exists>r' \<in> set (snd (markReplicated opid now t)). replicated_move r r'" if "r \<in> set t" for r
    using that by (intro bexI [of _ "if tb_operation_id r = opid then r\<lparr>tb_replicated_at := Some now\<rparr> else r"])
      (auto simp: markReplicated_run replicated_move_def)
  then show ?case by (simp add: tombstone_grows_def ids)
qed

lemma tombstone_steps_grow: "tombstone_step\<^sup>*\<^sup>* t t' \<Longrightarrow> tombstone_grows t t'"
proof (induction rule: rtranclp_induct)
  case base
  show ?case by (auto simp: tombstone_grows_def intro: replicated_move_refl)
next
  case (step u v)
  then show ?case using tombstone_step_grows [OF step(2)]
    unfolding tombstone_grows_def by (meson replicated_move_trans)
qed

lemma tombstone_record_Inr:
  assumes "tombstone_record etype eid dby opid org grp feature dat newId now t = (Inr row, t')"
  shows "t' = t @ [row] \<and> tb_org row = org \<and> tb_entity_type row = etype \<and> tb_entity_id row = eid \<and>
    tb_operation_id row = opid \<and> tb_replicated_at row = None"
proof -
  have "\<not> (\<exists>r \<in> set t. tb_id r = newId) \<and> \<not> (\<exists>r \<in> set t. tb_operation_id r = opid)"
    using assms unfolding tombstone_record_run Let_def by (simp split: if_split_asm)
  then show ?thesis using assms unfolding tombstone_record_run Let_def by clarsimp
qed

lemma propagatePending_run:
  "propagatePending t = (Inr (order_by tb_deleted_at (filter (\<lambda>r. tb_replicated_at r = None) t)), t)"
  by (simp add: propagatePending_def)

lemma replicated_not_pending:
  "\<forall>r \<in> set (filter (\<lambda>r. tb_replicated_at r = None) (snd (markReplicated opid later t))). tb_operation_id r \<noteq> opid"
proof
  fix r assume "r \<in> set (filter (\<lambda>r. tb_replicated_at r = None) (snd (markReplicated opid later t)))"
  then have r: "r \<in> set (snd (markReplicated opid later t))" "tb_replicated_at r = None" by simp_all
  from r(1) have "r \<in> (\<lambda>x. if tb_operation_id x = opid then x\<lparr>tb_replicated_at := Some later\<rparr> else x) ` set t"
    by (simp only: markReplicated_run snd_conv list.set_map)
  then obtain x where "r = (if tb_operation_id x = opid then x\<lparr>tb_replicated_at := Some later\<rparr> else x)"
    by (rule imageE)
  with r(2) show "tb_operation_id r \<noteq> opid" by (cases "tb_operation_id x = opid") simp_all
qed

lemma tombstone_again:
  assumes "r \<in> set t" "tb_operation_id r = opid"
  shows "\<exists>e. tombstone_record etype eid dby opid org grp feature dat newId now t = (Inl e, t)"
  unfolding tombstone_record_run Let_def using assms by simp blast

text \<open>A recorded deletion is never lost: after \<open>record\<close> the entity is deleted, in the stated organisation
  only, whatever is recorded or marked replicated later; the tombstone is among the pending ones until
  it is marked replicated, and a second tombstone with the same operation id is refused.\<close>

theorem tombstones_persist:
  assumes "tombstone_record etype eid dby opid org grp feature dat newId now t = (Inr row, t1)"
    "tombstone_step\<^sup>*\<^sup>* t1 t2"
  shows "isDeleted etype eid org t2 = (Inr True, t2) \<and>
    (\<exists>pend. propagatePending t1 = (Inr pend, t1) \<and> row \<in> set pend) \<and>
    (\<exists>pend. propagatePending (snd (markReplicated opid later t2)) = (Inr pend, snd (markReplicated opid later t2)) \<and>
       (\<forall>r \<in> set pend. tb_operation_id r \<noteq> opid)) \<and>
    (\<exists>e. tombstone_record etype' eid' dby' opid org' grp' feature' dat' newId' now' t2 = (Inl e, t2))"
proof -
  have row: "row \<in> set t1" "tb_org row = org" "tb_entity_type row = etype" "tb_entity_id row = eid"
    "tb_operation_id row = opid" "tb_replicated_at row = None"
    using tombstone_record_Inr [OF assms(1)] by simp_all
  obtain r where r: "r \<in> set t2" "replicated_move row r"
    using tombstone_steps_grow [OF assms(2)] row(1) by (auto simp: tombstone_grows_def)
  then have f: "tb_org r = org" "tb_entity_type r = etype" "tb_entity_id r = eid" "tb_operation_id r = opid"
    using replicated_move_fields [OF r(2)] row by simp_all
  have "isDeleted etype eid org t2 = (Inr True, t2)"
    using r(1) f by (simp add: isDeleted_def list_ex_iff) blast
  moreover have "\<exists>pend. propagatePending t1 = (Inr pend, t1) \<and> row \<in> set pend"
    using row by (simp add: propagatePending_def)
  moreover have "\<exists>pend. propagatePending u = (Inr pend, u) \<and> (\<forall>r \<in> set pend. tb_operation_id r \<noteq> opid)"
    if "u = snd (markReplicated opid later t2)" for u
    using replicated_not_pending that by (simp add: propagatePending_run)
  moreover have "\<exists>e. tombstone_record etype' eid' dby' opid org' grp' feature' dat' newId' now' t2 = (Inl e, t2)"
    using r(1) f(4) by (rule tombstone_again)
  ultimately show ?thesis by blast
qed

section \<open>Witnesses\<close>

definition sample_inbox :: inbox_row where
  "sample_inbox = inbox_row_of sample_envelope Verified ''i1'' ''2026''"

lemma sample_receive:
  "inbox_receive (\<lambda>_ _ _. Inr True) sample_envelope ''i1'' ''2026'' [] = (Inr sample_inbox, [sample_inbox])"
proof -
  have "verification_of (\<lambda>_ _ _. Inr True) sample_envelope = Verified"
    using sample_envelope_ok by (simp add: verification_of_def verify_def sample_envelope_def canonicalize_def sample_operation_ok)
  then show ?thesis using receive_new [of "[]" sample_envelope "''i1''"] sample_envelope_ok
    by (simp add: sample_inbox_def)
qed

theorem receive_idempotent_witness:
  "inbox_receive (\<lambda>_ _ _. Inr True) sample_envelope ''i2'' ''2027'' [sample_inbox] = (Inr sample_inbox, [sample_inbox]) \<and>
   records_envelope (\<lambda>_ _ _. Inr True) sample_envelope sample_inbox"
proof -
  have "verification_of (\<lambda>_ _ _. Inr True) sample_envelope = Verified"
    using sample_envelope_ok by (simp add: verification_of_def verify_def sample_envelope_def canonicalize_def sample_operation_ok)
  then show ?thesis using receive_idempotent [OF _ sample_receive] by (simp add: inbox_inv_def)
qed

definition forged_operation :: json where
  "forged_operation = JObj [(''operationId'', JStr ''op1''), (''applicationId'', JStr ''app''),
     (''organisationId'', JStr ''org''), (''syncGroupId'', JStr ''g''), (''featureId'', JStr ''notes''),
     (''entityType'', JStr ''note''), (''entityId'', JStr ''n1''), (''operation'', JStr ''delete''),
     (''payload'', JNull), (''authorId'', JStr ''u''), (''deviceId'', JStr ''d''),
     (''logicalTimestamp'', JStr ''00000000000a_0000_d''), (''schemaVersion'', JNum 1), (''protocolVersion'', JNum 1)]"

definition forged_envelope :: json where
  "forged_envelope = envelope_json forged_operation (iso_str 0) sample_key sample_sig"

definition sample_verifier :: verify_fn where
  "sample_verifier pk b s = Inr (b = utf8 (stringify (sortedKeys sample_operation)))"

lemma forged_operation_ok: "validateOperation (Some forged_operation) = Inr ()"
  by code_simp

lemma forged_envelope_ok: "validateEnvelope forged_envelope = Inr ()"
proof -
  have "length (stringify (envelope_json forged_operation (iso_str 0) sample_key sample_sig)) < 2000" by code_simp
  then show ?thesis
    using envelope_json_ok [OF forged_operation_ok, of "''op1''"]
    by (simp add: forged_envelope_def forged_operation_def)
qed

lemma forged_rejected: "verification_of sample_verifier forged_envelope = Rejected"
proof -
  have "stringify (sortedKeys forged_operation) \<noteq> stringify (sortedKeys sample_operation)" by code_simp
  then have "utf8 (stringify (sortedKeys forged_operation)) \<noteq> utf8 (stringify (sortedKeys sample_operation))"
    using utf8_inj by blast
  then show ?thesis using forged_envelope_ok
    by (simp add: verification_of_def verify_def forged_envelope_def envelope_json_def canonicalize_def
        forged_operation_ok sample_verifier_def)
qed

lemma genuine_verified: "verification_of sample_verifier sample_envelope = Verified"
  using sample_envelope_ok
  by (simp add: verification_of_def verify_def sample_envelope_def envelope_json_def canonicalize_def
      sample_operation_ok sample_verifier_def)

theorem rejected_delivery_sticks_witness:
  "fst (inbox_receive sample_verifier sample_envelope ''i2'' ''2027''
     (snd (inbox_receive sample_verifier forged_envelope ''i1'' ''2026'' []))) =
   Inr (inbox_row_of forged_envelope Rejected ''i1'' ''2026'')"
proof -
  let ?r = "inbox_row_of forged_envelope Rejected ''i1'' ''2026''"
  have first: "inbox_receive sample_verifier forged_envelope ''i1'' ''2026'' [] = (Inr ?r, [?r])"
    using receive_new [of "[]" forged_envelope "''i1''" sample_verifier] forged_envelope_ok forged_rejected by simp
  have "jfield ''envelopeId'' sample_envelope = jfield ''envelopeId'' forged_envelope"
    by (simp add: sample_envelope_def forged_envelope_def envelope_json_def sample_operation_def forged_operation_def)
  moreover have "binds sample_verifier sample_envelope ?r"
    by (simp add: binds_def sample_envelope_def forged_envelope_def envelope_json_def)
  ultimately show ?thesis
    using rejected_delivery_sticks [OF _ first _ forged_rejected sample_envelope_ok genuine_verified] first
    by (simp add: inbox_inv_def)
qed

theorem applyPending_once_witness:
  "applyPending (\<lambda>r d. (Inr (), d @ [ib_id r])) (\<lambda>_. ''2027'') ([sample_inbox], []) =
     (Inr \<lparr>cnt_applied = 1, cnt_failed = 0, cnt_conflicts = 0\<rparr>,
      [sample_inbox\<lparr>ib_apply := Applied, ib_applied_at := Some ''2027''\<rparr>], [ib_id sample_inbox]) \<and>
   fst (applyPending (\<lambda>_ d. (Inl (OtherValue ''x''), d)) (\<lambda>_. ''2027'') ([sample_inbox], [] :: string list)) =
     Inr \<lparr>cnt_applied = 0, cnt_failed = 1, cnt_conflicts = 0\<rparr>"
proof -
  have one: "inbox_inv [sample_inbox]" by (simp add: inbox_inv_def)
  have rs: "applicable [sample_inbox] = [sample_inbox]" by (simp add: applicable_def order_by_def sample_inbox_def)
  show ?thesis
  proof
    show "applyPending (\<lambda>r d. (Inr (), d @ [ib_id r])) (\<lambda>_. ''2027'') ([sample_inbox], []) =
     (Inr \<lparr>cnt_applied = 1, cnt_failed = 0, cnt_conflicts = 0\<rparr>,
      [sample_inbox\<lparr>ib_apply := Applied, ib_applied_at := Some ''2027''\<rparr>], [ib_id sample_inbox])"
      using applyPending_once [OF one, of "\<lambda>r d. (Inr (), d @ [ib_id r])" "[]" "\<lambda>_. ''2027''"]
      unfolding rs Let_def by (simp add: settle_in_def conflicting_def)
    show "fst (applyPending (\<lambda>_ d. (Inl (OtherValue ''x''), d)) (\<lambda>_. ''2027'') ([sample_inbox], [] :: string list)) =
     Inr \<lparr>cnt_applied = 0, cnt_failed = 1, cnt_conflicts = 0\<rparr>"
      using applyPending_once [OF one, of "\<lambda>_ d. (Inl (OtherValue ''x''), d)" "[] :: string list" "\<lambda>_. ''2027''"]
      unfolding rs Let_def by (simp add: settle_in_def conflicting_def is_conflict_error_def)
  qed
qed

theorem tombstones_persist_witness:
  "isDeleted ''widget'' ''w1'' ''org''
     (snd (tombstone_record ''widget'' ''w1'' ''u'' ''op1'' ''org'' ''g'' ''f'' None ''t1'' ''2026'' [])) =
   (Inr True, snd (tombstone_record ''widget'' ''w1'' ''u'' ''op1'' ''org'' ''g'' ''f'' None ''t1'' ''2026'' []))"
  using tombstones_persist [of "''widget''" "''w1''" "''u''" "''op1''" "''org''" "''g''" "''f''" None "''t1''" "''2026''" "[]",
      OF _ rtranclp.rtrancl_refl]
  by (simp add: tombstone_record_run Let_def)

end
