(* ===== verification/Conflicts.thy ===== *)
theory Conflicts
  imports Inbox
begin

text \<open>
  Conflict policies (\<open>sync-protocol/src/conflicts/ConflictRegistry.ts\<close>) and the engine that resolves
  a local against a remote envelope (\<open>sync/src/conflict/ConflictEngine.ts\<close>).  Values and envelopes
  are JSON values, sums of deltas are exact, and custom resolvers are functions stored in the
  registry.  Proved: last-writer-wins replicas converge in whatever order envelopes arrive, absolute
  fields are never added, and what an additive merge produces no longer carries a valid signature.
\<close>

section \<open>Policies and the registry\<close>

datatype conflict_strategy = Lww | AppendOnly | Additive | Manual | Immutable | Crdt

record conflict_policy =
  cp_strategy :: conflict_strategy
  cp_resolver :: "string option"

record resolve_input =
  ri_entity_id :: string
  ri_entity_type :: string
  ri_field :: "string option"
  ri_local :: json
  ri_remote :: json
  ri_local_ts :: string
  ri_remote_ts :: string

record conflict_registry =
  cr_entity :: "(string \<times> conflict_policy) list"
  cr_field :: "(string \<times> conflict_policy) list"
  cr_custom :: "(string \<times> (resolve_input \<Rightarrow> js_error + json)) list"
  cr_absolute :: "string list"

definition new_registry :: conflict_registry where
  "new_registry = \<lparr>cr_entity = [], cr_field = [], cr_custom = [], cr_absolute = []\<rparr>"

definition field_key :: "string \<Rightarrow> string \<Rightarrow> string" where
  "field_key entityType field = entityType @ ''.'' @ field"

text \<open>\<open>if (field)\<close>: present and not empty.\<close>

definition named_field :: "string option \<Rightarrow> string option" where
  "named_field f = (if f = Some '''' then None else f)"

definition registerAbsoluteLwwField :: "string \<Rightarrow> string \<Rightarrow> (conflict_registry, unit) op" where
  "registerAbsoluteLwwField entityType field = modify (\<lambda>r. r\<lparr>cr_absolute :=
     (if field_key entityType field \<in> set (cr_absolute r) then cr_absolute r
      else cr_absolute r @ [field_key entityType field])\<rparr>)"

definition isAbsoluteLwwField :: "conflict_registry \<Rightarrow> string \<Rightarrow> string \<Rightarrow> bool" where
  "isAbsoluteLwwField r entityType field \<longleftrightarrow> field_key entityType field \<in> set (cr_absolute r)"

definition hasEntityPolicy :: "conflict_registry \<Rightarrow> string \<Rightarrow> bool" where
  "hasEntityPolicy r entityType \<longleftrightarrow> assoc_get entityType (cr_entity r) \<noteq> None"

definition registerEntityPolicy :: "string \<Rightarrow> conflict_policy \<Rightarrow> (conflict_registry, unit) op" where
  "registerEntityPolicy entityType policy = andthen (get id) (\<lambda>r.
     andthen (guard (\<not> hasEntityPolicy r entityType) (raise PlainError (''[ConflictRegistry] Entity policy for '' @
       quoted entityType @ '' is already registered.'')))
     (\<lambda>_. modify (\<lambda>r. r\<lparr>cr_entity := assoc_set entityType policy (cr_entity r)\<rparr>)))"

definition registerFieldPolicy :: "string \<Rightarrow> string \<Rightarrow> conflict_policy \<Rightarrow> (conflict_registry, unit) op" where
  "registerFieldPolicy entityType field policy = andthen (get id) (\<lambda>r.
     andthen (guard (\<not> (cp_strategy policy = Additive \<and> isAbsoluteLwwField r entityType field))
       (raise PlainError (''[ConflictRegistry] Cannot register 'additive' strategy for '' @
         quoted (field_key entityType field) @ '': this field is declared as an absolute value (use 'lww' instead). '' @
         ''Additive semantics are only valid for independent delta values.'')))
     (\<lambda>_. modify (\<lambda>r. r\<lparr>cr_field := assoc_set (field_key entityType field) policy (cr_field r)\<rparr>)))"

definition registerCustomResolver ::
    "string \<Rightarrow> (resolve_input \<Rightarrow> js_error + json) \<Rightarrow> (conflict_registry, unit) op" where
  "registerCustomResolver name fn = modify (\<lambda>r. r\<lparr>cr_custom := assoc_set name fn (cr_custom r)\<rparr>)"

definition getPolicy :: "conflict_registry \<Rightarrow> string \<Rightarrow> string option \<Rightarrow> conflict_policy" where
  "getPolicy r entityType field =
     (case (case named_field field of Some f \<Rightarrow> assoc_get (field_key entityType f) (cr_field r) | None \<Rightarrow> None) of
        Some p \<Rightarrow> p
      | None \<Rightarrow> (case assoc_get entityType (cr_entity r) of Some p \<Rightarrow> p
          | None \<Rightarrow> \<lparr>cp_strategy = Lww, cp_resolver = None\<rparr>))"

definition validate_policy :: "conflict_registry \<Rightarrow> string \<Rightarrow> string option \<Rightarrow> js_error + unit" where
  "validate_policy r entityType field = (case named_field field of
     Some f \<Rightarrow> if cp_strategy (getPolicy r entityType field) = Additive \<and> isAbsoluteLwwField r entityType f
       then Inl (raise PlainError (''[ConflictRegistry] Conflict policy validation failed: '' @
         quoted (field_key entityType f) @ '' is an absolute value field but has 'additive' strategy registered. '' @
         ''Change strategy to 'lww'.''))
       else Inr ()
   | None \<Rightarrow> Inr ())"

section \<open>Resolving values\<close>

datatype value_winner = LocalValue | RemoteValue | CustomValue | ManualRequired

record conflict_record =
  co_entity_id :: string
  co_entity_type :: string
  co_field :: "string option"
  co_local :: json
  co_remote :: json
  co_local_ts :: string
  co_remote_ts :: string
  co_strategy :: conflict_strategy
  co_resolved :: json
  co_resolved_at :: string

fun num_or_zero :: "json \<Rightarrow> rat" where
  "num_or_zero (JNum q) = q"
| "num_or_zero _ = 0"

definition later_value :: "int \<Rightarrow> resolve_input \<Rightarrow> value_winner \<times> json" where
  "later_value cmp i = (if cmp \<ge> 0 then (LocalValue, ri_local i) else (RemoteValue, ri_remote i))"

definition resolve_value :: "conflict_registry \<Rightarrow> conflict_policy \<Rightarrow> int \<Rightarrow> resolve_input \<Rightarrow>
    js_error + value_winner \<times> json" where
  "resolve_value r policy cmp i = (case cp_strategy policy of
     Lww \<Rightarrow> Inr (later_value cmp i)
   | AppendOnly \<Rightarrow> Inr (LocalValue, ri_local i)
   | Immutable \<Rightarrow> Inr (LocalValue, ri_local i)
   | Additive \<Rightarrow>
       (case named_field (ri_field i) of
          Some f \<Rightarrow> if isAbsoluteLwwField r (ri_entity_type i) f
            then Inl (raise PlainError (''[ConflictRegistry] Attempted 'additive' resolution on absolute value field '' @
              quoted (field_key (ri_entity_type i) f) @ ''. This field must use 'lww'. Applying additive semantics '' @
              ''to absolute values would corrupt replicated state (CS-010).''))
            else Inr (CustomValue, JNum (num_or_zero (ri_local i) + num_or_zero (ri_remote i)))
        | None \<Rightarrow> Inr (CustomValue, JNum (num_or_zero (ri_local i) + num_or_zero (ri_remote i))))
   | Manual \<Rightarrow> Inr (ManualRequired, ri_local i)
   | Crdt \<Rightarrow>
       (case (case named_field (cp_resolver policy) of Some n \<Rightarrow> assoc_get n (cr_custom r) | None \<Rightarrow> None) of
          Some fn \<Rightarrow> (case fn i of Inl e \<Rightarrow> Inl e | Inr v \<Rightarrow> Inr (CustomValue, v))
        | None \<Rightarrow> Inr (later_value cmp i)))"

definition registry_resolve :: "(string \<Rightarrow> string \<Rightarrow> int) \<Rightarrow> conflict_registry \<Rightarrow> resolve_input \<Rightarrow> string \<Rightarrow>
    js_error + value_winner \<times> json \<times> conflict_record" where
  "registry_resolve lc r i now = (let policy = getPolicy r (ri_entity_type i) (ri_field i) in
     case hlc_compare lc (ri_local_ts i) (ri_remote_ts i) of Inl e \<Rightarrow> Inl e | Inr cmp \<Rightarrow>
       (case resolve_value r policy cmp i of Inl e \<Rightarrow> Inl e | Inr (w, v) \<Rightarrow>
          Inr (w, v, \<lparr>co_entity_id = ri_entity_id i, co_entity_type = ri_entity_type i, co_field = ri_field i,
            co_local = ri_local i, co_remote = ri_remote i, co_local_ts = ri_local_ts i,
            co_remote_ts = ri_remote_ts i, co_strategy = cp_strategy policy, co_resolved = v,
            co_resolved_at = now\<rparr>)))"

section \<open>Resolving envelopes\<close>

datatype resolution_winner = WinLocal | WinRemote | WinMerge | WinManual

record resolution =
  rs_winner :: resolution_winner
  rs_envelope :: "json option"
  rs_reason :: string

definition op_of :: "json \<Rightarrow> json" where
  "op_of envelope = the (jfield ''operation'' envelope)"

definition stamp_of :: "json \<Rightarrow> string" where
  "stamp_of envelope = jstr (jfield ''logicalTimestamp'' (op_of envelope))"

definition payload_of :: "json \<Rightarrow> json" where
  "payload_of envelope = the (jfield ''payload'' (op_of envelope))"

text \<open>\<open>{...value}\<close> of an object or an array, and \<open>value[field]\<close> where it is a number.\<close>

fun own_entries :: "json \<Rightarrow> (string \<times> json) list" where
  "own_entries (JObj m) = m"
| "own_entries (JArr vs) = zip (map nat_str [0..<length vs]) vs"
| "own_entries _ = []"

fun num_prop :: "string \<Rightarrow> json \<Rightarrow> rat" where
  "num_prop k (JArr vs) = (if k = ''length'' then of_nat (length vs)
     else (case assoc_get k (own_entries (JArr vs)) of Some v \<Rightarrow> num_or_zero v | None \<Rightarrow> 0))"
| "num_prop k v = (case assoc_get k (own_entries v) of Some w \<Rightarrow> num_or_zero w | None \<Rightarrow> 0)"

fun is_object :: "json \<Rightarrow> bool" where
  "is_object (JObj m) = True"
| "is_object (JArr vs) = True"
| "is_object _ = False"

fun set_prop :: "string \<Rightarrow> json \<Rightarrow> json \<Rightarrow> json" where
  "set_prop k v (JObj m) = JObj (obj_put k v m)"
| "set_prop k v w = w"

definition merge_payload :: "string option \<Rightarrow> json \<Rightarrow> json \<Rightarrow> json" where
  "merge_payload field l r = (case (l, r) of
     (JNum a, JNum b) \<Rightarrow> JNum (a + b)
   | _ \<Rightarrow> (case named_field field of
       Some f \<Rightarrow> if is_object l \<and> is_object r
         then JObj (obj_build (own_entries l @ own_entries r @ [(f, JNum (num_prop f l + num_prop f r))])) else r
     | None \<Rightarrow> r))"

definition merged_envelope :: "string option \<Rightarrow> json \<Rightarrow> json \<Rightarrow> json" where
  "merged_envelope field l r = set_prop ''operation''
     (set_prop ''payload'' (merge_payload field (payload_of l) (payload_of r)) (op_of r)) r"

definition additive_guard :: "conflict_registry option \<Rightarrow> string \<Rightarrow> string option \<Rightarrow> js_error + unit" where
  "additive_guard reg entityType field = (case reg of None \<Rightarrow> Inr () | Some r \<Rightarrow>
     (case named_field field of
        Some f \<Rightarrow> if isAbsoluteLwwField r entityType f
          then Inl (raise ConflictError (''Attempted 'additive' conflict resolution on absolute value field '' @
            quoted (field_key entityType f) @
            ''. This field is declared as absolute and must use 'lww' (CS-010).''))
          else (case validate_policy r entityType field of
            Inl e \<Rightarrow> Inl (raise ConflictError (''Additive conflict resolution forbidden: '' @ err_message e)) | Inr _ \<Rightarrow> Inr ())
      | None \<Rightarrow> (case validate_policy r entityType field of
            Inl e \<Rightarrow> Inl (raise ConflictError (''Additive conflict resolution forbidden: '' @ err_message e)) | Inr _ \<Rightarrow> Inr ())))"

definition later_envelope :: "(string \<Rightarrow> string \<Rightarrow> int) \<Rightarrow> (json \<Rightarrow> json \<Rightarrow> bool \<Rightarrow> string) \<Rightarrow> json \<Rightarrow> json \<Rightarrow>
    js_error + resolution" where
  "later_envelope lc reason l r = (case hlc_compare lc (stamp_of l) (stamp_of r) of
     Inl e \<Rightarrow> Inl e
   | Inr cmp \<Rightarrow> Inr (if cmp \<ge> 0 then \<lparr>rs_winner = WinLocal, rs_envelope = Some l, rs_reason = reason l r True\<rparr>
       else \<lparr>rs_winner = WinRemote, rs_envelope = Some r, rs_reason = reason l r False\<rparr>))"

definition engine_resolve :: "(string \<Rightarrow> string \<Rightarrow> int) \<Rightarrow> conflict_registry option \<Rightarrow> conflict_policy \<Rightarrow>
    json \<Rightarrow> json \<Rightarrow> string option \<Rightarrow> js_error + resolution" where
  "engine_resolve lc reg policy l r field =
     (case (if cp_strategy policy = Additive
            then additive_guard reg (jstr (jfield ''entityType'' (op_of l))) field else Inr ()) of
        Inl e \<Rightarrow> Inl e
      | Inr _ \<Rightarrow> (case cp_strategy policy of
          Lww \<Rightarrow> later_envelope lc (\<lambda>l r local. if local
              then ''Local HLC ('' @ stamp_of l @ '') is newer or equal to remote HLC ('' @ stamp_of r @ '')''
              else ''Remote HLC ('' @ stamp_of r @ '') is newer than local HLC ('' @ stamp_of l @ '')'') l r
        | AppendOnly \<Rightarrow> Inr \<lparr>rs_winner = WinRemote, rs_envelope = Some r,
            rs_reason = ''Append-only strategy accepts remote entry into replication log''\<rparr>
        | Immutable \<Rightarrow> Inr \<lparr>rs_winner = WinLocal, rs_envelope = Some l,
            rs_reason = ''Immutable strategy rejects remote updates to existing entity''\<rparr>
        | Manual \<Rightarrow> Inr \<lparr>rs_winner = WinManual, rs_envelope = None,
            rs_reason = ''Manual conflict resolution required for this entity/field''\<rparr>
        | Additive \<Rightarrow> Inr \<lparr>rs_winner = WinMerge, rs_envelope = Some (merged_envelope field l r),
            rs_reason = ''Additive delta merged successfully''\<rparr>
        | Crdt \<Rightarrow> later_envelope lc (\<lambda>_ _ _. ''CRDT fallback using HLC LWW ordering'') l r))"

section \<open>Convergence\<close>

text \<open>A replica that holds one envelope and resolves every envelope it receives against it.\<close>

fun replicate_all :: "(string \<Rightarrow> string \<Rightarrow> int) \<Rightarrow> conflict_policy \<Rightarrow> json \<Rightarrow> json list \<Rightarrow> js_error + json" where
  "replicate_all lc p e [] = Inr e"
| "replicate_all lc p e (x # xs) = (case engine_resolve lc None p e x None of
     Inl err \<Rightarrow> Inl err | Inr res \<Rightarrow> replicate_all lc p (the (rs_envelope res)) xs)"

definition stamped :: "json \<Rightarrow> bool" where
  "stamped e \<longleftrightarrow> (\<exists>t. hlc_parse (stamp_of e) = Inr t)"

definition newer :: "(string \<Rightarrow> string \<Rightarrow> int) \<Rightarrow> json \<Rightarrow> json \<Rightarrow> int" where
  "newer lc a b = (case hlc_compare lc (stamp_of a) (stamp_of b) of Inl _ \<Rightarrow> 0 | Inr c \<Rightarrow> c)"

lemma compare_stamped: "stamped a \<Longrightarrow> stamped b \<Longrightarrow> hlc_compare lc (stamp_of a) (stamp_of b) = Inr (newer lc a b)"
  by (auto simp: stamped_def newer_def hlc_compare_def)

context collation
begin

lemma hlc_order_refl: "hlc_order lc a a = 0"
  by (simp add: hlc_order_def lc_refl)

lemma hlc_order_anti: "hlc_order lc a b < 0 \<longleftrightarrow> 0 < hlc_order lc b a"
  using lc_anti by (simp add: hlc_order_def)

lemma hlc_order_trans: "hlc_order lc a b \<le> 0 \<Longrightarrow> hlc_order lc b c \<le> 0 \<Longrightarrow> hlc_order lc a c \<le> 0"
  using lc_trans [of "ts_node a" "ts_node b" "ts_node c"] by (auto simp: hlc_order_def split: if_splits)

lemma newer_refl: "newer lc a a = 0"
  by (auto simp: newer_def hlc_compare_def hlc_order_refl split: sum.splits)

lemma newer_anti: "stamped a \<Longrightarrow> stamped b \<Longrightarrow> newer lc a b < 0 \<longleftrightarrow> 0 < newer lc b a"
  using hlc_order_anti by (auto simp: newer_def hlc_compare_def stamped_def)

lemma newer_trans:
  "stamped a \<Longrightarrow> stamped b \<Longrightarrow> stamped c \<Longrightarrow> newer lc a b \<le> 0 \<Longrightarrow> newer lc b c \<le> 0 \<Longrightarrow> newer lc a c \<le> 0"
  using hlc_order_trans by (auto simp: newer_def hlc_compare_def stamped_def)

lemma replicate_max:
  assumes "cp_strategy p \<in> {Lww, Crdt}" "\<forall>x \<in> set (e # xs). stamped x"
  shows "\<exists>m \<in> set (e # xs). replicate_all lc p e xs = Inr m \<and> (\<forall>x \<in> set (e # xs). newer lc x m \<le> 0)"
  using assms(2)
proof (induction xs arbitrary: e)
  case Nil
  then show ?case by (simp add: newer_refl)
next
  case (Cons x xs)
  define w where "w = (if newer lc e x \<ge> 0 then e else x)"
  have s: "stamped e" "stamped x" using Cons.prems by simp_all
  have step: "replicate_all lc p e (x # xs) = replicate_all lc p w xs"
    using assms(1) s by (auto simp: engine_resolve_def later_envelope_def compare_stamped w_def)
  have "w \<in> set (e # x # xs)" "stamped w" using s by (simp_all add: w_def)
  obtain m where m: "m \<in> set (w # xs)" "replicate_all lc p w xs = Inr m" "\<forall>y \<in> set (w # xs). newer lc y m \<le> 0"
    using Cons.IH [of w] Cons.prems \<open>stamped w\<close> by auto
  have sm: "stamped m" using m(1) Cons.prems \<open>stamped w\<close> by auto
  have "newer lc e w \<le> 0 \<and> newer lc x w \<le> 0"
    using newer_anti [OF s] newer_anti [OF s(2,1)] newer_refl by (auto simp: w_def)
  then have "newer lc e m \<le> 0 \<and> newer lc x m \<le> 0"
    using newer_trans [OF s(1) \<open>stamped w\<close> sm] newer_trans [OF s(2) \<open>stamped w\<close> sm] m(3) by auto
  then show ?case using m step \<open>w \<in> set (e # x # xs)\<close> by (intro bexI [of _ m]) auto
qed

lemma replicas_agree:
  assumes "cp_strategy p \<in> {Lww, Crdt}" "\<forall>x \<in> set (e # xs). stamped x" "set (e # xs) = set (e' # xs')"
    "\<forall>x \<in> set (e # xs). \<forall>y \<in> set (e # xs). newer lc x y = 0 \<longrightarrow> x = y"
  shows "replicate_all lc p e xs = replicate_all lc p e' xs'"
proof -
  obtain m where m: "m \<in> set (e # xs)" "replicate_all lc p e xs = Inr m" "\<forall>x \<in> set (e # xs). newer lc x m \<le> 0"
    using replicate_max [OF assms(1,2)] by blast
  have "\<forall>x \<in> set (e' # xs'). stamped x" using assms(2,3) by blast
  from replicate_max [OF assms(1) this] obtain m' where
    m': "m' \<in> set (e' # xs')" "replicate_all lc p e' xs' = Inr m'" "\<forall>x \<in> set (e' # xs'). newer lc x m' \<le> 0" by blast
  have "m' \<in> set (e # xs)" using m'(1) assms(3) by blast
  moreover have "newer lc m m' \<le> 0" using m(1) m'(3) assms(3) by blast
  moreover have "newer lc m' m \<le> 0" using m(3) calculation(1) by blast
  moreover have "newer lc m m' < 0 \<longleftrightarrow> 0 < newer lc m' m"
    using newer_anti assms(2) m(1) calculation(1) by blast
  ultimately have "m = m'" using assms(4) m(1) by (metis less_le not_less)
  then show ?thesis using m(2) m'(2) by simp
qed

end

text \<open>C11. Last-writer-wins replicas converge: two replicas that hold and receive the same set of envelopes,
  in any order and with any repetition, end with the same envelope, the one with the latest stamp, as
  long as different envelopes have different stamps; two envelopes with equal stamps each stay where
  they are.\<close>

theorem replicas_converge:
  assumes "collation lc" "cp_strategy p \<in> {Lww, Crdt}" "\<forall>x \<in> set (e # xs). stamped x"
  shows "(\<exists>m \<in> set (e # xs). replicate_all lc p e xs = Inr m \<and> (\<forall>x \<in> set (e # xs). newer lc x m \<le> 0)) \<and>
    (\<forall>e' xs'. set (e # xs) = set (e' # xs') \<and>
       (\<forall>x \<in> set (e # xs). \<forall>y \<in> set (e # xs). newer lc x y = 0 \<longrightarrow> x = y) \<longrightarrow>
       replicate_all lc p e xs = replicate_all lc p e' xs') \<and>
    (\<forall>x \<in> set (e # xs). newer lc e x = 0 \<longrightarrow> replicate_all lc p e [x] = Inr e \<and> replicate_all lc p x [e] = Inr x)"
proof (intro conjI allI impI ballI)
  show "\<exists>m \<in> set (e # xs). replicate_all lc p e xs = Inr m \<and> (\<forall>x \<in> set (e # xs). newer lc x m \<le> 0)"
    by (rule collation.replicate_max [OF assms])
  show "replicate_all lc p e xs = replicate_all lc p e' xs'"
    if "set (e # xs) = set (e' # xs') \<and> (\<forall>x \<in> set (e # xs). \<forall>y \<in> set (e # xs). newer lc x y = 0 \<longrightarrow> x = y)" for e' xs'
    using collation.replicas_agree [OF assms] that by blast
  fix x assume x: "x \<in> set (e # xs)" "newer lc e x = 0"
  then have s: "stamped e" "stamped x" using assms(3) by auto
  have "newer lc x e = 0"
    using collation.newer_anti [OF assms(1) s] collation.newer_anti [OF assms(1) s(2,1)] x(2) by linarith
  then show "replicate_all lc p e [x] = Inr e" "replicate_all lc p x [e] = Inr x"
    using assms(2) s x(2) by (auto simp: engine_resolve_def later_envelope_def compare_stamped)
qed

definition stamp_envelope :: "string \<Rightarrow> json" where
  "stamp_envelope t = JObj [(''operation'', JObj [(''logicalTimestamp'', JStr t)])]"

theorem replicas_converge_witness:
  "replicate_all cmp_units \<lparr>cp_strategy = Lww, cp_resolver = None\<rparr> (stamp_envelope ''5_1_a'') [stamp_envelope ''5_2_b''] =
   replicate_all cmp_units \<lparr>cp_strategy = Lww, cp_resolver = None\<rparr> (stamp_envelope ''5_2_b'') [stamp_envelope ''5_1_a'']"
proof -
  let ?a = "stamp_envelope ''5_1_a''" and ?b = "stamp_envelope ''5_2_b''" and ?p = "\<lparr>cp_strategy = Lww, cp_resolver = None\<rparr>"
  have p: "hlc_parse ''5_1_a'' = Inr \<lparr>ts_physical = 5, ts_counter = 1, ts_node = ''a''\<rparr>"
    "hlc_parse ''5_2_b'' = Inr \<lparr>ts_physical = 5, ts_counter = 2, ts_node = ''b''\<rparr>" by code_simp+
  have st: "stamp_of ?a = ''5_1_a''" "stamp_of ?b = ''5_2_b''"
    by (simp_all add: stamp_envelope_def stamp_of_def op_of_def)
  have s: "\<forall>x \<in> set (?a # [?b]). stamped x" using p st by (simp add: stamped_def)
  have "newer cmp_units ?a ?b = -1" "newer cmp_units ?b ?a = 1"
    using p st by (simp_all add: newer_def hlc_compare_def hlc_order_def)
  moreover have "newer cmp_units x x = 0" for x by (rule units.newer_refl)
  ultimately have d: "\<forall>x \<in> set (?a # [?b]). \<forall>y \<in> set (?a # [?b]). newer cmp_units x y = 0 \<longrightarrow> x = y" by simp
  have e: "set (?a # [?b]) = set (?b # [?a])" by auto
  have "cp_strategy ?p \<in> {Lww, Crdt}" by simp
  from replicas_converge [OF units.collation_axioms this s, THEN conjunct2, THEN conjunct1]
  show ?thesis using d e by blast
qed

section \<open>Absolute fields\<close>

lemma resolve_absolute:
  assumes "named_field (ri_field i) = Some f" "isAbsoluteLwwField r (ri_entity_type i) f"
    "resolve_value r p cmp i = Inr (w, v)"
  shows "cp_strategy p \<noteq> Additive \<and> (w = CustomValue \<longrightarrow> cp_strategy p = Crdt) \<and>
    (w \<noteq> CustomValue \<longrightarrow> v = ri_local i \<or> v = ri_remote i)"
proof (cases "cp_strategy p")
  case Crdt
  with assms(3) show ?thesis
    by (simp add: resolve_value_def later_value_def split: option.split_asm sum.split_asm if_split_asm)
qed (use assms in \<open>auto simp: resolve_value_def later_value_def split: if_split_asm\<close>)

text \<open>A field declared absolute is never added up: registering an additive policy for it is refused,
  resolving values under any policy in force throws or does not use addition, and the engine refuses
  an additive resolution of it with a conflict error.  Declaring a field that already has an additive
  policy is accepted, and found out only when a value is resolved.\<close>

theorem absolute_never_additive:
  "(isAbsoluteLwwField r e f \<and> cp_strategy p = Additive \<longrightarrow>
     (\<exists>err. registerFieldPolicy e f p r = (Inl err, r)) \<and>
     (f \<noteq> '''' \<longrightarrow> jstr (jfield ''entityType'' (op_of local)) = e \<longrightarrow>
       (\<exists>err. engine_resolve lc (Some r) p local remote (Some f) = Inl err \<and> err_class err = ConflictError))) \<and>
   (isAbsoluteLwwField r e f \<and> f \<noteq> '''' \<and> ri_entity_type i = e \<and> ri_field i = Some f \<longrightarrow>
     (case registry_resolve lc r i now of Inl _ \<Rightarrow> True
      | Inr (w, v, c) \<Rightarrow> co_strategy c \<noteq> Additive \<and>
          (w = CustomValue \<longrightarrow> co_strategy c = Crdt) \<and>
          (w \<noteq> CustomValue \<longrightarrow> v \<in> {ri_local i, ri_remote i}))) \<and>
   (cp_strategy p = Additive \<and> f \<noteq> '''' \<and> \<not> isAbsoluteLwwField r e f \<longrightarrow>
     (let r' = snd (registerAbsoluteLwwField e f (snd (registerFieldPolicy e f p r))) in
      isAbsoluteLwwField r' e f \<and> cp_strategy (getPolicy r' e (Some f)) = Additive))"
proof (intro conjI impI)
  assume "isAbsoluteLwwField r e f \<and> cp_strategy p = Additive"
  then have a: "isAbsoluteLwwField r e f" "cp_strategy p = Additive" by simp_all
  show "\<exists>err. registerFieldPolicy e f p r = (Inl err, r)" using a by (simp add: registerFieldPolicy_def)
  show "\<exists>err. engine_resolve lc (Some r) p local remote (Some f) = Inl err \<and> err_class err = ConflictError"
    if "f \<noteq> ''''" "jstr (jfield ''entityType'' (op_of local)) = e"
    using a that by (simp add: engine_resolve_def additive_guard_def named_field_def platform_error_def)
next
  assume "isAbsoluteLwwField r e f \<and> f \<noteq> '''' \<and> ri_entity_type i = e \<and> ri_field i = Some f"
  then show "case registry_resolve lc r i now of Inl _ \<Rightarrow> True
      | Inr (w, v, c) \<Rightarrow> co_strategy c \<noteq> Additive \<and> (w = CustomValue \<longrightarrow> co_strategy c = Crdt) \<and>
          (w \<noteq> CustomValue \<longrightarrow> v \<in> {ri_local i, ri_remote i})"
    using resolve_absolute [of i f r "getPolicy r e (Some f)"]
    by (auto simp: registry_resolve_def Let_def named_field_def split: sum.splits)
next
  assume "cp_strategy p = Additive \<and> f \<noteq> '''' \<and> \<not> isAbsoluteLwwField r e f"
  then show "let r' = snd (registerAbsoluteLwwField e f (snd (registerFieldPolicy e f p r))) in
      isAbsoluteLwwField r' e f \<and> cp_strategy (getPolicy r' e (Some f)) = Additive"
    by (simp add: Let_def registerFieldPolicy_def registerAbsoluteLwwField_def isAbsoluteLwwField_def getPolicy_def
        named_field_def)
qed

theorem absolute_never_additive_witness:
  "\<exists>err. registerFieldPolicy ''stock'' ''count'' \<lparr>cp_strategy = Additive, cp_resolver = None\<rparr>
     (new_registry\<lparr>cr_absolute := [''stock.count'']\<rparr>) = (Inl err, new_registry\<lparr>cr_absolute := [''stock.count'']\<rparr>)"
  using absolute_never_additive [of "new_registry\<lparr>cr_absolute := [''stock.count'']\<rparr>" "''stock''" "''count''"
      "\<lparr>cp_strategy = Additive, cp_resolver = None\<rparr>"]
  by (simp add: isAbsoluteLwwField_def field_key_def)

section \<open>Additive merges and signatures\<close>

lemma jfield_set_prop: "v = JObj m \<Longrightarrow> jfield k (set_prop k' x v) = (if k = k' then Some x else jfield k v)"
  by (simp add: assoc_get_put)

lemma same_value_field:
  "same_value (JObj m) (JObj m') \<Longrightarrow> assoc_get k m = Some v \<Longrightarrow> assoc_get k m' = Some w \<Longrightarrow> same_value v w"
  by (erule same_objE) simp

text \<open>C12. An additive merge keeps the remote signature over a new payload: whenever the merged payload
  differs from the remote one, a verifier that accepts one message per key and signature rejects the
  merged envelope, so no peer that receives it marks it verified.\<close>

theorem additive_merge_unsigned:
  assumes "\<And>pk b b' s. f pk b s = Inr True \<Longrightarrow> f pk b' s = Inr True \<Longrightarrow> b = b'"
    "verify f remote = Inr True" "cp_strategy p = Additive"
    "engine_resolve lc reg p local remote field = Inr res" "rs_envelope res = Some merged"
    "jfield ''operation'' remote = Some (JObj om)" "assoc_get ''payload'' om = Some (payload_of remote)"
    "wf_json remote" "wf_json (op_of merged)"
    "\<not> same_value (merge_payload field (payload_of local) (payload_of remote)) (payload_of remote)"
  shows "rs_winner res = WinMerge \<and> jfield ''signature'' merged = jfield ''signature'' remote \<and>
    verification_of f merged = Rejected"
proof -
  let ?op = "set_prop ''payload'' (merge_payload field (payload_of local) (payload_of remote)) (JObj om)"
  obtain rm where rm: "remote = JObj rm" using assms(6) by (cases remote) auto
  have oo: "op_of remote = JObj om" using assms(6) by (simp add: op_of_def)
  have res: "merged = set_prop ''operation'' ?op remote" "rs_winner res = WinMerge"
    using assms(3-5) oo by (auto simp: engine_resolve_def merged_envelope_def split: sum.splits)
  have fields: "jfield k merged = (if k = ''operation'' then Some ?op else jfield k remote)" for k
    using jfield_set_prop [OF rm] res(1) by simp
  have sub: "wf_json (JObj om)"
    by (rule wf_jfield [OF assms(8,6)])
  have "\<not> verify f merged = Inr True"
  proof
    assume v: "verify f merged = Inr True"
    have opf: "jfield ''operation'' merged = Some ?op" by (subst fields) simp
    have keys: "jfield ''signerPublicKey'' merged = jfield ''signerPublicKey'' remote"
      "jfield ''signature'' merged = jfield ''signature'' remote" by (subst fields, simp)+
    have "op_of merged = ?op" using opf by (simp add: op_of_def)
    then have "wf_json ?op" using assms(9) by simp
    from verified_same [OF _ v assms(2) keys opf assms(6) this sub]
    have "same_value ?op (JObj om)" using assms(1) by blast
    then show False
      using same_value_field [of "obj_put ''payload'' (merge_payload field (payload_of local) (payload_of remote)) om" om
          "''payload''"] assms(7,10) by (simp add: assoc_get_put)
  qed
  then show ?thesis using res(2) by (simp add: verification_of_def fields)
qed

lemma sample_merge:
  "merge_payload (Some ''a'') (payload_of sample_envelope) (payload_of sample_envelope) =
    JObj [(''b'', JNum 2), (''a'', JNum 2)]" "payload_of sample_envelope = JObj [(''b'', JNum 2), (''a'', JNum 1)]"
proof -
  show p: "payload_of sample_envelope = JObj [(''b'', JNum 2), (''a'', JNum 1)]"
    by (simp add: payload_of_def op_of_def sample_envelope_def sample_operation_def)
  show "merge_payload (Some ''a'') (payload_of sample_envelope) (payload_of sample_envelope) =
      JObj [(''b'', JNum 2), (''a'', JNum 2)]" unfolding p by code_simp
qed

theorem additive_merge_unsigned_witness:
  "verification_of sample_verifier (merged_envelope (Some ''a'') sample_envelope sample_envelope) = Rejected"
proof -
  let ?p = "\<lparr>cp_strategy = Additive, cp_resolver = None\<rparr>" and ?m = "merged_envelope (Some ''a'') sample_envelope sample_envelope"
  have v: "verify sample_verifier sample_envelope = Inr True"
    using genuine_verified by (simp add: verification_of_def split: if_split_asm)
  have r: "engine_resolve cmp_units None ?p sample_envelope sample_envelope (Some ''a'') =
      Inr \<lparr>rs_winner = WinMerge, rs_envelope = Some ?m, rs_reason = ''Additive delta merged successfully''\<rparr>"
    by (simp add: engine_resolve_def additive_guard_def)
  obtain om where om: "sample_operation = JObj om" "assoc_get ''payload'' om = Some (JObj [(''b'', JNum 2), (''a'', JNum 1)])"
    by (simp add: sample_operation_def)
  have o: "jfield ''operation'' sample_envelope = Some (JObj om)" by (simp add: sample_envelope_def om(1))
  have "op_of ?m = set_prop ''payload'' (JObj [(''b'', JNum 2), (''a'', JNum 2)]) sample_operation"
    unfolding merged_envelope_def sample_merge(1)
    using o om(1) jfield_set_prop [of sample_envelope] by (simp add: op_of_def sample_envelope_def envelope_json_def assoc_get_put)
  then have w: "wf_json (op_of ?m)"
    unfolding sample_operation_def by (simp only:) code_simp
  have n: "\<not> same_value (JObj [(''b'', JNum 2), (''a'', JNum 2)]) (JObj [(''b'', JNum 2), (''a'', JNum 1)])"
  proof
    assume "same_value (JObj [(''b'', JNum 2), (''a'', JNum 2)]) (JObj [(''b'', JNum 2), (''a'', JNum 1)])"
    then have "same_value (JNum 2) (JNum 1)" using same_value_field [of _ _ "''a''" "JNum 2" "JNum 1"] by simp
    then show False by (cases rule: same_value.cases) simp_all
  qed
  show ?thesis
    by (rule additive_merge_unsigned [OF _ v _ r _ o _ sample_envelope_wf w, THEN conjunct2, THEN conjunct2])
      (use n sample_merge om in \<open>auto simp: sample_verifier_def\<close>)
qed

end
