(* ===== verification/Sync_Manager.thy ===== *)
theory Sync_Manager
  imports Conflicts "HOL-Library.Sublist"
begin

text \<open>
  Peer connection states (\<open>sync/src/manager/SyncStateMachine.ts\<close>), the manager that signs and enqueues
  operations (\<open>sync/src/manager/SyncManager.ts\<close>) and the simulated transport
  (\<open>sync/src/transport/SyncTransport.ts\<close>).  Listeners are numbered, and the calls they get are kept in a
  log.  Proved: data is only exchanged after every admission step, the manager admits no peer, and an
  enqueued operation arrives at another device verified.
\<close>

section \<open>The state machine\<close>

datatype sync_state =
    DISCOVERED | IDENTIFIED | CONNECTING | CONNECTED | AUTHENTICATING | AUTHORISED | SYNCING | IDLE
  | DISCONNECTED | REVOKED | EXPIRED | INCOMPATIBLE | ERROR

fun state_text :: "sync_state \<Rightarrow> string" where
  "state_text DISCOVERED = ''DISCOVERED''"
| "state_text IDENTIFIED = ''IDENTIFIED''"
| "state_text CONNECTING = ''CONNECTING''"
| "state_text CONNECTED = ''CONNECTED''"
| "state_text AUTHENTICATING = ''AUTHENTICATING''"
| "state_text AUTHORISED = ''AUTHORISED''"
| "state_text SYNCING = ''SYNCING''"
| "state_text IDLE = ''IDLE''"
| "state_text DISCONNECTED = ''DISCONNECTED''"
| "state_text REVOKED = ''REVOKED''"
| "state_text EXPIRED = ''EXPIRED''"
| "state_text INCOMPATIBLE = ''INCOMPATIBLE''"
| "state_text ERROR = ''ERROR''"

record state_machine =
  sm_state :: sync_state
  sm_listeners :: "nat list"
  sm_calls :: "(nat \<times> sync_state \<times> sync_state) list"

definition new_machine :: state_machine where
  "new_machine = \<lparr>sm_state = DISCONNECTED, sm_listeners = [], sm_calls = []\<rparr>"

definition isLegalTransition :: "sync_state \<Rightarrow> sync_state \<Rightarrow> bool" where
  "isLegalTransition old new \<longleftrightarrow> new \<in> {DISCONNECTED, REVOKED, EXPIRED, INCOMPATIBLE, ERROR} \<or>
     (case old of
        DISCONNECTED \<Rightarrow> new = DISCOVERED \<or> new = CONNECTING
      | DISCOVERED \<Rightarrow> new = IDENTIFIED \<or> new = CONNECTING
      | IDENTIFIED \<Rightarrow> new = CONNECTING
      | CONNECTING \<Rightarrow> new = CONNECTED
      | CONNECTED \<Rightarrow> new = AUTHENTICATING
      | AUTHENTICATING \<Rightarrow> new = AUTHORISED
      | AUTHORISED \<Rightarrow> new = SYNCING \<or> new = IDLE
      | SYNCING \<Rightarrow> new = IDLE
      | IDLE \<Rightarrow> new = SYNCING
      | _ \<Rightarrow> False)"

definition transition :: "sync_state \<Rightarrow> string option \<Rightarrow> (state_machine, unit) op" where
  "transition new reason = andthen (get sm_state) (\<lambda>old.
     if old = new then ret ()
     else andthen (guard (isLegalTransition old new) (raise SyncError (''Illegal sync state transition from '' @
         quoted (state_text old) @ '' to '' @ quoted (state_text new) @
         (case reason of Some r \<Rightarrow> if r = '''' then '''' else '': '' @ r | None \<Rightarrow> ''''))))
       (\<lambda>_. modify (\<lambda>s. s\<lparr>sm_state := new, sm_calls := sm_calls s @ map (\<lambda>l. (l, new, old)) (sm_listeners s)\<rparr>)))"

definition onStateChange :: "nat \<Rightarrow> (state_machine, unit) op" where
  "onStateChange l = modify (\<lambda>s. s\<lparr>sm_listeners :=
     (if l \<in> set (sm_listeners s) then sm_listeners s else sm_listeners s @ [l])\<rparr>)"

definition offStateChange :: "nat \<Rightarrow> (state_machine, unit) op" where
  "offStateChange l = modify (\<lambda>s. s\<lparr>sm_listeners := removeAll l (sm_listeners s)\<rparr>)"

text \<open>The requested states of a history, and the states the machine passes through.\<close>

fun machine_path :: "sync_state list \<Rightarrow> state_machine \<Rightarrow> sync_state list" where
  "machine_path [] s = []"
| "machine_path (n # ns) s = (case transition n None s of
     (Inr _, s') \<Rightarrow> (if sm_state s' = sm_state s then [] else [n]) @ machine_path ns s'
   | (Inl _, s') \<Rightarrow> machine_path ns s')"

section \<open>The manager\<close>

record sync_manager =
  mg_organisation :: string
  mg_signer :: "string option"
  mg_sign :: "(nat list \<Rightarrow> js_error + string) option"
  mg_transport :: bool
  mg_peers :: "(string \<times> state_machine) list"
  mg_state :: sync_state
  mg_listeners :: "nat list"
  mg_calls :: "(nat \<times> sync_state) list"
  mg_outbox :: outbox_table

definition new_manager :: "string \<Rightarrow> string option \<Rightarrow> (nat list \<Rightarrow> js_error + string) option \<Rightarrow> bool \<Rightarrow>
    outbox_table \<Rightarrow> sync_manager" where
  "new_manager org signer sign transport rows =
     \<lparr>mg_organisation = org, mg_signer = signer, mg_sign = sign, mg_transport = transport, mg_peers = [],
      mg_state = (if transport then IDLE else DISCONNECTED), mg_listeners = [], mg_calls = [], mg_outbox = rows\<rparr>"

definition setState :: "sync_state \<Rightarrow> (sync_manager, unit) op" where
  "setState st = modify (\<lambda>m. if mg_state m = st then m
     else m\<lparr>mg_state := st, mg_calls := mg_calls m @ map (\<lambda>l. (l, st)) (mg_listeners m)\<rparr>)"

text \<open>The manager's \<open>onStateChange\<close> and the function it returns.\<close>

definition manager_listen :: "nat \<Rightarrow> (sync_manager, unit) op" where
  "manager_listen l = modify (\<lambda>m. m\<lparr>mg_listeners := (if l \<in> set (mg_listeners m) then mg_listeners m else mg_listeners m @ [l])\<rparr>)"

definition manager_unlisten :: "nat \<Rightarrow> (sync_manager, unit) op" where
  "manager_unlisten l = modify (\<lambda>m. m\<lparr>mg_listeners := removeAll l (mg_listeners m)\<rparr>)"

definition getPeerState :: "string \<Rightarrow> sync_manager \<Rightarrow> sync_state" where
  "getPeerState peer m = (case assoc_get peer (mg_peers m) of Some sm \<Rightarrow> sm_state sm | None \<Rightarrow> DISCONNECTED)"

definition enqueueOperation :: "json \<Rightarrow> string list \<Rightarrow> string \<Rightarrow> string \<Rightarrow> (sync_manager, outbox_row) op" where
  "enqueueOperation op groups newId now = andthen (get id) (\<lambda>m.
     case (mg_signer m, mg_sign m) of
       (Some (c # cs), Some signFn) \<Rightarrow>
         andthen (from_result (build op (c # cs) signFn now)) (\<lambda>envelope.
           lift_op mg_outbox (\<lambda>t m. m\<lparr>mg_outbox := t\<rparr>) (transaction (outbox_enqueue groups envelope newId now)))
     | _ \<Rightarrow> throw (raise PlainError (''[SyncManager] Cannot enqueue operation: signerPublicKey and signFn '' @
         ''must be configured on SyncManager.'')))"

text \<open>A transition of the machine of one peer.\<close>

definition peer_transition :: "string \<Rightarrow> sync_state \<Rightarrow> string option \<Rightarrow> (sync_manager, unit) op" where
  "peer_transition peer st reason = (\<lambda>m. case assoc_get peer (mg_peers m) of
     None \<Rightarrow> (Inr (), m)
   | Some sm \<Rightarrow> (case transition st reason sm of (res, sm') \<Rightarrow>
       (res, m\<lparr>mg_peers := assoc_set peer sm' (mg_peers m)\<rparr>)))"

definition connect :: "string \<Rightarrow> string \<Rightarrow> (sync_manager, unit) op" where
  "connect peer organisation =
     andthen (modify (\<lambda>m. if assoc_get peer (mg_peers m) = None
        then m\<lparr>mg_peers := assoc_set peer new_machine (mg_peers m)\<rparr> else m))
     (\<lambda>_. andthen (get mg_organisation) (\<lambda>own.
        if organisation \<noteq> own
        then andthen (peer_transition peer ERROR (Some ''Organisation mismatch'')) (\<lambda>_. setState ERROR)
        else andthen (peer_transition peer ERROR (Some ''Peer admission verifier is not configured''))
          (\<lambda>_. setState ERROR)))"

definition disconnect :: "string \<Rightarrow> (sync_manager, unit) op" where
  "disconnect peer = andthen (peer_transition peer DISCONNECTED None)
     (\<lambda>_. andthen (get id) (\<lambda>m. setState
        (if \<exists>p \<in> set (mg_peers m). sm_state (snd p) \<noteq> DISCONNECTED then mg_state m
         else if mg_transport m then IDLE else DISCONNECTED)))"

section \<open>The simulated transport\<close>

record 'w transport =
  tr_connected :: "(string \<times> string) list"
  tr_handlers :: "(string \<Rightarrow> json \<Rightarrow> ('w, unit) op) list"

definition transport_connect :: "string \<Rightarrow> string \<Rightarrow> 'w transport \<Rightarrow> 'w transport" where
  "transport_connect peer key t = t\<lparr>tr_connected := assoc_set peer key (tr_connected t)\<rparr>"

definition transport_disconnect :: "string \<Rightarrow> 'w transport \<Rightarrow> 'w transport" where
  "transport_disconnect peer t = t\<lparr>tr_connected := assoc_del peer (tr_connected t)\<rparr>"

definition isConnected :: "string \<Rightarrow> 'w transport \<Rightarrow> bool" where
  "isConnected peer t \<longleftrightarrow> assoc_get peer (tr_connected t) \<noteq> None"

definition onReceive :: "(string \<Rightarrow> json \<Rightarrow> ('w, unit) op) \<Rightarrow> 'w transport \<Rightarrow> 'w transport" where
  "onReceive h t = t\<lparr>tr_handlers := tr_handlers t @ [h]\<rparr>"

definition deliver :: "'w transport \<Rightarrow> string \<Rightarrow> json \<Rightarrow> ('w, unit) op" where
  "deliver t peer envelope = andthen (for_each (\<lambda>h. h peer envelope) (tr_handlers t)) (\<lambda>_. ret ())"

text \<open>The transport a call was paired with is an argument.\<close>

definition transport_send :: "'w transport \<Rightarrow> 'w transport option \<Rightarrow> string \<Rightarrow> json \<Rightarrow> ('w, unit) op" where
  "transport_send t paired peer envelope =
     andthen (guard (isConnected peer t) (raise PlainError (''[SimulatedSyncTransport] Cannot send: peer '' @
       quoted peer @ '' is not connected.'')))
     (\<lambda>_. case paired of Some other \<Rightarrow> deliver other peer envelope | None \<Rightarrow> ret ())"

section \<open>Admission before exchange\<close>

lemma transition_run:
  "transition new reason s = (if sm_state s = new then (Inr (), s)
    else if isLegalTransition (sm_state s) new
    then (Inr (), s\<lparr>sm_state := new, sm_calls := sm_calls s @ map (\<lambda>l. (l, new, sm_state s)) (sm_listeners s)\<rparr>)
    else (Inl (raise SyncError (''Illegal sync state transition from '' @
         quoted (state_text (sm_state s)) @ '' to '' @ quoted (state_text new) @
         (case reason of Some r \<Rightarrow> if r = '''' then '''' else '': '' @ r | None \<Rightarrow> ''''))), s))"
  by (simp add: transition_def)

text \<open>The steps a peer must have taken to be in a state.\<close>

fun admission :: "sync_state \<Rightarrow> sync_state list" where
  "admission CONNECTING = [CONNECTING]"
| "admission CONNECTED = [CONNECTING, CONNECTED]"
| "admission AUTHENTICATING = [CONNECTING, CONNECTED, AUTHENTICATING]"
| "admission AUTHORISED = [CONNECTING, CONNECTED, AUTHENTICATING, AUTHORISED]"
| "admission SYNCING = [CONNECTING, CONNECTED, AUTHENTICATING, AUTHORISED]"
| "admission IDLE = [CONNECTING, CONNECTED, AUTHENTICATING, AUTHORISED]"
| "admission _ = []"

lemma admission_step:
  "isLegalTransition old new \<Longrightarrow> old \<noteq> new \<Longrightarrow> \<exists>ys. admission new = ys \<and>
    (ys = [] \<or> ys = admission old \<or> ys = admission old @ [new])"
  by (cases old; cases new) (auto simp: isLegalTransition_def)

text \<open>The suffix of a path since the last time the peer was disconnected or in an error state.\<close>

fun since_down :: "sync_state list \<Rightarrow> sync_state list \<Rightarrow> sync_state list" where
  "since_down acc [] = acc"
| "since_down acc (s # ss) = since_down
     (if s \<in> {DISCONNECTED, REVOKED, EXPIRED, INCOMPATIBLE, ERROR} then [] else acc @ [s]) ss"

definition run_states :: "sync_state list \<Rightarrow> state_machine \<Rightarrow> state_machine" where
  "run_states ns s = foldl (\<lambda>s n. snd (transition n None s)) s ns"

lemma admission_order:
  "subseq (admission (sm_state s)) acc \<Longrightarrow>
    subseq (admission (sm_state (run_states ns s))) (since_down acc (machine_path ns s))"
proof (induction ns arbitrary: s acc)
  case Nil
  then show ?case by (simp add: run_states_def)
next
  case (Cons n ns)
  consider (same) "sm_state s = n" | (legal) "sm_state s \<noteq> n" "isLegalTransition (sm_state s) n"
    | (illegal) "sm_state s \<noteq> n" "\<not> isLegalTransition (sm_state s) n" by blast
  then show ?case
  proof cases
    case legal
    define s' where "s' = snd (transition n None s)"
    have s': "transition n None s = (Inr (), s')" "sm_state s' = n"
      using legal by (simp_all add: transition_run s'_def)
    let ?down = "{DISCONNECTED, REVOKED, EXPIRED, INCOMPATIBLE, ERROR}"
    have "subseq (admission n) (if n \<in> ?down then [] else acc @ [n])"
    proof (cases "n \<in> ?down")
      case True
      then show ?thesis by auto
    next
      case False
      from admission_step [OF legal(2,1)] Cons.prems show ?thesis
        using False by (auto intro: subseq_order.trans [OF _ list_emb_append2] list_emb_append_mono)
    qed
    then show ?thesis
      using Cons.IH [of s' "if n \<in> ?down then [] else acc @ [n]"] s' legal by (simp add: run_states_def)
  qed (use Cons in \<open>simp_all add: transition_run run_states_def\<close>)
qed

text \<open>Data is exchanged only with an admitted peer: whatever transitions are requested of a new machine,
  when it is syncing or idle it has, since it was last disconnected or failed, gone through
  connecting, connected, authenticating and authorised, in this order.\<close>

theorem exchange_after_admission:
  assumes "sm_state (run_states ns new_machine) \<in> {SYNCING, IDLE}"
  shows "subseq [CONNECTING, CONNECTED, AUTHENTICATING, AUTHORISED] (since_down [] (machine_path ns new_machine))"
proof -
  have "subseq (admission (sm_state new_machine)) []" by (simp add: new_machine_def)
  from admission_order [OF this, of ns] show ?thesis using assms by auto
qed

theorem exchange_after_admission_witness:
  "subseq [CONNECTING, CONNECTED, AUTHENTICATING, AUTHORISED]
     (since_down [] (machine_path [CONNECTING, CONNECTED, SYNCING, ERROR, DISCONNECTED, CONNECTING, CONNECTED,
        AUTHENTICATING, AUTHORISED, SYNCING] new_machine))"
  by (rule exchange_after_admission) code_simp

section \<open>The manager admits no peer\<close>

text \<open>The public calls that change the manager.\<close>

datatype manager_call = Connect string string | Disconnect string | Enqueue json "string list" string string
  | SetState sync_state | Listen nat | Unlisten nat

fun manager_step :: "manager_call \<Rightarrow> sync_manager \<Rightarrow> sync_manager" where
  "manager_step (Connect peer org) m = snd (connect peer org m)"
| "manager_step (Disconnect peer) m = snd (disconnect peer m)"
| "manager_step (Enqueue op groups i now) m = snd (enqueueOperation op groups i now m)"
| "manager_step (SetState st) m = snd (setState st m)"
| "manager_step (Listen l) m = snd (manager_listen l m)"
| "manager_step (Unlisten l) m = snd (manager_unlisten l m)"

text \<open>The states a caller sets itself.\<close>

fun set_states :: "manager_call \<Rightarrow> sync_state set" where
  "set_states (SetState st) = {st}"
| "set_states _ = {}"

definition closed_manager :: "sync_state set \<Rightarrow> sync_manager \<Rightarrow> bool" where
  "closed_manager S m \<longleftrightarrow> (\<forall>p \<in> set (mg_peers m). sm_state (snd p) \<in> {DISCONNECTED, ERROR}) \<and>
     {IDLE, DISCONNECTED, ERROR} \<subseteq> S \<and> mg_state m \<in> S"

lemma assoc_set_values: "e \<in> set (assoc_set k v m) \<Longrightarrow> e = (k, v) \<or> e \<in> set m"
  by (induction m) (auto split: if_splits)

lemma closed_set_peer:
  assumes "closed_manager S m" "sm_state sm \<in> {DISCONNECTED, ERROR}"
  shows "closed_manager S (m\<lparr>mg_peers := assoc_set peer sm (mg_peers m)\<rparr>)"
proof -
  have "sm_state (snd e) \<in> {DISCONNECTED, ERROR}" if "e \<in> set (assoc_set peer sm (mg_peers m))" for e
    using assoc_set_values [OF that] assms by (auto simp: closed_manager_def)
  then show ?thesis using assms(1) by (simp add: closed_manager_def)
qed

lemma legal_down: "isLegalTransition s ERROR" "isLegalTransition s DISCONNECTED"
  by (simp_all add: isLegalTransition_def)

lemma peer_transition_down:
  assumes "st \<in> {DISCONNECTED, ERROR}" "closed_manager S m"
  shows "\<exists>m'. peer_transition peer st reason m = (Inr (), m') \<and> closed_manager S m' \<and> mg_state m' = mg_state m \<and>
    (assoc_get peer (mg_peers m) \<noteq> None \<longrightarrow> getPeerState peer m' = st)"
proof (cases "assoc_get peer (mg_peers m)")
  case None
  then show ?thesis using assms by (simp add: peer_transition_def)
next
  case (Some sm)
  have l: "isLegalTransition (sm_state sm) st" using assms(1) legal_down by auto
  define sm' where "sm' = snd (transition st reason sm)"
  have t: "transition st reason sm = (Inr (), sm')" "sm_state sm' = st"
    using l by (simp_all add: transition_run sm'_def)
  have "closed_manager S (m\<lparr>mg_peers := assoc_set peer sm' (mg_peers m)\<rparr>)"
    using closed_set_peer [OF assms(2)] assms(1) t(2) by simp
  then show ?thesis using Some t by (simp add: peer_transition_def getPeerState_def)
qed

lemma setState_fields [simp]:
  "mg_peers (snd (setState st m)) = mg_peers m" "mg_state (snd (setState st m)) = st"
  "fst (setState st m) = Inr ()"
  by (auto simp: setState_def)

lemma setState_run: "setState st m = (Inr (), snd (setState st m))"
  by (simp add: prod_eq_iff)

lemma connect_closed:
  assumes "closed_manager S m"
  shows "\<exists>m'. connect peer org m = (Inr (), m') \<and> closed_manager S m' \<and> mg_state m' = ERROR \<and> getPeerState peer m' = ERROR"
proof -
  define m1 where "m1 = (if assoc_get peer (mg_peers m) = None
        then m\<lparr>mg_peers := assoc_set peer new_machine (mg_peers m)\<rparr> else m)"
  have c1: "closed_manager S m1" "assoc_get peer (mg_peers m1) \<noteq> None" "mg_organisation m1 = mg_organisation m"
    using assms closed_set_peer [OF assms, of new_machine peer] by (auto simp: m1_def new_machine_def)
  define reason where "reason = (if org \<noteq> mg_organisation m1 then Some ''Organisation mismatch''
      else Some ''Peer admission verifier is not configured'')"
  obtain m2 where m2: "peer_transition peer ERROR reason m1 = (Inr (), m2)" "closed_manager S m2"
    "getPeerState peer m2 = ERROR"
    using peer_transition_down [of ERROR S m1 peer reason] c1 by auto
  have "connect peer org m = andthen (peer_transition peer ERROR reason) (\<lambda>_. setState ERROR) m1"
    by (simp add: connect_def m1_def reason_def)
  also have "\<dots> = setState ERROR m2" using m2(1) by (simp add: andthen_def)
  finally show ?thesis using m2
    by (intro exI [of _ "snd (setState ERROR m2)"]) (simp add: setState_run [symmetric] closed_manager_def getPeerState_def)
qed

lemma disconnect_closed:
  assumes "closed_manager S m"
  shows "\<exists>m'. disconnect peer m = (Inr (), m') \<and> closed_manager S m' \<and> getPeerState peer m' = DISCONNECTED"
proof -
  obtain m1 where m1: "peer_transition peer DISCONNECTED None m = (Inr (), m1)" "closed_manager S m1" "mg_state m1 = mg_state m"
    "assoc_get peer (mg_peers m) \<noteq> None \<longrightarrow> getPeerState peer m1 = DISCONNECTED"
    using peer_transition_down [of DISCONNECTED S m peer None] assms by auto
  have p: "getPeerState peer m1 = DISCONNECTED"
    using m1 by (cases "assoc_get peer (mg_peers m)") (auto simp: peer_transition_def getPeerState_def)
  define st where "st = (if \<exists>p \<in> set (mg_peers m1). sm_state (snd p) \<noteq> DISCONNECTED then mg_state m1
         else if mg_transport m1 then IDLE else DISCONNECTED)"
  have "disconnect peer m = setState st m1" using m1(1) by (simp add: disconnect_def andthen_def st_def get_def)
  moreover have "st \<in> S" using m1(2) by (auto simp: st_def closed_manager_def)
  ultimately show ?thesis using m1(2) p
    by (intro exI [of _ "snd (setState st m1)"]) (simp add: setState_run [symmetric] closed_manager_def getPeerState_def)
qed

lemma enqueue_closed: "closed_manager S m \<Longrightarrow> closed_manager S (snd (enqueueOperation op groups i now m))"
  by (auto simp: enqueueOperation_def closed_manager_def andthen_def lift_op_def get_def from_result_def throw_def
      split: option.splits list.splits sum.splits prod.splits)

lemma closed_step:
  assumes "closed_manager S m"
  shows "closed_manager (S \<union> set_states c) (manager_step c m)"
proof -
  have grow: "closed_manager S m' \<Longrightarrow> closed_manager (S \<union> X) m'" for m' X by (auto simp: closed_manager_def)
  show ?thesis
  proof (cases c)
    case (Connect p o')
    then show ?thesis using connect_closed [OF assms, of p o'] grow by auto
  next
    case (Disconnect p)
    then show ?thesis using disconnect_closed [OF assms, of p] grow by auto
  next
    case (Enqueue op groups i now)
    then show ?thesis using enqueue_closed [OF assms] grow by simp
  next
    case (SetState st)
    then show ?thesis using assms by (auto simp: closed_manager_def)
  qed (use assms in \<open>auto simp: closed_manager_def manager_listen_def manager_unlisten_def\<close>)
qed

text \<open>C14. The manager fails closed: whatever public calls are made to it, \<open>setState\<close> and the listeners' calls included,
  every peer is disconnected or in the error state, so never connected, authorised or syncing; the state
  it shows is idle, disconnected, error or one a caller set; a connection attempt
  puts the peer and the manager in the error state, whether the organisation matches or
  not, and a disconnected peer is disconnected.\<close>

theorem manager_fails_closed:
  "(let m = foldl (\<lambda>m c. manager_step c m) (new_manager org signer sign transport rows) calls in
     getPeerState peer m \<in> {DISCONNECTED, ERROR} \<and>
     mg_state m \<in> {IDLE, DISCONNECTED, ERROR} \<union> (\<Union>c \<in> set calls. set_states c) \<and>
     getPeerState peer (manager_step (Connect peer org') m) = ERROR \<and>
     mg_state (manager_step (Connect peer org') m) = ERROR \<and>
     getPeerState peer (manager_step (Disconnect peer) m) = DISCONNECTED)"
proof -
  let ?m = "foldl (\<lambda>m c. manager_step c m) (new_manager org signer sign transport rows) calls"
  let ?S = "{IDLE, DISCONNECTED, ERROR} \<union> (\<Union>c \<in> set calls. set_states c)"
  have "closed_manager S m \<Longrightarrow> closed_manager (S \<union> (\<Union>c \<in> set calls. set_states c)) (foldl (\<lambda>m c. manager_step c m) m calls)" for S m
  proof (induction calls arbitrary: S m)
    case (Cons c calls)
    show ?case using Cons.IH [OF closed_step [OF Cons.prems, of c]] by (simp add: Un_assoc)
  qed simp
  moreover have "closed_manager {IDLE, DISCONNECTED, ERROR} (new_manager org signer sign transport rows)"
    by (simp add: closed_manager_def new_manager_def)
  ultimately have c: "closed_manager ?S ?m" by blast
  have "getPeerState peer ?m \<in> {DISCONNECTED, ERROR}"
    using c assoc_get_SomeD [of peer "mg_peers ?m"]
    by (fastforce simp: getPeerState_def closed_manager_def split: option.splits)
  moreover have "mg_state ?m \<in> ?S" using c by (simp add: closed_manager_def)
  moreover obtain m' where "connect peer org' ?m = (Inr (), m')" "mg_state m' = ERROR" "getPeerState peer m' = ERROR"
    using connect_closed [OF c] by blast
  moreover obtain m'' where "disconnect peer ?m = (Inr (), m'')" "getPeerState peer m'' = DISCONNECTED"
    using disconnect_closed [OF c] by blast
  ultimately show ?thesis by (simp add: Let_def)
qed

section \<open>From one device to another\<close>

lemma envelope_json_wf: "wf_json op \<Longrightarrow> wf_json (envelope_json op now pk sig)"
proof -
  have "js_ordered [''envelopeId'', ''signedAt'', ''signerPublicKey'', ''signature'', ''operation'']" by code_simp
  then show "wf_json op \<Longrightarrow> ?thesis" by (simp add: envelope_json_def js_object_def)
qed

lemma enqueueOperation_Inr:
  assumes "enqueueOperation op groups i now m = (Inr row, m')"
  obtains pk signFn env where "mg_signer m = Some pk" "mg_sign m = Some signFn" "build op pk signFn now = Inr env"
    "outbox_enqueue groups env i now (mg_outbox m) = (Inr row, mg_outbox m')"
proof -
  obtain pk signFn where s: "mg_signer m = Some pk" "mg_sign m = Some signFn" "pk \<noteq> []"
    using assms by (auto simp: enqueueOperation_def split: option.splits list.splits)
  then obtain c cs where pk: "pk = c # cs" by (cases pk) auto
  have run: "enqueueOperation op groups i now m = andthen (from_result (build op pk signFn now)) (\<lambda>envelope.
      lift_op mg_outbox (\<lambda>t m. m\<lparr>mg_outbox := t\<rparr>) (transaction (outbox_enqueue groups envelope i now))) m"
    using s pk by (simp add: enqueueOperation_def)
  obtain env where e: "build op pk signFn now = Inr env"
    using assms run by (cases "build op pk signFn now") simp_all
  have "lift_op mg_outbox (\<lambda>t m. m\<lparr>mg_outbox := t\<rparr>) (transaction (outbox_enqueue groups env i now)) m = (Inr row, m')"
    using assms run e by simp
  then have "transaction (outbox_enqueue groups env i now) (mg_outbox m) = (Inr row, mg_outbox m')"
    by (auto simp: lift_op_def split: prod.splits)
  then show ?thesis using that [OF s(1,2) e] by (simp add: transaction_Inr)
qed

lemma enqueueOperation_run:
  assumes "mg_signer m = Some pk" "pk \<noteq> []" "mg_sign m = Some signFn" "build op pk signFn now = Inr env"
    "outbox_enqueue groups env i now (mg_outbox m) = (Inr row, rows)"
  shows "enqueueOperation op groups i now m = (Inr row, m\<lparr>mg_outbox := rows\<rparr>)"
proof -
  obtain c cs where "pk = c # cs" using assms(2) by (cases pk) auto
  then show ?thesis using assms by (simp add: enqueueOperation_def lift_op_def transaction_def)
qed

lemma enqueued_row:
  assumes "outbox_enqueue groups env i now rows = (Inr row, rows')"
  shows "validateEnvelope env = Inr () \<and> row = outbox_row_of env i now \<and> rows' = rows @ [row]"
  using assms by (auto simp: outbox_enqueue_run split: sum.splits if_splits)

lemma new_delivery:
  assumes "wf_json op" "build op pk signFn now = Inr env" "\<And>bs sig. signFn bs = Inr sig \<Longrightarrow> f pk bs sig = Inr True"
  shows "verification_of f env = Verified"
  using assms(2)
proof (rule build_Inr)
  fix bytes sig
  assume "canonicalize op = Inr bytes" "signFn bytes = Inr sig" "env = envelope_json op now pk sig"
    "validateEnvelope env = Inr ()"
  then show ?thesis using assms(3) by (simp add: verification_of_def verify_def)
qed

text \<open>C15. An operation enqueued on one device arrives verified on another: the stored row holds, as text, an
  envelope around the operation, and sending the parsed text over a connected transport whose peer
  receives into its inbox, with a verifier that accepts what the signer signs, appends one row,
  verified and waiting to be applied, with the operation's entity and payload.\<close>

theorem enqueued_arrives_verified:
  assumes "enqueueOperation op groups i now m = (Inr row, m')" "wf_json op"
    "\<And>bs sig. the (mg_sign m) bs = Inr sig \<Longrightarrow> f (the (mg_signer m)) bs sig = Inr True"
    "isConnected peer t" "tr_handlers t' = [\<lambda>_ e. andthen (inbox_receive f e j now') (\<lambda>_. ret ())]"
    "\<forall>r \<in> set inbox. ib_id r \<noteq> j \<and> ib_envelope_id r \<noteq> ob_envelope_id row"
  shows "\<exists>env r. json_parse (the (ob_envelope_json row)) = Inr env \<and> jfield ''operation'' env = Some op \<and>
    transport_send t (Some t') peer env inbox = (Inr (), inbox @ [r]) \<and>
    ib_verification r = Verified \<and> r \<in> set (applicable (inbox @ [r])) \<and>
    ib_entity_id r = jstr (jfield ''entityId'' op) \<and> ib_payload_json r = stringify (the (jfield ''payload'' op)) \<and>
    ob_status row = OutPending \<and> mg_outbox m' = mg_outbox m @ [row]"
  using assms(1)
proof (rule enqueueOperation_Inr)
  fix pk signFn env
  assume a: "mg_signer m = Some pk" "mg_sign m = Some signFn" "build op pk signFn now = Inr env"
    "outbox_enqueue groups env i now (mg_outbox m) = (Inr row, mg_outbox m')"
  have row: "validateEnvelope env = Inr ()" "row = outbox_row_of env i now" "mg_outbox m' = mg_outbox m @ [row]"
    using enqueued_row [OF a(4)] by simp_all
  obtain sig where env: "env = envelope_json op now pk sig" using a(3) by (rule build_Inr)
  have wf: "wf_json env" unfolding env by (rule envelope_json_wf [OF assms(2)])
  have body: "ob_envelope_json row = Some (stringify env)" "ob_envelope_id row = jstr (jfield ''envelopeId'' env)"
    "ob_status row = OutPending" by (simp_all add: row(2) outbox_row_of_def Let_def)
  have v: "verification_of f env = Verified"
    by (rule new_delivery [OF assms(2) a(3)]) (use assms(3) a in simp)
  let ?r = "inbox_row_of env Verified j now'"
  have recv: "inbox_receive f env j now' inbox = (Inr ?r, inbox @ [?r])"
    using receive_new [of inbox env j f now'] assms(6) row(1) body(2) v by auto
  then have "transport_send t (Some t') peer env inbox = (Inr (), inbox @ [?r])"
    using assms(4,5) by (simp add: transport_send_def deliver_def andthen_def guard_def ret_def)
  moreover have "?r \<in> set (applicable (inbox @ [?r]))" by (simp add: applicable_def)
  moreover have "ib_entity_id ?r = jstr (jfield ''entityId'' op)" "ib_payload_json ?r = stringify (the (jfield ''payload'' op))"
    by (simp_all add: inbox_row_of_def env Let_def)
  ultimately show ?thesis
    using body row(3) json_parse_stringify [OF wf] env by (intro exI [of _ env] exI [of _ ?r]) simp
qed

definition sample_manager :: sync_manager where
  "sample_manager = new_manager ''org'' (Some sample_key) (Some (\<lambda>_. Inr sample_sig)) True []"

theorem enqueued_arrives_verified_witness:
  "\<exists>env r. transport_send \<lparr>tr_connected = [(''b'', ''key'')], tr_handlers = []\<rparr>
     (Some \<lparr>tr_connected = [], tr_handlers = [\<lambda>_ e. andthen (inbox_receive (\<lambda>_ _ _. Inr True) e ''i1'' ''2027'') (\<lambda>_. ret ())]\<rparr>)
     ''b'' env [] = (Inr (), [r]) \<and> ib_verification r = Verified \<and> jfield ''operation'' env = Some sample_operation"
proof -
  let ?row = "outbox_row_of sample_envelope ''o1'' (iso_str 0)"
  have "ob_group ?row = ''g''"
    by (simp add: outbox_row_of_def sample_envelope_def sample_operation_def Let_def)
  then have "outbox_enqueue [''g''] sample_envelope ''o1'' (iso_str 0) [] = (Inr ?row, [?row])"
    by (simp add: outbox_enqueue_run sample_envelope_ok)
  then have e: "enqueueOperation sample_operation [''g''] ''o1'' (iso_str 0) sample_manager =
      (Inr ?row, sample_manager\<lparr>mg_outbox := [?row]\<rparr>)"
    using enqueueOperation_run [of sample_manager sample_key "\<lambda>_. Inr sample_sig" sample_operation "iso_str 0" sample_envelope
        "[''g'']" "''o1''" ?row "[?row]"] sample_build
    by (simp add: sample_manager_def new_manager_def sample_key_def [THEN arg_cong [of _ _ "\<lambda>k. k \<noteq> []"]])
  show ?thesis
    using enqueued_arrives_verified [OF e sample_operation_wf, of "\<lambda>_ _ _. Inr True" "''b''"
        "\<lparr>tr_connected = [(''b'', ''key'')], tr_handlers = []\<rparr>"
        "\<lparr>tr_connected = [], tr_handlers = [\<lambda>_ e. andthen (inbox_receive (\<lambda>_ _ _. Inr True) e ''i1'' ''2027'') (\<lambda>_. ret ())]\<rparr>"
        "''i1''" "''2027''" "[]"]
    by (simp add: isConnected_def) blast
qed

end
