(* ===== verification/Handshake.thy ===== *)
theory Handshake
  imports Envelope
begin

text \<open>
  The peer handshake (\<open>sync-protocol/src/handshake/HandshakeProtocol.ts\<close>).  \<open>Date.parse\<close> and the
  signature verifier are parameters.  \<open>requireValid\<close> awaits the verifier between its checks and the
  recording of the nonce, so it is also modelled as two steps of a transition system in which calls
  interleave.  Proved: calls that run one after another accept a nonce once, interleaved calls may
  accept it twice, and what the signed bytes determine.  A message has all its fields, of their types;
  the reasons keep the checks apart but not the full wording.
\<close>

section \<open>Messages\<close>

record handshake_message =
  hs_application :: string
  hs_app_version :: string
  hs_protocol :: rat
  hs_device :: string
  hs_organisation :: string
  hs_platform :: string
  hs_features :: "string list"
  hs_entity_versions :: "(string \<times> rat) list"
  hs_timestamp :: string
  hs_nonce :: string
  hs_signer :: string
  hs_signature :: string

record handshake_options =
  ho_application :: string
  ho_organisation :: string
  ho_min_protocol :: rat
  ho_current_protocol :: rat
  ho_max_skew :: "rat option"
  ho_verify :: "(string \<Rightarrow> nat list \<Rightarrow> string \<Rightarrow> js_error + bool) option"

datatype handshake_code =
    APP_ID_MISMATCH | ORG_ID_MISMATCH | PROTOCOL_INCOMPATIBLE | TIMESTAMP_SKEW | NONCE_REPLAYED
  | NONCE_INVALID | SIGNATURE_INVALID | PUBLIC_KEY_INVALID | INVALID_PAYLOAD

fun code_text :: "handshake_code \<Rightarrow> string" where
  "code_text APP_ID_MISMATCH = ''APP_ID_MISMATCH''"
| "code_text ORG_ID_MISMATCH = ''ORG_ID_MISMATCH''"
| "code_text PROTOCOL_INCOMPATIBLE = ''PROTOCOL_INCOMPATIBLE''"
| "code_text TIMESTAMP_SKEW = ''TIMESTAMP_SKEW''"
| "code_text NONCE_REPLAYED = ''NONCE_REPLAYED''"
| "code_text NONCE_INVALID = ''NONCE_INVALID''"
| "code_text SIGNATURE_INVALID = ''SIGNATURE_INVALID''"
| "code_text PUBLIC_KEY_INVALID = ''PUBLIC_KEY_INVALID''"
| "code_text INVALID_PAYLOAD = ''INVALID_PAYLOAD''"

section \<open>Checks\<close>

text \<open>The nonce set is absent when replay protection is off.  The result is the code and the reason of the
  first failing check.\<close>

definition handshake_validate :: "(string \<Rightarrow> int option) \<Rightarrow> handshake_message option \<Rightarrow> handshake_options \<Rightarrow>
    string list option \<Rightarrow> int \<Rightarrow> (handshake_code \<times> string) option" where
  "handshake_validate dateParse message opts seen now = (case message of
     None \<Rightarrow> Some (INVALID_PAYLOAD, ''Handshake message is malformed or missing'')
   | Some m \<Rightarrow>
     if hs_application m \<noteq> ho_application opts
     then Some (APP_ID_MISMATCH, ''Application ID mismatch: expected '' @ quoted (ho_application opts) @
       '', received '' @ quoted (hs_application m))
     else if hs_organisation m \<noteq> ho_organisation opts
     then Some (ORG_ID_MISMATCH, ''Organisation ID mismatch: expected '' @ quoted (ho_organisation opts) @
       '', received '' @ quoted (hs_organisation m))
     else if hs_protocol m < ho_min_protocol opts
     then Some (PROTOCOL_INCOMPATIBLE, ''Protocol version '' @ num_str (hs_protocol m) @
       '' is below minimum supported version '' @ num_str (ho_min_protocol opts))
     else (case dateParse (hs_timestamp m) of
         None \<Rightarrow> Some (TIMESTAMP_SKEW, ''Handshake timestamp is not a valid ISO-8601 date: '' @ quoted (hs_timestamp m))
       | Some ts \<Rightarrow>
         (let maxSkew = (case ho_max_skew opts of Some x \<Rightarrow> x | None \<Rightarrow> 30000); skew = \<bar>now - ts\<bar> in
          if of_int skew > maxSkew
          then Some (TIMESTAMP_SKEW, ''Handshake timestamp skew of '' @ int_str skew @
            ''ms exceeds maximum allowed '' @ num_str maxSkew @ ''ms'')
          else if \<not> re_test (lower_hex_re 32) (hs_nonce m)
          then Some (NONCE_INVALID, ''Nonce must be a 32-character lowercase hex string, got: '' @ quoted (hs_nonce m))
          else if (case seen of Some s \<Rightarrow> hs_nonce m \<in> set s | None \<Rightarrow> False)
          then Some (NONCE_REPLAYED, ''Nonce '' @ quoted (hs_nonce m) @ '' has already been seen'')
          else if \<not> starts_with ''ed25519_pk_'' (hs_signer m) \<or> length (hs_signer m) \<noteq> 75
          then Some (PUBLIC_KEY_INVALID, ''signerPublicKey must be 'ed25519_pk_<64-hex-chars>' (75 chars), got length '' @
            nat_str (length (hs_signer m)))
          else if \<not> re_test (lower_hex_re 128) (hs_signature m)
          then Some (SIGNATURE_INVALID, ''signature must be a 128-character lowercase hex string (64 bytes), got length '' @
            nat_str (length (hs_signature m)))
          else None)))"

section \<open>Canonical bytes\<close>

text \<open>Rebuilding an object by \<open>acc[k] = v\<close> loses an own key \<open>__proto__\<close>: the assignment sets the prototype.\<close>

definition proto_key :: string where
  "proto_key = ''__proto__''"

fun hs_sortedKeys :: "json \<Rightarrow> json" where
  "hs_sortedKeys (JArr vs) = JArr (map hs_sortedKeys vs)"
| "hs_sortedKeys (JObj m) = JObj (obj_build (filter (\<lambda>e. fst e \<noteq> proto_key)
     (sort_key fst (map (\<lambda>e. (fst e, hs_sortedKeys (snd e))) m))))"
| "hs_sortedKeys v = v"

definition message_rest :: "handshake_message \<Rightarrow> json" where
  "message_rest m = JObj
     [(''applicationId'', JStr (hs_application m)), (''applicationVersion'', JStr (hs_app_version m)),
      (''protocolVersion'', JNum (hs_protocol m)), (''deviceId'', JStr (hs_device m)),
      (''organisationId'', JStr (hs_organisation m)), (''platform'', JStr (hs_platform m)),
      (''supportedFeatures'', JArr (map JStr (hs_features m))),
      (''supportedEntityVersions'', JObj (map (\<lambda>e. (fst e, JNum (snd e))) (hs_entity_versions m))),
      (''timestamp'', JStr (hs_timestamp m)), (''nonce'', JStr (hs_nonce m)),
      (''signerPublicKey'', JStr (hs_signer m))]"

definition canonicalizeHandshake :: "handshake_message \<Rightarrow> nat list" where
  "canonicalizeHandshake m = utf8 (stringify (hs_sortedKeys (message_rest m)))"

section \<open>Accepting a handshake\<close>

text \<open>What \<open>requireValid\<close> does before it awaits the verifier, and what it does with the verdict.\<close>

definition require_begin :: "(string \<Rightarrow> int option) \<Rightarrow> handshake_message option \<Rightarrow> handshake_options \<Rightarrow> int \<Rightarrow>
    (string list option, unit) op" where
  "require_begin dateParse message opts now = andthen (get (\<lambda>seen. handshake_validate dateParse message opts seen now))
     (\<lambda>res. case res of
        Some (code, reason) \<Rightarrow> throw (raise ValidationError (''Handshake verification failed: '' @ reason @
          '' ('' @ code_text code @ '')''))
      | None \<Rightarrow> ret ())"

definition signature_verdict :: "handshake_options \<Rightarrow> handshake_message \<Rightarrow> js_error + unit" where
  "signature_verdict opts m = (case ho_verify opts of
     None \<Rightarrow> Inr ()
   | Some f \<Rightarrow> (case f (hs_signer m) (canonicalizeHandshake m) (hs_signature m) of
       Inl e \<Rightarrow> Inl e
     | Inr ok \<Rightarrow> if ok then Inr ()
         else Inl (raise ValidationError (''Handshake signature verification failed for device '' @
           quoted (hs_device m) @ '': cryptographic signature is invalid''))))"

definition add_nonce :: "string \<Rightarrow> string list option \<Rightarrow> string list option" where
  "add_nonce n seen = map_option (\<lambda>s. if n \<in> set s then s else s @ [n]) seen"

definition require_end :: "handshake_options \<Rightarrow> handshake_message \<Rightarrow> (string list option, unit) op" where
  "require_end opts m = andthen (from_result (signature_verdict opts m)) (\<lambda>_. modify (add_nonce (hs_nonce m)))"

definition requireValid :: "(string \<Rightarrow> int option) \<Rightarrow> handshake_message option \<Rightarrow> handshake_options \<Rightarrow> int \<Rightarrow>
    (string list option, unit) op" where
  "requireValid dateParse message opts now =
     andthen (require_begin dateParse message opts now) (\<lambda>_. require_end opts (the message))"

text \<open>Calls one after another, with the clock at each, and the messages they accept.\<close>

fun accept_all :: "(string \<Rightarrow> int option) \<Rightarrow> handshake_options \<Rightarrow> (handshake_message \<times> int) list \<Rightarrow>
    string list \<Rightarrow> handshake_message list" where
  "accept_all dp opts [] seen = []"
| "accept_all dp opts ((m, now) # rest) seen = (case requireValid dp (Some m) opts now (Some seen) of
     (Inr _, Some seen') \<Rightarrow> m # accept_all dp opts rest seen'
   | (_, _) \<Rightarrow> accept_all dp opts rest seen)"

text \<open>Calls that interleave: those between their two steps are in flight.\<close>

record handshake_state =
  hst_seen :: "string list"
  hst_flight :: "handshake_message list"
  hst_accepted :: "handshake_message list"

inductive handshake_step :: "(string \<Rightarrow> int option) \<Rightarrow> handshake_options \<Rightarrow> handshake_state \<Rightarrow> handshake_state \<Rightarrow> bool"
  for dp opts where
  hs_begin: "require_begin dp (Some m) opts now (Some (hst_seen s)) = (Inr (), Some (hst_seen s)) \<Longrightarrow>
    handshake_step dp opts s (s\<lparr>hst_flight := m # hst_flight s\<rparr>)"
| hs_accept: "m \<in> set (hst_flight s) \<Longrightarrow> require_end opts m (Some (hst_seen s)) = (Inr (), Some seen') \<Longrightarrow>
    handshake_step dp opts s (s\<lparr>hst_seen := seen', hst_flight := remove1 m (hst_flight s),
      hst_accepted := m # hst_accepted s\<rparr>)"
| hs_reject: "m \<in> set (hst_flight s) \<Longrightarrow> require_end opts m (Some (hst_seen s)) = (Inl e, Some (hst_seen s)) \<Longrightarrow>
    handshake_step dp opts s (s\<lparr>hst_flight := remove1 m (hst_flight s)\<rparr>)"

section \<open>One call\<close>

lemma require_begin_run:
  "require_begin dp message opts now seen = (case handshake_validate dp message opts seen now of
     Some (code, reason) \<Rightarrow> (Inl (raise ValidationError (''Handshake verification failed: '' @ reason @
       '' ('' @ code_text code @ '')'')), seen)
   | None \<Rightarrow> (Inr (), seen))"
  by (simp add: require_begin_def split: option.split)

lemma require_end_run:
  "require_end opts m seen = (case signature_verdict opts m of
     Inl e \<Rightarrow> (Inl e, seen) | Inr _ \<Rightarrow> (Inr (), add_nonce (hs_nonce m) seen))"
  by (simp add: require_end_def split: sum.split)

lemma requireValid_Inr:
  "requireValid dp (Some m) opts now seen = (Inr (), seen') \<longleftrightarrow>
    handshake_validate dp (Some m) opts seen now = None \<and> signature_verdict opts m = Inr () \<and>
    seen' = add_nonce (hs_nonce m) seen"
  by (auto simp: requireValid_def andthen_def require_begin_run require_end_run split: option.splits sum.splits)

text \<open>What a passed check says of the message.\<close>

definition acceptable :: "(string \<Rightarrow> int option) \<Rightarrow> handshake_options \<Rightarrow> handshake_message \<Rightarrow> int \<Rightarrow> bool" where
  "acceptable dp opts m now \<longleftrightarrow> hs_application m = ho_application opts \<and>
     hs_organisation m = ho_organisation opts \<and> ho_min_protocol opts \<le> hs_protocol m \<and>
     (\<exists>ts. dp (hs_timestamp m) = Some ts \<and>
       of_int \<bar>now - ts\<bar> \<le> (case ho_max_skew opts of Some x \<Rightarrow> x | None \<Rightarrow> 30000)) \<and>
     length (hs_nonce m) = 32 \<and> list_all is_hex (hs_nonce m) \<and> length (hs_signer m) = 75 \<and>
     length (hs_signature m) = 128 \<and> list_all is_hex (hs_signature m)"

lemma validate_None:
  "handshake_validate dp (Some m) opts seen now = None \<longleftrightarrow> acceptable dp opts m now \<and>
    starts_with ''ed25519_pk_'' (hs_signer m) \<and> (\<forall>s. seen = Some s \<longrightarrow> hs_nonce m \<notin> set s)"
proof (cases "dp (hs_timestamp m)")
  case None
  then show ?thesis by (simp add: handshake_validate_def acceptable_def)
next
  case (Some ts)
  let ?max = "case ho_max_skew opts of Some x \<Rightarrow> x | None \<Rightarrow> 30000"
  have "handshake_validate dp (Some m) opts seen now = None \<longleftrightarrow> hs_application m = ho_application opts \<and>
      hs_organisation m = ho_organisation opts \<and> \<not> hs_protocol m < ho_min_protocol opts \<and>
      \<not> of_int \<bar>now - ts\<bar> > ?max \<and> re_test (lower_hex_re 32) (hs_nonce m) \<and>
      \<not> (case seen of Some s \<Rightarrow> hs_nonce m \<in> set s | None \<Rightarrow> False) \<and>
      starts_with ''ed25519_pk_'' (hs_signer m) \<and> length (hs_signer m) = 75 \<and>
      re_test (lower_hex_re 128) (hs_signature m)"
    by (simp add: handshake_validate_def Some Let_def) blast
  then show ?thesis
    by (simp only: acceptable_def is_hex_regex Some not_less option.inject) (auto split: option.split)
qed

lemma accept_all_accepts:
  "distinct (map hs_nonce (accept_all dp opts ms seen)) \<and>
   (\<forall>m \<in> set (accept_all dp opts ms seen). hs_nonce m \<notin> set seen \<and> signature_verdict opts m = Inr () \<and>
      (\<exists>now. (m, now) \<in> set ms \<and> acceptable dp opts m now))"
proof (induction ms arbitrary: seen)
  case (Cons a rest)
  obtain m now where a: "a = (m, now)" by (cases a)
  show ?case
  proof (cases "handshake_validate dp (Some m) opts (Some seen) now = None \<and> signature_verdict opts m = Inr ()")
    case True
    define seen' where "seen' = (if hs_nonce m \<in> set seen then seen else seen @ [hs_nonce m])"
    have s: "requireValid dp (Some m) opts now (Some seen) = (Inr (), Some seen')"
      using True by (simp add: requireValid_Inr add_nonce_def seen'_def)
    have s': "set seen' = insert (hs_nonce m) (set seen)" by (auto simp: seen'_def)
    from s have "accept_all dp opts (a # rest) seen = m # accept_all dp opts rest seen'" by (simp add: a)
    then show ?thesis using Cons [of seen'] s' True by (auto simp: validate_None a)
  next
    case False
    then have "\<nexists>seen'. requireValid dp (Some m) opts now (Some seen) = (Inr (), seen')"
      by (simp add: requireValid_Inr)
    then have "accept_all dp opts (a # rest) seen = accept_all dp opts rest seen"
      by (auto simp: a split: prod.split sum.split option.split)
    then show ?thesis using Cons [of seen] by auto
  qed
qed simp

section \<open>Replay\<close>

text \<open>C13. Handshakes required one after another never accept a nonce twice, nor one already seen, and what
  they accept has passed every check; but the nonce is recorded only after the verifier answers, so
  two calls that overlap accept the same message twice.\<close>

theorem handshake_replay:
  "(let acc = accept_all dp opts ms seen in distinct (map hs_nonce acc) \<and>
     (\<forall>m \<in> set acc. hs_nonce m \<notin> set seen \<and> signature_verdict opts m = Inr () \<and>
       (\<exists>now. (m, now) \<in> set ms \<and> acceptable dp opts m now))) \<and>
   (handshake_validate dp (Some m) opts (Some seen) now = None \<and> signature_verdict opts m = Inr () \<longrightarrow>
     accept_all dp opts [(m, now), (m, now)] seen = [m] \<and>
     (handshake_step dp opts)\<^sup>*\<^sup>* \<lparr>hst_seen = seen, hst_flight = [], hst_accepted = []\<rparr>
       \<lparr>hst_seen = seen @ [hs_nonce m], hst_flight = [], hst_accepted = [m, m]\<rparr>)"
proof (intro conjI impI)
  show "let acc = accept_all dp opts ms seen in distinct (map hs_nonce acc) \<and>
     (\<forall>m \<in> set acc. hs_nonce m \<notin> set seen \<and> signature_verdict opts m = Inr () \<and>
       (\<exists>now. (m, now) \<in> set ms \<and> acceptable dp opts m now))"
    using accept_all_accepts [of dp opts ms seen] by (simp add: Let_def)
  assume "handshake_validate dp (Some m) opts (Some seen) now = None \<and> signature_verdict opts m = Inr ()"
  then have v: "handshake_validate dp (Some m) opts (Some seen) now = None" "signature_verdict opts m = Inr ()"
    by simp_all
  have fresh: "hs_nonce m \<notin> set seen" using v(1) by (simp add: validate_None)
  have first: "requireValid dp (Some m) opts now (Some seen) = (Inr (), Some (seen @ [hs_nonce m]))"
    using v fresh by (simp add: requireValid_Inr add_nonce_def)
  have "\<nexists>s. requireValid dp (Some m) opts now (Some (seen @ [hs_nonce m])) = (Inr (), s)"
    by (simp add: requireValid_Inr validate_None)
  then have "accept_all dp opts [(m, now)] (seen @ [hs_nonce m]) = []"
    by (auto split: prod.split sum.split option.split)
  then show "accept_all dp opts [(m, now), (m, now)] seen = [m]" using first by simp
  let ?st = "\<lambda>s f a. \<lparr>hst_seen = s, hst_flight = f, hst_accepted = a\<rparr>"
  have s1: "handshake_step dp opts (?st seen [] []) (?st seen [m] [])"
    using hs_begin [of dp m opts now "?st seen [] []"] v(1) by (simp add: require_begin_run)
  have s2: "handshake_step dp opts (?st seen [m] []) (?st seen [m, m] [])"
    using hs_begin [of dp m opts now "?st seen [m] []"] v(1) by (simp add: require_begin_run)
  have s3: "handshake_step dp opts (?st seen [m, m] []) (?st (seen @ [hs_nonce m]) [m] [m])"
    using hs_accept [of m "?st seen [m, m] []" opts "seen @ [hs_nonce m]" dp] v(2) fresh
    by (simp add: require_end_run add_nonce_def)
  have s4: "handshake_step dp opts (?st (seen @ [hs_nonce m]) [m] [m]) (?st (seen @ [hs_nonce m]) [] [m, m])"
    using hs_accept [of m "?st (seen @ [hs_nonce m]) [m] [m]" opts "seen @ [hs_nonce m]" dp] v(2)
    by (simp add: require_end_run add_nonce_def)
  show "(handshake_step dp opts)\<^sup>*\<^sup>* (?st seen [] []) (?st (seen @ [hs_nonce m]) [] [m, m])"
    using s1 s2 s3 s4 by (meson rtranclp.rtrancl_refl rtranclp.rtrancl_into_rtrancl)
qed

definition sample_message :: handshake_message where
  "sample_message = \<lparr>hs_application = ''app'', hs_app_version = ''1'', hs_protocol = 1, hs_device = ''d'',
     hs_organisation = ''org'', hs_platform = ''linux'', hs_features = [''notes''],
     hs_entity_versions = [(''note'', 1)], hs_timestamp = iso_str 0, hs_nonce = replicate 32 (CHR ''a''),
     hs_signer = sample_key, hs_signature = sample_sig\<rparr>"

definition sample_options :: handshake_options where
  "sample_options = \<lparr>ho_application = ''app'', ho_organisation = ''org'', ho_min_protocol = 1,
     ho_current_protocol = 1, ho_max_skew = None, ho_verify = Some (\<lambda>_ _ _. Inr True)\<rparr>"

lemma sample_acceptable: "handshake_validate iso_parse (Some sample_message) sample_options (Some []) 5 = None"
proof -
  have "iso_parse (iso_str 0) = Some 0" by (simp add: iso_parse_iso_str valid_time_def)
  moreover have "length sample_key = 75" by (simp add: sample_key_def)
  moreover have "starts_with ''ed25519_pk_'' sample_key" by (simp add: sample_key_def)
  moreover have "length sample_sig = 128 \<and> list_all is_hex sample_sig"
    using sample_sig_ok by (simp add: isValidSignatureHex_def is_hex_regex)
  moreover have "list_all is_hex (replicate 32 (CHR ''a''))" by (simp add: list_all_iff is_hex_def char_digit_def)
  ultimately show ?thesis
    by (simp add: validate_None acceptable_def sample_message_def sample_options_def)
qed

theorem handshake_replay_witness:
  "(handshake_step iso_parse sample_options)\<^sup>*\<^sup>* \<lparr>hst_seen = [], hst_flight = [], hst_accepted = []\<rparr>
     \<lparr>hst_seen = [hs_nonce sample_message], hst_flight = [], hst_accepted = [sample_message, sample_message]\<rparr>"
proof -
  have "signature_verdict sample_options sample_message = Inr ()"
    by (simp add: signature_verdict_def sample_options_def)
  then show ?thesis
    using handshake_replay [of iso_parse sample_options "[]" "[]" sample_message 5] sample_acceptable by simp
qed

section \<open>What the signed bytes determine\<close>

definition integral :: "rat \<Rightarrow> bool" where
  "integral q \<longleftrightarrow> of_int \<lfloor>q\<rfloor> = q"

definition wf_message :: "handshake_message \<Rightarrow> bool" where
  "wf_message m \<longleftrightarrow> integral (hs_protocol m) \<and> js_object (hs_entity_versions m) \<and>
     (\<forall>e \<in> set (hs_entity_versions m). integral (snd e))"

lemma hs_sorted_get:
  assumes "distinct (map fst m)"
  shows "assoc_get k (obj_build (filter (\<lambda>e. fst e \<noteq> proto_key) (sort_key fst (map (\<lambda>e. (fst e, hs_sortedKeys (snd e))) m))))
    = (if k = proto_key then None else map_option hs_sortedKeys (assoc_get k m))"
proof -
  let ?l = "map (\<lambda>e. (fst e, hs_sortedKeys (snd e))) m"
  have d: "distinct (map fst ?l)" using assms by (simp only: keys_map_snd)
  have s: "distinct (map fst (sort_key fst ?l))"
    using d distinct_order_by [of fst fst] unfolding order_by_def by blast
  have g: "assoc_get k (filter (\<lambda>e. fst e \<noteq> proto_key) xs) = (if k = proto_key then None else assoc_get k xs)"
    for xs :: "(string \<times> json) list" by (induction xs) auto
  show ?thesis
    by (simp only: assoc_get_build [OF distinct_map_filter [OF s]] g assoc_get_sort [OF d] assoc_get_map_snd)
qed

lemma wf_hs_sortedKeys: "wf_json v \<Longrightarrow> wf_json (hs_sortedKeys v)"
proof (induction v)
  case (JObj m)
  let ?l = "filter (\<lambda>e. fst e \<noteq> proto_key) (sort_key fst (map (\<lambda>e. (fst e, hs_sortedKeys (snd e))) m))"
  have "wf_json (snd e)" if "e \<in> set (obj_build ?l)" for e
  proof -
    from obj_build_values [OF that] obtain e' where e': "e' \<in> set m" "snd e = hs_sortedKeys (snd e')" by auto
    then have "wf_json (snd e')" using JObj.prems by (auto simp: list_all_iff)
    moreover have "snd e' \<in> Basic_BNFs.snds e'" by (cases e') simp
    ultimately show ?thesis using JObj.IH [OF e'(1)] e'(2) by simp
  qed
  then show ?case by (auto simp: list_all_iff obj_build_object)
qed (auto simp: list_all_iff)

lemma message_rest_wf: "wf_message m \<Longrightarrow> wf_json (message_rest m)"
proof -
  assume w: "wf_message m"
  have "js_ordered [''applicationId'', ''applicationVersion'', ''protocolVersion'', ''deviceId'', ''organisationId'',
      ''platform'', ''supportedFeatures'', ''supportedEntityVersions'', ''timestamp'', ''nonce'', ''signerPublicKey'']"
    by code_simp
  moreover have "js_object (map (\<lambda>e. (fst e, JNum (snd e))) (hs_entity_versions m))"
    using w by (simp only: js_object_def keys_map_snd wf_message_def)
  ultimately show ?thesis
    using w by (simp add: message_rest_def js_object_def wf_message_def integral_def list_all_iff)
qed

lemma integral_num: "integral q \<Longrightarrow> wf_json (JNum q)"
  by (simp add: integral_def)

text \<open>The parts of a message the canonical form keeps.\<close>

definition same_signed :: "handshake_message \<Rightarrow> handshake_message \<Rightarrow> bool" where
  "same_signed m m' \<longleftrightarrow> hs_application m = hs_application m' \<and> hs_app_version m = hs_app_version m' \<and>
     hs_protocol m = hs_protocol m' \<and> hs_device m = hs_device m' \<and> hs_organisation m = hs_organisation m' \<and>
     hs_platform m = hs_platform m' \<and> hs_features m = hs_features m' \<and> hs_timestamp m = hs_timestamp m' \<and>
     hs_nonce m = hs_nonce m' \<and> hs_signer m = hs_signer m' \<and>
     (\<forall>k. k \<noteq> proto_key \<longrightarrow> assoc_get k (hs_entity_versions m) = assoc_get k (hs_entity_versions m'))"

lemma sorted_versions_same:
  assumes "js_object vs" "js_object ws" "\<forall>k. k \<noteq> proto_key \<longrightarrow> assoc_get k vs = assoc_get k ws"
  shows "hs_sortedKeys (JObj (map (\<lambda>e. (fst e, JNum (snd e))) vs)) = hs_sortedKeys (JObj (map (\<lambda>e. (fst e, JNum (snd e))) ws))"
proof -
  let ?f = "\<lambda>e :: string \<times> rat. (fst e, JNum (snd e))" and ?p = "\<lambda>e :: string \<times> json. fst e \<noteq> proto_key"
  have num: "map (\<lambda>e. (fst e, hs_sortedKeys (snd e))) (map ?f xs) = map ?f xs" for xs by simp
  have d: "distinct (map fst (filter ?p (map ?f xs)))" if "js_object xs" for xs
  proof -
    have "distinct (map fst (map ?f xs))" using that by (simp only: keys_map_snd js_object_def)
    then show ?thesis by (rule distinct_map_filter)
  qed
  have set: "set (filter ?p (map ?f xs)) = {(k, JNum q) |k q. k \<noteq> proto_key \<and> assoc_get k xs = Some q}"
    if "js_object xs" for xs
    using that assoc_get_unique [of xs] by (force simp: js_object_def dest: assoc_get_SomeD)
  have "set (filter ?p (map ?f vs)) = set (filter ?p (map ?f ws))"
    using set [OF assms(1)] set [OF assms(2)] assms(3) by auto
  then have "sort_key fst (filter ?p (map ?f vs)) = sort_key fst (filter ?p (map ?f ws))"
    by (rule sort_key_unique [OF d [OF assms(1)] d [OF assms(2)]])
  then show ?thesis by (simp only: hs_sortedKeys.simps num filter_sort)
qed

lemma handshake_canonical_iff:
  assumes "wf_message m" "wf_message m'"
  shows "canonicalizeHandshake m = canonicalizeHandshake m' \<longleftrightarrow> hs_sortedKeys (message_rest m) = hs_sortedKeys (message_rest m')"
proof
  assume "canonicalizeHandshake m = canonicalizeHandshake m'"
  then have "stringify (hs_sortedKeys (message_rest m)) = stringify (hs_sortedKeys (message_rest m'))"
    unfolding canonicalizeHandshake_def by (rule utf8_inj)
  then show "hs_sortedKeys (message_rest m) = hs_sortedKeys (message_rest m')"
    by (rule stringify_inj [OF wf_hs_sortedKeys [OF message_rest_wf [OF assms(1)]]
          wf_hs_sortedKeys [OF message_rest_wf [OF assms(2)]]])
qed (simp add: canonicalizeHandshake_def)

fun members :: "json \<Rightarrow> (string \<times> json) list" where
  "members (JObj m) = m"
| "members _ = []"

lemma message_rest_get:
  "k \<noteq> proto_key \<Longrightarrow> assoc_get k (members (hs_sortedKeys (message_rest m))) =
    map_option hs_sortedKeys (assoc_get k (members (message_rest m)))"
proof -
  have "distinct (map fst (members (message_rest m)))" by (simp add: message_rest_def)
  from hs_sorted_get [OF this] show "k \<noteq> proto_key \<Longrightarrow> ?thesis" by (simp add: message_rest_def)
qed

lemma sorted_features: "hs_sortedKeys (JArr (map JStr xs)) = JArr (map JStr xs)"
  by simp

lemma canonical_same_signed:
  assumes "wf_message m" "wf_message m'"
  shows "canonicalizeHandshake m = canonicalizeHandshake m' \<longleftrightarrow> same_signed m m'"
proof
  assume "canonicalizeHandshake m = canonicalizeHandshake m'"
  then have eq: "hs_sortedKeys (message_rest m) = hs_sortedKeys (message_rest m')"
    using handshake_canonical_iff [OF assms] by simp
  have get: "map_option hs_sortedKeys (assoc_get k (members (message_rest m))) =
      map_option hs_sortedKeys (assoc_get k (members (message_rest m')))" if "k \<noteq> proto_key" for k
    using message_rest_get [OF that, of m] message_rest_get [OF that, of m'] eq by simp
  let ?v = "\<lambda>m. JObj (map (\<lambda>e. (fst e, JNum (snd e))) (hs_entity_versions m))"
  have "hs_sortedKeys (?v m) = hs_sortedKeys (?v m')"
    using get [of "''supportedEntityVersions''"] by (simp add: message_rest_def proto_key_def del: hs_sortedKeys.simps)
  moreover have d: "distinct (map fst (map (\<lambda>e. (fst e, JNum (snd e))) (hs_entity_versions x)))" if "wf_message x" for x
    using that by (simp only: keys_map_snd js_object_def wf_message_def)
  ultimately have "map_option (\<lambda>q. JNum q) (assoc_get k (hs_entity_versions m)) =
      map_option (\<lambda>q. JNum q) (assoc_get k (hs_entity_versions m'))" if "k \<noteq> proto_key" for k
    using that hs_sorted_get [OF d [OF assms(1)], of k] hs_sorted_get [OF d [OF assms(2)], of k]
    by (simp add: assoc_get_map_snd option.map_comp comp_def)
  moreover have "inj (\<lambda>q. JNum q)" by (simp add: inj_def)
  ultimately have vs: "assoc_get k (hs_entity_versions m) = assoc_get k (hs_entity_versions m')" if "k \<noteq> proto_key" for k
    using that by (metis option.inj_map_strong json.inject(2))
  have "inj JStr" by (simp add: inj_def)
  then have fs: "hs_features m = hs_features m'"
    using get [of "''supportedFeatures''"] sorted_features [of "hs_features m"] sorted_features [of "hs_features m'"]
    by (simp add: message_rest_def proto_key_def inj_map_eq_map del: hs_sortedKeys.simps)
  show "same_signed m m'"
    using vs fs get [of "''applicationId''"] get [of "''applicationVersion''"] get [of "''protocolVersion''"]
      get [of "''deviceId''"] get [of "''organisationId''"] get [of "''platform''"] get [of "''timestamp''"]
      get [of "''nonce''"] get [of "''signerPublicKey''"]
    by (simp add: same_signed_def message_rest_def proto_key_def)
next
  assume s: "same_signed m m'"
  have "hs_sortedKeys (JObj (map (\<lambda>e. (fst e, JNum (snd e))) (hs_entity_versions m))) =
      hs_sortedKeys (JObj (map (\<lambda>e. (fst e, JNum (snd e))) (hs_entity_versions m')))"
    by (rule sorted_versions_same) (use assms s in \<open>simp_all add: wf_message_def same_signed_def\<close>)
  then have "map (\<lambda>e. (fst e, hs_sortedKeys (snd e))) (members (message_rest m)) =
      map (\<lambda>e. (fst e, hs_sortedKeys (snd e))) (members (message_rest m'))"
    using s by (simp add: message_rest_def same_signed_def del: hs_sortedKeys.simps(2))
  then have "hs_sortedKeys (message_rest m) = hs_sortedKeys (message_rest m')"
    by (simp add: message_rest_def del: list.map)
  then show "canonicalizeHandshake m = canonicalizeHandshake m'" using handshake_canonical_iff [OF assms] by simp
qed

text \<open>The signed bytes of a handshake determine every field but the signature, with one exception: an
  entry \<open>__proto__\<close> of the entity versions.  Two messages have the same canonical bytes exactly when they
  agree on the other fields and on the versions of all other entities.\<close>

theorem handshake_bytes_bind:
  assumes "wf_message m" "wf_message m'"
  shows "canonicalizeHandshake m = canonicalizeHandshake m' \<longleftrightarrow> same_signed m m'"
  by (rule canonical_same_signed [OF assms])

theorem handshake_bytes_bind_witness:
  "canonicalizeHandshake sample_message =
   canonicalizeHandshake (sample_message\<lparr>hs_entity_versions := [(''note'', 1), (''__proto__'', 7)]\<rparr>)"
proof -
  let ?m = "sample_message\<lparr>hs_entity_versions := [(''note'', 1), (''__proto__'', 7)]\<rparr>"
  have o: "js_object [(''note'', 1 :: rat)]" "js_object [(''note'', 1 :: rat), (''__proto__'', 7)]" by code_simp+
  have "wf_message sample_message" "wf_message ?m" using o
    by (simp_all add: wf_message_def sample_message_def integral_def)
  moreover have "same_signed sample_message ?m"
    by (simp add: same_signed_def sample_message_def proto_key_def)
  ultimately show ?thesis using handshake_bytes_bind by blast
qed

end
