(* ===== verification/Outbox_Worker.thy ===== *)
theory Outbox_Worker
  imports Task_Claims Outbox
begin

text \<open>
  The task handler that drains the outbox (\<open>tasks/src/sync/OutboxSyncWorker.ts\<close>).  The code reaches the
  outbox through the interface \<open>OutboxBatchLoader\<close>: here a record of operations, whose contract is the
  locale \<open>batch_loader\<close>, interpreted on the outbox of the model.  The outcome of each dispatch and the
  moment the abort signal fires are parameters; the checks of the signal are numbered in the order in
  which the code makes them.
\<close>

section \<open>Interface\<close>

record outbox_entry =
  oe_envelope :: string
  oe_org :: string
  oe_group :: string
  oe_json :: string

record 's loader =
  ld_pending :: "string \<Rightarrow> jsnum \<Rightarrow> ('s, outbox_entry list) op"
  ld_sent :: "string \<Rightarrow> ('s, unit) op"
  ld_failed :: "string \<Rightarrow> ('s, unit) op"

record 's cycle_state =
  cy_store :: 's
  cy_calls :: "(string \<times> string \<times> string) list"
  cy_cursor :: "(string \<times> string) list option"

section \<open>The handler\<close>

text \<open>An upsert into a cursor table keyed by organisation; \<open>None\<close> stands for a table without those columns,
  where the statement fails and the code only logs.\<close>

definition persistCursor :: "string \<Rightarrow> string \<Rightarrow> ('s cycle_state, unit) op" where
  "persistCursor org now = modify (\<lambda>s. s\<lparr>cy_cursor := map_option (assoc_set org now) (cy_cursor s)\<rparr>)"

definition store_op :: "('s, 'a) op \<Rightarrow> ('s cycle_state, 'a) op" where
  "store_op = lift_op cy_store (\<lambda>t s. s\<lparr>cy_store := t\<rparr>)"

definition aborted_error :: js_error where
  "aborted_error = raise PlainError ''Outbox sync was aborted before the batch completed''"

text \<open>One entry: dispatch and mark sent; on an error, unless the signal has fired, mark failed.\<close>

definition dispatch_entry :: "'s loader \<Rightarrow> js_error option \<Rightarrow> outbox_entry \<Rightarrow> ('s cycle_state, unit) op" where
  "dispatch_entry ld outcome e =
     andthen (modify (\<lambda>s. s\<lparr>cy_calls := cy_calls s @ [(oe_org e, oe_group e, oe_json e)]\<rparr>))
     (\<lambda>_. case outcome of Some err \<Rightarrow> throw err | None \<Rightarrow> store_op (ld_sent ld (oe_envelope e)))"

fun dispatch_all :: "'s loader \<Rightarrow> (nat \<Rightarrow> js_error option) \<Rightarrow> (nat \<Rightarrow> bool) \<Rightarrow> nat \<Rightarrow> outbox_entry list \<Rightarrow>
    nat \<Rightarrow> nat \<Rightarrow> ('s cycle_state, nat \<times> nat) op" where
  "dispatch_all ld out sig n [] dispatched failed = ret (dispatched, failed)"
| "dispatch_all ld out sig n (e # es) dispatched failed =
     (if sig (2 * n + 1) then throw aborted_error
      else andthen (catch_op (andthen (dispatch_entry ld (out n) e) (\<lambda>_. ret True))
          (\<lambda>err. if sig (2 * n + 2) then throw err
             else andthen (store_op (ld_failed ld (oe_envelope e))) (\<lambda>_. ret False)))
        (\<lambda>ok. dispatch_all ld out sig (Suc n) es
           (if ok then dispatched + 1 else dispatched) (if ok then failed else failed + 1)))"

definition handle :: "'s loader \<Rightarrow> (nat \<Rightarrow> js_error option) \<Rightarrow> (nat \<Rightarrow> bool) \<Rightarrow> string \<Rightarrow> jsnum option \<Rightarrow> string \<Rightarrow>
    string \<Rightarrow> ('s cycle_state, unit) op" where
  "handle ld out sig org batchLimit ctxOrg now =
     andthen (guard (org = ctxOrg)
       (raise PlainError ''Outbox sync organisation does not match the task execution context''))
     (\<lambda>_. andthen (guard (\<not> sig 0) (raise PlainError ''Outbox sync was aborted before it started''))
     (\<lambda>_. andthen (store_op (ld_pending ld org (case batchLimit of Some l \<Rightarrow> l | None \<Rightarrow> Fin 50)))
     (\<lambda>batch. if batch = []
        then andthen (guard (\<not> sig 1) (raise PlainError ''Outbox sync was aborted before completion''))
          (\<lambda>_. persistCursor org now)
        else andthen (dispatch_all ld out sig 0 batch 0 0)
          (\<lambda>(dispatched, failed). andthen (guard (\<not> sig (2 * length batch + 1)) aborted_error)
          (\<lambda>_. andthen (persistCursor org now)
          (\<lambda>_. guard (\<not> (failed > 0 \<and> dispatched = 0))
            (raise PlainError (''[OutboxSyncWorker] All '' @ nat_str failed @ '' envelopes failed to dispatch.''))))))))"

definition num_json :: "jsnum \<Rightarrow> json" where
  "num_json q = (case q of Fin x \<Rightarrow> JNum x | _ \<Rightarrow> JNull)"

definition policy_as_overrides :: "retry_policy \<Rightarrow> policy_overrides" where
  "policy_as_overrides p = \<lparr>ov_max_attempts = Some (pol_max_attempts p), ov_initial_delay = Some (pol_initial_delay p),
     ov_multiplier = Some (pol_multiplier p), ov_max_delay = Some (pol_max_delay p), ov_jitter = Some (pol_jitter p)\<rparr>"

definition enqueueSync :: "string \<Rightarrow> jsnum \<Rightarrow> string \<Rightarrow> string \<Rightarrow> string \<Rightarrow> (task_table, unit) op" where
  "enqueueSync org batchLimit correlation newId now =
     andthen (enqueue \<lparr>def_type = ''platform.sync.outbox'', def_unique_key = Some (''sync:outbox:'' @ org),
        def_payload = Serializable (JObj [(''organisationId'', JStr org), (''batchLimit'', num_json batchLimit)]),
        def_scheduled_at = None, def_policy = policy_as_overrides DEFAULT_RETRY_POLICY, def_timeout = None,
        def_org = org, def_user = None, def_correlation = correlation\<rparr> newId now)
     (\<lambda>_. ret ())"

section \<open>The contract of a loader\<close>

text \<open>For one organisation and batch size: the identifiers still to send, and a bound on the failures left.\<close>

locale batch_loader =
  fixes pending :: "('s, outbox_entry list) op"
    and sent failed :: "string \<Rightarrow> ('s, unit) op"
    and inv :: "'s \<Rightarrow> bool"
    and todo :: "'s \<Rightarrow> string set"
    and weight :: "'s \<Rightarrow> nat"
  assumes pending_law: "inv s \<Longrightarrow> \<exists>es. pending s = (Inr es, s) \<and> distinct (map oe_envelope es) \<and>
      oe_envelope ` set es \<subseteq> todo s \<and> (todo s \<noteq> {} \<longrightarrow> es \<noteq> [])"
    and sent_law: "inv s \<Longrightarrow> \<exists>s'. sent i s = (Inr (), s') \<and> inv s' \<and> todo s' = todo s - {i} \<and>
      (if i \<in> todo s then weight s' < weight s else weight s' = weight s)"
    and failed_law: "inv s \<Longrightarrow> \<exists>s'. failed i s = (Inr (), s') \<and> inv s' \<and> todo s - {i} \<subseteq> todo s' \<and> todo s' \<subseteq> todo s \<and>
      (if i \<in> todo s then weight s' < weight s else weight s' = weight s)"
    and weight_law: "inv s \<Longrightarrow> todo s \<noteq> {} \<Longrightarrow> 0 < weight s"
begin

text \<open>An undisturbed batch always completes, calls the dispatcher once for each entry in order, and takes
  its length off the weight.\<close>

lemma batch_step:
  assumes "inv (cy_store s)" "ld_sent ld = sent" "ld_failed ld = failed" "\<forall>k. \<not> sig k"
    "distinct (map oe_envelope es)" "oe_envelope ` set es \<subseteq> todo (cy_store s)"
  shows "\<exists>d f s'. dispatch_all ld out sig n es d0 f0 s = (Inr (d, f), s') \<and> inv (cy_store s') \<and>
    weight (cy_store s') + length es \<le> weight (cy_store s) \<and> d + f = d0 + f0 + length es \<and>
    todo (cy_store s') \<subseteq> todo (cy_store s) \<and> cy_cursor s' = cy_cursor s \<and>
    cy_calls s' = cy_calls s @ map (\<lambda>e. (oe_org e, oe_group e, oe_json e)) es"
  using assms(1,5,6)
proof (induction es arbitrary: s n d0 f0)
  case Nil
  then show ?case by simp
next
  case (Cons e es)
  define s1 where "s1 = s\<lparr>cy_calls := cy_calls s @ [(oe_org e, oe_group e, oe_json e)]\<rparr>"
  have e: "oe_envelope e \<in> todo (cy_store s)" "oe_envelope e \<notin> oe_envelope ` set es" using Cons.prems by auto
  have "\<exists>ok t. catch_op (andthen (dispatch_entry ld (out n) e) (\<lambda>_. ret True))
          (\<lambda>err. if sig (2 * n + 2) then throw err
             else andthen (store_op (ld_failed ld (oe_envelope e))) (\<lambda>_. ret False)) s = (Inr ok, s1\<lparr>cy_store := t\<rparr>) \<and>
      inv t \<and> todo (cy_store s) - {oe_envelope e} \<subseteq> todo t \<and> todo t \<subseteq> todo (cy_store s) \<and> weight t < weight (cy_store s)"
  proof (cases "out n")
    case None
    obtain t where t: "sent (oe_envelope e) (cy_store s) = (Inr (), t)" "inv t" "todo t = todo (cy_store s) - {oe_envelope e}"
      "weight t < weight (cy_store s)" using sent_law [OF Cons.prems(1), of "oe_envelope e"] e(1) by auto
    then show ?thesis using None assms(2)
      by (intro exI [of _ True] exI [of _ t])
        (auto simp: catch_op_def dispatch_entry_def andthen_def modify_def store_op_def lift_op_def ret_def s1_def)
  next
    case (Some err)
    obtain t where t: "failed (oe_envelope e) (cy_store s) = (Inr (), t)" "inv t" "todo (cy_store s) - {oe_envelope e} \<subseteq> todo t"
      "todo t \<subseteq> todo (cy_store s)" "weight t < weight (cy_store s)"
      using failed_law [OF Cons.prems(1), of "oe_envelope e"] e(1) by auto
    then show ?thesis using Some assms(3,4)
      by (intro exI [of _ False] exI [of _ t])
        (auto simp: catch_op_def dispatch_entry_def andthen_def modify_def store_op_def lift_op_def ret_def throw_def s1_def)
  qed
  then obtain ok t where step: "catch_op (andthen (dispatch_entry ld (out n) e) (\<lambda>_. ret True))
          (\<lambda>err. if sig (2 * n + 2) then throw err
             else andthen (store_op (ld_failed ld (oe_envelope e))) (\<lambda>_. ret False)) s = (Inr ok, s1\<lparr>cy_store := t\<rparr>)"
    "inv t" "todo (cy_store s) - {oe_envelope e} \<subseteq> todo t" "todo t \<subseteq> todo (cy_store s)" "weight t < weight (cy_store s)"
    by blast
  have "oe_envelope ` set es \<subseteq> todo (cy_store s) - {oe_envelope e}" using e(2) Cons.prems(3) by (simp add: subset_Diff_insert)
  then have sub: "oe_envelope ` set es \<subseteq> todo t" using step(3) by blast
  let ?d = "if ok then d0 + 1 else d0" and ?f = "if ok then f0 else f0 + 1"
  obtain d f s' where IH: "dispatch_all ld out sig (Suc n) es ?d ?f (s1\<lparr>cy_store := t\<rparr>) = (Inr (d, f), s')"
    "inv (cy_store s')" "weight (cy_store s') + length es \<le> weight t" "d + f = ?d + ?f + length es"
    "todo (cy_store s') \<subseteq> todo t" "cy_cursor s' = cy_cursor s1"
    "cy_calls s' = cy_calls s1 @ map (\<lambda>e. (oe_org e, oe_group e, oe_json e)) es"
    using Cons.IH [of "s1\<lparr>cy_store := t\<rparr>" "Suc n" ?d ?f] step(2) sub Cons.prems(2) by auto
  have "dispatch_all ld out sig n (e # es) d0 f0 s = (Inr (d, f), s')"
    using step(1) IH(1) assms(4) by (simp add: run_andthen_Inr)
  moreover have "d + f = d0 + f0 + length (e # es)" using IH(4) by (cases ok) simp_all
  ultimately show ?case using IH step by (intro exI [of _ d] exI [of _ f] exI [of _ s']) (auto simp: s1_def)
qed

text \<open>An undisturbed cycle makes progress as long as there is something to send.\<close>

lemma cycle_progress:
  assumes "inv (cy_store s)" "ld_sent ld = sent" "ld_failed ld = failed"
    "ld_pending ld org (case limit of Some l \<Rightarrow> l | None \<Rightarrow> Fin 50) = pending" "\<forall>k. \<not> sig k"
  shows "\<exists>s'. snd (handle ld out sig org limit org now s) = s' \<and> inv (cy_store s') \<and>
    todo (cy_store s') \<subseteq> todo (cy_store s) \<and> weight (cy_store s') \<le> weight (cy_store s) \<and>
    (todo (cy_store s) \<noteq> {} \<longrightarrow> weight (cy_store s') < weight (cy_store s)) \<and>
    (\<exists>es. pending (cy_store s) = (Inr es, cy_store s) \<and>
       cy_calls s' = cy_calls s @ map (\<lambda>e. (oe_org e, oe_group e, oe_json e)) es)"
proof -
  obtain es where es: "pending (cy_store s) = (Inr es, cy_store s)" "distinct (map oe_envelope es)"
    "oe_envelope ` set es \<subseteq> todo (cy_store s)" "todo (cy_store s) \<noteq> {} \<longrightarrow> es \<noteq> []"
    using pending_law [OF assms(1)] by blast
  have load: "store_op (ld_pending ld org (case limit of Some l \<Rightarrow> l | None \<Rightarrow> Fin 50)) s = (Inr es, s)"
    using es(1) assms(4) by (simp add: store_op_def lift_op_def)
  show ?thesis
  proof (cases "es = []")
    case True
    then show ?thesis using es load assms
      by (intro exI [of _ "snd (persistCursor org now s)"]) (auto simp: handle_def run_andthen_Inr persistCursor_def)
  next
    case False
    obtain d f s' where b: "dispatch_all ld out sig 0 es 0 0 s = (Inr (d, f), s')" "inv (cy_store s')"
      "weight (cy_store s') + length es \<le> weight (cy_store s)" "todo (cy_store s') \<subseteq> todo (cy_store s)"
      "cy_calls s' = cy_calls s @ map (\<lambda>e. (oe_org e, oe_group e, oe_json e)) es"
      using batch_step [OF assms(1-3,5) es(2,3), of out 0 0 0] by auto
    have "snd (handle ld out sig org limit org now s) = snd (persistCursor org now s')"
      using load b(1) False assms(5) by (simp add: handle_def run_andthen_Inr persistCursor_def)
    moreover have "0 < length es" using False by simp
    then have "weight (cy_store s') < weight (cy_store s)" using b(3) by linarith
    ultimately show ?thesis using b es(1) by (auto simp: persistCursor_def)
  qed
qed

end

text \<open>Cycles one after another, each with its own dispatch outcomes, none aborted.\<close>

fun cycles :: "'s loader \<Rightarrow> string \<Rightarrow> jsnum option \<Rightarrow> string \<Rightarrow> (nat \<Rightarrow> js_error option) list \<Rightarrow>
    's cycle_state \<Rightarrow> 's cycle_state" where
  "cycles ld org limit now [] s = s"
| "cycles ld org limit now (out # outs) s =
     cycles ld org limit now outs (snd (handle ld out (\<lambda>_. False) org limit org now s))"

context batch_loader
begin

lemma cycles_drain:
  assumes "inv (cy_store s)" "ld_sent ld = sent" "ld_failed ld = failed"
    "ld_pending ld org (case limit of Some l \<Rightarrow> l | None \<Rightarrow> Fin 50) = pending" "weight (cy_store s) \<le> length outs"
  shows "inv (cy_store (cycles ld org limit now outs s)) \<and> todo (cy_store (cycles ld org limit now outs s)) = {}"
  using assms(1,5)
proof (induction outs arbitrary: s)
  case Nil
  then show ?case using weight_law [OF Nil(1)] by auto
next
  case (Cons out outs)
  let ?s = "snd (handle ld out (\<lambda>_. False) org limit org now s)"
  have p: "inv (cy_store ?s)" "todo (cy_store ?s) \<subseteq> todo (cy_store s)" "weight (cy_store ?s) \<le> weight (cy_store s)"
    "todo (cy_store s) \<noteq> {} \<longrightarrow> weight (cy_store ?s) < weight (cy_store s)"
    using cycle_progress [OF Cons.prems(1) assms(2-4), of "\<lambda>_. False" out now] by auto
  show ?case
  proof (cases "todo (cy_store s) = {}")
    case False
    then show ?thesis using Cons.IH [of ?s] p Cons.prems(2) by simp
  next
    case True
    have "inv (cy_store s) \<Longrightarrow> todo (cy_store s) = {} \<Longrightarrow>
        inv (cy_store (cycles ld org limit now outs s)) \<and> todo (cy_store (cycles ld org limit now outs s)) = {}" for s
    proof (induction outs arbitrary: s)
      case (Cons out outs)
      let ?t = "snd (handle ld out (\<lambda>_. False) org limit org now s)"
      have "inv (cy_store ?t)" "todo (cy_store ?t) = {}"
        using cycle_progress [OF Cons.prems(1) assms(2-4), of "\<lambda>_. False" out now] Cons.prems(2) by auto
      then show ?case using Cons.IH [of ?t] by simp
    qed simp
    then show ?thesis using p True by simp
  qed
qed

end

section \<open>The outbox as a loader\<close>

definition entry_of :: "outbox_row \<Rightarrow> outbox_entry" where
  "entry_of r = \<lparr>oe_envelope = ob_envelope_id r, oe_org = ob_org r, oe_group = ob_group r,
     oe_json = the (ob_envelope_json r)\<rparr>"

definition outbox_pending :: "string \<Rightarrow> jsnum \<Rightarrow> (outbox_table, outbox_entry list) op" where
  "outbox_pending org limit = andthen (pendingBatch org limit) (\<lambda>rows. ret (map entry_of rows))"

definition outbox_loader :: "string \<Rightarrow> outbox_table loader" where
  "outbox_loader now = \<lparr>ld_pending = outbox_pending, ld_sent = (\<lambda>i. outbox_markSent i now),
     ld_failed = (\<lambda>i. outbox_markFailed i (Fin 5) now)\<rparr>"

definition waits :: "string \<Rightarrow> outbox_row \<Rightarrow> bool" where
  "waits org r \<longleftrightarrow> ob_status r = OutPending \<and> ob_org r = org"

definition outbox_todo :: "string \<Rightarrow> outbox_table \<Rightarrow> string set" where
  "outbox_todo org rows = ob_envelope_id ` {r \<in> set rows. waits org r}"

text \<open>How many failures a waiting row can still take.\<close>

definition row_weight :: "string \<Rightarrow> outbox_row \<Rightarrow> nat" where
  "row_weight org r = (if waits org r then nat (max 1 (5 - ob_attempts r)) else 0)"

definition outbox_weight :: "string \<Rightarrow> outbox_table \<Rightarrow> nat" where
  "outbox_weight org rows = sum_list (map (row_weight org) rows)"

lemma sum_list_map_less:
  assumes "\<And>x. x \<in> set xs \<Longrightarrow> f x \<le> g x" "\<exists>x \<in> set xs. f x < g x"
  shows "sum_list (map f xs) < sum_list (map g (xs :: 'a list) :: nat list)"
  using assms
proof (induction xs)
  case (Cons x xs)
  have le: "sum_list (map f xs) \<le> sum_list (map g xs)" using Cons.prems(1) by (intro sum_list_mono) simp
  show ?case
  proof (cases "f x < g x")
    case False
    then have "sum_list (map f xs) < sum_list (map g xs)" using Cons by auto
    then show ?thesis using Cons.prems(1) [of x] by simp
  qed (use le in simp)
qed simp

text \<open>A change of the waiting rows of one envelope that keeps all else and lowers their weight.\<close>

lemma todo_update:
  assumes "\<And>r. ob_envelope_id (f r) = ob_envelope_id r"
    "\<And>r. ob_status r = OutPending \<Longrightarrow> waits org r \<Longrightarrow> 0 \<le> ob_attempts r \<Longrightarrow> row_weight org (f r) < row_weight org r"
    "\<And>r. ob_org (f r) = ob_org r" "\<forall>r \<in> set rows. 0 \<le> ob_attempts r"
    "rows' = sql_update (\<lambda>r. ob_envelope_id r = i \<and> ob_status r = OutPending) f rows"
  shows "outbox_todo org rows - {i} \<subseteq> outbox_todo org rows'" "outbox_todo org rows' \<subseteq> outbox_todo org rows"
    "if i \<in> outbox_todo org rows then outbox_weight org rows' < outbox_weight org rows
     else outbox_weight org rows' = outbox_weight org rows"
proof -
  let ?g = "\<lambda>r. if ob_envelope_id r = i \<and> ob_status r = OutPending then f r else r"
  have rows': "rows' = map ?g rows" by (simp add: assms(5) sql_update_def)
  show "outbox_todo org rows - {i} \<subseteq> outbox_todo org rows'"
    by (auto simp: outbox_todo_def rows' image_iff)
  have w: "waits org r" if "waits org (?g r)" for r
    using that assms(3) [of r] by (auto simp: waits_def split: if_splits)
  show "outbox_todo org rows' \<subseteq> outbox_todo org rows"
  proof
    fix e assume "e \<in> outbox_todo org rows'"
    then obtain r where r: "r \<in> set rows" "waits org (?g r)" "e = ob_envelope_id (?g r)"
      by (auto simp: outbox_todo_def rows')
    then have "e = ob_envelope_id r" using assms(1) by simp
    then show "e \<in> outbox_todo org rows" using w [OF r(2)] r(1) by (simp add: outbox_todo_def)
  qed
  have le: "row_weight org (?g r) \<le> row_weight org r" if "r \<in> set rows" for r
  proof (cases "waits org r")
    case True
    then show ?thesis using assms(2) [of r] assms(4) that by (auto simp: waits_def intro: less_imp_le)
  next
    case False
    then have "\<not> waits org (?g r)" using w by blast
    then show ?thesis by (simp add: row_weight_def)
  qed
  show "if i \<in> outbox_todo org rows then outbox_weight org rows' < outbox_weight org rows
     else outbox_weight org rows' = outbox_weight org rows"
  proof (cases "i \<in> outbox_todo org rows")
    case True
    then obtain r where r: "r \<in> set rows" "waits org r" "ob_envelope_id r = i" by (auto simp: outbox_todo_def)
    then have "row_weight org (?g r) < row_weight org r" using assms(2) [of r] assms(4) by (simp add: waits_def)
    then have "sum_list (map (\<lambda>r. row_weight org (?g r)) rows) < sum_list (map (row_weight org) rows)"
      using le r(1) by (intro sum_list_map_less bexI [of _ r]) auto
    then show ?thesis using True by (simp add: outbox_weight_def rows' comp_def)
  next
    case False
    have "row_weight org (?g r) = row_weight org r" if "r \<in> set rows" for r
    proof (cases "waits org r")
      case True
      then have "ob_envelope_id r \<noteq> i" using False that by (auto simp: outbox_todo_def)
      then show ?thesis by simp
    next
      case nw: False
      then have "\<not> waits org (?g r)" using w by blast
      then show ?thesis using nw by (simp add: row_weight_def)
    qed
    then show ?thesis using False by (simp add: outbox_weight_def rows' comp_def cong: map_cong)
  qed
qed

lemma todo_sql:
  "i \<in> outbox_todo org (sql_update p f rows) \<longleftrightarrow>
    (\<exists>r \<in> set rows. waits org (if p r then f r else r) \<and> ob_envelope_id (if p r then f r else r) = i)"
  unfolding outbox_todo_def set_sql_update by blast

definition outbox_ready :: "string \<Rightarrow> outbox_table \<Rightarrow> bool" where
  "outbox_ready org rows \<longleftrightarrow> outbox_inv rows \<and> trim org \<noteq> []"

lemma outbox_pending_run:
  assumes "outbox_ready org rows"
  shows "outbox_pending org (Fin 50) rows = (Inr (map entry_of (take 50 (pending_rows org rows))), rows)"
proof -
  have "pendingBatch org (Fin 50) rows = (Inr (take 50 (pending_rows org rows)), rows)"
    using pendingBatch_run [of rows org "Fin 50"] assms
    by (simp add: outbox_ready_def safe_int_def max_safe_integer_def MAX_OUTBOX_BATCH_SIZE_def)
  then show ?thesis by (simp add: outbox_pending_def run_andthen_Inr)
qed

lemma set_pending: "set (pending_rows org rows) = {r \<in> set rows. waits org r}"
  by (simp add: pending_rows_def waits_def)

interpretation outbox: batch_loader "outbox_pending org (Fin 50)" "\<lambda>i. outbox_markSent i now"
  "\<lambda>i. outbox_markFailed i (Fin 5) now" "outbox_ready org" "outbox_todo org" "outbox_weight org" for org now
proof
  fix s :: outbox_table and i
  assume ready: "outbox_ready org s"
  have inv: "outbox_inv s" and att: "\<forall>r \<in> set s. 0 \<le> ob_attempts r"
    using ready by (simp_all add: outbox_ready_def outbox_inv_def)
  show "\<exists>es. outbox_pending org (Fin 50) s = (Inr es, s) \<and> distinct (map oe_envelope es) \<and>
      oe_envelope ` set es \<subseteq> outbox_todo org s \<and> (outbox_todo org s \<noteq> {} \<longrightarrow> es \<noteq> [])"
  proof (intro exI conjI)
    show "outbox_pending org (Fin 50) s = (Inr (map entry_of (take 50 (pending_rows org s))), s)"
      by (rule outbox_pending_run [OF ready])
    have d: "distinct (map ob_envelope_id (pending_rows org s))"
      using inv by (simp add: pending_rows_def outbox_inv_def distinct_map_filter)
    have m: "map oe_envelope (map entry_of xs) = map ob_envelope_id xs" for xs
      by (simp add: entry_of_def comp_def)
    show "distinct (map oe_envelope (map entry_of (take 50 (pending_rows org s))))"
      unfolding m take_map [symmetric] by (rule distinct_take [OF d])
    show "oe_envelope ` set (map entry_of (take 50 (pending_rows org s))) \<subseteq> outbox_todo org s"
      by (auto simp: outbox_todo_def entry_of_def pending_rows_def waits_def dest!: in_set_takeD)
    have "outbox_todo org s = {}" if "pending_rows org s = []"
      using set_pending [of org s] that by (auto simp: outbox_todo_def)
    then show "outbox_todo org s \<noteq> {} \<longrightarrow> map entry_of (take 50 (pending_rows org s)) \<noteq> []" by auto
  qed
  let ?sent = "\<lambda>r. r\<lparr>ob_status := OutSent, ob_sent_at := Some now\<rparr>"
  have sent: "outbox_markSent i now s = (Inr (), sql_update (\<lambda>r. ob_envelope_id r = i \<and> ob_status r = OutPending) ?sent s)"
    by (simp add: outbox_markSent_def)
  have "i \<notin> outbox_todo org (sql_update (\<lambda>r. ob_envelope_id r = i \<and> ob_status r = OutPending) ?sent s)"
  proof
    assume "i \<in> outbox_todo org (sql_update (\<lambda>r. ob_envelope_id r = i \<and> ob_status r = OutPending) ?sent s)"
    then obtain r where r: "waits org (if ob_envelope_id r = i \<and> ob_status r = OutPending then ?sent r else r)"
      "ob_envelope_id (if ob_envelope_id r = i \<and> ob_status r = OutPending then ?sent r else r) = i"
      unfolding todo_sql by blast
    then show False by (cases "ob_envelope_id r = i \<and> ob_status r = OutPending") (simp_all add: waits_def)
  qed
  moreover have "row_weight org (?sent r) < row_weight org r" if "waits org r" for r
    using that by (simp add: row_weight_def waits_def)
  moreover have "outbox_ready org (snd (outbox_markSent i now s))"
    using outbox_step_inv [OF out_sent inv, of i now] ready by (simp add: outbox_ready_def)
  ultimately show "\<exists>s'. outbox_markSent i now s = (Inr (), s') \<and> outbox_ready org s' \<and> outbox_todo org s' = outbox_todo org s - {i} \<and>
      (if i \<in> outbox_todo org s then outbox_weight org s' < outbox_weight org s else outbox_weight org s' = outbox_weight org s)"
    using todo_update [where f = ?sent and org = org and rows = s and i = i, OF _ _ _ att refl] att
    by (intro exI conjI sent) (auto simp: sent waits_def)
  let ?fail = "failed_attempt (Fin 5) now"
  have fail: "outbox_markFailed i (Fin 5) now s = (Inr (), sql_update (\<lambda>r. ob_envelope_id r = i \<and> ob_status r = OutPending) ?fail s)"
    by (simp add: outbox_markFailed_def safe_int_def max_safe_integer_def)
  have "row_weight org (?fail r) < row_weight org r" if "waits org r" "0 \<le> ob_attempts r" for r
    using that by (auto simp: row_weight_def waits_def failed_attempt_def)
  moreover have "ob_org (?fail r) = ob_org r" for r by (simp add: failed_attempt_def)
  moreover have "outbox_ready org (snd (outbox_markFailed i (Fin 5) now s))"
    using outbox_step_inv [OF out_failed inv, of i "Fin 5" now] ready by (simp add: outbox_ready_def)
  ultimately show "\<exists>s'. outbox_markFailed i (Fin 5) now s = (Inr (), s') \<and> outbox_ready org s' \<and> outbox_todo org s - {i} \<subseteq> outbox_todo org s' \<and>
      outbox_todo org s' \<subseteq> outbox_todo org s \<and>
      (if i \<in> outbox_todo org s then outbox_weight org s' < outbox_weight org s else outbox_weight org s' = outbox_weight org s)"
    using todo_update [where f = ?fail and org = org and rows = s and i = i, OF _ _ _ att refl] att
    by (intro exI conjI fail) (auto simp: fail waits_def)
  assume "outbox_todo org s \<noteq> {}"
  then obtain r where "r \<in> set s" "waits org r" by (auto simp: outbox_todo_def)
  then have "row_weight org r \<le> outbox_weight org s" "0 < row_weight org r"
    by (auto simp: outbox_weight_def row_weight_def intro: member_le_sum_list)
  then show "0 < outbox_weight org s" by linarith
qed

section \<open>Every envelope is settled\<close>

lemma weight_bound: "outbox_inv rows \<Longrightarrow> outbox_weight org rows \<le> 5 * length (filter (waits org) rows)"
proof -
  have le: "row_weight org r \<le> (if waits org r then 5 else 0)" if "0 \<le> ob_attempts r" for r
    using that by (auto simp: row_weight_def)
  have "(\<forall>r \<in> set rows. 0 \<le> ob_attempts r) \<Longrightarrow> outbox_weight org rows \<le> 5 * length (filter (waits org) rows)"
  proof (induction rows)
    case (Cons r rows)
    then have "outbox_weight org rows \<le> 5 * length (filter (waits org) rows)" by simp
    then show ?case using le [of r] Cons.prems by (cases "waits org r") (simp_all add: outbox_weight_def)
  qed (simp add: outbox_weight_def)
  then show "outbox_inv rows \<Longrightarrow> ?thesis" by (simp add: outbox_inv_def)
qed

lemma cycles_settle:
  assumes "outbox_inv rows" "trim org \<noteq> []" "5 * length (filter (waits org) rows) \<le> length outs" "cy_store s = rows"
  shows "\<forall>r \<in> set (cy_store (cycles (outbox_loader now) org None t outs s)). \<not> waits org r"
proof -
  have "outbox_weight org rows \<le> length outs" using weight_bound [OF assms(1), of org] assms(3) by linarith
  moreover have "outbox_ready org rows" using assms(1,2) by (simp add: outbox_ready_def)
  ultimately have "outbox_todo org (cy_store (cycles (outbox_loader now) org None t outs s)) = {}"
    using outbox.cycles_drain [of org s "outbox_loader now" now org None outs t] assms(4)
    by (simp add: outbox_loader_def)
  then show ?thesis by (auto simp: outbox_todo_def)
qed

text \<open>C16. Every queued envelope is settled: from any reachable outbox, whatever the dispatcher does, five
  cycles for each waiting envelope of an organisation, none of them aborted, leave no envelope of that
  organisation waiting; and each cycle calls the dispatcher exactly once for each of the oldest fifty
  waiting envelopes, in order, with the stored text.\<close>

theorem outbox_settles:
  assumes "outbox_step\<^sup>*\<^sup>* [] rows" "trim org \<noteq> []" "5 * length (filter (waits org) rows) \<le> length outs" "cy_store s = rows"
  shows "(\<forall>r \<in> set (cy_store (cycles (outbox_loader now) org None t outs s)). \<not> waits org r) \<and>
    cy_calls (snd (handle (outbox_loader now) out (\<lambda>_. False) org None org t s)) = cy_calls s @
      map (\<lambda>r. (ob_org r, ob_group r, the (ob_envelope_json r))) (take 50 (pending_rows org rows))"
proof
  have inv: "outbox_inv rows" using outbox_history_inv [OF assms(1)] outbox_inv_Nil by blast
  show "\<forall>r \<in> set (cy_store (cycles (outbox_loader now) org None t outs s)). \<not> waits org r"
    by (rule cycles_settle [OF inv assms(2-4)])
  have ready: "outbox_ready org (cy_store s)" using inv assms(2,4) by (simp add: outbox_ready_def)
  obtain es where "outbox_pending org (Fin 50) (cy_store s) = (Inr es, cy_store s)"
    "cy_calls (snd (handle (outbox_loader now) out (\<lambda>_. False) org None org t s)) =
      cy_calls s @ map (\<lambda>e. (oe_org e, oe_group e, oe_json e)) es"
    using outbox.cycle_progress [OF ready, of "outbox_loader now" now org None "\<lambda>_. False" out t]
    by (auto simp: outbox_loader_def)
  then show "cy_calls (snd (handle (outbox_loader now) out (\<lambda>_. False) org None org t s)) = cy_calls s @
      map (\<lambda>r. (ob_org r, ob_group r, the (ob_envelope_json r))) (take 50 (pending_rows org rows))"
    using outbox_pending_run [OF ready] assms(4) by (simp add: entry_of_def comp_def)
qed

theorem outbox_settles_witness:
  "filter (waits ''org'') (cy_store (cycles (outbox_loader ''2027'') ''org'' None ''t'' (replicate 5 (\<lambda>_. Some aborted_error))
     \<lparr>cy_store = [sample_out], cy_calls = [], cy_cursor = None\<rparr>)) = []"
proof -
  have r: "outbox_step\<^sup>*\<^sup>* [] [sample_out]" using sample_outbox_step by (rule r_into_rtranclp)
  have t: "trim ''org'' \<noteq> []" by code_simp
  have "5 * length (filter (waits ''org'') [sample_out]) \<le> length (replicate 5 (\<lambda>_ :: nat. Some aborted_error))" by simp
  from outbox_settles [OF r t this, of "\<lparr>cy_store = [sample_out], cy_calls = [], cy_cursor = None\<rparr>", THEN conjunct1]
  show ?thesis by (simp add: filter_empty_conv)
qed

end
