(* ===== verification/Task_Worker.thy ===== *)
theory Task_Worker
  imports Task_Claims
begin

text \<open>
  The background worker (\<open>tasks/src/worker/TaskWorker.ts\<close>).  The queue operations it calls, with their
  clock and random readings, are a record of operations whose contract is the locale \<open>task_store\<close>,
  interpreted on the task queue of the model.  A poll awaits the claim between reading its free places
  and dispatching, and an execution awaits its handler, so the worker is a transition system whose
  steps are the pieces of code between two awaits.  Timers are numbered handles.
\<close>

section \<open>State\<close>

record worker_options =
  wo_concurrency :: "jsnum option"
  wo_poll_ms :: "jsnum option"
  wo_grace_ms :: "jsnum option"

record 's queue_ops =
  qo_claim :: "jsnum \<Rightarrow> string list \<Rightarrow> ('s, task_record list) op"
  qo_completed :: "string \<Rightarrow> ('s, unit) op"
  qo_failed :: "string \<Rightarrow> thrown \<Rightarrow> ('s, bool) op"
  qo_cancel :: "string \<Rightarrow> string \<Rightarrow> ('s, unit) op"

record 's worker =
  tw_queue :: 's
  tw_concurrency :: int
  tw_poll_ms :: int
  tw_grace_ms :: int
  tw_handlers :: "string list"
  tw_running :: bool
  tw_timer :: "nat option"
  tw_timers :: "nat list"
  tw_next :: nat
  tw_polls :: "(int \<times> string list) list"
  tw_inflight :: "task_record list"
  tw_notified :: "nat list"
  tw_exhausted :: "(string \<times> string) list"

section \<open>Options\<close>

definition invalid_option :: "string \<Rightarrow> jsnum \<Rightarrow> js_error" where
  "invalid_option field value = raise ValidationError (''TaskWorker option '' @ field @
     '' must be a positive safe integer; received '' @ jsnum_str value)"

definition validateOptions :: "worker_options \<Rightarrow> js_error + unit" where
  "validateOptions opts = (case find_first (\<lambda>(field, value). case value of None \<Rightarrow> False
       | Some v \<Rightarrow> \<not> is_safe_integer v \<or> js_le v (Fin 0))
       [(''concurrency'', wo_concurrency opts), (''pollIntervalMs'', wo_poll_ms opts),
        (''gracefulShutdownTimeoutMs'', wo_grace_ms opts)] of
     Some (field, value) \<Rightarrow> Inl (invalid_option field (the value))
   | None \<Rightarrow> Inr ())"

definition pick_int :: "jsnum option \<Rightarrow> int \<Rightarrow> int" where
  "pick_int o' d = (case o' of Some v \<Rightarrow> \<lfloor>num_val v\<rfloor> | None \<Rightarrow> d)"

definition new_worker :: "worker_options \<Rightarrow> 's \<Rightarrow> js_error + 's worker" where
  "new_worker opts queue = (case validateOptions opts of Inl e \<Rightarrow> Inl e | Inr _ \<Rightarrow> Inr
     \<lparr>tw_queue = queue, tw_concurrency = pick_int (wo_concurrency opts) 3,
      tw_poll_ms = pick_int (wo_poll_ms opts) 5000, tw_grace_ms = pick_int (wo_grace_ms opts) 30000,
      tw_handlers = [], tw_running = False, tw_timer = None, tw_timers = [], tw_next = 0, tw_polls = [],
      tw_inflight = [], tw_notified = [], tw_exhausted = []\<rparr>)"

definition register :: "string \<Rightarrow> ('s worker, unit) op" where
  "register taskType = modify (\<lambda>w. w\<lparr>tw_handlers :=
     (if taskType \<in> set (tw_handlers w) then tw_handlers w else tw_handlers w @ [taskType])\<rparr>)"

definition reconfigure :: "worker_options \<Rightarrow> ('s worker, unit) op" where
  "reconfigure opts = andthen (from_result (validateOptions opts)) (\<lambda>_. modify (\<lambda>w.
     w\<lparr>tw_concurrency := pick_int (wo_concurrency opts) (tw_concurrency w),
       tw_poll_ms := pick_int (wo_poll_ms opts) (tw_poll_ms w),
       tw_grace_ms := pick_int (wo_grace_ms opts) (tw_grace_ms w)\<rparr>))"

section \<open>Starting, stopping and polling\<close>

definition schedulePoll :: "'s worker \<Rightarrow> 's worker" where
  "schedulePoll w = w\<lparr>tw_timer := Some (tw_next w), tw_timers := tw_timers w @ [tw_next w], tw_next := tw_next w + 1\<rparr>"

definition start :: "('s worker, unit) op" where
  "start = modify (\<lambda>w. if tw_running w then w else schedulePoll (w\<lparr>tw_running := True\<rparr>))"

text \<open>What \<open>stop\<close> does before it waits for the current poll and the executions.\<close>

definition stop :: "('s worker, unit) op" where
  "stop = modify (\<lambda>w. if \<not> tw_running w then w
     else w\<lparr>tw_running := False, tw_timer := None,
       tw_timers := (case tw_timer w of Some h \<Rightarrow> removeAll h (tw_timers w) | None \<Rightarrow> tw_timers w)\<rparr>)"

definition notifyPollComplete :: "nat \<Rightarrow> 's worker \<Rightarrow> 's worker" where
  "notifyPollComplete n w = w\<lparr>tw_notified := tw_notified w @ [n]\<rparr>"

definition reschedule :: "'s worker \<Rightarrow> 's worker" where
  "reschedule w = (if tw_running w then schedulePoll w else w)"

text \<open>A timer fires: the poll up to the claim.\<close>

definition poll_begin :: "nat \<Rightarrow> 's worker \<Rightarrow> 's worker" where
  "poll_begin h w0 = (let w = w0\<lparr>tw_timers := removeAll h (tw_timers w0)\<rparr>;
       available = tw_concurrency w - int (length (tw_inflight w))
     in if \<not> tw_running w then w
        else if available > 0 \<and> tw_handlers w \<noteq> []
        then w\<lparr>tw_polls := tw_polls w @ [(available, tw_handlers w)]\<rparr>
        else reschedule (notifyPollComplete 0 w))"

text \<open>The claim answers: dispatch what is not in flight, notify and schedule the next poll.\<close>

definition dispatch :: "task_record list \<Rightarrow> 's worker \<Rightarrow> 's worker" where
  "dispatch claimed w = foldl (\<lambda>w t. if task_id (fst t) \<in> task_id ` fst ` set (tw_inflight w) then w
     else w\<lparr>tw_inflight := tw_inflight w @ [t]\<rparr>) w claimed"

definition poll_end :: "'s queue_ops \<Rightarrow> int \<times> string list \<Rightarrow> 's worker \<Rightarrow> 's worker" where
  "poll_end q p w0 = (let w = w0\<lparr>tw_polls := remove1 p (tw_polls w0)\<rparr> in
     case qo_claim q (Fin (of_int (fst p))) (snd p) (tw_queue w) of
       (Inl e, s) \<Rightarrow> reschedule (w\<lparr>tw_queue := s\<rparr>)
     | (Inr claimed, s) \<Rightarrow> reschedule (notifyPollComplete (length claimed) (dispatch claimed (w\<lparr>tw_queue := s\<rparr>))))"

section \<open>Executing a task\<close>

text \<open>The handler's outcome and whether the timeout signal fired; an error of a queue call that the code
  does not catch is only logged.\<close>

definition execution_error :: "thrown option \<Rightarrow> bool \<Rightarrow> task_record \<Rightarrow> thrown option" where
  "execution_error outcome aborted t = (case outcome of Some e \<Rightarrow> Some e
     | None \<Rightarrow> if aborted then Some (Thrown (raise PlainError (''Task timed out after '' @
         num_str (of_int (task_timeout (fst t))) @ ''ms''))) else None)"

definition fail_execution :: "'s queue_ops \<Rightarrow> task_record \<Rightarrow> thrown \<Rightarrow> 's worker \<Rightarrow> 's worker" where
  "fail_execution q t err w = (case qo_failed q (task_id (fst t)) err (tw_queue w) of
     (Inl e, s) \<Rightarrow> w\<lparr>tw_queue := s\<rparr>
   | (Inr willRetry, s) \<Rightarrow> if willRetry then w\<lparr>tw_queue := s\<rparr>
       else w\<lparr>tw_queue := s, tw_exhausted := tw_exhausted w @ [(task_id (fst t), task_type (fst t))]\<rparr>)"

definition executeTask :: "'s queue_ops \<Rightarrow> task_record \<Rightarrow> thrown option \<Rightarrow> bool \<Rightarrow> 's worker \<Rightarrow> 's worker" where
  "executeTask q t outcome aborted w =
     (if task_type (fst t) \<notin> set (tw_handlers w)
      then w\<lparr>tw_queue := snd (qo_cancel q (task_id (fst t)) (''No handler registered for \"'' @ task_type (fst t) @ ''\".'')
        (tw_queue w))\<rparr>
      else (case execution_error outcome aborted t of
          Some err \<Rightarrow> fail_execution q t err w
        | None \<Rightarrow> (case qo_completed q (task_id (fst t)) (tw_queue w) of
              (Inr _, s) \<Rightarrow> w\<lparr>tw_queue := s\<rparr>
            | (Inl e, s) \<Rightarrow> fail_execution q t (Thrown e) (w\<lparr>tw_queue := s\<rparr>))))"

definition execution_end :: "'s queue_ops \<Rightarrow> task_record \<Rightarrow> thrown option \<Rightarrow> bool \<Rightarrow> 's worker \<Rightarrow> 's worker" where
  "execution_end q t outcome aborted w = (let w' = executeTask q t outcome aborted w in
     w'\<lparr>tw_inflight := filter (\<lambda>u. task_id (fst u) \<noteq> task_id (fst t)) (tw_inflight w')\<rparr>)"

section \<open>Histories\<close>

datatype worker_event = Start | Stop | Fire | Claim | Finish | Register | Reconfigure | Others

text \<open>The queue operations of one step, with the readings of that moment, come from the set \<open>Q\<close>; other
  users of the queue change it along \<open>R\<close>.\<close>

inductive worker_step :: "'s queue_ops set \<Rightarrow> ('s \<Rightarrow> 's \<Rightarrow> bool) \<Rightarrow> worker_event \<Rightarrow> 's worker \<Rightarrow> 's worker \<Rightarrow> bool"
  for Q R where
  w_start: "worker_step Q R Start w (snd (start w))"
| w_stop: "worker_step Q R Stop w (snd (stop w))"
| w_fire: "h \<in> set (tw_timers w) \<Longrightarrow> worker_step Q R Fire w (poll_begin h w)"
| w_claim: "q \<in> Q \<Longrightarrow> p \<in> set (tw_polls w) \<Longrightarrow> worker_step Q R Claim w (poll_end q p w)"
| w_finish: "q \<in> Q \<Longrightarrow> t \<in> set (tw_inflight w) \<Longrightarrow>
    worker_step Q R Finish w (execution_end q t outcome aborted w)"
| w_register: "worker_step Q R Register w (snd (register taskType w))"
| w_reconfigure: "worker_step Q R Reconfigure w (snd (reconfigure opts w))"
| w_others: "R (tw_queue w) s \<Longrightarrow> worker_step Q R Others w (w\<lparr>tw_queue := s\<rparr>)"

text \<open>A caller that awaits \<open>stop\<close> only starts again when the current poll has ended.\<close>

definition awaited_step :: "'s queue_ops set \<Rightarrow> ('s \<Rightarrow> 's \<Rightarrow> bool) \<Rightarrow> 's worker \<Rightarrow> 's worker \<Rightarrow> bool" where
  "awaited_step Q R w w' \<longleftrightarrow> (\<exists>ev. worker_step Q R ev w w' \<and> (ev = Start \<and> \<not> tw_running w \<longrightarrow> tw_polls w = []))"

text \<open>A history of such steps from a worker, with the largest concurrency it was ever configured with.\<close>

inductive awaited_run :: "'s queue_ops set \<Rightarrow> ('s \<Rightarrow> 's \<Rightarrow> bool) \<Rightarrow> 's worker \<Rightarrow> int \<Rightarrow> 's worker \<Rightarrow> bool"
  for Q R w0 where
  run_new: "awaited_run Q R w0 (tw_concurrency w0) w0"
| run_step: "awaited_run Q R w0 peak w \<Longrightarrow> awaited_step Q R w w' \<Longrightarrow> awaited_run Q R w0 (max peak (tw_concurrency w')) w'"

definition any_step :: "'s queue_ops set \<Rightarrow> ('s \<Rightarrow> 's \<Rightarrow> bool) \<Rightarrow> 's worker \<Rightarrow> 's worker \<Rightarrow> bool" where
  "any_step Q R w w' \<longleftrightarrow> (\<exists>ev. worker_step Q R ev w w')"

section \<open>The contract of the queue\<close>

locale task_store =
  fixes Q :: "'s queue_ops set" and R :: "'s \<Rightarrow> 's \<Rightarrow> bool" and inv :: "'s \<Rightarrow> bool"
  assumes claim_law: "q \<in> Q \<Longrightarrow> inv s \<Longrightarrow> qo_claim q n types s = (Inr ts, s') \<Longrightarrow>
      inv s' \<and> of_nat (length ts) \<le> num_val n"
    and claim_error: "q \<in> Q \<Longrightarrow> inv s \<Longrightarrow> qo_claim q n types s = (Inl e, s') \<Longrightarrow> inv s'"
    and other_laws: "q \<in> Q \<Longrightarrow> inv s \<Longrightarrow> inv (snd (qo_completed q i s)) \<and> inv (snd (qo_failed q i err s)) \<and>
      inv (snd (qo_cancel q i m s))"
    and others_law: "R s s' \<Longrightarrow> inv s \<Longrightarrow> inv s'"
begin

text \<open>At most one poll is scheduled or under way, and its places are free below the largest concurrency so far.\<close>

definition quiet :: "int \<Rightarrow> 's worker \<Rightarrow> bool" where
  "quiet M w \<longleftrightarrow> inv (tw_queue w) \<and> length (tw_timers w) + length (tw_polls w) \<le> 1 \<and>
     (\<forall>h \<in> set (tw_timers w). tw_timer w = Some h) \<and> (\<not> tw_running w \<longrightarrow> tw_timers w = []) \<and>
     (\<forall>p \<in> set (tw_polls w). 0 < fst p) \<and> distinct (map (task_id \<circ> fst) (tw_inflight w)) \<and>
     int (length (tw_inflight w)) + sum_list (map fst (tw_polls w)) \<le> M \<and> tw_concurrency w \<le> M"

lemma quiet_mono: "quiet M w \<Longrightarrow> M \<le> M' \<Longrightarrow> quiet M' w"
  by (auto simp: quiet_def)

lemma dispatch_bound:
  "length (tw_inflight (dispatch ts w)) \<le> length (tw_inflight w) + length ts"
  "distinct (map (task_id \<circ> fst) (tw_inflight w)) \<Longrightarrow> distinct (map (task_id \<circ> fst) (tw_inflight (dispatch ts w)))"
  "tw_queue (dispatch ts w) = tw_queue w" "tw_timers (dispatch ts w) = tw_timers w" "tw_polls (dispatch ts w) = tw_polls w"
  "tw_timer (dispatch ts w) = tw_timer w" "tw_running (dispatch ts w) = tw_running w"
  "tw_concurrency (dispatch ts w) = tw_concurrency w"
proof (induction ts arbitrary: w)
  case (Cons t ts)
  case 1
  then show ?case using Cons(1) [of "w\<lparr>tw_inflight := tw_inflight w @ [t]\<rparr>"] Cons(1) [of w]
    by (simp add: dispatch_def)
next
  case (Cons t ts)
  case 2
  then show ?case using Cons(2) [of "w\<lparr>tw_inflight := tw_inflight w @ [t]\<rparr>"] Cons(2) [of w]
    by (auto simp: dispatch_def)
qed (simp_all add: dispatch_def)

lemma reschedule_quiet:
  assumes "inv (tw_queue w)" "tw_timers w = []" "tw_polls w = []" "distinct (map (task_id \<circ> fst) (tw_inflight w))"
    "int (length (tw_inflight w)) \<le> M" "tw_concurrency w \<le> M"
  shows "quiet M (reschedule w)"
  using assms by (simp add: quiet_def reschedule_def schedulePoll_def)

lemma executeTask_fields:
  "tw_timers (executeTask q t outcome aborted w) = tw_timers w" "tw_polls (executeTask q t outcome aborted w) = tw_polls w"
  "tw_timer (executeTask q t outcome aborted w) = tw_timer w" "tw_running (executeTask q t outcome aborted w) = tw_running w"
  "tw_concurrency (executeTask q t outcome aborted w) = tw_concurrency w"
  "tw_inflight (executeTask q t outcome aborted w) = tw_inflight w"
  "tw_handlers (executeTask q t outcome aborted w) = tw_handlers w"
  by (auto simp: executeTask_def fail_execution_def split: option.split sum.split prod.split)

lemma fail_execution_inv: "q \<in> Q \<Longrightarrow> inv (tw_queue w) \<Longrightarrow> inv (tw_queue (fail_execution q t err w))"
proof -
  assume "q \<in> Q" "inv (tw_queue w)"
  then have "inv (snd (qo_failed q (task_id (fst t)) err (tw_queue w)))" using other_laws by blast
  moreover obtain r s where "qo_failed q (task_id (fst t)) err (tw_queue w) = (r, s)" by fastforce
  ultimately show ?thesis by (cases r) (simp_all add: fail_execution_def)
qed

lemma executeTask_inv: "q \<in> Q \<Longrightarrow> inv (tw_queue w) \<Longrightarrow> inv (tw_queue (executeTask q t outcome aborted w))"
proof -
  assume q: "q \<in> Q" "inv (tw_queue w)"
  obtain r s where c: "qo_completed q (task_id (fst t)) (tw_queue w) = (r, s)" by fastforce
  then have s: "inv s" using other_laws [OF q, of "task_id (fst t)"] by simp
  show ?thesis
  proof (cases "task_type (fst t) \<in> set (tw_handlers w)")
    case False
    then show ?thesis using other_laws [OF q] by (simp add: executeTask_def)
  next
    case True
    show ?thesis
    proof (cases "execution_error outcome aborted t")
      case None
      then show ?thesis using True c s fail_execution_inv [OF q(1)] by (cases r) (simp_all add: executeTask_def)
    next
      case (Some err)
      then show ?thesis using True fail_execution_inv [OF q] by (simp add: executeTask_def)
    qed
  qed
qed

lemma fire_quiet:
  assumes "quiet M w" "h \<in> set (tw_timers w)"
  shows "quiet M (poll_begin h w)"
proof -
  have t: "tw_timers w = [h]" "tw_polls w = []"
    using assms by (cases "tw_timers w"; auto simp: quiet_def)+
  define w1 where "w1 = w\<lparr>tw_timers := removeAll h (tw_timers w)\<rparr>"
  have w1: "quiet M w1" "tw_timers w1 = []" "tw_polls w1 = []" using assms t by (auto simp: quiet_def w1_def)
  then show ?thesis
    using reschedule_quiet [of "notifyPollComplete 0 w1"] w1
    by (auto simp: poll_begin_def Let_def w1_def [symmetric] quiet_def notifyPollComplete_def)
qed

lemma claim_quiet:
  assumes "quiet M w" "p \<in> set (tw_polls w)" "q \<in> Q"
  shows "quiet M (poll_end q p w)"
proof -
  have p: "tw_polls w = [p]" "tw_timers w = []"
    using assms(1,2) by (cases "tw_polls w"; auto simp: quiet_def)+
  define w1 where "w1 = w\<lparr>tw_polls := remove1 p (tw_polls w)\<rparr>"
  have w1: "tw_timers w1 = []" "tw_polls w1 = []" "tw_queue w1 = tw_queue w" "tw_inflight w1 = tw_inflight w"
    "tw_concurrency w1 = tw_concurrency w"
    using p by (simp_all add: w1_def)
  have b: "inv (tw_queue w)" "distinct (map (task_id \<circ> fst) (tw_inflight w))" "0 < fst p"
    "int (length (tw_inflight w)) + fst p \<le> M" "tw_concurrency w \<le> M" using assms(1) p by (simp_all add: quiet_def)
  obtain r s where c: "qo_claim q (Fin (of_int (fst p))) (snd p) (tw_queue w) = (r, s)" by fastforce
  show ?thesis
  proof (cases r)
    case (Inl e)
    have "inv s" using claim_error [OF assms(3) b(1)] c Inl by blast
    then have "quiet M (reschedule (w1\<lparr>tw_queue := s\<rparr>))" using w1 b by (intro reschedule_quiet) simp_all
    then show ?thesis using c Inl w1(3) by (simp add: poll_end_def w1_def [symmetric] Let_def)
  next
    case (Inr ts)
    have l: "inv s" "of_nat (length ts) \<le> (of_int (fst p) :: rat)"
      using claim_law [OF assms(3) b(1), of "Fin (of_int (fst p))" "snd p" ts s] c Inr by auto
    then have "int (length ts) \<le> fst p" by (metis of_int_le_iff of_int_of_nat_eq)
    moreover have "length (tw_inflight (dispatch ts (w1\<lparr>tw_queue := s\<rparr>))) \<le> length (tw_inflight w) + length ts"
      using dispatch_bound(1) [of ts "w1\<lparr>tw_queue := s\<rparr>"] w1 by simp
    ultimately have "quiet M (reschedule (notifyPollComplete (length ts) (dispatch ts (w1\<lparr>tw_queue := s\<rparr>))))"
      using l(1) w1 b dispatch_bound(2) [of "w1\<lparr>tw_queue := s\<rparr>" ts]
      by (intro reschedule_quiet) (simp_all add: notifyPollComplete_def dispatch_bound)
    then show ?thesis using c Inr w1(3) by (simp add: poll_end_def w1_def [symmetric] Let_def)
  qed
qed

lemma finish_quiet:
  assumes "quiet M w" "q \<in> Q"
  shows "quiet M (execution_end q t outcome aborted w)"
proof -
  let ?keep = "\<lambda>u. task_id (fst u) \<noteq> task_id (fst t)"
  have "int (length (filter ?keep (tw_inflight w))) + sum_list (map fst (tw_polls w)) \<le> M"
    using assms(1) length_filter_le [of ?keep "tw_inflight w"] unfolding quiet_def by linarith
  moreover have "distinct (map (task_id \<circ> fst) (filter ?keep (tw_inflight w)))"
    using assms(1) by (simp add: quiet_def distinct_map_filter)
  moreover have "inv (tw_queue (executeTask q t outcome aborted w))"
    using executeTask_inv [OF assms(2)] assms(1) by (simp add: quiet_def)
  ultimately show ?thesis
    using assms(1) by (auto simp: quiet_def execution_end_def Let_def executeTask_fields)
qed

lemma reschedule_concurrency [simp]: "tw_concurrency (reschedule w) = tw_concurrency w"
  by (simp add: reschedule_def schedulePoll_def)

lemma awaited_quiet:
  assumes "awaited_step Q R w w'" "quiet M w"
  shows "quiet (max M (tw_concurrency w')) w'"
proof -
  obtain ev where ev: "worker_step Q R ev w w'" "ev = Start \<and> \<not> tw_running w \<longrightarrow> tw_polls w = []"
    using assms(1) by (auto simp: awaited_step_def)
  have "quiet M w' \<or> (\<exists>opts. w' = snd (reconfigure opts w))"
    using ev(1)
  proof (cases rule: worker_step.cases)
    case w_start
    then show ?thesis using assms(2) ev(2)
      by (auto simp: start_def quiet_def schedulePoll_def)
  next
    case w_stop
    then show ?thesis using assms(2) by (cases "tw_timers w") (auto simp: stop_def quiet_def split: option.split)
  next
    case (w_fire h)
    then show ?thesis using fire_quiet assms(2) by simp
  next
    case (w_claim q p)
    then show ?thesis using claim_quiet assms(2) by simp
  next
    case (w_finish q t outcome aborted)
    then show ?thesis using finish_quiet assms(2) by simp
  next
    case (w_register ty)
    then show ?thesis using assms(2) by (simp add: register_def quiet_def)
  next
    case (w_reconfigure opts)
    then show ?thesis by blast
  next
    case (w_others s)
    then show ?thesis using assms(2) others_law by (simp add: quiet_def)
  qed
  then show ?thesis
  proof
    assume "quiet M w'"
    then show ?thesis by (rule quiet_mono) simp
  next
    assume "\<exists>opts. w' = snd (reconfigure opts w)"
    then obtain opts where w': "w' = snd (reconfigure opts w)" by blast
    show ?thesis using assms(2) unfolding w' by (cases "validateOptions opts") (auto simp: reconfigure_def quiet_def)
  qed
qed

lemma awaited_run_quiet:
  assumes "new_worker opts s0 = Inr w0" "inv s0" "awaited_run Q R w0 peak w"
  shows "quiet peak w"
  using assms(3)
proof (induction rule: awaited_run.induct)
  case run_new
  have "\<not> js_le v (Fin 0)" if "wo_concurrency opts = Some v" for v
    using assms(1) that by (auto simp: new_worker_def validateOptions_def split: if_splits option.splits)
  then have "0 \<le> tw_concurrency w0"
    using assms(1) by (auto simp: new_worker_def pick_int_def split: sum.splits option.splits elim: js_le.elims)
  then show ?case using assms(1,2) by (auto simp: new_worker_def quiet_def split: sum.splits)
next
  case (run_step peak w w')
  show ?case using awaited_quiet [OF run_step.hyps(2) run_step.IH] .
qed

end

section \<open>The task queue as a store\<close>

definition queue_ops_at :: "(string \<Rightarrow> string \<Rightarrow> int) \<Rightarrow> string \<Rightarrow> string \<Rightarrow> int \<Rightarrow> rat \<Rightarrow> task_table queue_ops" where
  "queue_ops_at lc now now' now_ms rnd = \<lparr>qo_claim = (\<lambda>n types. claimNextBatch lc n types now now'),
     qo_completed = (\<lambda>i. markCompleted i now), qo_failed = (\<lambda>i err. markFailed i err now now_ms rnd),
     qo_cancel = (\<lambda>i m. cancel i m now)\<rparr>"

definition task_queue_ops :: "task_table queue_ops set" where
  "task_queue_ops = {queue_ops_at lc now now' now_ms rnd | lc now now' now_ms rnd. True}"

lemma claim_length:
  assumes "task_inv rows" "claimNextBatch lc n types now now' rows = (Inr ts, rows')"
  shows "of_nat (length ts) \<le> num_val n"
proof -
  have lim: "is_safe_integer n" "\<not> js_le n (Fin 0)"
    using assms(2) by (auto simp: claimNextBatch_def split: if_splits)
  have d: "distinct (map task_id rows)" using assms(1) by (simp add: task_inv_def)
  have "ts = records (js_sort (\<lambda>a b. lc (task_scheduled_at a) (task_scheduled_at b))
      (map (start_task now) (claim_hits (nat \<lfloor>num_val n\<rfloor>) types now rows)))"
    using assms(2) claim_run [OF lim, of lc types now now' rows] by (simp add: Let_def)
  then have "length ts \<le> length (claim_hits (nat \<lfloor>num_val n\<rfloor>) types now rows)"
    using records_length by (metis length_js_sort length_map)
  also have "\<dots> \<le> nat \<lfloor>num_val n\<rfloor>"
    by (simp add: claim_hits_length [OF d]) (simp add: claim_ids_def)
  finally have "length ts \<le> nat \<lfloor>num_val n\<rfloor>" .
  moreover have "0 < num_val n" using lim by (cases n) simp_all
  ultimately show ?thesis by (metis le_floor_iff le_nat_iff of_int_of_nat_eq order.strict_implies_order zero_le_floor)
qed

interpretation tasks: task_store task_queue_ops task_step task_inv
proof
  fix q s n types ts s'
  assume a: "q \<in> task_queue_ops" "task_inv s" "qo_claim q n types s = (Inr ts, s')"
  then obtain lc now now' where c: "claimNextBatch lc n types now now' s = (Inr ts, s')"
    by (auto simp: task_queue_ops_def queue_ops_at_def)
  show "task_inv s' \<and> of_nat (length ts) \<le> num_val n"
    using claim_length [OF a(2) c] task_step_inv [OF step_claim a(2), of lc n types now now'] c by simp
next
  fix q s n types e s'
  assume a: "q \<in> task_queue_ops" "task_inv s" "qo_claim q n types s = (Inl e, s')"
  then obtain lc now now' where c: "claimNextBatch lc n types now now' s = (Inl e, s')"
    by (auto simp: task_queue_ops_def queue_ops_at_def)
  show "task_inv s'" using task_step_inv [OF step_claim a(2), of lc n types now now'] c by simp
next
  fix q s i err m
  assume a: "q \<in> task_queue_ops" "task_inv s"
  then obtain lc now now' now_ms rnd where q: "q = queue_ops_at lc now now' now_ms rnd" by (auto simp: task_queue_ops_def)
  show "task_inv (snd (qo_completed q i s)) \<and> task_inv (snd (qo_failed q i err s)) \<and> task_inv (snd (qo_cancel q i m s))"
    using task_step_inv [OF step_complete a(2)] task_step_inv [OF step_mark_failed a(2)] task_step_inv [OF step_cancel a(2)]
    by (simp add: q queue_ops_at_def)
qed (rule task_step_inv)

text \<open>C17. However starts, stops, polls, claims, executions, registrations, reconfigurations and other users of the queue
  interleave, a worker whose caller awaits \<open>stop\<close> before it starts again never has more executions in flight
  than the largest concurrency it was configured with, never two of the same task, and never
  more than one poll scheduled or under way; and a poll that begins asks for no more
  tasks than the concurrency of that moment leaves free, so a lowered one holds from the next poll.\<close>

theorem worker_concurrency:
  assumes "task_step\<^sup>*\<^sup>* [] rows" "new_worker opts rows = Inr w0" "awaited_run task_queue_ops task_step w0 peak w"
  shows "int (length (tw_inflight w)) \<le> peak \<and> distinct (map (task_id \<circ> fst) (tw_inflight w)) \<and>
    length (tw_timers w) + length (tw_polls w) \<le> 1 \<and> task_inv (tw_queue w) \<and>
    (\<forall>h \<in> set (tw_timers w). \<forall>p \<in> set (tw_polls (poll_begin h w)). int (length (tw_inflight w)) + fst p \<le> tw_concurrency w)"
proof -
  have "task_inv rows" using task_history_inv [OF assms(1) task_inv_Nil] .
  then have q: "tasks.quiet peak w" using tasks.awaited_run_quiet [OF assms(2) _ assms(3)] by simp
  have "0 \<le> sum_list (map fst (tw_polls w))"
    using q by (intro sum_list_nonneg) (auto simp: tasks.quiet_def intro: less_imp_le)
  moreover have "int (length (tw_inflight w)) + fst p \<le> tw_concurrency w"
    if "h \<in> set (tw_timers w)" "p \<in> set (tw_polls (poll_begin h w))" for h p
  proof -
    have "tw_polls w = []" using q that(1) by (cases "tw_timers w"; cases "tw_polls w") (auto simp: tasks.quiet_def)
    then show ?thesis using that(2)
      by (auto simp: poll_begin_def Let_def reschedule_def schedulePoll_def notifyPollComplete_def split: if_splits)
  qed
  ultimately show ?thesis using q by (auto simp: tasks.quiet_def)
qed

lemma new_default_worker:
  "new_worker \<lparr>wo_concurrency = Some (Fin 1), wo_poll_ms = None, wo_grace_ms = None\<rparr> s = Inr
     \<lparr>tw_queue = s, tw_concurrency = 1, tw_poll_ms = 5000, tw_grace_ms = 30000,
      tw_handlers = [], tw_running = False, tw_timer = None, tw_timers = [], tw_next = 0, tw_polls = [],
      tw_inflight = [], tw_notified = [], tw_exhausted = []\<rparr>"
  by (simp add: new_worker_def validateOptions_def pick_int_def safe_int_def max_safe_integer_def)

lemma claim_mail:
  "claimNextBatch cmp_units (Fin 1) [''mail''] ''2027'' ''2027'' [sample_row] = (Inr [(running_row, JNull)], [running_row])"
proof -
  have ids: "claim_ids 1 [''mail''] ''2027'' [sample_row] = [''t1'']"
    by (simp add: claim_ids_def claimable_def order_by_def less_char_def)
  then have h: "claim_hits 1 [''mail''] ''2027'' [sample_row] = [sample_row]" by (simp add: claim_hits_def)
  have u: "snd (claim_update 1 [''mail''] ''2027'' [sample_row]) = [running_row]"
    by (simp add: claim_update_run ids [simplified] running_row_def)
  have r: "rowToRecord running_row = Inr (running_row, JNull)" by (simp add: rowToRecord_def running_row_def start_task_def null_text)
  show ?thesis
    using h [simplified] u [simplified] r
    by (simp add: claim_run safe_int_def max_safe_integer_def Let_def js_sort_def records_def corrupt_def
        quarantine_all_def running_row_def [symmetric])
qed

definition fresh_worker :: "task_table worker" where
  "fresh_worker = \<lparr>tw_queue = [sample_row], tw_concurrency = 1, tw_poll_ms = 5000, tw_grace_ms = 30000,
      tw_handlers = [], tw_running = False, tw_timer = None, tw_timers = [], tw_next = 0, tw_polls = [],
      tw_inflight = [], tw_notified = [], tw_exhausted = []\<rparr>"

text \<open>Registered, started, polled, one task claimed, and then the concurrency raised.\<close>

definition busy_worker :: "task_table worker" where
  "busy_worker = \<lparr>tw_queue = [running_row], tw_concurrency = 4, tw_poll_ms = 5000, tw_grace_ms = 30000,
      tw_handlers = [''mail''], tw_running = True, tw_timer = Some 1, tw_timers = [1], tw_next = 2, tw_polls = [],
      tw_inflight = [(running_row, JNull)], tw_notified = [1], tw_exhausted = []\<rparr>"

lemma busy_run: "awaited_run task_queue_ops task_step fresh_worker 4 busy_worker"
proof -
  let ?q = "queue_ops_at cmp_units ''2027'' ''2027'' 0 0"
  let ?more = "\<lparr>wo_concurrency = Some (Fin 4), wo_poll_ms = None, wo_grace_ms = None\<rparr>"
  define w1 where "w1 = snd (register ''mail'' fresh_worker)"
  define w2 where "w2 = snd (start w1)"
  define w3 where "w3 = poll_begin 0 w2"
  define w4 where "w4 = poll_end ?q (1, [''mail'']) w3"
  have w1: "w1 = fresh_worker\<lparr>tw_handlers := [''mail'']\<rparr>" by (simp add: w1_def register_def fresh_worker_def)
  have w2: "w2 = w1\<lparr>tw_running := True, tw_timer := Some 0, tw_timers := [0], tw_next := 1\<rparr>"
    by (simp add: w2_def start_def schedulePoll_def w1 fresh_worker_def)
  have w3: "w3 = w2\<lparr>tw_timers := [], tw_polls := [(1, [''mail''])]\<rparr>"
    by (simp add: w3_def poll_begin_def w2 w1 Let_def fresh_worker_def)
  have w4: "w4 = busy_worker\<lparr>tw_concurrency := 1\<rparr>"
    using claim_mail by (simp add: w4_def poll_end_def w3 w2 w1 Let_def fresh_worker_def queue_ops_at_def dispatch_def
      reschedule_def schedulePoll_def notifyPollComplete_def busy_worker_def)
  have q: "?q \<in> task_queue_ops" unfolding task_queue_ops_def by blast
  note awaited = awaited_step_def
  have s1: "awaited_step task_queue_ops task_step fresh_worker w1"
    unfolding awaited w1_def by (intro exI [of _ Register] conjI w_register) simp
  have s2: "awaited_step task_queue_ops task_step w1 w2"
    unfolding awaited w2_def by (intro exI [of _ Start] conjI w_start) (simp add: w1 fresh_worker_def)
  have s3: "awaited_step task_queue_ops task_step w2 w3"
    unfolding awaited w3_def by (intro exI [of _ Fire] conjI w_fire) (simp_all add: w2)
  have s4: "awaited_step task_queue_ops task_step w3 w4"
    unfolding awaited w4_def by (intro exI [of _ Claim] conjI w_claim q) (simp_all add: w3)
  have "snd (reconfigure ?more w4) = busy_worker"
    by (simp add: reconfigure_def validateOptions_def safe_int_def max_safe_integer_def pick_int_def w4 busy_worker_def)
  then have s5: "awaited_step task_queue_ops task_step w4 busy_worker"
    unfolding awaited using w_reconfigure [of task_queue_ops task_step w4 ?more] by (intro exI [of _ Reconfigure]) simp
  have c: "tw_concurrency fresh_worker = 1" "tw_concurrency w1 = 1" "tw_concurrency w2 = 1" "tw_concurrency w3 = 1"
    "tw_concurrency w4 = 1" "tw_concurrency busy_worker = 4"
    by (simp_all add: w4 w3 w2 w1 fresh_worker_def busy_worker_def)
  have "awaited_run task_queue_ops task_step fresh_worker (max (max (max (max (max 1 1) 1) 1) 1) 4) busy_worker"
    using run_step [OF run_step [OF run_step [OF run_step [OF run_step [OF run_new s1] s2] s3] s4] s5] unfolding c .
  then show ?thesis by simp
qed

theorem worker_concurrency_witness:
  "awaited_run task_queue_ops task_step fresh_worker 4 busy_worker \<and> length (tw_inflight busy_worker) = 1 \<and>
   int (length (tw_inflight busy_worker)) \<le> 4 \<and> task_inv (tw_queue busy_worker)"
  using worker_concurrency [OF r_into_rtranclp, OF sample_step _ busy_run,
      of "\<lparr>wo_concurrency = Some (Fin 1), wo_poll_ms = None, wo_grace_ms = None\<rparr>"] busy_run
  by (simp add: new_default_worker fresh_worker_def [symmetric]) (simp add: busy_worker_def)

section \<open>Starting again before the poll has ended\<close>

lemma any_steps:
  "any_step Q R v (snd (start v))" "any_step Q R v (snd (stop v))"
  "h \<in> set (tw_timers v) \<Longrightarrow> any_step Q R v (poll_begin h v)"
  "q \<in> Q \<Longrightarrow> p \<in> set (tw_polls v) \<Longrightarrow> any_step Q R v (poll_end q p v)"
  unfolding any_step_def by (blast intro: worker_step.intros)+

text \<open>Starting a worker again while \<open>stop\<close> still waits for a poll breaks the bound: two polls then claim
  for the full concurrency, so for any two claims the queue answers, with different tasks, all of
  them end up in flight together, and both polls schedule a successor.\<close>

theorem restart_exceeds_concurrency:
  assumes "\<not> tw_running w" "tw_handlers w \<noteq> []" "tw_timers w = []" "tw_polls w = []" "tw_inflight w = []"
    "0 < tw_concurrency w" "q \<in> Q" "q' \<in> Q"
    "qo_claim q (Fin (of_int (tw_concurrency w))) (tw_handlers w) (tw_queue w) = (Inr ts, s)"
    "qo_claim q' (Fin (of_int (tw_concurrency w))) (tw_handlers w) s = (Inr ts', s')"
    "distinct (map (task_id \<circ> fst) (ts @ ts'))"
  shows "\<exists>w'. (any_step Q R)\<^sup>*\<^sup>* w w' \<and> tw_inflight w' = ts @ ts' \<and> length (tw_timers w') = 2"
proof -
  let ?n = "tw_next w" and ?p = "(tw_concurrency w, tw_handlers w)"
  define w1 where "w1 = snd (start w)"
  define w2 where "w2 = poll_begin ?n w1"
  define w3 where "w3 = snd (stop w2)"
  define w4 where "w4 = snd (start w3)"
  define w5 where "w5 = poll_begin (?n + 1) w4"
  define w6 where "w6 = poll_end q ?p w5"
  define w7 where "w7 = poll_end q' ?p w6"
  have dis: "dispatch us v = v\<lparr>tw_inflight := tw_inflight v @ us\<rparr>"
    if "distinct (map (task_id \<circ> fst) (tw_inflight v @ us))" for us and v :: "'a worker"
    using that
  proof (induction us arbitrary: v)
    case (Cons u us)
    have "dispatch (u # us) v = dispatch us (v\<lparr>tw_inflight := tw_inflight v @ [u]\<rparr>)"
      using Cons.prems by (auto simp: dispatch_def)
    then show ?case using Cons.IH [of "v\<lparr>tw_inflight := tw_inflight v @ [u]\<rparr>"] Cons.prems by simp
  qed (simp add: dispatch_def)
  have w1: "w1 = w\<lparr>tw_running := True, tw_timer := Some ?n, tw_timers := [?n], tw_next := ?n + 1\<rparr>"
    using assms(1,3) by (simp add: w1_def start_def schedulePoll_def)
  have w2: "w2 = w1\<lparr>tw_timers := [], tw_polls := [?p]\<rparr>"
    using assms(2,4-6) by (simp add: w2_def poll_begin_def w1 Let_def)
  have w3: "w3 = w2\<lparr>tw_running := False, tw_timer := None\<rparr>"
    by (simp add: w3_def stop_def w2 w1)
  have w4: "w4 = w3\<lparr>tw_running := True, tw_timer := Some (?n + 1), tw_timers := [?n + 1], tw_next := ?n + 2\<rparr>"
    by (simp add: w4_def start_def schedulePoll_def w3 w2 w1)
  have w5: "w5 = w4\<lparr>tw_timers := [], tw_polls := [?p, ?p]\<rparr>"
    using assms(2,5,6) by (simp add: w5_def poll_begin_def w4 w3 w2 w1 Let_def)
  have w6: "w6 = w5\<lparr>tw_polls := [?p], tw_queue := s, tw_inflight := ts, tw_notified := tw_notified w @ [length ts],
      tw_timer := Some (?n + 2), tw_timers := [?n + 2], tw_next := ?n + 3\<rparr>"
    using assms(5,9,11) dis [of "w5\<lparr>tw_polls := [?p], tw_queue := s\<rparr>" ts]
    by (simp add: w6_def poll_end_def w5 w4 w3 w2 w1 Let_def reschedule_def schedulePoll_def notifyPollComplete_def)
  have w7: "tw_inflight w7 = ts @ ts'" "length (tw_timers w7) = 2"
    using assms(10,11) dis [of "w6\<lparr>tw_polls := [], tw_queue := s'\<rparr>" ts']
    by (simp_all add: w7_def poll_end_def w6 w5 w4 w3 w2 w1 Let_def reschedule_def schedulePoll_def notifyPollComplete_def)
  have s1: "any_step Q R w w1" unfolding w1_def by (rule any_steps)
  have s2: "any_step Q R w1 w2" unfolding w2_def by (rule any_steps) (simp add: w1)
  have s3: "any_step Q R w2 w3" unfolding w3_def by (rule any_steps)
  have s4: "any_step Q R w3 w4" unfolding w4_def by (rule any_steps)
  have s5: "any_step Q R w4 w5" unfolding w5_def by (rule any_steps) (simp add: w4)
  have s6: "any_step Q R w5 w6" unfolding w6_def by (rule any_steps) (simp_all add: w5 assms(7))
  have s7: "any_step Q R w6 w7" unfolding w7_def by (rule any_steps) (simp_all add: w6 assms(8))
  have "(any_step Q R)\<^sup>*\<^sup>* w w7"
    using s1 s2 s3 s4 s5 s6 s7 by (meson rtranclp.rtrancl_refl rtranclp.rtrancl_into_rtrancl)
  then show ?thesis using w7 by blast
qed

definition second_row :: task_row where
  "second_row = sample_row\<lparr>task_id := ''t2'', task_unique_key := None\<rparr>"

lemma second_fields [simp]:
  "task_id second_row = ''t2''" "task_status second_row = PENDING" "task_scheduled_at second_row = ''2026''"
  "task_type second_row = ''mail''" "task_payload_json second_row = ''null''"
  by (simp_all add: second_row_def)

lemma started_fields [simp]:
  "task_id (start_task now r) = task_id r" "task_status (start_task now r) = RUNNING"
  "task_payload_json (start_task now r) = task_payload_json r" "task_scheduled_at (start_task now r) = task_scheduled_at r"
  "task_type (start_task now r) = task_type r"
  by (simp_all add: start_task_def)

lemma started_record: "task_payload_json r = ''null'' \<Longrightarrow> rowToRecord (start_task now r) = Inr (start_task now r, JNull)"
  by (simp add: rowToRecord_def null_text)

lemma claim_first:
  "claimNextBatch cmp_units (Fin 1) [''mail''] ''2027'' ''2027'' [sample_row, second_row] =
    (Inr [(start_task ''2027'' sample_row, JNull)], [start_task ''2027'' sample_row, second_row])"
proof -
  have ids: "claim_ids 1 [''mail''] ''2027'' [sample_row, second_row] = [''t1'']"
    by (simp add: claim_ids_def claimable_def order_by_def less_char_def)
  then have h: "claim_hits 1 [''mail''] ''2027'' [sample_row, second_row] = [sample_row]"
    by (simp add: claim_hits_def)
  show ?thesis
    using h [simplified] ids [simplified] started_record [of sample_row "''2027''"]
    by (simp add: claim_run claim_update_run safe_int_def max_safe_integer_def Let_def js_sort_def records_def corrupt_def
        quarantine_all_def)
qed

lemma claim_second:
  "claimNextBatch cmp_units (Fin 1) [''mail''] ''2027'' ''2027'' [start_task ''2027'' sample_row, second_row] =
    (Inr [(start_task ''2027'' second_row, JNull)], [start_task ''2027'' sample_row, start_task ''2027'' second_row])"
proof -
  have ids: "claim_ids 1 [''mail''] ''2027'' [start_task ''2027'' sample_row, second_row] = [''t2'']"
    by (simp add: claim_ids_def claimable_def order_by_def less_char_def)
  then have h: "claim_hits 1 [''mail''] ''2027'' [start_task ''2027'' sample_row, second_row] = [second_row]"
    by (simp add: claim_hits_def)
  show ?thesis
    using h [simplified] ids [simplified] started_record [of second_row "''2027''"]
    by (simp add: claim_run claim_update_run safe_int_def max_safe_integer_def Let_def js_sort_def records_def corrupt_def
        quarantine_all_def)
qed

definition restart_worker :: "task_table worker" where
  "restart_worker = \<lparr>tw_queue = [sample_row, second_row], tw_concurrency = 1, tw_poll_ms = 5000, tw_grace_ms = 30000,
      tw_handlers = [''mail''], tw_running = False, tw_timer = None, tw_timers = [], tw_next = 0, tw_polls = [],
      tw_inflight = [], tw_notified = [], tw_exhausted = []\<rparr>"

theorem restart_exceeds_concurrency_witness:
  "\<exists>w'. (any_step task_queue_ops task_step)\<^sup>*\<^sup>* restart_worker w' \<and> tw_concurrency restart_worker = 1 \<and>
     length (tw_inflight w') = 2"
proof -
  let ?q = "queue_ops_at cmp_units ''2027'' ''2027'' 0 0"
  have q: "?q \<in> task_queue_ops" unfolding task_queue_ops_def by blast
  have "\<exists>w'. (any_step task_queue_ops task_step)\<^sup>*\<^sup>* restart_worker w' \<and>
      tw_inflight w' = [(start_task ''2027'' sample_row, JNull)] @ [(start_task ''2027'' second_row, JNull)] \<and> length (tw_timers w') = 2"
    by (rule restart_exceeds_concurrency [OF _ _ _ _ _ _ q q])
      (use claim_first claim_second in \<open>simp_all add: restart_worker_def queue_ops_at_def\<close>)
  then show ?thesis by (auto simp: restart_worker_def)
qed

section \<open>What an execution leaves\<close>

lemma completed_run:
  assumes "task_inv rows" "row \<in> set rows" "task_status row = RUNNING"
  shows "markCompleted (task_id row) now rows = (Inr (), map (\<lambda>r. if r = row
    then row\<lparr>task_status := COMPLETED, task_completed_at := Some now, task_updated_at := now\<rparr> else r) rows)"
proof -
  have d: "distinct (map task_id rows)" using assms(1) by (simp add: task_inv_def)
  have "(task_id r = task_id row \<and> task_status r = RUNNING) \<longleftrightarrow> r = row" if "r \<in> set rows" for r
    using same_id [OF d that assms(2)] assms(3) by auto
  then show ?thesis by (auto simp: markCompleted_def sql_update_def)
qed

definition replace_row :: "task_row \<Rightarrow> task_table \<Rightarrow> task_row \<Rightarrow> task_table" where
  "replace_row row rows new = map (\<lambda>r. if r = row then new else r) rows"

lemma not_running:
  assumes "task_inv rows" "row \<in> set rows" "task_status row \<noteq> RUNNING"
  shows "markCompleted (task_id row) now rows = (Inr (), rows)" "markFailed (task_id row) err now now_ms rnd rows = (Inr False, rows)"
proof -
  have d: "distinct (map task_id rows)" using assms(1) by (simp add: task_inv_def)
  have "\<not> (task_id r = task_id row \<and> task_status r = RUNNING)" if "r \<in> set rows" for r
    using same_id [OF d that assms(2)] assms(3) by auto
  then show "markCompleted (task_id row) now rows = (Inr (), rows)"
    by (auto simp: markCompleted_def sql_update_def intro!: map_idI)
  have "find_first (\<lambda>r. task_id r = task_id row) rows = Some row"
  proof (cases "find_first (\<lambda>r. task_id r = task_id row) rows")
    case None
    then show ?thesis using assms(2) by (auto simp: find_first_None)
  next
    case (Some r)
    then show ?thesis using find_first_SomeD [OF Some] same_id [OF d _ assms(2)] by simp
  qed
  then show "markFailed (task_id row) err now now_ms rnd rows = (Inr False, rows)"
    using assms(3) by (simp add: markFailed_def)
qed

lemma cancel_run:
  assumes "task_inv rows" "row \<in> set rows"
  shows "cancel (task_id row) reason now rows = (Inr (), if active row then replace_row row rows
    (row\<lparr>task_status := CANCELLED, task_last_error := Some reason, task_updated_at := now\<rparr>) else rows)"
proof -
  have d: "distinct (map task_id rows)" using assms(1) by (simp add: task_inv_def)
  have "(task_id r = task_id row \<and> active r) \<longleftrightarrow> r = row \<and> active row" if "r \<in> set rows" for r
    using same_id [OF d that assms(2)] by auto
  then show ?thesis by (auto simp: cancel_def sql_update_def replace_row_def intro!: map_idI)
qed

text \<open>What the end of an execution writes to the queue and whether it reports the task as failed for good.\<close>

definition outcome_ok :: "task_row \<Rightarrow> task_record \<Rightarrow> thrown option \<Rightarrow> bool \<Rightarrow> string \<Rightarrow> int \<Rightarrow> rat \<Rightarrow> task_table worker \<Rightarrow> task_table worker \<Rightarrow> bool" where
  "outcome_ok row t outcome aborted now now_ms rnd w w' =
    (let becomes = (\<lambda>new. tw_queue w' = replace_row row (tw_queue w) new);
         unreported = (tw_exhausted w' = tw_exhausted w);
         reported = (tw_exhausted w' = tw_exhausted w @ [(task_id row, task_type (fst t))])
     in if task_type (fst t) \<notin> set (tw_handlers w)
        then unreported \<and> (if active row then becomes (row\<lparr>task_status := CANCELLED,
            task_last_error := Some (''No handler registered for \"'' @ task_type (fst t) @ ''\".''), task_updated_at := now\<rparr>)
          else tw_queue w' = tw_queue w)
        else (case execution_error outcome aborted t of
            None \<Rightarrow> outcome = None \<and> \<not> aborted \<and> unreported \<and> (if task_status row = RUNNING
              then becomes (row\<lparr>task_status := COMPLETED, task_completed_at := Some now, task_updated_at := now\<rparr>)
              else tw_queue w' = tw_queue w)
          | Some err \<Rightarrow>
              if task_status row \<noteq> RUNNING then reported \<and> tw_queue w' = tw_queue w
              else if isNonRetryableClass err \<or> task_attempts row \<ge> task_max_attempts row
              then reported \<and> becomes (row\<lparr>task_status := FAILED, task_failed_at := Some now,
                task_last_error := Some (thrown_message err), task_updated_at := now\<rparr>)
              else unreported \<and> (case to_iso (js_map (\<lambda>q. of_int now_ms + q) (retry_delay (task_attempts row) (row_policy row) rnd)) of
                 Inl e \<Rightarrow> tw_queue w' = tw_queue w
               | Inr next \<Rightarrow> becomes (row\<lparr>task_status := PENDING, task_scheduled_at := next,
                   task_last_error := Some (thrown_message err), task_failed_at := None, task_updated_at := now\<rparr>))))"

text \<open>C18. The end of an execution, on every branch.  Without a handler the task is cancelled, if it is still active.  If the
  handler succeeded in time a running task is completed; if it threw or timed out a running task is
  failed for good and reported, or, when it may be retried and the next date is representable,
  pending again and not reported; when that date is not representable it stays running and
  nothing is reported.  A task that is no longer running (cancelled or recovered meanwhile) is left as it is,
  but its failure is reported as one for good.  In every case the execution is no longer in flight, the others
  are, and no other row changes.\<close>

theorem execution_outcome:
  assumes "task_inv (tw_queue w)" "row \<in> set (tw_queue w)" "task_id (fst t) = task_id row"
    "w' = execution_end (queue_ops_at lc now now' now_ms rnd) t outcome aborted w"
  shows "tw_inflight w' = filter (\<lambda>u. task_id (fst u) \<noteq> task_id row) (tw_inflight w) \<and>
    outcome_ok row t outcome aborted now now_ms rnd w w'"
proof
  let ?q = "queue_ops_at lc now now' now_ms rnd"
  show "tw_inflight w' = filter (\<lambda>u. task_id (fst u) \<noteq> task_id row) (tw_inflight w)"
    using assms(3) by (simp add: assms(4) execution_end_def Let_def tasks.executeTask_fields)
  have fields: "tw_queue w' = tw_queue (executeTask ?q t outcome aborted w)"
    "tw_exhausted w' = tw_exhausted (executeTask ?q t outcome aborted w)"
    by (simp_all add: assms(4) execution_end_def Let_def)
  have ops: "qo_failed ?q i err = markFailed i err now now_ms rnd" "qo_completed ?q i = markCompleted i now"
    "qo_cancel ?q i m = cancel i m now" for i err m by (simp_all add: queue_ops_at_def)
  show "outcome_ok row t outcome aborted now now_ms rnd w w'"
  proof (cases "task_type (fst t) \<in> set (tw_handlers w)")
    case False
    then show ?thesis using assms(3) cancel_run [OF assms(1,2)]
      by (simp add: outcome_ok_def Let_def fields executeTask_def ops)
  next
    case True
    show ?thesis
    proof (cases "execution_error outcome aborted t")
      case None
      then have out: "outcome = None \<and> \<not> aborted" by (auto simp: execution_error_def split: option.splits if_splits)
      have exe: "executeTask ?q t outcome aborted w = w\<lparr>tw_queue := snd (markCompleted (task_id row) now (tw_queue w))\<rparr>"
        using None True assms(3) by (simp add: executeTask_def ops markCompleted_def)
      show ?thesis
      proof (cases "task_status row = RUNNING")
        case run: True
        show ?thesis unfolding outcome_ok_def Let_def fields exe
          using run None out True completed_run [OF assms(1,2) run, of now] by (simp add: replace_row_def)
      next
        case False
        then show ?thesis unfolding outcome_ok_def Let_def fields exe
          using None out True not_running(1) [OF assms(1,2) False, of now] by simp
      qed
    next
      case (Some err)
      have exe: "executeTask ?q t outcome aborted w = fail_execution ?q t err w"
        using Some True by (simp add: executeTask_def)
      show ?thesis
      proof (cases "task_status row = RUNNING")
        case run: True
        then show ?thesis using Some True assms(3) markFailed_run [OF assms(1,2) run, of err now now_ms rnd]
          by (simp add: outcome_ok_def Let_def fields exe fail_execution_def ops replace_row_def split: sum.split)
      next
        case False
        then show ?thesis using Some True assms(3) not_running(2) [OF assms(1,2) False, of err now now_ms rnd]
          by (simp add: outcome_ok_def Let_def fields exe fail_execution_def ops)
      qed
    qed
  qed
qed

text \<open>A run that completes, and one for which no handler is registered.\<close>

abbreviation "finishing handlers \<equiv> restart_worker\<lparr>tw_queue := [running_row], tw_handlers := handlers, tw_inflight := [(running_row, JNull)]\<rparr>"

abbreviation "finished handlers \<equiv> execution_end (queue_ops_at cmp_units ''2028'' ''2028'' 0 0) (running_row, JNull) None False (finishing handlers)"

theorem execution_outcome_witness:
  "tw_queue (finished [''mail'']) =
     [running_row\<lparr>task_status := COMPLETED, task_completed_at := Some ''2028'', task_updated_at := ''2028''\<rparr>] \<and>
   tw_queue (finished []) = [running_row\<lparr>task_status := CANCELLED,
     task_last_error := Some ''No handler registered for \"mail\".'', task_updated_at := ''2028''\<rparr>] \<and>
   tw_inflight (finished []) = []"
proof -
  have inv: "task_inv (tw_queue (finishing h))" "running_row \<in> set (tw_queue (finishing h))"
    "task_id (fst (running_row, JNull)) = task_id running_row" for h using sample_inv(2) by simp_all
  have none: "execution_error None False (running_row, JNull) = None" by (simp add: execution_error_def)
  have row: "task_type running_row = ''mail''" "active running_row" "task_status running_row = RUNNING"
    by (simp_all add: running_row_def active_def)
  have out: "tw_inflight (finished h) = filter (\<lambda>u. task_id (fst u) \<noteq> task_id running_row) (tw_inflight (finishing h)) \<and>
      outcome_ok running_row (running_row, JNull) None False ''2028'' 0 0 (finishing h) (finished h)" for h
    by (rule execution_outcome [OF inv refl])
  show ?thesis using out [of "[''mail'']"] out [of "[]"]
    by (simp add: outcome_ok_def Let_def none row replace_row_def)
qed

end
