(* ===== verification/Core_Db.thy ===== *)
theory Core_Db
  imports Ops
begin

text \<open>
  The identity, authorisation and synchronisation tables of \<open>core-schema.sql\<close> (with the migrations
  that add \<open>is_local\<close> and the unique domains): one record per row type, one field of \<open>core_db\<close> per
  table, rows in insertion order, and inserts that check primary keys, unique columns and foreign
  keys as SQLite does with \<open>foreign_keys = ON\<close>.  Columns that no modelled statement reads or writes
  are left out.
\<close>

section \<open>Rows\<close>

datatype device_status = DevUnregistered | DevPendingApproval | DevApproved | DevActive | DevSuspended | DevRevoked

datatype user_status = UserActive | UserSuspended | UserRevoked

datatype membership_status = MbrRequested | MbrApproved | MbrActive | MbrSuspended | MbrExpired | MbrRevoked | MbrRejected

datatype request_status = ReqPending | ReqApproved | ReqRejected

datatype group_status = GroupActive | GroupArchived

datatype org_status = OrgActive | OrgSuspended | OrgArchived

record org_row =
  og_id :: string
  og_created_at :: string
  og_updated_at :: string
  og_created_by :: "string option"
  og_updated_by :: "string option"
  og_name :: string
  og_domain :: "string option"
  og_status :: org_status
  og_settings_json :: "string option"

record user_row =
  us_id :: string
  us_created_at :: string
  us_updated_at :: string
  us_created_by :: "string option"
  us_updated_by :: "string option"
  us_org :: string
  us_name :: string
  us_email :: "string option"
  us_status :: user_status

record device_row =
  dv_id :: string
  dv_created_at :: string
  dv_updated_at :: string
  dv_user :: "string option"
  dv_device_id :: string
  dv_public_key :: string
  dv_platform :: string
  dv_application :: string
  dv_status :: device_status
  dv_registered_at :: string
  dv_last_seen :: "string option"
  dv_local :: bool

record role_row =
  rl_id :: string
  rl_org :: string

record permission_row =
  pm_id :: string
  pm_name :: string

record role_permission_row =
  rp_id :: string
  rp_role :: string
  rp_permission :: string
  rp_scope :: "string option"

record user_role_row =
  ur_id :: string
  ur_user :: string
  ur_role :: string
  ur_org :: string
  ur_granted_by :: "string option"
  ur_granted_at :: string

record group_row =
  gr_id :: string
  gr_created_at :: string
  gr_updated_at :: string
  gr_created_by :: "string option"
  gr_updated_by :: "string option"
  gr_org :: string
  gr_name :: string
  gr_description :: "string option"
  gr_status :: group_status

record member_row =
  mb_id :: string
  mb_group :: string
  mb_device :: string
  mb_user :: "string option"
  mb_status :: membership_status
  mb_joined_at :: string
  mb_revoked_at :: "string option"
  mb_revoked_by :: "string option"
  mb_reason :: "string option"

record request_row =
  rq_id :: string
  rq_device :: string
  rq_group :: string
  rq_user :: "string option"
  rq_requested_at :: string
  rq_status :: request_status

record decision_row =
  dc_id :: string
  dc_request :: string
  dc_decided_by :: string
  dc_decision :: request_status
  dc_decided_at :: string
  dc_signature :: "string option"

record revocation_row =
  rv_id :: string
  rv_device :: string
  rv_group :: "string option"
  rv_revoked_by :: string
  rv_revoked_at :: string
  rv_reason :: string

record audit_row =
  au_id :: string
  au_type :: string
  au_user :: "string option"
  au_device :: string
  au_org :: string
  au_correlation :: string
  au_timestamp :: string
  au_metadata_json :: "string option"

record core_db =
  db_orgs :: "org_row list"
  db_users :: "user_row list"
  db_devices :: "device_row list"
  db_roles :: "role_row list"
  db_permissions :: "permission_row list"
  db_role_permissions :: "role_permission_row list"
  db_user_roles :: "user_role_row list"
  db_groups :: "group_row list"
  db_members :: "member_row list"
  db_requests :: "request_row list"
  db_decisions :: "decision_row list"
  db_revocations :: "revocation_row list"
  db_audit :: "audit_row list"

section \<open>Inserts\<close>

text \<open>An insert into one table: the row is appended when its keys are unused and its references exist.\<close>

definition insert_row :: "string \<Rightarrow> (core_db \<Rightarrow> bool) \<Rightarrow> (core_db \<Rightarrow> bool) \<Rightarrow> (core_db \<Rightarrow> core_db) \<Rightarrow> (core_db, unit) op" where
  "insert_row table unique refs put = andthen (get id) (\<lambda>db.
     andthen (guard (unique db) (raise PlainError (''UNIQUE constraint failed: '' @ table))) (\<lambda>_.
     andthen (guard (refs db) (raise PlainError ''FOREIGN KEY constraint failed'')) (\<lambda>_. modify put)))"

definition has_user :: "core_db \<Rightarrow> string option \<Rightarrow> bool" where
  "has_user db u \<longleftrightarrow> (case u of None \<Rightarrow> True | Some i \<Rightarrow> i \<in> us_id ` set (db_users db))"

definition has_group :: "core_db \<Rightarrow> string \<Rightarrow> bool" where
  "has_group db g \<longleftrightarrow> g \<in> gr_id ` set (db_groups db)"

definition has_org :: "core_db \<Rightarrow> string \<Rightarrow> bool" where
  "has_org db i \<longleftrightarrow> i \<in> og_id ` set (db_orgs db)"

lemma insert_row_run: "insert_row table unique refs put db =
    (if \<not> unique db then (Inl (raise PlainError (''UNIQUE constraint failed: '' @ table)), db)
     else if \<not> refs db then (Inl (raise PlainError ''FOREIGN KEY constraint failed''), db)
     else (Inr (), put db))"
  by (simp add: insert_row_def)

lemma insert_row_Inr: "insert_row table unique refs put db = (Inr (), db') \<longleftrightarrow> unique db \<and> refs db \<and> db' = put db"
  by (auto simp: insert_row_run)

lemma preserves_insert_row:
  "(\<And>db. I db \<Longrightarrow> unique db \<Longrightarrow> refs db \<Longrightarrow> I (put db)) \<Longrightarrow> preserves I (insert_row table unique refs put)"
  by (auto simp: preserves_def insert_row_run)

lemma moves_insert_row:
  "(\<And>db. R db db) \<Longrightarrow> (\<And>db. R db (put db)) \<Longrightarrow> moves R (insert_row table unique refs put)"
  by (auto simp: moves_def insert_row_run)

lemma has_user_upd [simp]:
  "has_user (db\<lparr>db_decisions := new_decisions\<rparr>) u = has_user db u"
  "has_user (db\<lparr>db_requests := new_requests\<rparr>) u = has_user db u"
  "has_user (db\<lparr>db_members := new_members\<rparr>) u = has_user db u"
  "has_user (db\<lparr>db_devices := new_devices\<rparr>) u = has_user db u"
  "has_user (db\<lparr>db_revocations := new_revocations\<rparr>) u = has_user db u"
  "has_user (db\<lparr>db_audit := new_audit\<rparr>) u = has_user db u"
  "has_user (db\<lparr>db_groups := new_groups\<rparr>) u = has_user db u"
  "has_user (db\<lparr>db_user_roles := new_user_roles\<rparr>) u = has_user db u"
  by (simp_all add: has_user_def cong: option.case_cong)

lemma has_group_upd [simp]:
  "has_group (db\<lparr>db_decisions := new_decisions\<rparr>) g = has_group db g"
  "has_group (db\<lparr>db_requests := new_requests\<rparr>) g = has_group db g"
  "has_group (db\<lparr>db_members := new_members\<rparr>) g = has_group db g"
  "has_group (db\<lparr>db_devices := new_devices\<rparr>) g = has_group db g"
  "has_group (db\<lparr>db_revocations := new_revocations\<rparr>) g = has_group db g"
  "has_group (db\<lparr>db_audit := new_audit\<rparr>) g = has_group db g"
  "has_group (db\<lparr>db_users := new_users\<rparr>) g = has_group db g"
  "has_group (db\<lparr>db_user_roles := new_user_roles\<rparr>) g = has_group db g"
  by (simp_all add: has_group_def cong: option.case_cong)

lemma has_org_upd [simp]:
  "has_org (db\<lparr>db_decisions := new_decisions\<rparr>) i = has_org db i"
  "has_org (db\<lparr>db_requests := new_requests\<rparr>) i = has_org db i"
  "has_org (db\<lparr>db_members := new_members\<rparr>) i = has_org db i"
  "has_org (db\<lparr>db_devices := new_devices\<rparr>) i = has_org db i"
  "has_org (db\<lparr>db_revocations := new_revocations\<rparr>) i = has_org db i"
  "has_org (db\<lparr>db_audit := new_audit\<rparr>) i = has_org db i"
  "has_org (db\<lparr>db_users := new_users\<rparr>) i = has_org db i"
  "has_org (db\<lparr>db_user_roles := new_user_roles\<rparr>) i = has_org db i"
  "has_org (db\<lparr>db_groups := new_groups\<rparr>) i = has_org db i"
  by (simp_all add: has_org_def cong: option.case_cong)

lemma has_user_Some: "has_user db (Some i) \<longleftrightarrow> i \<in> us_id ` set (db_users db)" and has_user_None [simp]: "has_user db None"
  by (simp_all add: has_user_def)

section \<open>The empty database\<close>

definition empty_db :: core_db where
  "empty_db = \<lparr>db_orgs = [], db_users = [], db_devices = [], db_roles = [], db_permissions = [],
     db_role_permissions = [], db_user_roles = [], db_groups = [], db_members = [], db_requests = [],
     db_decisions = [], db_revocations = [], db_audit = []\<rparr>"

end
