(* ===== verification/Authorization.thy ===== *)
theory Authorization
  imports Core_Db Json
begin

text \<open>
  The package \<open>authorization\<close>: \<open>engine/ScopeEvaluator.ts\<close>, the joins of
  \<open>repositories/AuthorizationRepository.ts\<close> and \<open>engine/AuthorizationEngine.ts\<close>.  The decision is
  compared with the declarative reading of the tables, \<open>authorised\<close>.
\<close>

section \<open>Scopes\<close>

type_synonym scope = "(string \<times> json) list"

text \<open>\<open>requested[key] !== value\<close>, where \<open>value\<close> was just parsed: objects and arrays are never identical.\<close>

fun identical :: "json option \<Rightarrow> json \<Rightarrow> bool" where
  "identical (Some JNull) JNull = True"
| "identical (Some (JBool a)) (JBool b) = (a = b)"
| "identical (Some (JNum a)) (JNum b) = (a = b)"
| "identical (Some (JStr a)) (JStr b) = (a = b)"
| "identical _ _ = False"

definition scope_matches :: "scope option \<Rightarrow> scope option \<Rightarrow> bool" where
  "scope_matches constraints requested =
     (case constraints of None \<Rightarrow> True | Some cs \<Rightarrow>
        if cs = [] then True else
        (case requested of None \<Rightarrow> False
         | Some req \<Rightarrow> list_all (\<lambda>(k, v). identical (assoc_get k req) v) cs))"

section \<open>Queries\<close>

definition findRoleIds :: "string \<Rightarrow> string \<Rightarrow> core_db \<Rightarrow> string list" where
  "findRoleIds userId org db =
     [ur_role ur. ur \<leftarrow> db_user_roles db, r \<leftarrow> db_roles db,
        rl_id r = ur_role ur \<and> rl_org r = ur_org ur \<and> ur_user ur = userId \<and> ur_org ur = org]"

definition findEffectivePermissions :: "string \<Rightarrow> string \<Rightarrow> core_db \<Rightarrow> (string \<times> string option) list" where
  "findEffectivePermissions userId org db =
     [(pm_name p, rp_scope rp). ur \<leftarrow> db_user_roles db, r \<leftarrow> db_roles db, rp \<leftarrow> db_role_permissions db,
        p \<leftarrow> db_permissions db,
        rl_id r = ur_role ur \<and> rl_org r = ur_org ur \<and> rp_role rp = rl_id r \<and> rp_permission rp = pm_id p \<and>
        ur_user ur = userId \<and> ur_org ur = org]"

section \<open>Decisions\<close>

record subject =
  sb_user :: string
  sb_org :: string
  sb_roles :: "string list"

datatype denied_code = NO_MATCHING_ROLE | PERMISSION_NOT_GRANTED | SCOPE_MISMATCH | SUBJECT_REVOKED | ORGANISATION_MISMATCH

datatype decision = Granted | Denied string denied_code

fun denied_text :: "denied_code \<Rightarrow> string" where
  "denied_text NO_MATCHING_ROLE = ''NO_MATCHING_ROLE''"
| "denied_text PERMISSION_NOT_GRANTED = ''PERMISSION_NOT_GRANTED''"
| "denied_text SCOPE_MISMATCH = ''SCOPE_MISMATCH''"
| "denied_text SUBJECT_REVOKED = ''SUBJECT_REVOKED''"
| "denied_text ORGANISATION_MISMATCH = ''ORGANISATION_MISMATCH''"

text \<open>A grant whose stored constraints are no JSON object is skipped.\<close>

fun grant_of :: "string \<times> string option \<Rightarrow> (string \<times> scope option) option" where
  "grant_of (name, None) = Some (name, None)"
| "grant_of (name, Some txt) = (case json_parse txt of Inr (JObj m) \<Rightarrow> Some (name, Some m) | _ \<Rightarrow> None)"

definition getEffectivePermissions :: "subject \<Rightarrow> core_db \<Rightarrow> (string \<times> scope option) list" where
  "getEffectivePermissions s db = List.map_filter grant_of (findEffectivePermissions (sb_user s) (sb_org s) db)"

definition can :: "subject \<Rightarrow> string \<Rightarrow> scope option \<Rightarrow> core_db \<Rightarrow> decision" where
  "can s permission resource db =
     (if sb_roles s = [] then Denied ''Subject has no assigned roles'' NO_MATCHING_ROLE
      else let grants = filter (\<lambda>g. fst g = permission \<or> fst g = ''*'') (getEffectivePermissions s db) in
        if grants = [] then
          Denied (''Subject does not hold permission '' @ quoted permission) PERMISSION_NOT_GRANTED
        else if \<not> list_ex (\<lambda>g. scope_matches (snd g) resource) grants then
          Denied (''Permission '' @ quoted permission @ '' is not granted for the requested resource scope'')
            SCOPE_MISMATCH
        else Granted)"

definition require :: "subject \<Rightarrow> string \<Rightarrow> scope option \<Rightarrow> (core_db, unit) op" where
  "require s permission resource = andthen (get (can s permission resource)) (\<lambda>d.
     case d of Granted \<Rightarrow> ret ()
     | Denied reason code \<Rightarrow> throw (raise AuthorizationError
         (''Authorization failed: '' @ reason @ '' ('' @ denied_text code @ '')'')))"

definition requireForSubject :: "string \<Rightarrow> string \<Rightarrow> string \<Rightarrow> scope option \<Rightarrow> (core_db, unit) op" where
  "requireForSubject userId org permission resource = andthen (get (findRoleIds userId org)) (\<lambda>roles.
     require \<lparr>sb_user = userId, sb_org = org, sb_roles = roles\<rparr> permission resource)"

definition requireTrusted :: "principal \<Rightarrow> string \<Rightarrow> scope option \<Rightarrow> (core_db, unit) op" where
  "requireTrusted p permission resource =
     require \<lparr>sb_user = pr_user p, sb_org = pr_org p, sb_roles = pr_roles p\<rparr> permission resource"

text \<open>The check each service makes before it acts, on a trusted or an untrusted context.\<close>

definition requirePermission :: "any_context \<Rightarrow> string \<Rightarrow> (core_db, unit) op" where
  "requirePermission ctx permission =
     (case ctx of Trusted _ p \<Rightarrow> requireTrusted p permission None
      | Untrusted c \<Rightarrow>
          (case sub_user (extractContextSubject ctx) of
             Some u \<Rightarrow> if u = [] then throw (raise AuthorizationError
                 (''Operation requires authenticated subject with permission '' @ quoted permission))
               else requireForSubject u (sub_org (extractContextSubject ctx)) permission None
           | None \<Rightarrow> throw (raise AuthorizationError
               (''Operation requires authenticated subject with permission '' @ quoted permission))))"

section \<open>What a decision means\<close>

text \<open>A grant of the tables: the user has a role of the organisation, assigned in that organisation,
  whose permission carries the name and the constraints.\<close>

definition holds_grant :: "core_db \<Rightarrow> string \<Rightarrow> string \<Rightarrow> string \<Rightarrow> string option \<Rightarrow> bool" where
  "holds_grant db userId org name scope \<longleftrightarrow>
     (\<exists>ur \<in> set (db_user_roles db). \<exists>r \<in> set (db_roles db). \<exists>rp \<in> set (db_role_permissions db).
        \<exists>p \<in> set (db_permissions db).
        ur_user ur = userId \<and> ur_org ur = org \<and> rl_id r = ur_role ur \<and> rl_org r = org \<and>
        rp_role rp = rl_id r \<and> rp_permission rp = pm_id p \<and> pm_name p = name \<and> rp_scope rp = scope)"

definition scope_allows :: "string option \<Rightarrow> scope option \<Rightarrow> bool" where
  "scope_allows stored requested \<longleftrightarrow>
     (case stored of None \<Rightarrow> True
      | Some txt \<Rightarrow> (\<exists>cs. json_parse txt = Inr (JObj cs) \<and>
          (cs \<noteq> [] \<longrightarrow> (\<exists>req. requested = Some req \<and> (\<forall>(k, v) \<in> set cs. identical (assoc_get k req) v)))))"

definition authorised :: "core_db \<Rightarrow> string \<Rightarrow> string \<Rightarrow> string \<Rightarrow> scope option \<Rightarrow> bool" where
  "authorised db userId org permission requested \<longleftrightarrow>
     (\<exists>name \<in> {permission, ''*''}. \<exists>scope. holds_grant db userId org name scope \<and> scope_allows scope requested)"

lemma set_effective: "(name, scope) \<in> set (findEffectivePermissions u org db) \<longleftrightarrow> holds_grant db u org name scope"
  by (auto simp: findEffectivePermissions_def holds_grant_def)

lemma grant_name: "grant_of (name, scope) = Some g \<Longrightarrow> fst g = name"
  by (cases scope) (auto split: sum.splits json.splits)

lemma set_map_filter: "set (List.map_filter f xs) = {y. \<exists>x \<in> set xs. f x = Some y}"
  unfolding map_filter_def by force

lemma set_getEffective:
  "g \<in> set (getEffectivePermissions s db) \<longleftrightarrow>
    (\<exists>scope. holds_grant db (sb_user s) (sb_org s) (fst g) scope \<and> grant_of (fst g, scope) = Some g)"
proof
  assume "g \<in> set (getEffectivePermissions s db)"
  then obtain name scope where n: "holds_grant db (sb_user s) (sb_org s) name scope" "grant_of (name, scope) = Some g"
    by (auto simp: getEffectivePermissions_def set_map_filter set_effective [symmetric])
  then show "\<exists>scope. holds_grant db (sb_user s) (sb_org s) (fst g) scope \<and> grant_of (fst g, scope) = Some g"
    using grant_name [OF n(2)] by auto
next
  assume "\<exists>scope. holds_grant db (sb_user s) (sb_org s) (fst g) scope \<and> grant_of (fst g, scope) = Some g"
  then show "g \<in> set (getEffectivePermissions s db)"
    by (auto simp: getEffectivePermissions_def set_map_filter set_effective [symmetric])
qed

lemma grant_allows:
  "(\<exists>g. grant_of (name, scope) = Some g \<and> scope_matches (snd g) requested) \<longleftrightarrow> scope_allows scope requested"
  by (cases scope; cases requested)
    (auto simp: scope_allows_def scope_matches_def list_all_iff split: sum.splits json.splits if_splits)

lemma can_Granted: "can s p r db = Granted \<longleftrightarrow> sb_roles s \<noteq> [] \<and> authorised db (sb_user s) (sb_org s) p r"
proof -
  have "list_ex (\<lambda>g. scope_matches (snd g) r) (filter (\<lambda>g. fst g = p \<or> fst g = ''*'') (getEffectivePermissions s db)) \<longleftrightarrow>
      authorised db (sb_user s) (sb_org s) p r" (is "?l \<longleftrightarrow> ?r")
  proof
    assume ?l
    then obtain g where "fst g \<in> {p, ''*''}" "g \<in> set (getEffectivePermissions s db)" "scope_matches (snd g) r"
      unfolding list_ex_iff set_filter by blast
    then obtain scope where "fst g \<in> {p, ''*''}" "holds_grant db (sb_user s) (sb_org s) (fst g) scope"
      "grant_of (fst g, scope) = Some g" "scope_matches (snd g) r"
      using set_getEffective [of g s db] by blast
    then show ?r using grant_allows [of "fst g" scope r] unfolding authorised_def by blast
  next
    assume ?r
    then obtain name scope where n: "name \<in> {p, ''*''}" "holds_grant db (sb_user s) (sb_org s) name scope" "scope_allows scope r"
      by (auto simp: authorised_def)
    then obtain g where g: "grant_of (name, scope) = Some g" "scope_matches (snd g) r" using grant_allows by blast
    moreover have "fst g = name" using g(1) by (rule grant_name)
    ultimately have "g \<in> set (getEffectivePermissions s db)" "fst g = p \<or> fst g = ''*''"
      using n set_getEffective [of g s db] by auto
    then show ?l using g(2) unfolding list_ex_iff set_filter by blast
  qed
  then show ?thesis by (auto simp: can_def Let_def)
qed

section \<open>Who is admitted\<close>

definition permitted :: "core_db \<Rightarrow> any_context \<Rightarrow> string \<Rightarrow> bool" where
  "permitted db ctx permission \<longleftrightarrow>
     (case ctx of Trusted _ p \<Rightarrow> pr_roles p \<noteq> [] \<and> authorised db (pr_user p) (pr_org p) permission None
      | Untrusted c \<Rightarrow> (\<exists>u. ctx_user c = Some u \<and> u \<noteq> [] \<and> authorised db u (ctx_org c) permission None))"

lemma require_run: "require s p r db =
    (case can s p r db of Granted \<Rightarrow> (Inr (), db)
     | Denied reason code \<Rightarrow> (Inl (raise AuthorizationError
         (''Authorization failed: '' @ reason @ '' ('' @ denied_text code @ '')'')), db))"
  by (simp add: require_def split: decision.split)

lemma authorised_role: "authorised db u org p r \<Longrightarrow> findRoleIds u org db \<noteq> []"
proof -
  assume "authorised db u org p r"
  then obtain ur ro where "ur \<in> set (db_user_roles db)" "ro \<in> set (db_roles db)" "ur_user ur = u" "ur_org ur = org"
    "rl_id ro = ur_role ur" "rl_org ro = org"
    unfolding authorised_def holds_grant_def by blast
  then have "ur_role ur \<in> set (findRoleIds u org db)" by (auto simp: findRoleIds_def)
  then show ?thesis by auto
qed

lemma requireForSubject_Inr: "requireForSubject u org p r db = (Inr (), db') \<longleftrightarrow> db' = db \<and> authorised db u org p r"
  using authorised_role [of db u org p r] can_Granted [of "\<lparr>sb_user = u, sb_org = org, sb_roles = findRoleIds u org db\<rparr>" p r db]
  by (auto simp: requireForSubject_def require_run split: decision.split)

lemma requireTrusted_Inr: "requireTrusted pr p r db = (Inr (), db') \<longleftrightarrow>
    db' = db \<and> pr_roles pr \<noteq> [] \<and> authorised db (pr_user pr) (pr_org pr) p r"
  using can_Granted [of "\<lparr>sb_user = pr_user pr, sb_org = pr_org pr, sb_roles = pr_roles pr\<rparr>" p r db]
  by (auto simp: requireTrusted_def require_run split: decision.split)

lemma requirePermission_Inr: "requirePermission ctx p db = (Inr (), db') \<longleftrightarrow> db' = db \<and> permitted db ctx p"
  by (cases ctx) (auto simp: requirePermission_def permitted_def requireTrusted_Inr requireForSubject_Inr split: option.split)

text \<open>A refused check leaves the tables and reports an authorisation error.\<close>

lemma requirePermission_Inl:
  assumes "\<not> permitted db ctx p"
  obtains e where "requirePermission ctx p db = (Inl e, db)" "err_class e = AuthorizationError"
proof -
  have r: "\<exists>e. require s p None db = (Inl e, db) \<and> err_class e = AuthorizationError"
    if "require s p None db \<noteq> (Inr (), db)" for s
    using that by (auto simp: require_run platform_error_def split: decision.splits)
  have "\<exists>e. requirePermission ctx p db = (Inl e, db) \<and> err_class e = AuthorizationError"
  proof (cases ctx)
    case (Trusted c pr)
    then show ?thesis using r requirePermission_Inr [of ctx p db db] assms
      by (simp add: requirePermission_def requireTrusted_def)
  next
    case (Untrusted c)
    show ?thesis
    proof (cases "ctx_user c = None \<or> ctx_user c = Some []")
      case True
      then show ?thesis using Untrusted by (auto simp: requirePermission_def platform_error_def)
    next
      case False
      then show ?thesis using Untrusted r requirePermission_Inr [of ctx p db db] assms
        by (auto simp: requirePermission_def requireForSubject_def)
    qed
  qed
  then show thesis using that by blast
qed

lemma preserves_requirePermission [preserve]: "preserves I (requirePermission ctx p)"
proof (rule preservesI)
  fix db assume "I db"
  then show "I (snd (requirePermission ctx p db))"
    using requirePermission_Inr [of ctx p db db] requirePermission_Inl [of db ctx p] by (metis snd_conv)
qed

text \<open>Rows of other organisations take no part in a decision.\<close>

definition only_org :: "string \<Rightarrow> core_db \<Rightarrow> core_db" where
  "only_org org db = db\<lparr>db_user_roles := filter (\<lambda>ur. ur_org ur = org) (db_user_roles db),
     db_roles := filter (\<lambda>r. rl_org r = org) (db_roles db)\<rparr>"

lemma concat_filter: "(\<And>x. \<not> P x \<Longrightarrow> f x = []) \<Longrightarrow> concat (map f (filter P xs)) = concat (map f xs)"
  by (induction xs) auto

lemma effective_only_org: "findEffectivePermissions u org (only_org org db) = findEffectivePermissions u org db"
proof -
  let ?g = "\<lambda>ur r. [(pm_name p, rp_scope rp). rp \<leftarrow> db_role_permissions db, p \<leftarrow> db_permissions db,
    rl_id r = ur_role ur \<and> rl_org r = ur_org ur \<and> rp_role rp = rl_id r \<and> rp_permission rp = pm_id p \<and> ur_user ur = u \<and> ur_org ur = org]"
  have r: "concat (map (?g ur) (filter (\<lambda>r. rl_org r = org) (db_roles db))) = concat (map (?g ur) (db_roles db))" for ur
    by (rule concat_filter) (auto simp: concat_eq_Nil_conv)
  have "concat (map (\<lambda>ur. concat (map (?g ur) (db_roles db))) (filter (\<lambda>ur. ur_org ur = org) (db_user_roles db))) =
      concat (map (\<lambda>ur. concat (map (?g ur) (db_roles db))) (db_user_roles db))"
    by (rule concat_filter) (auto simp: concat_eq_Nil_conv)
  moreover have "findEffectivePermissions u org (only_org org db) =
      concat (map (\<lambda>ur. concat (map (?g ur) (filter (\<lambda>r. rl_org r = org) (db_roles db)))) (filter (\<lambda>ur. ur_org ur = org) (db_user_roles db)))"
    by (simp add: findEffectivePermissions_def only_org_def)
  ultimately show ?thesis unfolding r findEffectivePermissions_def by (rule trans [rotated])
qed

text \<open>C19. Decisions of the authorisation engine are sound and complete for the tables: access is granted exactly
  when the subject has a role and some role of its organisation, assigned to it there, carries the
  permission or the wildcard with constraints that parse and that the request meets; rows of other
  organisations take no part; and the check by context succeeds exactly for such subjects, a session
  whose roles were read as empty being refused whatever the tables now say.\<close>

theorem access_decisions:
  "(can s p r db = Granted \<longleftrightarrow> sb_roles s \<noteq> [] \<and> authorised db (sb_user s) (sb_org s) p r) \<and>
   can s p r (only_org (sb_org s) db) = can s p r db \<and>
   (requirePermission ctx p db = (Inr (), db) \<longleftrightarrow> permitted db ctx p) \<and>
   snd (requirePermission ctx p db) = db"
proof (intro conjI)
  show "can s p r db = Granted \<longleftrightarrow> sb_roles s \<noteq> [] \<and> authorised db (sb_user s) (sb_org s) p r" by (rule can_Granted)
  show "can s p r (only_org (sb_org s) db) = can s p r db"
    by (simp add: can_def getEffectivePermissions_def effective_only_org)
  show "requirePermission ctx p db = (Inr (), db) \<longleftrightarrow> permitted db ctx p" by (simp add: requirePermission_Inr)
  show "snd (requirePermission ctx p db) = db"
    using preservesD [OF preserves_requirePermission [of "\<lambda>d. d = db" ctx p]] by blast
qed

end
