(* ===== verification/Sync_Groups.thy ===== *)
theory Sync_Groups
  imports Authorization
begin

text \<open>
  \<open>authorization/src/sync-group/SyncGroupService.ts\<close> with \<open>repositories/SyncGroupRepository.ts\<close>:
  sync groups, the requests for membership, their decisions, memberships and revocations.  The
  invariant ties requests, decisions and memberships together; further lemmas say when a device is
  admitted to a group and what a revocation takes away.
\<close>

section \<open>Repository\<close>

definition findGroup :: "string \<Rightarrow> core_db \<Rightarrow> group_row option" where
  "findGroup groupId db = find_first (\<lambda>g. gr_id g = groupId) (db_groups db)"

definition insertGroup :: "group_row \<Rightarrow> (core_db, unit) op" where
  "insertGroup row = insert_row ''core_sync_groups.id''
     (\<lambda>db. gr_id row \<notin> gr_id ` set (db_groups db)) (\<lambda>db. has_org db (gr_org row))
     (\<lambda>db. db\<lparr>db_groups := db_groups db @ [row]\<rparr>)"

definition insertMembershipRequest :: "request_row \<Rightarrow> (core_db, unit) op" where
  "insertMembershipRequest row = insert_row ''core_membership_requests.id''
     (\<lambda>db. rq_id row \<notin> rq_id ` set (db_requests db))
     (\<lambda>db. has_group db (rq_group row) \<and> has_user db (rq_user row))
     (\<lambda>db. db\<lparr>db_requests := db_requests db @ [row]\<rparr>)"

definition findMembershipRequest :: "string \<Rightarrow> core_db \<Rightarrow> request_row option" where
  "findMembershipRequest requestId db = find_first (\<lambda>r. rq_id r = requestId) (db_requests db)"

definition insertDecision :: "decision_row \<Rightarrow> (core_db, unit) op" where
  "insertDecision row = insert_row ''core_membership_decisions.id''
     (\<lambda>db. dc_id row \<notin> dc_id ` set (db_decisions db))
     (\<lambda>db. dc_request row \<in> rq_id ` set (db_requests db) \<and> has_user db (Some (dc_decided_by row)))
     (\<lambda>db. db\<lparr>db_decisions := db_decisions db @ [row]\<rparr>)"

definition setRequestStatus :: "string \<Rightarrow> request_status \<Rightarrow> (core_db, unit) op" where
  "setRequestStatus requestId status = modify (\<lambda>db. db\<lparr>db_requests :=
     sql_update (\<lambda>r. rq_id r = requestId) (\<lambda>r. r\<lparr>rq_status := status\<rparr>) (db_requests db)\<rparr>)"

definition insertMember :: "member_row \<Rightarrow> (core_db, unit) op" where
  "insertMember row = insert_row ''core_sync_group_members.id''
     (\<lambda>db. mb_id row \<notin> mb_id ` set (db_members db))
     (\<lambda>db. has_group db (mb_group row) \<and> has_user db (mb_user row))
     (\<lambda>db. db\<lparr>db_members := db_members db @ [row]\<rparr>)"

definition revokeMember :: "string \<Rightarrow> string \<Rightarrow> string \<Rightarrow> string \<Rightarrow> string \<Rightarrow> (core_db, unit) op" where
  "revokeMember now by reason deviceId groupId = modify (\<lambda>db. db\<lparr>db_members :=
     sql_update (\<lambda>m. mb_device m = deviceId \<and> mb_group m = groupId)
       (\<lambda>m. m\<lparr>mb_status := MbrRevoked, mb_revoked_at := Some now, mb_revoked_by := Some by, mb_reason := Some reason\<rparr>)
       (db_members db)\<rparr>)"

definition insertRevocation :: "revocation_row \<Rightarrow> (core_db, unit) op" where
  "insertRevocation row = insert_row ''core_revocations.id''
     (\<lambda>db. rv_id row \<notin> rv_id ` set (db_revocations db))
     (\<lambda>db. (case rv_group row of None \<Rightarrow> True | Some g \<Rightarrow> has_group db g) \<and> has_user db (Some (rv_revoked_by row)))
     (\<lambda>db. db\<lparr>db_revocations := db_revocations db @ [row]\<rparr>)"

text \<open>\<open>LIMIT 1\<close> without an order: the oldest row, which a scan of the table meets first.\<close>

definition findMembershipStatus :: "string \<Rightarrow> string \<Rightarrow> core_db \<Rightarrow> membership_status option" where
  "findMembershipStatus deviceId groupId db =
     map_option mb_status (find_first (\<lambda>m. mb_device m = deviceId \<and> mb_group m = groupId) (db_members db))"

definition findDeviceStatus :: "string \<Rightarrow> core_db \<Rightarrow> device_status option" where
  "findDeviceStatus deviceId db = map_option dv_status (find_first (\<lambda>d. dv_device_id d = deviceId) (db_devices db))"

definition member_ok :: "membership_status \<Rightarrow> bool" where
  "member_ok s \<longleftrightarrow> s = MbrApproved \<or> s = MbrActive"

definition device_ok :: "device_status \<Rightarrow> bool" where
  "device_ok s \<longleftrightarrow> s = DevApproved \<or> s = DevActive"

definition findMembershipEligibility ::
    "string \<Rightarrow> string \<Rightarrow> string option \<Rightarrow> core_db \<Rightarrow> (device_status \<times> membership_status option) option" where
  "findMembershipEligibility groupId deviceId userId db =
     map_option (\<lambda>d. (dv_status d, map_option mb_status (find_first
         (\<lambda>m. mb_device m = dv_device_id d \<and> mb_group m = groupId \<and> member_ok (mb_status m) \<and>
           (mb_user m = None \<or> userId \<noteq> None \<and> mb_user m = userId)) (db_members db))))
       (find_first (\<lambda>d. dv_device_id d = deviceId) (db_devices db))"

section \<open>Service\<close>

definition ctx_organisation :: "any_context \<Rightarrow> string" where
  "ctx_organisation ctx = sub_org (extractContextSubject ctx)"

definition requireGroupOrganisation :: "string \<Rightarrow> any_context \<Rightarrow> (core_db, unit) op" where
  "requireGroupOrganisation groupId ctx = andthen (get (findGroup groupId)) (\<lambda>g.
     case g of
       None \<Rightarrow> throw (raise ValidationError (''Sync group '' @ quoted groupId @ '' does not exist''))
     | Some row \<Rightarrow> guard (gr_org row = ctx_organisation ctx) (raise AuthorizationError
         (''Cannot manage sync group '' @ quoted groupId @ '' outside organisation '' @ quoted (ctx_organisation ctx))))"

definition createGroup :: "string \<Rightarrow> string option \<Rightarrow> string \<Rightarrow> any_context \<Rightarrow> string \<Rightarrow> string \<Rightarrow> (core_db, group_row) op" where
  "createGroup name description org ctx newId now =
     andthen (guard (trim name \<noteq> []) (raise ValidationError ''Sync group name is required'')) (\<lambda>_.
     andthen (guard (org = ctx_organisation ctx) (raise AuthorizationError
       (''Cross-tenant sync group creation forbidden: context organisation '' @ quoted (ctx_organisation ctx) @
        '' cannot create group in organisation '' @ quoted org))) (\<lambda>_.
     andthen (requirePermission ctx ''sync.manage'') (\<lambda>_.
     let user = sub_user (extractContextSubject ctx);
         row = \<lparr>gr_id = newId, gr_created_at = now, gr_updated_at = now, gr_created_by = user, gr_updated_by = user,
           gr_org = org, gr_name = trim name, gr_description = description, gr_status = GroupActive\<rparr> in
     andthen (insertGroup row) (\<lambda>_. ret row))))"

definition requestMembership :: "string \<Rightarrow> string \<Rightarrow> string option \<Rightarrow> string \<Rightarrow> string \<Rightarrow> (core_db, string) op" where
  "requestMembership groupId deviceId userId requestId now =
     andthen (insertMembershipRequest \<lparr>rq_id = requestId, rq_device = deviceId, rq_group = groupId, rq_user = userId,
       rq_requested_at = now, rq_status = ReqPending\<rparr>) (\<lambda>_. ret requestId)"

text \<open>\<open>"principal" in ctx ? ctx.principal.userId : (ctx.userId ?? "system")\<close>\<close>

definition acting_user :: "any_context \<Rightarrow> string" where
  "acting_user ctx = (case ctx of Trusted _ p \<Rightarrow> pr_user p
     | Untrusted c \<Rightarrow> (case ctx_user c of Some u \<Rightarrow> u | None \<Rightarrow> ''system''))"

text \<open>The part that approval and rejection share: a pending request of a group of the actor's organisation.\<close>

definition pending_request :: "string \<Rightarrow> any_context \<Rightarrow> (core_db, request_row) op" where
  "pending_request requestId ctx =
     andthen (requirePermission ctx ''sync.manage'') (\<lambda>_.
     andthen (get (findMembershipRequest requestId)) (\<lambda>r.
     case r of
       None \<Rightarrow> throw (raise ValidationError (''Membership request '' @ quoted requestId @ '' not found''))
     | Some req \<Rightarrow>
         andthen (requireGroupOrganisation (rq_group req) ctx) (\<lambda>_.
         andthen (guard (rq_status req = ReqPending) (raise ValidationError
           (''Membership request '' @ quoted requestId @ '' is not pending''))) (\<lambda>_. ret req))))"

definition approve_in :: "string \<Rightarrow> any_context \<Rightarrow> string option \<Rightarrow> string option \<Rightarrow> string \<Rightarrow> string \<Rightarrow> string \<Rightarrow> (core_db, unit) op" where
  "approve_in requestId approver signature expectedDevice decisionId memberId now =
     andthen (pending_request requestId approver) (\<lambda>req.
     andthen (guard (expectedDevice = None \<or> expectedDevice = Some (rq_device req)) (raise AuthorizationError
       (''Membership request '' @ quoted requestId @ '' is for a different device''))) (\<lambda>_.
     andthen (insertDecision \<lparr>dc_id = decisionId, dc_request = requestId, dc_decided_by = acting_user approver,
       dc_decision = ReqApproved, dc_decided_at = now, dc_signature = signature\<rparr>) (\<lambda>_.
     andthen (setRequestStatus requestId ReqApproved) (\<lambda>_.
     insertMember \<lparr>mb_id = memberId, mb_group = rq_group req, mb_device = rq_device req, mb_user = rq_user req,
       mb_status = MbrApproved, mb_joined_at = now, mb_revoked_at = None, mb_revoked_by = None, mb_reason = None\<rparr>))))"

definition approveMembership :: "string \<Rightarrow> any_context \<Rightarrow> string option \<Rightarrow> string option \<Rightarrow> string \<Rightarrow> string \<Rightarrow> string \<Rightarrow> (core_db, unit) op" where
  "approveMembership requestId approver signature expectedDevice decisionId memberId now =
     transaction (approve_in requestId approver signature expectedDevice decisionId memberId now)"

definition revoke_in :: "string \<Rightarrow> string \<Rightarrow> any_context \<Rightarrow> string \<Rightarrow> string \<Rightarrow> string \<Rightarrow> (core_db, unit) op" where
  "revoke_in deviceId groupId revokedBy reason revocationId now =
     andthen (requirePermission revokedBy ''sync.manage'') (\<lambda>_.
     andthen (requireGroupOrganisation groupId revokedBy) (\<lambda>_.
     andthen (guard (trim reason \<noteq> []) (raise ValidationError ''Membership revocation reason is required'')) (\<lambda>_.
     andthen (get (findMembershipStatus deviceId groupId)) (\<lambda>status.
     andthen (guard (case status of None \<Rightarrow> False | Some s \<Rightarrow> member_ok s) (raise ValidationError
       (''Device '' @ quoted deviceId @ '' is not an active member of sync group '' @ quoted groupId))) (\<lambda>_.
     andthen (revokeMember now (acting_user revokedBy) reason deviceId groupId) (\<lambda>_.
     insertRevocation \<lparr>rv_id = revocationId, rv_device = deviceId, rv_group = Some groupId,
       rv_revoked_by = acting_user revokedBy, rv_revoked_at = now, rv_reason = reason\<rparr>))))))"

definition revokeMembership :: "string \<Rightarrow> string \<Rightarrow> any_context \<Rightarrow> string \<Rightarrow> string \<Rightarrow> string \<Rightarrow> (core_db, unit) op" where
  "revokeMembership deviceId groupId revokedBy reason revocationId now =
     transaction (revoke_in deviceId groupId revokedBy reason revocationId now)"

definition reject_in :: "string \<Rightarrow> any_context \<Rightarrow> string \<Rightarrow> string \<Rightarrow> (core_db, unit) op" where
  "reject_in requestId rejector decisionId now =
     andthen (pending_request requestId rejector) (\<lambda>_.
     andthen (insertDecision \<lparr>dc_id = decisionId, dc_request = requestId, dc_decided_by = acting_user rejector,
       dc_decision = ReqRejected, dc_decided_at = now, dc_signature = None\<rparr>) (\<lambda>_.
     setRequestStatus requestId ReqRejected))"

definition rejectMembership :: "string \<Rightarrow> any_context \<Rightarrow> string \<Rightarrow> string \<Rightarrow> (core_db, unit) op" where
  "rejectMembership requestId rejector decisionId now = transaction (reject_in requestId rejector decisionId now)"

definition canSync :: "string \<Rightarrow> string \<Rightarrow> core_db \<Rightarrow> bool" where
  "canSync deviceId groupId db =
     (case findDeviceStatus deviceId db of None \<Rightarrow> False
      | Some ds \<Rightarrow> device_ok ds \<and>
         (case findMembershipStatus deviceId groupId db of None \<Rightarrow> False | Some ms \<Rightarrow> member_ok ms))"

definition requireActiveMembership :: "any_context \<Rightarrow> string \<Rightarrow> (core_db, unit) op" where
  "requireActiveMembership ctx groupId =
     (let subject = extractContextSubject ctx in
     andthen (get (findGroup groupId)) (\<lambda>g.
     case g of
       None \<Rightarrow> throw (raise ValidationError (''Sync group '' @ quoted groupId @ '' does not exist''))
     | Some row \<Rightarrow>
         andthen (guard (gr_org row = sub_org subject) (raise AuthorizationError
           (''Cannot write to sync group '' @ quoted groupId @ '' outside organisation '' @ quoted (sub_org subject)))) (\<lambda>_.
         andthen (guard (gr_status row = GroupActive) (raise AuthorizationError
           (''Cannot write to inactive sync group '' @ quoted groupId))) (\<lambda>_.
         andthen (get (findMembershipEligibility groupId (sub_device subject) (sub_user subject))) (\<lambda>e.
         case e of
           None \<Rightarrow> throw (raise AuthorizationError
             (''Device '' @ quoted (sub_device subject) @ '' is not active or approved for sync''))
         | Some (ds, ms) \<Rightarrow>
             andthen (guard (device_ok ds) (raise AuthorizationError
               (''Device '' @ quoted (sub_device subject) @ '' is not active or approved for sync''))) (\<lambda>_.
             guard (ms \<noteq> None) (raise AuthorizationError
               (''Device '' @ quoted (sub_device subject) @ '' is not an approved member of sync group '' @ quoted groupId))))))))"

section \<open>Outcomes\<close>

definition own_group :: "core_db \<Rightarrow> any_context \<Rightarrow> string \<Rightarrow> bool" where
  "own_group db ctx groupId \<longleftrightarrow> (\<exists>g. findGroup groupId db = Some g \<and> gr_org g = ctx_organisation ctx)"

lemma own_group_has: "own_group db ctx g \<Longrightarrow> has_group db g"
  by (auto simp: own_group_def findGroup_def has_group_def dest!: find_first_SomeD)

lemma requireGroupOrganisation_run: "requireGroupOrganisation groupId ctx db =
    (if own_group db ctx groupId then (Inr (), db)
     else (Inl (case findGroup groupId db of
        None \<Rightarrow> raise ValidationError (''Sync group '' @ quoted groupId @ '' does not exist'')
      | Some _ \<Rightarrow> raise AuthorizationError (''Cannot manage sync group '' @ quoted groupId @ '' outside organisation '' @
          quoted (ctx_organisation ctx))), db))"
  by (auto simp: requireGroupOrganisation_def own_group_def split: option.split)

lemma requireGroupOrganisation_Inr: "requireGroupOrganisation g ctx db = (Inr (), db') \<longleftrightarrow> db' = db \<and> own_group db ctx g"
  by (auto simp: requireGroupOrganisation_def own_group_def split: option.split)

lemma preserves_requireGroup [preserve]: "preserves I (requireGroupOrganisation g ctx)"
  unfolding requireGroupOrganisation_def by (intro preserve)

lemma preserves_pending_request [preserve]: "preserves I (pending_request i ctx)"
  unfolding pending_request_def by (intro preserve)

lemma pending_request_Inr: "pending_request i ctx db = (Inr req, db') \<longleftrightarrow>
    db' = db \<and> permitted db ctx ''sync.manage'' \<and> findMembershipRequest i db = Some req \<and>
    own_group db ctx (rq_group req) \<and> rq_status req = ReqPending"
proof (cases "permitted db ctx ''sync.manage''")
  case False
  obtain e where e: "requirePermission ctx ''sync.manage'' db = (Inl e, db)" using requirePermission_Inl [OF False] by blast
  show ?thesis using False unfolding pending_request_def run_andthen_Inl [where m = "requirePermission ctx ''sync.manage''", OF e] by simp
next
  case True
  then have p: "requirePermission ctx ''sync.manage'' db = (Inr (), db)" by (simp add: requirePermission_Inr)
  show ?thesis
  proof (cases "findMembershipRequest i db")
    case None
    then show ?thesis using p by (simp add: pending_request_def run_andthen_Inr [where m = "requirePermission ctx ''sync.manage''", OF p])
  next
    case (Some r)
    have run: "pending_request i ctx db = andthen (requireGroupOrganisation (rq_group r) ctx) (\<lambda>_.
        andthen (guard (rq_status r = ReqPending) (raise ValidationError
          (''Membership request '' @ quoted i @ '' is not pending''))) (\<lambda>_. ret r)) db"
      unfolding pending_request_def using Some by (simp add: run_andthen_Inr [where m = "requirePermission ctx ''sync.manage''", OF p])
    show ?thesis
    proof (cases "own_group db ctx (rq_group r)")
      case True
      then have "requireGroupOrganisation (rq_group r) ctx db = (Inr (), db)" by (simp add: requireGroupOrganisation_Inr)
      then have "pending_request i ctx db = (if rq_status r = ReqPending then Inr r
          else Inl (raise ValidationError (''Membership request '' @ quoted i @ '' is not pending'')), db)"
        unfolding run by (simp add: run_andthen_Inr [where m = "requireGroupOrganisation (rq_group r) ctx"])
      then show ?thesis using Some True \<open>permitted db ctx ''sync.manage''\<close> by auto
    next
      case False
      then have "\<exists>e. pending_request i ctx db = (Inl e, db)"
        unfolding run using requireGroupOrganisation_run [of "rq_group r" ctx db] by (simp add: run_andthen_Inl)
      then show ?thesis using Some False by auto
    qed
  qed
qed

definition with_status :: "string \<Rightarrow> request_status \<Rightarrow> core_db \<Rightarrow> request_row list" where
  "with_status i s db = sql_update (\<lambda>r. rq_id r = i) (\<lambda>r. r\<lparr>rq_status := s\<rparr>) (db_requests db)"

definition approval :: "request_row \<Rightarrow> any_context \<Rightarrow> string option \<Rightarrow> string \<Rightarrow> string \<Rightarrow> string \<Rightarrow> core_db \<Rightarrow> core_db" where
  "approval req ctx signature decisionId memberId now db = db\<lparr>
     db_decisions := db_decisions db @ [\<lparr>dc_id = decisionId, dc_request = rq_id req, dc_decided_by = acting_user ctx,
       dc_decision = ReqApproved, dc_decided_at = now, dc_signature = signature\<rparr>],
     db_requests := with_status (rq_id req) ReqApproved db,
     db_members := db_members db @ [\<lparr>mb_id = memberId, mb_group = rq_group req, mb_device = rq_device req,
       mb_user = rq_user req, mb_status = MbrApproved, mb_joined_at = now, mb_revoked_at = None, mb_revoked_by = None,
       mb_reason = None\<rparr>]\<rparr>"

lemma find_request_id: "findMembershipRequest i db = Some req \<Longrightarrow> rq_id req = i \<and> req \<in> set (db_requests db)"
  by (auto simp: findMembershipRequest_def dest: find_first_SomeD)

definition may_decide :: "core_db \<Rightarrow> any_context \<Rightarrow> request_row \<Rightarrow> string \<Rightarrow> bool" where
  "may_decide db ctx req decisionId \<longleftrightarrow> permitted db ctx ''sync.manage'' \<and> own_group db ctx (rq_group req) \<and>
     rq_status req = ReqPending \<and> findMembershipRequest (rq_id req) db = Some req \<and>
     decisionId \<notin> dc_id ` set (db_decisions db) \<and> has_user db (Some (acting_user ctx))"

lemma approveMembership_Inr:
  "approveMembership i ctx signature dev decisionId memberId now db = (Inr (), db') \<longleftrightarrow>
    (\<exists>req. rq_id req = i \<and> may_decide db ctx req decisionId \<and> (dev = None \<or> dev = Some (rq_device req)) \<and>
       memberId \<notin> mb_id ` set (db_members db) \<and> has_user db (rq_user req) \<and>
       db' = approval req ctx signature decisionId memberId now db)" (is "?l \<longleftrightarrow> ?r")
proof
  assume ?l
  then have "approve_in i ctx signature dev decisionId memberId now db = (Inr (), db')"
    by (simp add: approveMembership_def transaction_Inr)
  then obtain req db1 where p: "pending_request i ctx db = (Inr req, db1)"
    and rest: "andthen (guard (dev = None \<or> dev = Some (rq_device req)) (raise AuthorizationError
       (''Membership request '' @ quoted i @ '' is for a different device''))) (\<lambda>_.
     andthen (insertDecision \<lparr>dc_id = decisionId, dc_request = i, dc_decided_by = acting_user ctx,
       dc_decision = ReqApproved, dc_decided_at = now, dc_signature = signature\<rparr>) (\<lambda>_.
     andthen (setRequestStatus i ReqApproved) (\<lambda>_.
     insertMember \<lparr>mb_id = memberId, mb_group = rq_group req, mb_device = rq_device req, mb_user = rq_user req,
       mb_status = MbrApproved, mb_joined_at = now, mb_revoked_at = None, mb_revoked_by = None, mb_reason = None\<rparr>))) db1 =
     (Inr (), db')"
    unfolding approve_in_def by (rule andthen_InrE)
  have q: "db1 = db" "permitted db ctx ''sync.manage''" "findMembershipRequest i db = Some req"
    "own_group db ctx (rq_group req)" "rq_status req = ReqPending"
    using p by (simp_all add: pending_request_Inr)
  have i: "rq_id req = i" using find_request_id [OF q(3)] by simp
  show ?r
    using rest q i
    by (intro exI [of _ req])
      (auto simp: insertDecision_def insertMember_def setRequestStatus_def andthen_def insert_row_run may_decide_def
        approval_def with_status_def split: if_split_asm)
next
  assume ?r
  then obtain req where i: "rq_id req = i" and d: "may_decide db ctx req decisionId" "dev = None \<or> dev = Some (rq_device req)"
    "memberId \<notin> mb_id ` set (db_members db)" "has_user db (rq_user req)"
    "db' = approval req ctx signature decisionId memberId now db" by blast
  have f: "findMembershipRequest i db = Some req" "has_group db (rq_group req)"
    using d(1) i own_group_has by (auto simp: may_decide_def)
  have "pending_request i ctx db = (Inr req, db)" using d(1) i by (simp add: pending_request_Inr may_decide_def)
  then have "approve_in i ctx signature dev decisionId memberId now db = (Inr (), db')"
    using d i find_request_id [OF f(1)] f(2)
    by (auto simp: approve_in_def andthen_def insertDecision_def insertMember_def setRequestStatus_def insert_row_run
        may_decide_def approval_def with_status_def)
  then show ?l by (simp add: approveMembership_def transaction_Inr)
qed

lemma approveMembership_Inl: "approveMembership i ctx signature dev d m now db = (Inl e, db') \<Longrightarrow> db' = db"
  unfolding approveMembership_def by (rule transaction_error)

definition rejection :: "request_row \<Rightarrow> any_context \<Rightarrow> string \<Rightarrow> string \<Rightarrow> core_db \<Rightarrow> core_db" where
  "rejection req ctx decisionId now db = db\<lparr>
     db_decisions := db_decisions db @ [\<lparr>dc_id = decisionId, dc_request = rq_id req, dc_decided_by = acting_user ctx,
       dc_decision = ReqRejected, dc_decided_at = now, dc_signature = None\<rparr>],
     db_requests := with_status (rq_id req) ReqRejected db\<rparr>"

lemma rejectMembership_Inr:
  "rejectMembership i ctx decisionId now db = (Inr (), db') \<longleftrightarrow>
    (\<exists>req. rq_id req = i \<and> may_decide db ctx req decisionId \<and> db' = rejection req ctx decisionId now db)" (is "?l \<longleftrightarrow> ?r")
proof
  assume ?l
  then have "reject_in i ctx decisionId now db = (Inr (), db')" by (simp add: rejectMembership_def transaction_Inr)
  then obtain req db1 where p: "pending_request i ctx db = (Inr req, db1)"
    and rest: "andthen (insertDecision \<lparr>dc_id = decisionId, dc_request = i, dc_decided_by = acting_user ctx,
       dc_decision = ReqRejected, dc_decided_at = now, dc_signature = None\<rparr>) (\<lambda>_. setRequestStatus i ReqRejected) db1 = (Inr (), db')"
    unfolding reject_in_def by (rule andthen_InrE)
  have q: "db1 = db" "permitted db ctx ''sync.manage''" "findMembershipRequest i db = Some req"
    "own_group db ctx (rq_group req)" "rq_status req = ReqPending"
    using p by (simp_all add: pending_request_Inr)
  have i: "rq_id req = i" using find_request_id [OF q(3)] by simp
  show ?r
    using rest q i
    by (intro exI [of _ req])
      (auto simp: insertDecision_def setRequestStatus_def andthen_def insert_row_run may_decide_def
        rejection_def with_status_def split: if_split_asm)
next
  assume ?r
  then obtain req where i: "rq_id req = i" and d: "may_decide db ctx req decisionId" "db' = rejection req ctx decisionId now db"
    by blast
  have f: "findMembershipRequest i db = Some req" using d(1) i by (auto simp: may_decide_def)
  have "pending_request i ctx db = (Inr req, db)" using d(1) i by (simp add: pending_request_Inr may_decide_def)
  then have "reject_in i ctx decisionId now db = (Inr (), db')"
    using d i find_request_id [OF f]
    by (auto simp: reject_in_def andthen_def insertDecision_def setRequestStatus_def insert_row_run
        may_decide_def rejection_def with_status_def)
  then show ?l by (simp add: rejectMembership_def transaction_Inr)
qed

definition revocation :: "string \<Rightarrow> string \<Rightarrow> any_context \<Rightarrow> string \<Rightarrow> string \<Rightarrow> string \<Rightarrow> core_db \<Rightarrow> core_db" where
  "revocation deviceId groupId ctx reason revocationId now db = db\<lparr>
     db_members := sql_update (\<lambda>m. mb_device m = deviceId \<and> mb_group m = groupId)
       (\<lambda>m. m\<lparr>mb_status := MbrRevoked, mb_revoked_at := Some now, mb_revoked_by := Some (acting_user ctx),
         mb_reason := Some reason\<rparr>) (db_members db),
     db_revocations := db_revocations db @ [\<lparr>rv_id = revocationId, rv_device = deviceId, rv_group = Some groupId,
       rv_revoked_by = acting_user ctx, rv_revoked_at = now, rv_reason = reason\<rparr>]\<rparr>"

definition may_revoke :: "core_db \<Rightarrow> any_context \<Rightarrow> string \<Rightarrow> string \<Rightarrow> string \<Rightarrow> string \<Rightarrow> bool" where
  "may_revoke db ctx deviceId groupId reason revocationId \<longleftrightarrow> permitted db ctx ''sync.manage'' \<and> own_group db ctx groupId \<and>
     trim reason \<noteq> [] \<and> (\<exists>s. findMembershipStatus deviceId groupId db = Some s \<and> member_ok s) \<and>
     revocationId \<notin> rv_id ` set (db_revocations db) \<and> has_user db (Some (acting_user ctx))"

lemma revokeMembership_Inr:
  "revokeMembership deviceId groupId ctx reason revocationId now db = (Inr (), db') \<longleftrightarrow>
    may_revoke db ctx deviceId groupId reason revocationId \<and> db' = revocation deviceId groupId ctx reason revocationId now db"
    (is "?l \<longleftrightarrow> ?r")
proof
  assume ?l
  then have "revoke_in deviceId groupId ctx reason revocationId now db = (Inr (), db')"
    by (simp add: revokeMembership_def transaction_Inr)
  then obtain db1 where p: "requirePermission ctx ''sync.manage'' db = (Inr (), db1)"
    and rest: "andthen (requireGroupOrganisation groupId ctx) (\<lambda>_.
     andthen (guard (trim reason \<noteq> []) (raise ValidationError ''Membership revocation reason is required'')) (\<lambda>_.
     andthen (get (findMembershipStatus deviceId groupId)) (\<lambda>status.
     andthen (guard (case status of None \<Rightarrow> False | Some s \<Rightarrow> member_ok s) (raise ValidationError
       (''Device '' @ quoted deviceId @ '' is not an active member of sync group '' @ quoted groupId))) (\<lambda>_.
     andthen (revokeMember now (acting_user ctx) reason deviceId groupId) (\<lambda>_.
     insertRevocation \<lparr>rv_id = revocationId, rv_device = deviceId, rv_group = Some groupId,
       rv_revoked_by = acting_user ctx, rv_revoked_at = now, rv_reason = reason\<rparr>))))) db1 = (Inr (), db')"
    unfolding revoke_in_def by (rule andthen_InrE) (auto simp: old.unit.exhaust)
  have "db1 = db" "permitted db ctx ''sync.manage''" using p by (simp_all add: requirePermission_Inr)
  then show ?r using rest
    by (auto simp: andthen_def requireGroupOrganisation_run revokeMember_def insertRevocation_def insert_row_run may_revoke_def
        revocation_def split: if_split_asm option.split_asm)
next
  assume r: ?r
  then have p: "requirePermission ctx ''sync.manage'' db = (Inr (), db)" by (simp add: requirePermission_Inr may_revoke_def)
  have "revoke_in deviceId groupId ctx reason revocationId now db = (Inr (), db')"
    unfolding revoke_in_def run_andthen_Inr [where m = "requirePermission ctx ''sync.manage''", OF p]
    using r own_group_has [of db ctx groupId]
    by (auto simp: andthen_def requireGroupOrganisation_run revokeMember_def insertRevocation_def insert_row_run may_revoke_def
        revocation_def)
  then show ?l by (simp add: revokeMembership_def transaction_Inr)
qed

section \<open>Requests, decisions and memberships\<close>

definition decisions_ok :: "request_row list \<Rightarrow> decision_row list \<Rightarrow> bool" where
  "decisions_ok rs ds \<longleftrightarrow> distinct (map rq_id rs) \<and> distinct (map dc_request ds) \<and>
     (\<forall>d \<in> set ds. \<exists>r \<in> set rs. rq_id r = dc_request d \<and> rq_status r = dc_decision d \<and> dc_decision d \<noteq> ReqPending) \<and>
     (\<forall>r \<in> set rs. rq_status r \<noteq> ReqPending \<longrightarrow> rq_id r \<in> dc_request ` set ds)"

definition member_of_request :: "member_row \<Rightarrow> request_row \<Rightarrow> bool" where
  "member_of_request m r \<longleftrightarrow> rq_status r = ReqApproved \<and> rq_device r = mb_device m \<and> rq_group r = mb_group m \<and> rq_user r = mb_user m"

definition members_ok :: "request_row list \<Rightarrow> member_row list \<Rightarrow> revocation_row list \<Rightarrow> bool" where
  "members_ok rs ms vs \<longleftrightarrow> (\<forall>m \<in> set ms. \<exists>r \<in> set rs. member_of_request m r) \<and>
     (\<forall>m \<in> set ms. mb_status m = MbrApproved \<or> mb_status m = MbrRevoked \<and>
        (\<exists>v \<in> set vs. rv_device v = mb_device m \<and> rv_group v = Some (mb_group m))) \<and>
     length ms = sql_count (\<lambda>r. rq_status r = ReqApproved) rs"

definition group_inv :: "core_db \<Rightarrow> bool" where
  "group_inv db \<longleftrightarrow> decisions_ok (db_requests db) (db_decisions db) \<and>
     members_ok (db_requests db) (db_members db) (db_revocations db)"

text \<open>What can happen to the tables: the operations of the service, under any context, and changes by others that
  leave the tables of requests, decisions, memberships and revocations alone.\<close>

inductive group_step :: "core_db \<Rightarrow> core_db \<Rightarrow> bool" where
  gs_create: "group_step db (snd (createGroup name descr org ctx newId now db))"
| gs_request: "group_step db (snd (requestMembership g dev u i now db))"
| gs_approve: "group_step db (snd (approveMembership i ctx sig dev d m now db))"
| gs_reject: "group_step db (snd (rejectMembership i ctx d now db))"
| gs_revoke: "group_step db (snd (revokeMembership dev g ctx reason v now db))"
| gs_other: "db_requests db' = db_requests db \<Longrightarrow> db_decisions db' = db_decisions db \<Longrightarrow> db_members db' = db_members db \<Longrightarrow>
    db_revocations db' = db_revocations db \<Longrightarrow> group_step db db'"

lemma decisions_ok_decide:
  assumes "decisions_ok rs ds" "r \<in> set rs" "rq_id r = i" "rq_status r = ReqPending" "s \<noteq> ReqPending"
    "dc_request d = i" "dc_decision d = s"
  shows "decisions_ok (sql_update (\<lambda>r. rq_id r = i) (\<lambda>r. r\<lparr>rq_status := s\<rparr>) rs) (ds @ [d])"
proof -
  let ?f = "\<lambda>r. if rq_id r = i then r\<lparr>rq_status := s\<rparr> else r"
  have dist: "distinct (map rq_id rs)" "distinct (map dc_request ds)" using assms(1) by (simp_all add: decisions_ok_def)
  have same: "r' = r" if "r' \<in> set rs" "rq_id r' = i" for r'
    using dist(1) that assms(2,3) by (auto simp: distinct_map dest: inj_onD)
  have new: "i \<notin> dc_request ` set ds"
  proof
    assume "i \<in> dc_request ` set ds"
    then obtain r' where "r' \<in> set rs" "rq_id r' = i" "rq_status r' \<noteq> ReqPending"
      using assms(1) unfolding decisions_ok_def by fastforce
    then show False using same assms(4) by auto
  qed
  have ids: "map rq_id (sql_update (\<lambda>r. rq_id r = i) (\<lambda>r. r\<lparr>rq_status := s\<rparr>) rs) = map rq_id rs"
    by (rule map_sql_update) simp
  have upd: "?f r' \<in> set (sql_update (\<lambda>r. rq_id r = i) (\<lambda>r. r\<lparr>rq_status := s\<rparr>) rs)" if "r' \<in> set rs" for r'
    using that by (simp add: set_sql_update)
  have "\<exists>r \<in> set (sql_update (\<lambda>r. rq_id r = i) (\<lambda>r. r\<lparr>rq_status := s\<rparr>) rs). rq_id r = dc_request d' \<and>
      rq_status r = dc_decision d' \<and> dc_decision d' \<noteq> ReqPending" if "d' \<in> set (ds @ [d])" for d'
  proof (cases "d' = d")
    case True
    then show ?thesis using upd [OF assms(2)] assms(3,5-7) by (intro bexI [of _ "?f r"]) auto
  next
    case False
    then have "d' \<in> set ds" using that by simp
    then obtain r' where "r' \<in> set rs" "rq_id r' = dc_request d'" "rq_status r' = dc_decision d'" "dc_decision d' \<noteq> ReqPending"
      using assms(1) unfolding decisions_ok_def by blast
    moreover have "rq_id r' \<noteq> i" using new \<open>d' \<in> set ds\<close> \<open>rq_id r' = dc_request d'\<close> by auto
    ultimately show ?thesis using upd [of r'] by (intro bexI [of _ r']) auto
  qed
  moreover have "rq_id r' \<in> dc_request ` set (ds @ [d])"
    if mem: "r' \<in> set (sql_update (\<lambda>r. rq_id r = i) (\<lambda>r. r\<lparr>rq_status := s\<rparr>) rs)" and st: "rq_status r' \<noteq> ReqPending" for r'
  proof -
    obtain r0 where r0: "r0 \<in> set rs" "r' = ?f r0" using mem unfolding set_sql_update by blast
    show ?thesis
    proof (cases "rq_id r0 = i")
      case True
      then show ?thesis using r0 assms(6) by simp
    next
      case False
      then show ?thesis using r0 st assms(1) by (auto simp: decisions_ok_def)
    qed
  qed
  ultimately show ?thesis using ids dist new assms(6) by (auto simp: decisions_ok_def)
qed

lemma approved_count:
  assumes "distinct (map rq_id rs)" "r \<in> set rs" "rq_id r = i" "rq_status r = ReqPending"
  shows "sql_count (\<lambda>r. rq_status r = ReqApproved) (sql_update (\<lambda>r. rq_id r = i) (\<lambda>r. r\<lparr>rq_status := s\<rparr>) rs) =
    (if s = ReqApproved then 1 else 0) + sql_count (\<lambda>r. rq_status r = ReqApproved) rs"
  using assms
proof (induction rs)
  case (Cons x rs)
  show ?case
  proof (cases "x = r")
    case True
    then have "sql_update (\<lambda>r. rq_id r = i) (\<lambda>r. r\<lparr>rq_status := s\<rparr>) rs = rs"
      using Cons.prems by (intro sql_update_none) (auto simp: image_iff)
    then show ?thesis using True Cons.prems by (simp add: sql_count_def)
  next
    case False
    then have "rq_id x \<noteq> i" "r \<in> set rs" using Cons.prems by (auto simp: image_iff)
    then show ?thesis using Cons by (cases "s = ReqApproved") (simp_all add: sql_count_def)
  qed
qed simp

lemma member_request_update:
  assumes "distinct (map rq_id rs)" "r \<in> set rs" "rq_id r = i" "rq_status r = ReqPending" "r' \<in> set rs" "member_of_request m r'"
  shows "\<exists>r \<in> set (sql_update (\<lambda>r. rq_id r = i) (\<lambda>r. r\<lparr>rq_status := s\<rparr>) rs). member_of_request m r"
proof -
  have "r' \<noteq> r" using assms(4,6) by (auto simp: member_of_request_def)
  then have "rq_id r' \<noteq> i" using assms(1-3,5) by (auto simp: distinct_map dest: inj_onD)
  then have "r' \<in> set (sql_update (\<lambda>r. rq_id r = i) (\<lambda>r. r\<lparr>rq_status := s\<rparr>) rs)" using assms(5) by (force simp: set_sql_update)
  then show ?thesis using assms(6) by blast
qed

lemma may_decide_request: "may_decide db ctx req d \<Longrightarrow> req \<in> set (db_requests db) \<and> rq_status req = ReqPending"
  by (auto simp: may_decide_def dest: find_request_id)

lemma approval_inv:
  assumes "group_inv db" "may_decide db ctx req d"
  shows "group_inv (approval req ctx sig d m now db)"
proof -
  have r: "req \<in> set (db_requests db)" "rq_status req = ReqPending" using may_decide_request [OF assms(2)] by simp_all
  have dist: "distinct (map rq_id (db_requests db))" using assms(1) by (simp add: group_inv_def decisions_ok_def)
  let ?rs = "with_status (rq_id req) ReqApproved db"
  have "decisions_ok (db_requests (approval req ctx sig d m now db)) (db_decisions (approval req ctx sig d m now db))"
    using assms(1) r by (simp add: approval_def with_status_def group_inv_def decisions_ok_decide)
  moreover have "members_ok ?rs (db_members (approval req ctx sig d m now db)) (db_revocations db)"
  proof -
    have "(if rq_id req = rq_id req then req\<lparr>rq_status := ReqApproved\<rparr> else req) \<in> set ?rs"
      using r(1) unfolding with_status_def set_sql_update by blast
    then have own: "req\<lparr>rq_status := ReqApproved\<rparr> \<in> set ?rs" by simp
    have "\<exists>r \<in> set ?rs. member_of_request x r" if "x \<in> set (db_members db)" for x
      using that assms(1) member_request_update [OF dist r(1) refl r(2)]
      by (auto simp: group_inv_def members_ok_def with_status_def)
    moreover have "sql_count (\<lambda>r. rq_status r = ReqApproved) ?rs = Suc (sql_count (\<lambda>r. rq_status r = ReqApproved) (db_requests db))"
      using approved_count [OF dist r(1) refl r(2), of ReqApproved] by (simp add: with_status_def)
    ultimately show ?thesis
      using assms(1) bexI [OF _ own] by (auto simp: group_inv_def members_ok_def approval_def member_of_request_def)
  qed
  ultimately show ?thesis by (simp add: group_inv_def approval_def)
qed

lemma rejection_inv:
  assumes "group_inv db" "may_decide db ctx req d"
  shows "group_inv (rejection req ctx d now db)"
proof -
  have r: "req \<in> set (db_requests db)" "rq_status req = ReqPending" using may_decide_request [OF assms(2)] by simp_all
  have dist: "distinct (map rq_id (db_requests db))" using assms(1) by (simp add: group_inv_def decisions_ok_def)
  have "\<exists>r \<in> set (with_status (rq_id req) ReqRejected db). member_of_request x r" if "x \<in> set (db_members db)" for x
    using that assms(1) member_request_update [OF dist r(1) refl r(2)]
    by (auto simp: group_inv_def members_ok_def with_status_def)
  moreover have "sql_count (\<lambda>r. rq_status r = ReqApproved) (with_status (rq_id req) ReqRejected db) =
      sql_count (\<lambda>r. rq_status r = ReqApproved) (db_requests db)"
    using approved_count [OF dist r(1) refl r(2), of ReqRejected] by (simp add: with_status_def)
  moreover have "decisions_ok (db_requests (rejection req ctx d now db)) (db_decisions (rejection req ctx d now db))"
    using assms(1) r by (simp add: rejection_def with_status_def group_inv_def decisions_ok_decide)
  ultimately show ?thesis using assms(1) by (simp add: group_inv_def rejection_def members_ok_def)
qed

lemma revocation_inv:
  assumes "group_inv db"
  shows "group_inv (revocation dev g ctx reason v now db)"
proof -
  have "members_ok (db_requests db) (db_members (revocation dev g ctx reason v now db)) (db_revocations (revocation dev g ctx reason v now db))"
    using assms unfolding group_inv_def members_ok_def
    by (auto simp: revocation_def set_sql_update member_of_request_def)
  then show ?thesis using assms by (simp add: group_inv_def revocation_def)
qed

definition same_tables :: "core_db \<Rightarrow> core_db \<Rightarrow> bool" where
  "same_tables db db' \<longleftrightarrow> db_requests db' = db_requests db \<and> db_decisions db' = db_decisions db \<and>
     db_members db' = db_members db \<and> db_revocations db' = db_revocations db"

lemma createGroup_same: "same_tables db (snd (createGroup name descr org ctx newId now db))"
proof -
  have "preserves (same_tables db) (createGroup name descr org ctx newId now)"
    unfolding createGroup_def Let_def insertGroup_def
    by (intro preserve preserves_insert_row) (simp add: same_tables_def)
  then show ?thesis by (rule preservesD) (simp add: same_tables_def)
qed

lemma requestMembership_inv: "group_inv db \<Longrightarrow> group_inv (snd (requestMembership g dev u i now db))"
  by (auto simp: requestMembership_def insertMembershipRequest_def andthen_def insert_row_run group_inv_def decisions_ok_def
      members_ok_def sql_count_def image_iff)

text \<open>An operation in a transaction ends with its full effect or with the tables it found.\<close>

lemma approve_state: "snd (approveMembership i ctx sig dev d m now db) = db \<or>
    (\<exists>req. rq_id req = i \<and> may_decide db ctx req d \<and> snd (approveMembership i ctx sig dev d m now db) = approval req ctx sig d m now db)"
proof -
  obtain r db' where eq: "approveMembership i ctx sig dev d m now db = (r, db')" by fastforce
  show ?thesis
  proof (cases r)
    case (Inl e)
    then show ?thesis using approveMembership_Inl eq by simp
  next
    case (Inr u)
    then have "approveMembership i ctx sig dev d m now db = (Inr (), db')" using eq by simp
    then obtain req where "rq_id req = i" "may_decide db ctx req d" "db' = approval req ctx sig d m now db"
      unfolding approveMembership_Inr by blast
    then show ?thesis using eq by auto
  qed
qed

lemma reject_state: "snd (rejectMembership i ctx d now db) = db \<or>
    (\<exists>req. rq_id req = i \<and> may_decide db ctx req d \<and> snd (rejectMembership i ctx d now db) = rejection req ctx d now db)"
proof -
  obtain r db' where eq: "rejectMembership i ctx d now db = (r, db')" by fastforce
  show ?thesis
  proof (cases r)
    case (Inl e)
    then show ?thesis using transaction_error eq unfolding rejectMembership_def by fastforce
  next
    case (Inr u)
    then have "rejectMembership i ctx d now db = (Inr (), db')" using eq by simp
    then obtain req where "rq_id req = i" "may_decide db ctx req d" "db' = rejection req ctx d now db"
      unfolding rejectMembership_Inr by blast
    then show ?thesis using eq by auto
  qed
qed

lemma revoke_state: "snd (revokeMembership dev g ctx reason v now db) = db \<or>
    may_revoke db ctx dev g reason v \<and> snd (revokeMembership dev g ctx reason v now db) = revocation dev g ctx reason v now db"
proof -
  obtain r db' where eq: "revokeMembership dev g ctx reason v now db = (r, db')" by fastforce
  show ?thesis
  proof (cases r)
    case (Inl e)
    then show ?thesis using transaction_error eq unfolding revokeMembership_def by fastforce
  next
    case (Inr u)
    then show ?thesis using eq revokeMembership_Inr [of dev g ctx reason v now db db'] by simp
  qed
qed

lemma group_step_inv: "group_step db db' \<Longrightarrow> group_inv db \<Longrightarrow> group_inv db'"
proof (induction rule: group_step.induct)
  case (gs_create db name descr org ctx newId now)
  then show ?case using createGroup_same [of db name descr org ctx newId now] by (simp add: group_inv_def same_tables_def)
next
  case (gs_request db g dev u i now)
  then show ?case by (rule requestMembership_inv)
next
  case (gs_approve db i ctx sig dev d m now)
  then show ?case using approve_state [of i ctx sig dev d m now db] approval_inv by fastforce
next
  case (gs_reject db i ctx d now)
  then show ?case using reject_state [of i ctx d now db] rejection_inv by fastforce
next
  case (gs_revoke db dev g ctx reason v now)
  then show ?case using revoke_state [of dev g ctx reason v now db] revocation_inv by fastforce
next
  case (gs_other db' db)
  then show ?case by (simp add: group_inv_def)
qed

lemma group_history_inv: "group_step\<^sup>*\<^sup>* db db' \<Longrightarrow> group_inv db \<Longrightarrow> group_inv db'"
  by (induction rule: rtranclp_induct) (auto intro: group_step_inv)

lemma empty_group_inv: "group_inv empty_db"
  by (simp add: empty_db_def group_inv_def decisions_ok_def members_ok_def sql_count_def)

text \<open>C20. The life of a membership: whatever the service is asked, by whomever, every request is decided at most
  once and its status is that of its decision, every membership stems from an approved request of the
  same device, group and user, there are as many memberships as approvals, and a membership is
  approved or else revoked with a revocation on record.\<close>

theorem membership_lifecycle:
  assumes "group_step\<^sup>*\<^sup>* empty_db db"
  shows "distinct (map dc_request (db_decisions db)) \<and>
    (\<forall>r \<in> set (db_requests db). rq_status r \<noteq> ReqPending \<longleftrightarrow>
       (\<exists>d \<in> set (db_decisions db). dc_request d = rq_id r \<and> dc_decision d = rq_status r)) \<and>
    (\<forall>m \<in> set (db_members db). (\<exists>r \<in> set (db_requests db). member_of_request m r) \<and>
       (mb_status m = MbrApproved \<or> mb_status m = MbrRevoked \<and>
         (\<exists>v \<in> set (db_revocations db). rv_device v = mb_device m \<and> rv_group v = Some (mb_group m)))) \<and>
    length (db_members db) = sql_count (\<lambda>r. rq_status r = ReqApproved) (db_requests db)"
proof -
  have inv: "group_inv db" by (rule group_history_inv [OF assms empty_group_inv])
  have status: "rq_status r \<noteq> ReqPending \<longleftrightarrow> (\<exists>d \<in> set (db_decisions db). dc_request d = rq_id r \<and> dc_decision d = rq_status r)"
    if r: "r \<in> set (db_requests db)" for r
  proof
    assume "rq_status r \<noteq> ReqPending"
    then obtain d where d: "d \<in> set (db_decisions db)" "dc_request d = rq_id r"
      using inv r by (auto simp: group_inv_def decisions_ok_def)
    then obtain r' where "r' \<in> set (db_requests db)" "rq_id r' = rq_id r" "rq_status r' = dc_decision d"
      using inv unfolding group_inv_def decisions_ok_def by metis
    moreover from this have "r' = r" using inv r by (auto simp: group_inv_def decisions_ok_def distinct_map dest: inj_onD)
    ultimately show "\<exists>d \<in> set (db_decisions db). dc_request d = rq_id r \<and> dc_decision d = rq_status r" using d by auto
  next
    assume "\<exists>d \<in> set (db_decisions db). dc_request d = rq_id r \<and> dc_decision d = rq_status r"
    then obtain d where "d \<in> set (db_decisions db)" "dc_decision d = rq_status r" by blast
    then show "rq_status r \<noteq> ReqPending" using inv unfolding group_inv_def decisions_ok_def by metis
  qed
  show ?thesis
    using inv status by (simp add: group_inv_def decisions_ok_def members_ok_def)
qed

section \<open>Admission of a device\<close>

definition member_for :: "string \<Rightarrow> string \<Rightarrow> string option \<Rightarrow> member_row \<Rightarrow> bool" where
  "member_for dev g user m \<longleftrightarrow> mb_device m = dev \<and> mb_group m = g \<and> member_ok (mb_status m) \<and>
     (mb_user m = None \<or> user \<noteq> None \<and> mb_user m = user)"

definition may_write :: "core_db \<Rightarrow> any_context \<Rightarrow> string \<Rightarrow> bool" where
  "may_write db ctx g \<longleftrightarrow>
     (\<exists>row. findGroup g db = Some row \<and> gr_org row = ctx_organisation ctx \<and> gr_status row = GroupActive) \<and>
     (\<exists>ds. findDeviceStatus (sub_device (extractContextSubject ctx)) db = Some ds \<and> device_ok ds) \<and>
     (\<exists>m \<in> set (db_members db). member_for (sub_device (extractContextSubject ctx)) g (sub_user (extractContextSubject ctx)) m)"

lemma eligibility: "findMembershipEligibility g dev user db =
    map_option (\<lambda>ds. (ds, map_option mb_status (find_first (member_for dev g user) (db_members db)))) (findDeviceStatus dev db)"
proof (cases "find_first (\<lambda>d. dv_device_id d = dev) (db_devices db)")
  case None
  then show ?thesis by (simp add: findMembershipEligibility_def findDeviceStatus_def)
next
  case (Some d)
  then have "dv_device_id d = dev" using find_first_SomeD by fastforce
  moreover have "(\<lambda>m. mb_device m = dev \<and> mb_group m = g \<and> member_ok (mb_status m) \<and>
      (mb_user m = None \<or> user \<noteq> None \<and> mb_user m = user)) = member_for dev g user"
    by (simp add: fun_eq_iff member_for_def)
  ultimately show ?thesis using Some by (simp only: findMembershipEligibility_def findDeviceStatus_def option.map)
qed

lemma requireActiveMembership_run:
  "requireActiveMembership ctx g db = (Inr (), db) \<and> may_write db ctx g \<or>
   (\<exists>e. requireActiveMembership ctx g db = (Inl e, db) \<and> err_class e \<in> {ValidationError, AuthorizationError}) \<and> \<not> may_write db ctx g"
proof (cases "findGroup g db")
  case None
  then show ?thesis by (simp add: requireActiveMembership_def Let_def may_write_def platform_error_def)
next
  case (Some row)
  let ?s = "extractContextSubject ctx"
  show ?thesis
  proof (cases "findDeviceStatus (sub_device ?s) db")
    case None
    then show ?thesis using Some
      by (simp add: requireActiveMembership_def Let_def may_write_def platform_error_def eligibility ctx_organisation_def)
  next
    case d: (Some ds)
    show ?thesis
    proof (cases "find_first (member_for (sub_device ?s) g (sub_user ?s)) (db_members db)")
      case None
      then have "\<not> (\<exists>m \<in> set (db_members db). member_for (sub_device ?s) g (sub_user ?s) m)" by (simp add: find_first_None)
      then show ?thesis using Some d None
        by (simp add: requireActiveMembership_def Let_def may_write_def platform_error_def eligibility)
    next
      case m: (Some m)
      then have "\<exists>m \<in> set (db_members db). member_for (sub_device ?s) g (sub_user ?s) m" using find_first_SomeD by fastforce
      then show ?thesis using Some d m
        by (simp add: requireActiveMembership_def Let_def may_write_def platform_error_def eligibility ctx_organisation_def)
    qed
  qed
qed

definition all_revoked :: "string \<Rightarrow> string \<Rightarrow> core_db \<Rightarrow> bool" where
  "all_revoked dev g db \<longleftrightarrow> (\<forall>m \<in> set (db_members db). mb_device m = dev \<longrightarrow> mb_group m = g \<longrightarrow> mb_status m = MbrRevoked)"

text \<open>Steps that add no membership of the device in the group.\<close>

definition adds_none :: "string \<Rightarrow> string \<Rightarrow> core_db \<Rightarrow> core_db \<Rightarrow> bool" where
  "adds_none dev g db db' \<longleftrightarrow> group_step db db' \<and>
     (\<forall>m \<in> set (db_members db'). mb_device m = dev \<longrightarrow> mb_group m = g \<longrightarrow> mb_id m \<in> mb_id ` set (db_members db))"

lemma revocation_member:
  assumes "m \<in> set (db_members (revocation dev g ctx reason v now db))"
  obtains m0 where "m0 \<in> set (db_members db)" "mb_id m = mb_id m0" "mb_device m = mb_device m0" "mb_group m = mb_group m0"
    "mb_status m = (if mb_device m0 = dev \<and> mb_group m0 = g then MbrRevoked else mb_status m0)"
proof -
  obtain m0 where m0: "m0 \<in> set (db_members db)"
    "m = (if mb_device m0 = dev \<and> mb_group m0 = g then m0\<lparr>mb_status := MbrRevoked, mb_revoked_at := Some now,
       mb_revoked_by := Some (acting_user ctx), mb_reason := Some reason\<rparr> else m0)"
    using assms by (auto simp: revocation_def set_sql_update)
  show thesis by (rule that [OF m0(1)]) (simp_all add: m0(2))
qed

lemma revocation_keys: "(\<lambda>m. (mb_device m, mb_group m)) ` set (db_members (revocation dev g ctx reason v now db)) =
    (\<lambda>m. (mb_device m, mb_group m)) ` set (db_members db)"
proof -
  have "map (\<lambda>m. (mb_device m, mb_group m)) (db_members (revocation dev g ctx reason v now db)) =
      map (\<lambda>m. (mb_device m, mb_group m)) (db_members db)"
    by (simp add: revocation_def map_sql_update)
  then show ?thesis by (metis list.set_map)
qed

lemma revocation_revokes: "all_revoked dev g (revocation dev g ctx reason v now db)"
  unfolding all_revoked_def by (metis revocation_member)

lemma revocation_keeps: "all_revoked dev g db \<Longrightarrow> all_revoked dev g (revocation dev' g' ctx reason v now db)"
  unfolding all_revoked_def by (metis revocation_member)

lemma approved_member: "approveMembership i ctx sig dev d m now db = (Inr (), db') \<Longrightarrow> m \<notin> mb_id ` set (db_members db)"
  unfolding approveMembership_Inr by blast

lemma adds_none_revoked:
  assumes "adds_none dev g db db'" "all_revoked dev g db"
  shows "all_revoked dev g db'"
  using assms(1) unfolding adds_none_def
proof (elim conjE)
  assume old: "\<forall>m \<in> set (db_members db'). mb_device m = dev \<longrightarrow> mb_group m = g \<longrightarrow> mb_id m \<in> mb_id ` set (db_members db)"
  assume "group_step db db'"
  then show ?thesis using assms(2) old
  proof (induction rule: group_step.induct)
    case (gs_create db name descr org ctx newId now)
    then show ?case using createGroup_same [of db name descr org ctx newId now] by (simp add: all_revoked_def same_tables_def)
  next
    case (gs_request db g dev u i now)
    then show ?case by (auto simp: requestMembership_def insertMembershipRequest_def andthen_def insert_row_run all_revoked_def)
  next
    case (gs_approve db i ctx sig dev' d m now)
    obtain r db2 where eq: "approveMembership i ctx sig dev' d m now db = (r, db2)" by fastforce
    show ?case
    proof (cases r)
      case (Inl e)
      then have "db2 = db" using approveMembership_Inl eq by simp
      then show ?thesis using eq gs_approve.prems by simp
    next
      case (Inr u)
      then have ok: "approveMembership i ctx sig dev' d m now db = (Inr (), db2)" using eq by simp
      then obtain req where "db2 = approval req ctx sig d m now db" unfolding approveMembership_Inr by blast
      then show ?thesis using gs_approve.prems approved_member [OF ok] eq by (auto simp: all_revoked_def approval_def)
    qed
  next
    case (gs_reject db i ctx d now)
    then show ?case using reject_state [of i ctx d now db] by (auto simp: all_revoked_def rejection_def)
  next
    case (gs_revoke db dev' g' ctx reason v now)
    then show ?case using revoke_state [of dev' g' ctx reason v now db] revocation_keeps by fastforce
  next
    case (gs_other db' db)
    then show ?case by (simp add: all_revoked_def)
  qed
qed

lemma revoked_out:
  assumes "all_revoked dev g db"
  shows "\<not> canSync dev g db" "sub_device (extractContextSubject ctx) = dev \<Longrightarrow> \<not> may_write db ctx g"
proof -
  show "\<not> canSync dev g db"
    using assms
    by (auto simp: canSync_def findMembershipStatus_def all_revoked_def member_ok_def split: option.splits dest: find_first_SomeD)
  show "sub_device (extractContextSubject ctx) = dev \<Longrightarrow> \<not> may_write db ctx g"
    using assms by (auto simp: may_write_def member_for_def member_ok_def all_revoked_def)
qed

text \<open>A revocation takes effect at once and for good: after a successful revocation, and through any further
  requests, decisions, revocations and changes of other tables that add no new membership of the
  device to the group, the device cannot sync with the group and every write of it is refused.\<close>

theorem revocation_excludes:
  assumes "revokeMembership dev g ctx reason v now db = (Inr (), db1)" "(adds_none dev g)\<^sup>*\<^sup>* db1 db2"
    "sub_device (extractContextSubject writer) = dev"
  shows "\<not> canSync dev g db2 \<and>
    (\<exists>e. requireActiveMembership writer g db2 = (Inl e, db2) \<and> err_class e \<in> {ValidationError, AuthorizationError})"
proof -
  have "all_revoked dev g db1" using assms(1) revocation_revokes by (simp add: revokeMembership_Inr)
  with assms(2) have "all_revoked dev g db2" by (induction rule: rtranclp_induct) (auto intro: adds_none_revoked)
  from revoked_out [OF this] show ?thesis using requireActiveMembership_run [of writer g db2] assms(3) by blast
qed

text \<open>C21. Approving a device again after its revocation splits the admission checks: the old, revoked membership
  is still the first row of the device in the order of insertion, so \<open>canSync\<close> refuses it and it cannot be revoked again, while
  \<open>requireActiveMembership\<close> finds the new row and lets the device write.\<close>

theorem reapproval_splits_admission:
  assumes "revokeMembership dev g ctx reason v now db = (Inr (), db1)"
    "approveMembership i ctx' sig dv d m now' db1 = (Inr (), db2)"
    "findMembershipRequest i db1 = Some req" "rq_device req = dev" "rq_group req = g"
    "findDeviceStatus dev db1 = Some ds" "device_ok ds"
    "findGroup g db1 = Some row" "gr_status row = GroupActive" "gr_org row = ctx_organisation writer"
    "sub_device (extractContextSubject writer) = dev"
    "rq_user req = None \<or> rq_user req = sub_user (extractContextSubject writer)"
  shows "\<not> canSync dev g db2 \<and> requireActiveMembership writer g db2 = (Inr (), db2) \<and>
    (\<exists>e. revokeMembership dev g ctx'' reason' v' now'' db2 = (Inl e, db2))"
proof -
  have r: "all_revoked dev g db1" "\<exists>s. findMembershipStatus dev g db1 = Some s"
  proof -
    show "all_revoked dev g db1" using assms(1) revocation_revokes by (simp add: revokeMembership_Inr)
    have "find_first (\<lambda>m. mb_device m = dev \<and> mb_group m = g) (db_members db) \<noteq> None"
      using assms(1) by (auto simp: revokeMembership_Inr may_revoke_def findMembershipStatus_def)
    then obtain m0 where "m0 \<in> set (db_members db)" "mb_device m0 = dev" "mb_group m0 = g"
      by (auto simp: find_first_None)
    then have "(dev, g) \<in> (\<lambda>m. (mb_device m, mb_group m)) ` set (db_members db1)"
      using assms(1) revocation_keys [of dev g ctx reason v now db] by (auto simp: revokeMembership_Inr image_iff)
    then have "\<exists>m \<in> set (db_members db1). mb_device m = dev \<and> mb_group m = g" by auto
    then have "find_first (\<lambda>m. mb_device m = dev \<and> mb_group m = g) (db_members db1) \<noteq> None"
      by (auto simp: find_first_None)
    then show "\<exists>s. findMembershipStatus dev g db1 = Some s" by (auto simp: findMembershipStatus_def)
  qed
  obtain req' where a: "rq_id req' = i" "may_decide db1 ctx' req' d" "db2 = approval req' ctx' sig d m now' db1"
    using assms(2) unfolding approveMembership_Inr by blast
  have "req' = req" using a(1,2) assms(3) by (simp add: may_decide_def)
  with a have db2: "db2 = approval req ctx' sig d m now' db1" by simp
  have first: "findMembershipStatus dev g db2 = findMembershipStatus dev g db1"
    using r(2) by (auto simp: db2 approval_def findMembershipStatus_def find_first_append split: option.splits)
  have out: "findMembershipStatus dev g db2 = Some MbrRevoked"
    using first r by (auto simp: findMembershipStatus_def all_revoked_def dest: find_first_SomeD)
  have "\<not> canSync dev g db2" using out by (simp add: canSync_def member_ok_def split: option.split)
  moreover have "may_write db2 writer g"
  proof -
    have "member_for dev g (sub_user (extractContextSubject writer)) (last (db_members db2))"
      using assms(4,5,12) by (cases "rq_user req") (auto simp: db2 approval_def member_for_def member_ok_def)
    moreover have "last (db_members db2) \<in> set (db_members db2)" by (simp add: db2 approval_def)
    moreover have "findGroup g db2 = findGroup g db1" "findDeviceStatus dev db2 = findDeviceStatus dev db1"
      by (simp_all add: db2 approval_def findGroup_def findDeviceStatus_def)
    ultimately show ?thesis using assms(6-11) unfolding may_write_def by metis
  qed
  moreover have "revokeMembership dev g ctx'' reason' v' now'' db2 \<noteq> (Inr (), db3)" for db3
    using out by (simp add: revokeMembership_Inr may_revoke_def member_ok_def)
  ultimately show ?thesis
    using requireActiveMembership_run [of writer g db2] revoke_state [of dev g ctx'' reason' v' now'' db2] out
    by (cases "revokeMembership dev g ctx'' reason' v' now'' db2"; cases "fst (revokeMembership dev g ctx'' reason' v' now'' db2)")
      (auto simp: may_revoke_def member_ok_def)
qed

text \<open>Where a device has at most one membership in a group, bound to no other user, the two admission checks
  agree: for an active group of the writer's organisation, a write is let through exactly when the
  device can sync.\<close>

theorem admission_checks_agree:
  assumes "findGroup g db = Some row" "gr_status row = GroupActive" "gr_org row = ctx_organisation writer"
    "length (filter (\<lambda>m. mb_device m = dev \<and> mb_group m = g) (db_members db)) \<le> 1"
    "\<forall>m \<in> set (db_members db). mb_device m = dev \<and> mb_group m = g \<longrightarrow>
       mb_user m = None \<or> mb_user m = sub_user (extractContextSubject writer)"
    "sub_device (extractContextSubject writer) = dev"
  shows "requireActiveMembership writer g db = (Inr (), db) \<longleftrightarrow> canSync dev g db"
proof -
  let ?p = "\<lambda>m. mb_device m = dev \<and> mb_group m = g"
  have "may_write db writer g \<longleftrightarrow> canSync dev g db"
  proof (cases "find_first ?p (db_members db)")
    case None
    then have "\<forall>m \<in> set (db_members db). \<not> ?p m" by (simp add: find_first_None)
    then have "\<not> may_write db writer g" using assms(6) by (auto simp: may_write_def member_for_def)
    moreover have "findMembershipStatus dev g db = None" using None by (simp add: findMembershipStatus_def)
    ultimately show ?thesis by (simp add: canSync_def split: option.split)
  next
    case (Some m)
    then have m: "m \<in> set (db_members db)" "?p m" using find_first_SomeD by fastforce+
    have only: "m' = m" if "m' \<in> set (db_members db)" "?p m'" for m'
    proof -
      have "m \<in> set (filter ?p (db_members db))" "m' \<in> set (filter ?p (db_members db))" using m that by auto
      then show ?thesis using assms(4) by (cases "filter ?p (db_members db)") auto
    qed
    have "(\<exists>m' \<in> set (db_members db). member_for dev g (sub_user (extractContextSubject writer)) m') \<longleftrightarrow> member_ok (mb_status m)"
    proof
      assume "\<exists>m' \<in> set (db_members db). member_for dev g (sub_user (extractContextSubject writer)) m'"
      then obtain m' where m': "m' \<in> set (db_members db)" "member_for dev g (sub_user (extractContextSubject writer)) m'" by blast
      then have "m' = m" using only [of m'] by (simp add: member_for_def)
      then show "member_ok (mb_status m)" using m'(2) by (simp add: member_for_def)
    next
      assume "member_ok (mb_status m)"
      then have "member_for dev g (sub_user (extractContextSubject writer)) m"
        using m assms(5) by (cases "mb_user m") (auto simp: member_for_def)
      then show "\<exists>m' \<in> set (db_members db). member_for dev g (sub_user (extractContextSubject writer)) m'" using m(1) by blast
    qed
    then show ?thesis using assms(1-3,6) Some
      by (auto simp: may_write_def canSync_def findMembershipStatus_def split: option.split)
  qed
  then show ?thesis using requireActiveMembership_run [of writer g db] by auto
qed

section \<open>An example\<close>

definition sample_db :: core_db where
  "sample_db = empty_db\<lparr>
     db_orgs := [\<lparr>og_id = ''o'', og_created_at = ''t'', og_updated_at = ''t'', og_created_by = None, og_updated_by = None,
       og_name = ''Org'', og_domain = None, og_status = OrgActive, og_settings_json = None\<rparr>],
     db_users := [\<lparr>us_id = ''u'', us_created_at = ''t'', us_updated_at = ''t'', us_created_by = None, us_updated_by = None,
       us_org = ''o'', us_name = ''Ann'', us_email = None, us_status = UserActive\<rparr>],
     db_devices := [\<lparr>dv_id = ''x'', dv_created_at = ''t'', dv_updated_at = ''t'', dv_user = Some ''u'', dv_device_id = ''d'',
       dv_public_key = ''k'', dv_platform = ''linux'', dv_application = ''app'', dv_status = DevApproved,
       dv_registered_at = ''t'', dv_last_seen = None, dv_local = True\<rparr>],
     db_roles := [\<lparr>rl_id = ''admin'', rl_org = ''o''\<rparr>],
     db_permissions := [\<lparr>pm_id = ''p'', pm_name = ''*''\<rparr>],
     db_role_permissions := [\<lparr>rp_id = ''rp'', rp_role = ''admin'', rp_permission = ''p'', rp_scope = None\<rparr>],
     db_user_roles := [\<lparr>ur_id = ''ur'', ur_user = ''u'', ur_role = ''admin'', ur_org = ''o'', ur_granted_by = None, ur_granted_at = ''t''\<rparr>],
     db_groups := [\<lparr>gr_id = ''g'', gr_created_at = ''t'', gr_updated_at = ''t'', gr_created_by = None, gr_updated_by = None,
       gr_org = ''o'', gr_name = ''Group'', gr_description = None, gr_status = GroupActive\<rparr>]\<rparr>"

definition sample_admin :: any_context where
  "sample_admin = Untrusted \<lparr>ctx_correlation = ''c'', ctx_user = Some ''u'', ctx_device = ''d'', ctx_org = ''o''\<rparr>"

definition sample_requested :: core_db where
  "sample_requested = snd (requestMembership ''g'' ''d'' None ''r2'' ''t1'' (snd (requestMembership ''g'' ''d'' None ''r1'' ''t1'' sample_db)))"

definition sample_approved :: core_db where
  "sample_approved = snd (approveMembership ''r1'' sample_admin None None ''d1'' ''m1'' ''t2'' sample_requested)"

definition sample_revoked :: core_db where
  "sample_revoked = snd (revokeMembership ''d'' ''g'' sample_admin ''lost'' ''v1'' ''t3'' sample_approved)"

definition sample_reapproved :: core_db where
  "sample_reapproved = snd (approveMembership ''r2'' sample_admin None None ''d2'' ''m2'' ''t4'' sample_revoked)"

lemma sample_history: "group_step\<^sup>*\<^sup>* empty_db sample_approved"
proof -
  have "group_step empty_db sample_db" by (rule gs_other) (simp_all add: sample_db_def)
  moreover have "group_step sample_db (snd (requestMembership ''g'' ''d'' None ''r1'' ''t1'' sample_db))" by (rule gs_request)
  moreover have "group_step (snd (requestMembership ''g'' ''d'' None ''r1'' ''t1'' sample_db)) sample_requested"
    unfolding sample_requested_def by (rule gs_request)
  moreover have "group_step sample_requested sample_approved" unfolding sample_approved_def by (rule gs_approve)
  ultimately show ?thesis by (meson rtranclp.rtrancl_refl rtranclp.rtrancl_into_rtrancl)
qed

lemma sample_runs:
  "approveMembership ''r1'' sample_admin None None ''d1'' ''m1'' ''t2'' sample_requested = (Inr (), sample_approved)"
  "revokeMembership ''d'' ''g'' sample_admin ''lost'' ''v1'' ''t3'' sample_approved = (Inr (), sample_revoked)"
  "approveMembership ''r2'' sample_admin None None ''d2'' ''m2'' ''t4'' sample_revoked = (Inr (), sample_reapproved)"
proof -
  have "fst (approveMembership ''r1'' sample_admin None None ''d1'' ''m1'' ''t2'' sample_requested) = Inr ()"
    "fst (revokeMembership ''d'' ''g'' sample_admin ''lost'' ''v1'' ''t3'' sample_approved) = Inr ()"
    "fst (approveMembership ''r2'' sample_admin None None ''d2'' ''m2'' ''t4'' sample_revoked) = Inr ()" by code_simp+
  then show
    "approveMembership ''r1'' sample_admin None None ''d1'' ''m1'' ''t2'' sample_requested = (Inr (), sample_approved)"
    "revokeMembership ''d'' ''g'' sample_admin ''lost'' ''v1'' ''t3'' sample_approved = (Inr (), sample_revoked)"
    "approveMembership ''r2'' sample_admin None None ''d2'' ''m2'' ''t4'' sample_revoked = (Inr (), sample_reapproved)"
    unfolding sample_approved_def [symmetric] sample_revoked_def [symmetric] sample_reapproved_def [symmetric]
    by (simp_all add: prod_eq_iff sample_approved_def sample_revoked_def sample_reapproved_def)
qed

lemma sample_writer: "sub_device (extractContextSubject sample_admin) = ''d''" "ctx_organisation sample_admin = ''o''"
  by (simp_all add: sample_admin_def ctx_organisation_def)

theorem membership_lifecycle_witness:
  "distinct (map dc_request (db_decisions sample_approved)) \<and>
   length (db_members sample_approved) = sql_count (\<lambda>r. rq_status r = ReqApproved) (db_requests sample_approved)"
  using membership_lifecycle [OF sample_history] by blast

theorem revocation_excludes_witness: "\<not> canSync ''d'' ''g'' sample_revoked"
  using revocation_excludes [OF sample_runs(2) rtranclp.rtrancl_refl sample_writer(1)] by blast

theorem reapproval_splits_admission_witness:
  "\<not> canSync ''d'' ''g'' sample_reapproved \<and>
   requireActiveMembership sample_admin ''g'' sample_reapproved = (Inr (), sample_reapproved)"
proof -
  have "findMembershipRequest ''r2'' sample_revoked = Some \<lparr>rq_id = ''r2'', rq_device = ''d'', rq_group = ''g'', rq_user = None,
      rq_requested_at = ''t1'', rq_status = ReqPending\<rparr>"
    "findDeviceStatus ''d'' sample_revoked = Some DevApproved"
    "findGroup ''g'' sample_revoked = Some (hd (db_groups sample_db))"
    "gr_status (hd (db_groups sample_db)) = GroupActive" "gr_org (hd (db_groups sample_db)) = ctx_organisation sample_admin"
    "device_ok DevApproved" by code_simp+
  from reapproval_splits_admission [OF sample_runs(2,3) this(1) _ _ this(2,6,3-5) sample_writer(1)]
  show ?thesis by simp
qed

theorem admission_checks_agree_witness:
  "requireActiveMembership sample_admin ''g'' sample_approved = (Inr (), sample_approved) \<longleftrightarrow> canSync ''d'' ''g'' sample_approved"
proof (rule admission_checks_agree)
  show "findGroup ''g'' sample_approved = Some (hd (db_groups sample_db))" "gr_status (hd (db_groups sample_db)) = GroupActive"
    "gr_org (hd (db_groups sample_db)) = ctx_organisation sample_admin"
    "length (filter (\<lambda>m. mb_device m = ''d'' \<and> mb_group m = ''g'') (db_members sample_approved)) \<le> 1"
    "\<forall>m \<in> set (db_members sample_approved). mb_device m = ''d'' \<and> mb_group m = ''g'' \<longrightarrow>
       mb_user m = None \<or> mb_user m = sub_user (extractContextSubject sample_admin)"
    by code_simp+
  show "sub_device (extractContextSubject sample_admin) = ''d''" by (rule sample_writer)
qed

end
