(* ===== verification/Identity.thy ===== *)
theory Identity
  imports Core_Db
begin

text \<open>
  The package \<open>identity\<close>: device registration (\<open>device/DeviceIdentityService.ts\<close> with its repository)
  and sessions (\<open>user/UserSessionService.ts\<close>).  The native authenticator is a parameter, given by what
  its calls answer.  The lemmas state when a session is established, what every failure does to
  the current session, and what a session outlives.
\<close>

section \<open>Devices\<close>

definition findLocal :: "core_db \<Rightarrow> device_row option" where
  "findLocal db = find_first dv_local (db_devices db)"

definition findByDeviceId :: "string \<Rightarrow> core_db \<Rightarrow> device_row option" where
  "findByDeviceId deviceId db = find_first (\<lambda>d. dv_device_id d = deviceId) (db_devices db)"

definition insertDevice :: "device_row \<Rightarrow> (core_db, unit) op" where
  "insertDevice row = insert_row ''core_devices''
     (\<lambda>db. dv_id row \<notin> dv_id ` set (db_devices db) \<and> dv_device_id row \<notin> dv_device_id ` set (db_devices db) \<and>
       (dv_local row \<longrightarrow> (\<forall>d \<in> set (db_devices db). \<not> dv_local d)))
     (\<lambda>db. has_user db (dv_user row))
     (\<lambda>db. db\<lparr>db_devices := db_devices db @ [row]\<rparr>)"

text \<open>The number of rows the update affected.\<close>

definition updateStatus :: "string \<Rightarrow> device_status \<Rightarrow> string \<Rightarrow> (core_db, nat) op" where
  "updateStatus deviceId status now = andthen (get (\<lambda>db. sql_count (\<lambda>d. dv_device_id d = deviceId) (db_devices db))) (\<lambda>n.
     andthen (modify (\<lambda>db. db\<lparr>db_devices := sql_update (\<lambda>d. dv_device_id d = deviceId)
       (\<lambda>d. d\<lparr>dv_status := status, dv_updated_at := now, dv_last_seen := Some now\<rparr>) (db_devices db)\<rparr>)) (\<lambda>_. ret n))"

record register_options =
  ro_public_key :: string
  ro_platform :: string
  ro_application :: string
  ro_user :: "string option"
  ro_device :: "string option"

text \<open>A JavaScript string used as a condition: absent and empty ones are false.\<close>

definition truthy :: "string option \<Rightarrow> bool" where
  "truthy s \<longleftrightarrow> s \<noteq> None \<and> s \<noteq> Some ''''"

definition registerDevice :: "register_options \<Rightarrow> string \<Rightarrow> string \<Rightarrow> string \<Rightarrow> (core_db, device_row) op" where
  "registerDevice opts newId newDeviceId now =
     andthen (get (\<lambda>db. if truthy (ro_device opts) then findByDeviceId (the (ro_device opts)) db else findLocal db)) (\<lambda>existing.
     case existing of
       Some d \<Rightarrow>
         andthen (guard (dv_public_key d = ro_public_key opts) (raise AuthenticationError
           (''Device '' @ quoted (dv_device_id d) @ '' is already registered with a different public key''))) (\<lambda>_.
         andthen (guard (\<not> (truthy (ro_user opts) \<and> truthy (dv_user d) \<and> ro_user opts \<noteq> dv_user d)) (raise AuthenticationError
           (''Device '' @ quoted (dv_device_id d) @ '' is already bound to another user''))) (\<lambda>_. ret d))
     | None \<Rightarrow>
         andthen (guard (trim (ro_public_key opts) \<noteq> []) (raise ValidationError ''Public key is required to register device'')) (\<lambda>_.
         let row = \<lparr>dv_id = newId, dv_created_at = now, dv_updated_at = now, dv_user = ro_user opts,
               dv_device_id = (case ro_device opts of Some d \<Rightarrow> d | None \<Rightarrow> newDeviceId), dv_public_key = ro_public_key opts,
               dv_platform = ro_platform opts, dv_application = ro_application opts, dv_status = DevUnregistered,
               dv_registered_at = now, dv_last_seen = Some now, dv_local = (ro_device opts = None)\<rparr> in
         andthen (insertDevice row) (\<lambda>_. ret row)))"

definition updateDeviceStatus :: "string \<Rightarrow> device_status \<Rightarrow> string \<Rightarrow> (core_db, unit) op" where
  "updateDeviceStatus deviceId newStatus now = andthen (updateStatus deviceId newStatus now) (\<lambda>n.
     guard (n \<noteq> 0) (raise AuthenticationError (''Device '' @ quoted deviceId @ '' not found'')))"

section \<open>Sessions\<close>

record session =
  se_id :: string
  se_user :: string
  se_device :: string
  se_org :: string
  se_roles :: "string list"
  se_established_at :: string
  se_expires_at :: "string option"

record native_view =
  nv_user :: string
  nv_device :: string
  nv_org :: string

record session_service =
  ss_db :: core_db
  ss_current :: "session option"

definition invalidateSession :: "(session_service, unit) op" where
  "invalidateSession = modify (\<lambda>s. s\<lparr>ss_current := None\<rparr>)"

definition reject_session :: "error_class \<Rightarrow> string \<Rightarrow> (session_service, 'a) op" where
  "reject_session c msg = andthen invalidateSession (\<lambda>_. throw (raise c msg))"

definition role_ids :: "string \<Rightarrow> string \<Rightarrow> core_db \<Rightarrow> string list" where
  "role_ids userId org db = order_by (\<lambda>r. r)
     (map ur_role (filter (\<lambda>ur. ur_user ur = userId \<and> ur_org ur = org) (db_user_roles db)))"

definition establishFromNativeSession :: "native_view \<Rightarrow> string \<Rightarrow> string \<Rightarrow> (session_service, session) op" where
  "establishFromNativeSession v sessionId now =
     andthen (get (\<lambda>s. find_first (\<lambda>u. us_id u = nv_user v) (db_users (ss_db s)))) (\<lambda>user.
     case user of
       None \<Rightarrow> reject_session AuthenticationError (''User '' @ quoted (nv_user v) @ '' is inactive or not found'')
     | Some u \<Rightarrow>
         if us_status u \<noteq> UserActive
         then reject_session AuthenticationError (''User '' @ quoted (nv_user v) @ '' is inactive or not found'')
         else if us_org u \<noteq> nv_org v
         then reject_session AuthorizationError (''Native session organisation does not match user '' @ quoted (nv_user v))
         else andthen (get (\<lambda>s. findByDeviceId (nv_device v) (ss_db s))) (\<lambda>device.
           if (case device of None \<Rightarrow> True
               | Some d \<Rightarrow> (dv_user d \<noteq> None \<and> dv_user d \<noteq> Some (nv_user v)) \<or>
                   (dv_status d \<noteq> DevApproved \<and> dv_status d \<noteq> DevActive))
           then reject_session AuthorizationError
             (''Native session device '' @ quoted (nv_device v) @ '' is missing, unbound, or inactive'')
           else andthen (get (\<lambda>s. role_ids (nv_user v) (nv_org v) (ss_db s))) (\<lambda>roles.
             let session = \<lparr>se_id = sessionId, se_user = nv_user v, se_device = nv_device v, se_org = nv_org v,
                   se_roles = roles, se_established_at = now, se_expires_at = None\<rparr> in
             andthen (modify (\<lambda>s. s\<lparr>ss_current := Some session\<rparr>)) (\<lambda>_. ret session))))"

text \<open>The native authenticator is given by its answer.\<close>

definition authenticate :: "string \<Rightarrow> string \<Rightarrow> js_error + native_view \<Rightarrow> string \<Rightarrow> string \<Rightarrow> (session_service, session) op" where
  "authenticate userId password answer sessionId now =
     andthen (guard (userId \<noteq> [] \<and> password \<noteq> []) (raise AuthenticationError ''User ID and password are required'')) (\<lambda>_.
     case answer of
       Inl _ \<Rightarrow> reject_session AuthenticationError ''Native authentication failed''
     | Inr v \<Rightarrow> establishFromNativeSession v sessionId now)"

text \<open>\<open>None\<close> is a gateway without \<open>getCurrentSession\<close>.\<close>

definition restoreNativeSession ::
    "(js_error + native_view option) option \<Rightarrow> string \<Rightarrow> string \<Rightarrow> (session_service, session option) op" where
  "restoreNativeSession answer sessionId now =
     (case answer of
        None \<Rightarrow> throw (raise AuthenticationError ''Native session restoration is not supported by this gateway'')
      | Some (Inl e) \<Rightarrow> throw e
      | Some (Inr None) \<Rightarrow> andthen invalidateSession (\<lambda>_. ret None)
      | Some (Inr (Some v)) \<Rightarrow> andthen (establishFromNativeSession v sessionId now) (\<lambda>s. ret (Some s)))"

text \<open>\<open>validateCurrentSession\<close> awaits the query for the device, so it is the part before and the part after,
  between which other calls may change the session.\<close>

definition validate_begin :: "(session_service, session \<times> device_row option) op" where
  "validate_begin = andthen (get ss_current) (\<lambda>c. case c of
       None \<Rightarrow> throw (raise AuthenticationError ''No active session found'')
     | Some session \<Rightarrow> andthen (get (\<lambda>s. findByDeviceId (se_device session) (ss_db s))) (\<lambda>device. ret (session, device)))"

definition status_text :: "device_status \<Rightarrow> string" where
  "status_text s = (case s of DevUnregistered \<Rightarrow> ''UNREGISTERED'' | DevPendingApproval \<Rightarrow> ''PENDING_APPROVAL''
     | DevApproved \<Rightarrow> ''APPROVED'' | DevActive \<Rightarrow> ''ACTIVE'' | DevSuspended \<Rightarrow> ''SUSPENDED'' | DevRevoked \<Rightarrow> ''REVOKED'')"

definition expired :: "(string \<Rightarrow> int option) \<Rightarrow> int \<Rightarrow> session \<Rightarrow> bool" where
  "expired dateParse now session \<longleftrightarrow> truthy (se_expires_at session) \<and>
     (case dateParse (the (se_expires_at session)) of None \<Rightarrow> False | Some t \<Rightarrow> t < now)"

definition validate_end :: "(string \<Rightarrow> int option) \<Rightarrow> int \<Rightarrow> session \<times> device_row option \<Rightarrow> (session_service, session) op" where
  "validate_end dateParse now = (\<lambda>(session, device).
     andthen (get ss_current) (\<lambda>c.
     if c \<noteq> Some session then throw (raise AuthenticationError ''Session changed during validation'')
     else if device = None \<or> dv_status (the device) = DevRevoked \<or> dv_status (the device) = DevSuspended
     then reject_session AuthorizationError (''Session invalid: device is in state '' @
       quoted (case device of None \<Rightarrow> ''UNKNOWN'' | Some d \<Rightarrow> status_text (dv_status d)))
     else if expired dateParse now session
     then reject_session AuthenticationError ''Session has expired''
     else ret session))"

definition validateCurrentSession :: "(string \<Rightarrow> int option) \<Rightarrow> int \<Rightarrow> (session_service, session) op" where
  "validateCurrentSession dateParse now = andthen validate_begin (validate_end dateParse now)"

definition getTrustedOperationContext :: "(string \<Rightarrow> int option) \<Rightarrow> int \<Rightarrow> string \<Rightarrow> (session_service, any_context) op" where
  "getTrustedOperationContext dateParse now correlationId = andthen (validateCurrentSession dateParse now) (\<lambda>s.
     ret (Trusted correlationId \<lparr>pr_session = se_id s, pr_user = se_user s, pr_device = se_device s, pr_org = se_org s,
       pr_roles = se_roles s\<rparr>))"

text \<open>The answer of \<open>logoutUser\<close>, if the gateway has it: nothing, or the error it throws.\<close>

definition logout :: "js_error option \<Rightarrow> (session_service, unit) op" where
  "logout answer = (case answer of Some e \<Rightarrow> throw e | None \<Rightarrow> invalidateSession)"

definition getUser :: "string \<Rightarrow> core_db \<Rightarrow> user_row option" where
  "getUser userId db = find_first (\<lambda>u. us_id u = userId) (db_users db)"

section \<open>What stays of a device\<close>

definition device_ids_ok :: "core_db \<Rightarrow> bool" where
  "device_ids_ok db \<longleftrightarrow> distinct (map dv_device_id (db_devices db)) \<and> length (filter dv_local (db_devices db)) \<le> 1"

definition same_device :: "device_row \<Rightarrow> device_row \<Rightarrow> bool" where
  "same_device d d' \<longleftrightarrow> dv_id d' = dv_id d \<and> dv_device_id d' = dv_device_id d \<and> dv_public_key d' = dv_public_key d \<and>
     dv_user d' = dv_user d \<and> dv_platform d' = dv_platform d \<and> dv_application d' = dv_application d \<and>
     dv_registered_at d' = dv_registered_at d \<and> dv_local d' = dv_local d"

inductive device_step :: "core_db \<Rightarrow> core_db \<Rightarrow> bool" where
  ds_register: "device_step db (snd (registerDevice opts i d now db))"
| ds_status: "device_step db (snd (updateDeviceStatus d st now db))"
| ds_other: "db_devices db' = db_devices db \<Longrightarrow> device_step db db'"

definition device_append :: "core_db \<Rightarrow> core_db \<Rightarrow> bool" where
  "device_append db db' \<longleftrightarrow> (\<exists>new. db_devices db' = db_devices db @ new \<and> (device_ids_ok db \<longrightarrow> device_ids_ok db'))"

lemma insertDevice_append: "device_append db (snd (insertDevice row db))"
proof -
  have "device_append db db" by (auto simp: device_append_def)
  moreover have "device_append db (db\<lparr>db_devices := db_devices db @ [row]\<rparr>)"
    if "dv_device_id row \<notin> dv_device_id ` set (db_devices db)" "dv_local row \<longrightarrow> (\<forall>d \<in> set (db_devices db). \<not> dv_local d)"
    using that by (auto simp: device_append_def device_ids_ok_def filter_empty_conv)
  ultimately show ?thesis by (auto simp: insertDevice_def insert_row_run)
qed

lemma register_append: "device_append db (snd (registerDevice opts i d now db))"
proof -
  have "moves device_append (insertDevice row)" for row by (rule movesI) (rule insertDevice_append)
  then have "device_append db (snd (andthen (insertDevice row) (\<lambda>_. ret row) db))" for row
    using movesD [of device_append "insertDevice row" db] by (auto simp: andthen_def split: prod.splits sum.splits)
  moreover have "device_append db db" by (auto simp: device_append_def)
  ultimately show ?thesis by (auto simp: registerDevice_def Let_def split: option.split)
qed

lemma status_devices: "db_devices (snd (updateDeviceStatus d st now db)) = sql_update (\<lambda>r. dv_device_id r = d)
    (\<lambda>r. r\<lparr>dv_status := st, dv_updated_at := now, dv_last_seen := Some now\<rparr>) (db_devices db)"
  by (simp add: updateDeviceStatus_def updateStatus_def andthen_def)

lemma same_refl [simp]: "same_device d d" by (simp add: same_device_def)

lemma device_step_ok:
  assumes "device_step db db'" "device_ids_ok db"
  shows "device_ids_ok db' \<and> rows_move same_device (db_devices db) (db_devices db')"
  using assms
proof (induction rule: device_step.induct)
  case (ds_register db opts i d now)
  then show ?case using register_append [of db opts i d now] rows_move_append [of same_device "db_devices db"]
    by (auto simp: device_append_def)
next
  case (ds_status db d st now)
  let ?f = "\<lambda>r. r\<lparr>dv_status := st, dv_updated_at := now, dv_last_seen := Some now\<rparr>"
  have "map dv_device_id (sql_update (\<lambda>r. dv_device_id r = d) ?f (db_devices db)) = map dv_device_id (db_devices db)"
    by (rule map_sql_update) simp
  moreover have count: "length (filter dv_local (sql_update (\<lambda>r. dv_device_id r = d) ?f rows)) = length (filter dv_local rows)" for rows
    by (induction rows) auto
  ultimately have "device_ids_ok (snd (updateDeviceStatus d st now db))"
    using ds_status unfolding device_ids_ok_def status_devices count by simp
  moreover have "rows_move same_device (db_devices db) (db_devices (snd (updateDeviceStatus d st now db)))"
    unfolding status_devices by (rule rows_move_update) (simp_all add: same_device_def)
  ultimately show ?case by simp
next
  case (ds_other db' db)
  then show ?case by (simp add: device_ids_ok_def rows_move_refl)
qed

lemma same_trans: "same_device a b \<Longrightarrow> same_device b c \<Longrightarrow> same_device a c" by (simp add: same_device_def)

lemma device_history:
  assumes "device_step\<^sup>*\<^sup>* db db'" "device_ids_ok db"
  shows "device_ids_ok db' \<and> rows_move same_device (db_devices db) (db_devices db')"
  using assms(1)
proof (induction rule: rtranclp_induct)
  case base
  then show ?case using assms(2) by (simp add: rows_move_refl)
next
  case (step y z)
  then show ?case using device_step_ok [of y z] rows_move_trans [of same_device] same_trans by meson
qed

text \<open>C23. A registered device keeps its identity: through any registrations and status changes its device id, public
  key, user, platform, application and local mark never change, device ids stay unique and at most
  one device is the local one; and registering a known device id again returns the stored device
  for the same key and a user it is not bound against, and is refused otherwise.\<close>

theorem device_identity_stable:
  assumes "device_step\<^sup>*\<^sup>* db db'" "device_ids_ok db"
  shows "device_ids_ok db' \<and> (\<forall>d \<in> set (db_devices db). \<exists>d' \<in> set (db_devices db'). same_device d d') \<and>
    (\<forall>d \<in> set (db_devices db'). \<forall>opts. ro_device opts = Some (dv_device_id d) \<and> dv_device_id d \<noteq> [] \<longrightarrow>
      (if dv_public_key d = ro_public_key opts \<and> (truthy (ro_user opts) \<and> truthy (dv_user d) \<longrightarrow> ro_user opts = dv_user d)
       then registerDevice opts i n now db' = (Inr d, db')
       else \<exists>e. registerDevice opts i n now db' = (Inl e, db') \<and> err_class e = AuthenticationError))"
proof (intro conjI)
  have h: "device_ids_ok db'" "rows_move same_device (db_devices db) (db_devices db')" using device_history [OF assms] by simp_all
  then show "device_ids_ok db'" "\<forall>d \<in> set (db_devices db). \<exists>d' \<in> set (db_devices db'). same_device d d'"
    by (simp_all add: rows_move_def)
  have find: "findByDeviceId (dv_device_id d) db' = Some d" if d: "d \<in> set (db_devices db')" for d
  proof (cases "findByDeviceId (dv_device_id d) db'")
    case None
    then show ?thesis using d by (auto simp: findByDeviceId_def find_first_None)
  next
    case (Some d')
    then have "d' \<in> set (db_devices db')" "dv_device_id d' = dv_device_id d"
      using find_first_SomeD unfolding findByDeviceId_def by fastforce+
    then show ?thesis using Some d h(1) by (auto simp: device_ids_ok_def distinct_map dest: inj_onD)
  qed
  show "\<forall>d \<in> set (db_devices db'). \<forall>opts. ro_device opts = Some (dv_device_id d) \<and> dv_device_id d \<noteq> [] \<longrightarrow>
      (if dv_public_key d = ro_public_key opts \<and> (truthy (ro_user opts) \<and> truthy (dv_user d) \<longrightarrow> ro_user opts = dv_user d)
       then registerDevice opts i n now db' = (Inr d, db')
       else \<exists>e. registerDevice opts i n now db' = (Inl e, db') \<and> err_class e = AuthenticationError)"
  proof (intro ballI allI impI)
    fix d and opts :: register_options
    assume d: "d \<in> set (db_devices db')" and o: "ro_device opts = Some (dv_device_id d) \<and> dv_device_id d \<noteq> []"
    then have t: "truthy (ro_device opts)" "the (ro_device opts) = dv_device_id d" by (simp_all add: truthy_def)
    show "if dv_public_key d = ro_public_key opts \<and> (truthy (ro_user opts) \<and> truthy (dv_user d) \<longrightarrow> ro_user opts = dv_user d)
       then registerDevice opts i n now db' = (Inr d, db')
       else \<exists>e. registerDevice opts i n now db' = (Inl e, db') \<and> err_class e = AuthenticationError"
      using find [OF d] t by (auto simp: registerDevice_def platform_error_def)
  qed
qed

section \<open>The life of a session\<close>

definition admissible :: "core_db \<Rightarrow> native_view \<Rightarrow> bool" where
  "admissible db v \<longleftrightarrow>
     (\<exists>u. getUser (nv_user v) db = Some u \<and> us_status u = UserActive \<and> us_org u = nv_org v) \<and>
     (\<exists>d. findByDeviceId (nv_device v) db = Some d \<and> (dv_user d = None \<or> dv_user d = Some (nv_user v)) \<and>
        dv_status d \<in> {DevApproved, DevActive})"

definition new_session :: "core_db \<Rightarrow> native_view \<Rightarrow> string \<Rightarrow> string \<Rightarrow> session" where
  "new_session db v sessionId now = \<lparr>se_id = sessionId, se_user = nv_user v, se_device = nv_device v, se_org = nv_org v,
     se_roles = role_ids (nv_user v) (nv_org v) db, se_established_at = now, se_expires_at = None\<rparr>"

lemma run_reject_session: "reject_session c msg s = (Inl (raise c msg), s\<lparr>ss_current := None\<rparr>)"
  by (simp add: reject_session_def invalidateSession_def)

lemma establish_run: "establishFromNativeSession v sessionId now s =
    (if admissible (ss_db s) v
     then (Inr (new_session (ss_db s) v sessionId now), s\<lparr>ss_current := Some (new_session (ss_db s) v sessionId now)\<rparr>)
     else (fst (establishFromNativeSession v sessionId now s), s\<lparr>ss_current := None\<rparr>))"
  "\<not> admissible (ss_db s) v \<Longrightarrow> \<exists>e. fst (establishFromNativeSession v sessionId now s) = Inl e \<and>
     err_class e \<in> {AuthenticationError, AuthorizationError}"
proof -
  have "(if admissible (ss_db s) v
     then establishFromNativeSession v sessionId now s =
       (Inr (new_session (ss_db s) v sessionId now), s\<lparr>ss_current := Some (new_session (ss_db s) v sessionId now)\<rparr>)
     else \<exists>e. establishFromNativeSession v sessionId now s = (Inl e, s\<lparr>ss_current := None\<rparr>) \<and>
       err_class e \<in> {AuthenticationError, AuthorizationError})"
  proof (cases "getUser (nv_user v) (ss_db s)")
    case None
    then show ?thesis
      by (simp add: admissible_def establishFromNativeSession_def getUser_def run_reject_session platform_error_def)
  next
    case u: (Some u)
    show ?thesis
    proof (cases "findByDeviceId (nv_device v) (ss_db s)")
      case None
      then show ?thesis using u
        by (simp add: admissible_def establishFromNativeSession_def getUser_def run_reject_session platform_error_def)
    next
      case (Some d)
      then show ?thesis using u
        by (auto simp add: admissible_def establishFromNativeSession_def getUser_def run_reject_session platform_error_def
            new_session_def Let_def)
    qed
  qed
  then show "establishFromNativeSession v sessionId now s =
    (if admissible (ss_db s) v
     then (Inr (new_session (ss_db s) v sessionId now), s\<lparr>ss_current := Some (new_session (ss_db s) v sessionId now)\<rparr>)
     else (fst (establishFromNativeSession v sessionId now s), s\<lparr>ss_current := None\<rparr>))"
    "\<not> admissible (ss_db s) v \<Longrightarrow> \<exists>e. fst (establishFromNativeSession v sessionId now s) = Inl e \<and>
     err_class e \<in> {AuthenticationError, AuthorizationError}"
    by (auto split: if_splits)
qed

lemma authenticate_run: "authenticate userId password answer sessionId now s =
    (if userId = [] \<or> password = [] then (Inl (raise AuthenticationError ''User ID and password are required''), s)
     else case answer of
       Inl _ \<Rightarrow> (Inl (raise AuthenticationError ''Native authentication failed''), s\<lparr>ss_current := None\<rparr>)
     | Inr v \<Rightarrow> establishFromNativeSession v sessionId now s)"
  by (simp add: authenticate_def run_reject_session split: sum.split)

definition live_device :: "core_db \<Rightarrow> string \<Rightarrow> bool" where
  "live_device db deviceId \<longleftrightarrow> (\<exists>d. findByDeviceId deviceId db = Some d \<and> dv_status d \<notin> {DevRevoked, DevSuspended})"

lemma validate_run: "validateCurrentSession dp now s = (case ss_current s of
      None \<Rightarrow> (Inl (raise AuthenticationError ''No active session found''), s)
    | Some se \<Rightarrow> if live_device (ss_db s) (se_device se) \<and> \<not> expired dp now se then (Inr se, s)
        else (fst (validateCurrentSession dp now s), s\<lparr>ss_current := None\<rparr>))"
  "ss_current s = Some se \<Longrightarrow> \<not> (live_device (ss_db s) (se_device se) \<and> \<not> expired dp now se) \<Longrightarrow>
     \<exists>e. fst (validateCurrentSession dp now s) = Inl e"
proof -
  have "(case ss_current s of
      None \<Rightarrow> validateCurrentSession dp now s = (Inl (raise AuthenticationError ''No active session found''), s)
    | Some se \<Rightarrow> if live_device (ss_db s) (se_device se) \<and> \<not> expired dp now se
        then validateCurrentSession dp now s = (Inr se, s)
        else \<exists>e. validateCurrentSession dp now s = (Inl e, s\<lparr>ss_current := None\<rparr>))"
  proof (cases "ss_current s")
    case None
    then show ?thesis by (simp add: validateCurrentSession_def validate_begin_def andthen_def)
  next
    case (Some se)
    have run: "validateCurrentSession dp now s = validate_end dp now (se, findByDeviceId (se_device se) (ss_db s)) s"
      using Some by (simp add: validateCurrentSession_def validate_begin_def andthen_def)
    show ?thesis
      using Some unfolding run
      by (cases "findByDeviceId (se_device se) (ss_db s)") (simp_all add: validate_end_def run_reject_session live_device_def)
  qed
  then show "validateCurrentSession dp now s = (case ss_current s of
      None \<Rightarrow> (Inl (raise AuthenticationError ''No active session found''), s)
    | Some se \<Rightarrow> if live_device (ss_db s) (se_device se) \<and> \<not> expired dp now se then (Inr se, s)
        else (fst (validateCurrentSession dp now s), s\<lparr>ss_current := None\<rparr>))"
    "ss_current s = Some se \<Longrightarrow> \<not> (live_device (ss_db s) (se_device se) \<and> \<not> expired dp now se) \<Longrightarrow>
     \<exists>e. fst (validateCurrentSession dp now s) = Inl e"
    by (auto split: option.splits if_splits)
qed

lemma validate_fails:
  assumes "ss_current s = Some se" "\<not> (live_device (ss_db s) (se_device se) \<and> \<not> expired dp now se)"
  shows "\<exists>e. validateCurrentSession dp now s = (Inl e, s\<lparr>ss_current := None\<rparr>)"
proof -
  obtain e where "fst (validateCurrentSession dp now s) = Inl e" using validate_run(2) [OF assms] by blast
  then show ?thesis using assms validate_run(1) [of dp now s] by auto
qed

text \<open>Sessions are bound to what the tables say: authentication with both fields given establishes a session
  exactly when the native boundary accepts, the user is active in the organisation it names and the
  device is approved or active and bound to nobody else; every other answer of it ends the current
  session.  A trusted context is issued exactly for a current, unexpired session of a device that is
  known and neither revoked nor suspended, a failing check ends the session, and a check overtaken by
  a change of the session issues nothing.\<close>

theorem session_binding:
  "(let (r, s') = authenticate userId password answer sessionId now s in
      userId \<noteq> [] \<and> password \<noteq> [] \<longrightarrow>
        (if \<exists>v. answer = Inr v \<and> admissible (ss_db s) v
         then \<exists>v se. answer = Inr v \<and> r = Inr se \<and> se = new_session (ss_db s) v sessionId now \<and> s' = s\<lparr>ss_current := Some se\<rparr>
         else (\<exists>e. r = Inl e) \<and> s' = s\<lparr>ss_current := None\<rparr>)) \<and>
   (case getTrustedOperationContext dp ms corr s of
      (Inr ctx, s') \<Rightarrow> s' = s \<and> (\<exists>se. ss_current s = Some se \<and> live_device (ss_db s) (se_device se) \<and> \<not> expired dp ms se \<and>
        extractContextSubject ctx = \<lparr>sub_user = Some (se_user se), sub_device = se_device se, sub_org = se_org se\<rparr>)
    | (Inl e, s') \<Rightarrow> ss_current s' = None) \<and>
   (ss_current s \<noteq> Some old \<longrightarrow> (\<exists>e. validate_end dp ms (old, device) s = (Inl e, s)))"
proof (intro conjI)
  show "let (r, s') = authenticate userId password answer sessionId now s in
      userId \<noteq> [] \<and> password \<noteq> [] \<longrightarrow>
        (if \<exists>v. answer = Inr v \<and> admissible (ss_db s) v
         then \<exists>v se. answer = Inr v \<and> r = Inr se \<and> se = new_session (ss_db s) v sessionId now \<and> s' = s\<lparr>ss_current := Some se\<rparr>
         else (\<exists>e. r = Inl e) \<and> s' = s\<lparr>ss_current := None\<rparr>)"
  proof (cases answer)
    case (Inl e)
    then show ?thesis by (simp add: authenticate_run)
  next
    case (Inr v)
    show ?thesis
    proof (cases "admissible (ss_db s) v")
      case True
      then show ?thesis using Inr establish_run(1) [of v sessionId now s] by (simp add: authenticate_run)
    next
      case False
      obtain e where "fst (establishFromNativeSession v sessionId now s) = Inl e" using establish_run(2) [OF False] by blast
      then have "establishFromNativeSession v sessionId now s = (Inl e, s\<lparr>ss_current := None\<rparr>)"
        using establish_run(1) [of v sessionId now s] False by simp
      then show ?thesis using Inr False by (simp add: authenticate_run)
    qed
  qed
  show "case getTrustedOperationContext dp ms corr s of
      (Inr ctx, s') \<Rightarrow> s' = s \<and> (\<exists>se. ss_current s = Some se \<and> live_device (ss_db s) (se_device se) \<and> \<not> expired dp ms se \<and>
        extractContextSubject ctx = \<lparr>sub_user = Some (se_user se), sub_device = se_device se, sub_org = se_org se\<rparr>)
    | (Inl e, s') \<Rightarrow> ss_current s' = None"
  proof (cases "ss_current s")
    case None
    then have "validateCurrentSession dp ms s = (Inl (raise AuthenticationError ''No active session found''), s)"
      using validate_run(1) [of dp ms s] by simp
    then show ?thesis using None by (simp add: getTrustedOperationContext_def andthen_def)
  next
    case (Some se)
    show ?thesis
    proof (cases "live_device (ss_db s) (se_device se) \<and> \<not> expired dp ms se")
      case True
      then have "validateCurrentSession dp ms s = (Inr se, s)" using Some validate_run(1) [of dp ms s] by simp
      then show ?thesis using Some True by (simp add: getTrustedOperationContext_def andthen_def)
    next
      case False
      obtain e where "validateCurrentSession dp ms s = (Inl e, s\<lparr>ss_current := None\<rparr>)"
        using validate_fails [OF Some False] by blast
      then show ?thesis by (simp add: getTrustedOperationContext_def andthen_def)
    qed
  qed
  show "ss_current s \<noteq> Some old \<longrightarrow> (\<exists>e. validate_end dp ms (old, device) s = (Inl e, s))"
    by (simp add: validate_end_def)
qed

text \<open>A session outlives its user: validation reads only the device, so suspending or revoking the user, moving
  it to another organisation or taking its roles away leaves the session and the roles it carries
  valid; and a logout that fails natively leaves the session in place.\<close>

theorem session_outlives_user:
  assumes "ss_current s = Some se" "live_device (ss_db s) (se_device se)" "\<not> expired dp ms se"
    "db_devices db' = db_devices (ss_db s)"
  shows "validateCurrentSession dp ms (s\<lparr>ss_db := db'\<rparr>) = (Inr se, s\<lparr>ss_db := db'\<rparr>) \<and>
    logout (Some e) s = (Inl e, s) \<and> logout None s = (Inr (), s\<lparr>ss_current := None\<rparr>)"
proof -
  have "live_device db' (se_device se)" using assms(2,4) by (simp add: live_device_def findByDeviceId_def)
  then show ?thesis using assms(1,3) validate_run(1) [of dp ms "s\<lparr>ss_db := db'\<rparr>"]
    by (simp add: logout_def invalidateSession_def)
qed

definition sample_user :: user_row where
  "sample_user = \<lparr>us_id = ''u'', us_created_at = ''t'', us_updated_at = ''t'', us_created_by = None, us_updated_by = None,
     us_org = ''o'', us_name = ''Ann'', us_email = None, us_status = UserActive\<rparr>"

definition sample_device :: device_row where
  "sample_device = \<lparr>dv_id = ''x'', dv_created_at = ''t'', dv_updated_at = ''t'', dv_user = Some ''u'', dv_device_id = ''d'',
     dv_public_key = ''k'', dv_platform = ''linux'', dv_application = ''app'', dv_status = DevApproved,
     dv_registered_at = ''t'', dv_last_seen = None, dv_local = True\<rparr>"

definition sample_session_db :: core_db where
  "sample_session_db = empty_db\<lparr>db_users := [sample_user], db_devices := [sample_device]\<rparr>"

definition sample_view :: native_view where
  "sample_view = \<lparr>nv_user = ''u'', nv_device = ''d'', nv_org = ''o''\<rparr>"

theorem session_binding_witness:
  "fst (authenticate ''u'' ''secret'' (Inr sample_view) ''s1'' ''t'' \<lparr>ss_db = sample_session_db, ss_current = None\<rparr>) =
   Inr (new_session sample_session_db sample_view ''s1'' ''t'')"
proof -
  have "admissible sample_session_db sample_view"
    by (simp add: admissible_def getUser_def findByDeviceId_def sample_session_db_def sample_view_def sample_user_def
        sample_device_def)
  then show ?thesis
    using session_binding [of "''u''" "''secret''" "Inr sample_view" "''s1''" "''t''"
        "\<lparr>ss_db = sample_session_db, ss_current = None\<rparr>", THEN conjunct1]
    by (auto simp: Let_def split: prod.splits)
qed

theorem session_outlives_user_witness:
  "validateCurrentSession iso_parse 5 \<lparr>ss_db = sample_session_db\<lparr>db_users := [sample_user\<lparr>us_status := UserRevoked\<rparr>]\<rparr>,
      ss_current = Some (new_session sample_session_db sample_view ''s1'' ''t'')\<rparr> =
   (Inr (new_session sample_session_db sample_view ''s1'' ''t''),
    \<lparr>ss_db = sample_session_db\<lparr>db_users := [sample_user\<lparr>us_status := UserRevoked\<rparr>]\<rparr>,
      ss_current = Some (new_session sample_session_db sample_view ''s1'' ''t'')\<rparr>)"
proof -
  have "live_device sample_session_db ''d''" "se_device (new_session sample_session_db sample_view ''s1'' ''t'') = ''d''"
    "\<not> expired iso_parse 5 (new_session sample_session_db sample_view ''s1'' ''t'')"
    by (simp_all add: live_device_def findByDeviceId_def sample_session_db_def sample_device_def new_session_def
        sample_view_def expired_def truthy_def)
  then show ?thesis
    using session_outlives_user [of "\<lparr>ss_db = sample_session_db, ss_current = Some (new_session sample_session_db sample_view ''s1'' ''t'')\<rparr>"
        "new_session sample_session_db sample_view ''s1'' ''t''" iso_parse 5
        "sample_session_db\<lparr>db_users := [sample_user\<lparr>us_status := UserRevoked\<rparr>]\<rparr>"]
    by (simp add: sample_session_db_def)
qed

theorem device_identity_stable_witness:
  "device_ids_ok (snd (updateDeviceStatus ''d'' DevRevoked ''t2'' sample_session_db))"
proof -
  have "device_step\<^sup>*\<^sup>* sample_session_db (snd (updateDeviceStatus ''d'' DevRevoked ''t2'' sample_session_db))"
    by (rule r_into_rtranclp) (rule ds_status)
  moreover have "device_ids_ok sample_session_db" by (simp add: device_ids_ok_def sample_session_db_def)
  ultimately show ?thesis using device_identity_stable by blast
qed

end
