(* ===== verification/Audit_Log.thy ===== *)
theory Audit_Log
  imports Authorization Identity
begin

text \<open>
  The package \<open>audit\<close> (\<open>service/AuditService.ts\<close>, \<open>repositories/AuditRepository.ts\<close>): events are appended
  to \<open>core_audit_events\<close> with their metadata as JSON text, and listed per organisation, latest first.
\<close>

record audit_event =
  ae_id :: string
  ae_type :: string
  ae_user :: "string option"
  ae_device :: string
  ae_org :: string
  ae_correlation :: string
  ae_timestamp :: string
  ae_metadata :: "json option"

record audit_input =
  ai_type :: string
  ai_user :: "string option"
  ai_device :: string
  ai_org :: string
  ai_correlation :: string
  ai_metadata :: "(string \<times> json) list option"

definition insertEvent :: "audit_row \<Rightarrow> (core_db, unit) op" where
  "insertEvent row = insert_row ''core_audit_events.id'' (\<lambda>db. au_id row \<notin> au_id ` set (db_audit db)) (\<lambda>_. True)
     (\<lambda>db. db\<lparr>db_audit := db_audit db @ [row]\<rparr>)"

definition audit_row_of :: "audit_input \<Rightarrow> string \<Rightarrow> string \<Rightarrow> audit_row" where
  "audit_row_of input newId now = \<lparr>au_id = newId, au_type = ai_type input, au_user = ai_user input,
     au_device = ai_device input, au_org = ai_org input, au_correlation = ai_correlation input, au_timestamp = now,
     au_metadata_json = map_option (\<lambda>m. stringify (JObj m)) (ai_metadata input)\<rparr>"

definition emit :: "audit_input \<Rightarrow> string \<Rightarrow> string \<Rightarrow> (core_db, audit_event) op" where
  "emit input newId now = andthen (insertEvent (audit_row_of input newId now)) (\<lambda>_.
     ret \<lparr>ae_id = newId, ae_type = ai_type input, ae_user = ai_user input, ae_device = ai_device input,
       ae_org = ai_org input, ae_correlation = ai_correlation input, ae_timestamp = now,
       ae_metadata = map_option JObj (ai_metadata input)\<rparr>)"

record audit_filters =
  af_type :: "string option"
  af_user :: "string option"
  af_device :: "string option"
  af_correlation :: "string option"
  af_limit :: "int option"
  af_offset :: "int option"

definition no_filters :: audit_filters where
  "no_filters = \<lparr>af_type = None, af_user = None, af_device = None, af_correlation = None, af_limit = None, af_offset = None\<rparr>"

definition wanted :: "string option \<Rightarrow> string option \<Rightarrow> bool" where
  "wanted f v \<longleftrightarrow> \<not> truthy f \<or> v = f"

text \<open>A negative \<open>LIMIT\<close> is none, a negative \<open>OFFSET\<close> is 0; the offset is used with a limit only.\<close>

definition page :: "int option \<Rightarrow> int option \<Rightarrow> 'a list \<Rightarrow> 'a list" where
  "page limit offset rows = (case limit of None \<Rightarrow> rows
     | Some n \<Rightarrow> (let rest = (case offset of None \<Rightarrow> rows | Some k \<Rightarrow> drop (nat k) rows)
         in if n < 0 then rest else take (nat n) rest))"

definition findByOrganisation :: "string \<Rightarrow> audit_filters \<Rightarrow> core_db \<Rightarrow> audit_row list" where
  "findByOrganisation org f db = page (af_limit f) (af_offset f) (order_by_desc au_timestamp (filter (\<lambda>r. au_org r = org \<and>
     wanted (af_type f) (Some (au_type r)) \<and> wanted (af_user f) (au_user r) \<and>
     wanted (af_device f) (Some (au_device r)) \<and> wanted (af_correlation f) (Some (au_correlation r))) (db_audit db)))"

definition event_of :: "audit_row \<Rightarrow> audit_event" where
  "event_of r = \<lparr>ae_id = au_id r, ae_type = au_type r, ae_user = au_user r, ae_device = au_device r, ae_org = au_org r,
     ae_correlation = au_correlation r, ae_timestamp = au_timestamp r,
     ae_metadata = (if truthy (au_metadata_json r) then
         (case json_parse (the (au_metadata_json r)) of Inl _ \<Rightarrow> None | Inr v \<Rightarrow> if js_false v then None else Some v)
       else None)\<rparr>"

definition listEvents :: "string \<Rightarrow> audit_filters \<Rightarrow> core_db \<Rightarrow> audit_event list" where
  "listEvents org f db = map event_of (findByOrganisation org f db)"

section \<open>The log as an append-only history\<close>

definition emitted :: "audit_input \<Rightarrow> string \<Rightarrow> string \<Rightarrow> audit_event" where
  "emitted input newId now = \<lparr>ae_id = newId, ae_type = ai_type input, ae_user = ai_user input, ae_device = ai_device input,
     ae_org = ai_org input, ae_correlation = ai_correlation input, ae_timestamp = now,
     ae_metadata = map_option JObj (ai_metadata input)\<rparr>"

lemma emit_run: "emit input newId now db = (if newId \<in> au_id ` set (db_audit db)
    then (Inl (raise PlainError (''UNIQUE constraint failed: '' @ ''core_audit_events.id'')), db)
    else (Inr (emitted input newId now), db\<lparr>db_audit := db_audit db @ [audit_row_of input newId now]\<rparr>))"
  by (simp add: emit_def insertEvent_def andthen_def insert_row_run audit_row_of_def emitted_def)

lemma emit_Inr: "emit input newId now db = (Inr ev, db') \<longleftrightarrow> newId \<notin> au_id ` set (db_audit db) \<and>
    db' = db\<lparr>db_audit := db_audit db @ [audit_row_of input newId now]\<rparr> \<and> ev = emitted input newId now"
  by (auto simp: emit_run)

definition metadata_ok :: "audit_input \<Rightarrow> bool" where
  "metadata_ok input \<longleftrightarrow> (case ai_metadata input of None \<Rightarrow> True | Some m \<Rightarrow> wf_json (JObj m))"

lemma event_of_row: "metadata_ok input \<Longrightarrow> event_of (audit_row_of input newId now) = emitted input newId now"
proof (cases "ai_metadata input")
  case (Some m)
  assume "metadata_ok input"
  then have "json_parse (stringify (JObj m)) = Inr (JObj m)" using Some json_parse_stringify by (simp only: metadata_ok_def option.case)
  moreover have "stringify (JObj m) \<noteq> []" by simp
  ultimately show ?thesis using Some
    by (simp add: event_of_def audit_row_of_def truthy_def emitted_def del: stringify.simps)
qed (simp add: event_of_def audit_row_of_def truthy_def emitted_def)

text \<open>A history of emitted events: each with its id and its time.\<close>

fun emit_all :: "(audit_input \<times> string \<times> string) list \<Rightarrow> core_db \<Rightarrow> core_db" where
  "emit_all [] db = db"
| "emit_all ((input, i, now) # rest) db = emit_all rest (snd (emit input i now db))"

lemma emit_all_rows:
  assumes "distinct (map (\<lambda>(_, i, _). i) evs)" "(\<lambda>(_, i, _). i) ` set evs \<inter> au_id ` set (db_audit db) = {}"
  shows "db_audit (emit_all evs db) = db_audit db @ map (\<lambda>(input, i, now). audit_row_of input i now) evs"
  using assms
proof (induction evs arbitrary: db)
  case (Cons e evs)
  obtain input i now where e: "e = (input, i, now)" by (cases e)
  have run: "snd (emit input i now db) = db\<lparr>db_audit := db_audit db @ [audit_row_of input i now]\<rparr>"
    using Cons.prems by (simp add: emit_run e)
  have "(\<lambda>(_, i, _). i) ` set evs \<inter> au_id ` set (db_audit (snd (emit input i now db))) = {}"
    using Cons.prems by (auto simp: run e audit_row_of_def)
  then show ?case using Cons.IH [of "snd (emit input i now db)"] Cons.prems by (simp add: e run)
qed simp

lemma emit_all_grows: "\<exists>new. db_audit (emit_all evs db) = db_audit db @ new"
proof (induction evs db rule: emit_all.induct)
  case (2 input i now rest db)
  then show ?case by (auto simp: emit_run)
qed simp

text \<open>C24. The audit log keeps and shows what was emitted: events with fresh, distinct ids are all recorded, and
  listing an organisation without filters returns exactly its events, each as it was emitted with its
  metadata (JSON with integral numbers), latest first; no emission removes or changes an earlier row.\<close>

theorem audit_log_complete:
  assumes "distinct (map (\<lambda>(_, i, _). i) evs)" "\<forall>(input, _, _) \<in> set evs. metadata_ok input" "db_audit db = []"
  shows "set (listEvents org no_filters (emit_all evs db)) = (\<lambda>(input, i, now). emitted input i now) ` {e \<in> set evs. ai_org (fst e) = org} \<and>
    sorted_wrt (\<lambda>a b. ae_timestamp b \<le> ae_timestamp a) (listEvents org no_filters (emit_all evs db)) \<and>
    (\<exists>new. db_audit (emit_all later (emit_all evs db)) = db_audit (emit_all evs db) @ new)"
proof (intro conjI)
  have rows: "db_audit (emit_all evs db) = map (\<lambda>(input, i, now). audit_row_of input i now) evs"
    using emit_all_rows [OF assms(1)] assms(3) by simp
  let ?sel = "filter (\<lambda>r. au_org r = org) (db_audit (emit_all evs db))"
  have list: "listEvents org no_filters (emit_all evs db) = map event_of (order_by_desc au_timestamp ?sel)"
    by (simp add: listEvents_def findByOrganisation_def no_filters_def page_def wanted_def truthy_def)
  have "event_of (audit_row_of input i now) = emitted input i now" if "(input, i, now) \<in> set evs" for input i now
    using that assms(2) event_of_row by fastforce
  then show "set (listEvents org no_filters (emit_all evs db)) =
      (\<lambda>(input, i, now). emitted input i now) ` {e \<in> set evs. ai_org (fst e) = org}"
    unfolding list set_map set_order_by_desc rows by (force simp: audit_row_of_def)
  show "sorted_wrt (\<lambda>a b. ae_timestamp b \<le> ae_timestamp a) (listEvents org no_filters (emit_all evs db))"
    unfolding list order_by_desc_def
    by (simp add: sorted_wrt_map sorted_wrt_rev event_of_def) (use sorted_sort_key in \<open>auto simp: sorted_map\<close>)
  show "\<exists>new. db_audit (emit_all later (emit_all evs db)) = db_audit (emit_all evs db) @ new" by (rule emit_all_grows)
qed

theorem audit_log_complete_witness:
  "set (listEvents ''o'' no_filters (emit_all [(\<lparr>ai_type = ''USER_CREATED'', ai_user = None, ai_device = ''d'', ai_org = ''o'',
      ai_correlation = ''c'', ai_metadata = Some [(''k'', JNum 1)]\<rparr>, ''a1'', ''t'')] empty_db)) =
   {emitted \<lparr>ai_type = ''USER_CREATED'', ai_user = None, ai_device = ''d'', ai_org = ''o'', ai_correlation = ''c'',
      ai_metadata = Some [(''k'', JNum 1)]\<rparr> ''a1'' ''t''}"
proof -
  let ?i = "\<lparr>ai_type = ''USER_CREATED'', ai_user = None, ai_device = ''d'', ai_org = ''o'', ai_correlation = ''c'',
      ai_metadata = Some [(''k'', JNum 1)]\<rparr>"
  have "metadata_ok ?i" by code_simp
  then show ?thesis
    using audit_log_complete [of "[(?i, ''a1'', ''t'')]" empty_db "''o''", THEN conjunct1] by (auto simp: empty_db_def)
qed

end
