(* ===== verification/Pairing.thy ===== *)
theory Pairing
  imports Handshake Sync_Groups Audit_Log
begin

text \<open>
  Where devices are admitted and shut out: \<open>sync/src/pairing/PairingService.ts\<close>, which joins the
  handshake, device registration, membership requests and the audit log, and the device operations
  of \<open>features/identity-admin\<close> (\<open>services/identityAdminService.ts\<close>, its repository).  Fresh ids and the
  clock are arguments; \<open>approveMembership\<close> and \<open>revokeMembership\<close> run inside the caller's transaction.
\<close>

section \<open>Pairing\<close>

record pairing_state =
  pa_seen :: "string list option"
  pa_db :: core_db

definition on_db :: "(core_db, 'a) op \<Rightarrow> (pairing_state, 'a) op" where
  "on_db = lift_op pa_db (\<lambda>db s. s\<lparr>pa_db := db\<rparr>)"

record fresh_ids =
  fi_device_row :: string
  fi_device :: string
  fi_request :: string
  fi_decision :: string
  fi_member :: string
  fi_revocation :: string
  fi_audit :: string

definition pairing_options :: "(string \<Rightarrow> nat list \<Rightarrow> string \<Rightarrow> js_error + bool) option \<Rightarrow> handshake_options \<Rightarrow> handshake_options" where
  "pairing_options verifyFn opts = opts\<lparr>ho_verify := (case verifyFn of Some f \<Rightarrow> Some f | None \<Rightarrow> ho_verify opts)\<rparr>"

definition register_options_of :: "handshake_message \<Rightarrow> operation_context \<Rightarrow> register_options" where
  "register_options_of m ctx = \<lparr>ro_public_key = hs_signer m, ro_platform = hs_platform m, ro_application = hs_application m,
     ro_user = ctx_user ctx, ro_device = Some (hs_device m)\<rparr>"

definition requested_event :: "handshake_message \<Rightarrow> operation_context \<Rightarrow> string \<Rightarrow> string \<Rightarrow> audit_input" where
  "requested_event m ctx groupId requestId = \<lparr>ai_type = ''MEMBERSHIP_REQUESTED'', ai_user = ctx_user ctx, ai_device = hs_device m,
     ai_org = hs_organisation m, ai_correlation = ctx_correlation ctx,
     ai_metadata = Some [(''requestId'', JStr requestId), (''syncGroupId'', JStr groupId),
       (''applicationVersion'', JStr (hs_app_version m)), (''signerPublicKey'', JStr (hs_signer m)),
       (''platform'', JStr (hs_platform m))]\<rparr>"

definition record_request :: "handshake_message \<Rightarrow> string \<Rightarrow> operation_context \<Rightarrow> fresh_ids \<Rightarrow> string \<Rightarrow> (core_db, string) op" where
  "record_request m groupId ctx ids now =
     andthen (registerDevice (register_options_of m ctx) (fi_device_row ids) (fi_device ids) now) (\<lambda>_.
     andthen (requestMembership groupId (hs_device m) (ctx_user ctx) (fi_request ids) now) (\<lambda>requestId.
     andthen (emit (requested_event m ctx groupId requestId) (fi_audit ids) now) (\<lambda>_. ret requestId)))"

definition requestPairing :: "(string \<Rightarrow> int option) \<Rightarrow> handshake_message \<Rightarrow> string \<Rightarrow>
    (string \<Rightarrow> nat list \<Rightarrow> string \<Rightarrow> js_error + bool) option \<Rightarrow> handshake_options \<Rightarrow> operation_context \<Rightarrow> fresh_ids \<Rightarrow>
    string \<Rightarrow> int \<Rightarrow> (pairing_state, string) op" where
  "requestPairing dateParse m groupId verifyFn opts ctx ids now ms =
     andthen (lift_op pa_seen (\<lambda>t s. s\<lparr>pa_seen := t\<rparr>) (requireValid dateParse (Some m) (pairing_options verifyFn opts) ms)) (\<lambda>_.
     andthen (guard (ctx_org ctx = hs_organisation m) (raise AuthorizationError
       ''Pairing handshake organisation does not match the local operation context'')) (\<lambda>_.
     andthen (get (\<lambda>s. findGroup groupId (pa_db s))) (\<lambda>g.
     if g = None \<or> gr_status (the g) \<noteq> GroupActive
     then throw (raise ValidationError (''Sync group '' @ quoted groupId @ '' is missing or inactive''))
     else if gr_org (the g) \<noteq> hs_organisation m
     then throw (raise AuthorizationError (''Pairing group '' @ quoted groupId @ '' belongs to a different organisation''))
     else on_db (transaction (record_request m groupId ctx ids now)))))"

definition approve_pairing_in :: "string \<Rightarrow> operation_context \<Rightarrow> fresh_ids \<Rightarrow> string \<Rightarrow> (core_db, request_row) op" where
  "approve_pairing_in requestId ctx ids now =
     andthen (get (findMembershipRequest requestId)) (\<lambda>r. case r of
       None \<Rightarrow> throw (raise ValidationError (''Pairing request '' @ quoted requestId @ '' not found''))
     | Some req \<Rightarrow>
         andthen (approve_in requestId (Untrusted ctx) None None (fi_decision ids) (fi_member ids) now) (\<lambda>_.
         andthen (updateDeviceStatus (rq_device req) DevApproved now) (\<lambda>_.
         andthen (emit \<lparr>ai_type = ''MEMBERSHIP_APPROVED'', ai_user = ctx_user ctx, ai_device = rq_device req,
           ai_org = ctx_org ctx, ai_correlation = ctx_correlation ctx,
           ai_metadata = Some [(''requestId'', JStr requestId), (''syncGroupId'', JStr (rq_group req))]\<rparr> (fi_audit ids) now) (\<lambda>_.
         ret req))))"

definition approvePairing :: "string \<Rightarrow> operation_context \<Rightarrow> fresh_ids \<Rightarrow> string \<Rightarrow> (core_db, request_row) op" where
  "approvePairing requestId ctx ids now = transaction (approve_pairing_in requestId ctx ids now)"

definition pairing_canSync :: "string \<Rightarrow> string \<Rightarrow> core_db \<Rightarrow> bool" where
  "pairing_canSync deviceId groupId db = (case findByDeviceId deviceId db of
     None \<Rightarrow> False | Some d \<Rightarrow> device_ok (dv_status d) \<and> canSync deviceId groupId db)"

section \<open>Administration of devices\<close>

definition setDeviceStatus :: "string \<Rightarrow> device_status \<Rightarrow> string \<Rightarrow> (core_db, unit) op" where
  "setDeviceStatus deviceId status now = modify (\<lambda>db. db\<lparr>db_devices := sql_update (\<lambda>d. dv_device_id d = deviceId)
     (\<lambda>d. d\<lparr>dv_status := status, dv_updated_at := now\<rparr>) (db_devices db)\<rparr>)"

definition admin_event :: "string \<Rightarrow> any_context \<Rightarrow> (string \<times> json) list \<Rightarrow> audit_input" where
  "admin_event ty ctx metadata = (let s = extractContextSubject ctx in
     \<lparr>ai_type = ty, ai_user = sub_user s, ai_device = sub_device s, ai_org = sub_org s,
      ai_correlation = (case ctx of Untrusted c \<Rightarrow> ctx_correlation c | Trusted i _ \<Rightarrow> i), ai_metadata = Some metadata\<rparr>)"

definition approve_device_in :: "string \<Rightarrow> string \<Rightarrow> any_context \<Rightarrow> fresh_ids \<Rightarrow> string \<Rightarrow> (core_db, unit) op" where
  "approve_device_in deviceId requestId ctx ids now =
     andthen (requirePermission ctx ''devices.approve'') (\<lambda>_.
     andthen (get (findDeviceStatus deviceId)) (\<lambda>st.
     andthen (guard (st \<in> Some ` {DevPendingApproval, DevApproved, DevActive}) (raise ValidationError
       (''Device '' @ quoted deviceId @ '' is missing or ineligible for approval''))) (\<lambda>_.
     andthen (approve_in requestId ctx None (Some deviceId) (fi_decision ids) (fi_member ids) now) (\<lambda>_.
     andthen (setDeviceStatus deviceId DevApproved now) (\<lambda>_.
     andthen (emit (admin_event ''DEVICE_APPROVED'' ctx [(''approvedDeviceId'', JStr deviceId), (''requestId'', JStr requestId)])
       (fi_audit ids) now) (\<lambda>_. ret ()))))))"

definition approveDevice :: "string \<Rightarrow> string \<Rightarrow> any_context \<Rightarrow> fresh_ids \<Rightarrow> string \<Rightarrow> (core_db, unit) op" where
  "approveDevice deviceId requestId ctx ids now = transaction (approve_device_in deviceId requestId ctx ids now)"

definition revoke_device_in :: "string \<Rightarrow> string \<Rightarrow> string \<Rightarrow> any_context \<Rightarrow> fresh_ids \<Rightarrow> string \<Rightarrow> (core_db, unit) op" where
  "revoke_device_in deviceId groupId reason ctx ids now =
     andthen (requirePermission ctx ''devices.revoke'') (\<lambda>_.
     andthen (get (findDeviceStatus deviceId)) (\<lambda>st.
     andthen (guard (st \<noteq> None) (raise ValidationError (''Device '' @ quoted deviceId @ '' does not exist''))) (\<lambda>_.
     andthen (revoke_in deviceId groupId ctx reason (fi_revocation ids) now) (\<lambda>_.
     andthen (setDeviceStatus deviceId DevRevoked now) (\<lambda>_.
     andthen (emit (admin_event ''DEVICE_REVOKED'' ctx [(''revokedDeviceId'', JStr deviceId), (''reason'', JStr reason)])
       (fi_audit ids) now) (\<lambda>_. ret ()))))))"

definition revokeDevice :: "string \<Rightarrow> string \<Rightarrow> string \<Rightarrow> any_context \<Rightarrow> fresh_ids \<Rightarrow> string \<Rightarrow> (core_db, unit) op" where
  "revokeDevice deviceId groupId reason ctx ids now = transaction (revoke_device_in deviceId groupId reason ctx ids now)"

section \<open>Steps\<close>

lemma on_db_run: "on_db m s = (fst (m (pa_db s)), s\<lparr>pa_db := snd (m (pa_db s))\<rparr>)"
  by (simp add: on_db_def lift_op_def split: prod.split)

lemma registerDevice_D:
  assumes "registerDevice opts i n now db = (Inr d, db')" "ro_device opts = Some dev" "dev \<noteq> []"
  shows "findByDeviceId dev db' = Some d" "dv_public_key d = ro_public_key opts"
    "db' = db \<or> db' = db\<lparr>db_devices := db_devices db @ [d]\<rparr>"
    "findByDeviceId dev db = None \<longrightarrow> dv_status d = DevUnregistered"
proof -
  have t: "truthy (ro_device opts)" "the (ro_device opts) = dev" using assms(2,3) by (simp_all add: truthy_def)
  have "findByDeviceId dev db' = Some d \<and> dv_public_key d = ro_public_key opts \<and>
    (db' = db \<or> db' = db\<lparr>db_devices := db_devices db @ [d]\<rparr>) \<and>
    (findByDeviceId dev db = None \<longrightarrow> dv_status d = DevUnregistered)"
  proof (cases "findByDeviceId dev db")
    case (Some d0)
    then have "d = d0 \<and> db' = db \<and> dv_public_key d0 = ro_public_key opts"
      using assms(1) t by (auto simp: registerDevice_def split: if_split_asm)
    then show ?thesis using Some by auto
  next
    case None
    then have d: "db' = db\<lparr>db_devices := db_devices db @ [d]\<rparr>" "dv_device_id d = dev" "dv_public_key d = ro_public_key opts"
      "dv_status d = DevUnregistered"
      using assms(1,2) t
      by (auto simp: registerDevice_def insertDevice_def andthen_def insert_row_run Let_def split: if_split_asm)
    moreover have "findByDeviceId dev db' = Some d"
      using None d(1,2) by (simp add: findByDeviceId_def find_first_append)
    ultimately show ?thesis by blast
  qed
  then show "findByDeviceId dev db' = Some d" "dv_public_key d = ro_public_key opts"
    "db' = db \<or> db' = db\<lparr>db_devices := db_devices db @ [d]\<rparr>"
    "findByDeviceId dev db = None \<longrightarrow> dv_status d = DevUnregistered" by blast+
qed

lemma requestMembership_Inr: "requestMembership g dev u i now db = (Inr r, db') \<longleftrightarrow> r = i \<and> i \<notin> rq_id ` set (db_requests db) \<and>
    has_group db g \<and> has_user db u \<and> db' = db\<lparr>db_requests := db_requests db @ [\<lparr>rq_id = i, rq_device = dev, rq_group = g,
      rq_user = u, rq_requested_at = now, rq_status = ReqPending\<rparr>]\<rparr>"
  by (auto simp: requestMembership_def insertMembershipRequest_def andthen_def insert_row_run)

lemma record_request_D:
  assumes "record_request m g ctx ids now db = (Inr i, db')" "hs_device m \<noteq> []"
  obtains d where "findByDeviceId (hs_device m) db' = Some d" "dv_public_key d = hs_signer m"
    "findByDeviceId (hs_device m) db = None \<Longrightarrow> dv_status d = DevUnregistered"
    "findMembershipRequest i db' = Some \<lparr>rq_id = i, rq_device = hs_device m, rq_group = g, rq_user = ctx_user ctx,
       rq_requested_at = now, rq_status = ReqPending\<rparr>"
    "db_members db' = db_members db" "db_groups db' = db_groups db" "db_users db' = db_users db"
proof -
  obtain d dbA where a: "registerDevice (register_options_of m ctx) (fi_device_row ids) (fi_device ids) now db = (Inr d, dbA)"
    and r1: "andthen (requestMembership g (hs_device m) (ctx_user ctx) (fi_request ids) now) (\<lambda>requestId.
     andthen (emit (requested_event m ctx g requestId) (fi_audit ids) now) (\<lambda>_. ret requestId)) dbA = (Inr i, db')"
    using assms(1) unfolding record_request_def by (rule andthen_InrE)
  obtain r dbB where b: "requestMembership g (hs_device m) (ctx_user ctx) (fi_request ids) now dbA = (Inr r, dbB)"
    and r2: "andthen (emit (requested_event m ctx g r) (fi_audit ids) now) (\<lambda>_. ret r) dbB = (Inr i, db')"
    using r1 by (rule andthen_InrE)
  obtain ev where c: "emit (requested_event m ctx g r) (fi_audit ids) now dbB = (Inr ev, db')" "i = r"
    using r2 by (auto elim!: andthen_InrE)
  have dev: "ro_device (register_options_of m ctx) = Some (hs_device m)" "ro_public_key (register_options_of m ctx) = hs_signer m"
    by (simp_all add: register_options_of_def)
  note reg = registerDevice_D [OF a dev(1) assms(2)]
  have db': "db' = dbB\<lparr>db_audit := db_audit dbB @ [audit_row_of (requested_event m ctx g r) (fi_audit ids) now]\<rparr>"
    using c(1) by (simp add: emit_Inr)
  have B: "dbB = dbA\<lparr>db_requests := db_requests dbA @ [\<lparr>rq_id = i, rq_device = hs_device m, rq_group = g,
      rq_user = ctx_user ctx, rq_requested_at = now, rq_status = ReqPending\<rparr>]\<rparr>" "i \<notin> rq_id ` set (db_requests dbA)"
    using b c(2) by (auto simp: requestMembership_Inr)
  show thesis
  proof (rule that)
    show "findByDeviceId (hs_device m) db' = Some d" using reg(1) by (simp add: db' B findByDeviceId_def)
    show "dv_public_key d = hs_signer m" using reg(2) dev by simp
    show "dv_status d = DevUnregistered" if "findByDeviceId (hs_device m) db = None" using reg(4) that by blast
    have "find_first (\<lambda>r. rq_id r = i) (db_requests dbA) = None" using B(2) by (auto simp: find_first_None)
    then show "findMembershipRequest i db' = Some \<lparr>rq_id = i, rq_device = hs_device m, rq_group = g, rq_user = ctx_user ctx,
       rq_requested_at = now, rq_status = ReqPending\<rparr>"
      by (simp add: db' B(1) findMembershipRequest_def find_first_append)
    show "db_members db' = db_members db" "db_groups db' = db_groups db" "db_users db' = db_users db"
      using reg(3) by (auto simp: db' B(1))
  qed
qed

lemma requestPairing_D:
  assumes "requestPairing dp m g verifyFn opts ctx ids now ms s = (Inr i, s1)"
  obtains row where "findGroup g (pa_db s) = Some row" "gr_status row = GroupActive" "gr_org row = hs_organisation m"
    "ctx_org ctx = hs_organisation m" "record_request m g ctx ids now (pa_db s) = (Inr i, pa_db s1)"
    "handshake_validate dp (Some m) (pairing_options verifyFn opts) (pa_seen s) ms = None"
    "signature_verdict (pairing_options verifyFn opts) m = Inr ()"
    "pa_seen s1 = add_nonce (hs_nonce m) (pa_seen s)"
proof -
  obtain u s2 where l: "lift_op pa_seen (\<lambda>t s. s\<lparr>pa_seen := t\<rparr>) (requireValid dp (Some m) (pairing_options verifyFn opts) ms) s = (Inr u, s2)"
    and rest: "andthen (guard (ctx_org ctx = hs_organisation m) (raise AuthorizationError
       ''Pairing handshake organisation does not match the local operation context'')) (\<lambda>_.
     andthen (get (\<lambda>s. findGroup g (pa_db s))) (\<lambda>grp.
     if grp = None \<or> gr_status (the grp) \<noteq> GroupActive
     then throw (raise ValidationError (''Sync group '' @ quoted g @ '' is missing or inactive''))
     else if gr_org (the grp) \<noteq> hs_organisation m
     then throw (raise AuthorizationError (''Pairing group '' @ quoted g @ '' belongs to a different organisation''))
     else on_db (transaction (record_request m g ctx ids now)))) s2 = (Inr i, s1)"
    using assms unfolding requestPairing_def by (rule andthen_InrE)
  obtain t where v: "requireValid dp (Some m) (pairing_options verifyFn opts) ms (pa_seen s) = (Inr u, t)"
    and s2: "s2 = s\<lparr>pa_seen := t\<rparr>"
    using l by (auto simp: lift_op_def split: prod.splits)
  have v': "requireValid dp (Some m) (pairing_options verifyFn opts) ms (pa_seen s) = (Inr (), t)" using v by simp
  obtain row where row: "findGroup g (pa_db s) = Some row" "gr_status row = GroupActive" "gr_org row = hs_organisation m"
    "ctx_org ctx = hs_organisation m" "on_db (transaction (record_request m g ctx ids now)) (s\<lparr>pa_seen := t\<rparr>) = (Inr i, s1)"
    using rest unfolding s2 by (cases "findGroup g (pa_db s)") (auto split: if_split_asm)
  have "transaction (record_request m g ctx ids now) (pa_db s) = (Inr i, pa_db s1)" "pa_seen s1 = t"
    using row(5) by (auto simp: on_db_run prod_eq_iff)
  then show thesis using that [OF row(1-4)] v' by (simp add: transaction_Inr requireValid_Inr)
qed

lemma approve_in_Inr: "approve_in i ctx sig dev d m now db = (Inr (), db') \<longleftrightarrow>
    approveMembership i ctx sig dev d m now db = (Inr (), db')"
  by (simp add: approveMembership_def transaction_Inr)

lemma updateDeviceStatus_Inr: "updateDeviceStatus dev st now db = (Inr (), db') \<longleftrightarrow>
    dev \<in> dv_device_id ` set (db_devices db) \<and> db' = db\<lparr>db_devices := sql_update (\<lambda>d. dv_device_id d = dev)
       (\<lambda>d. d\<lparr>dv_status := st, dv_updated_at := now, dv_last_seen := Some now\<rparr>) (db_devices db)\<rparr>"
  by (auto simp: updateDeviceStatus_def updateStatus_def andthen_def sql_count_def filter_empty_conv)

lemma approvePairing_D:
  assumes "approvePairing i ctx ids now db = (Inr req, db')"
  obtains db1 where "findMembershipRequest i db = Some req"
    "approveMembership i (Untrusted ctx) None None (fi_decision ids) (fi_member ids) now db = (Inr (), db1)"
    "rq_device req \<in> dv_device_id ` set (db_devices db)"
    "db_devices db' = sql_update (\<lambda>d. dv_device_id d = rq_device req)
       (\<lambda>d. d\<lparr>dv_status := DevApproved, dv_updated_at := now, dv_last_seen := Some now\<rparr>) (db_devices db)"
    "db_members db' = db_members db1" "db_groups db' = db_groups db"
proof -
  have "approve_pairing_in i ctx ids now db = (Inr req, db')" using assms by (simp add: approvePairing_def transaction_Inr)
  then obtain req' where f: "findMembershipRequest i db = Some req'" and
    run: "andthen (approve_in i (Untrusted ctx) None None (fi_decision ids) (fi_member ids) now) (\<lambda>_.
         andthen (updateDeviceStatus (rq_device req') DevApproved now) (\<lambda>_.
         andthen (emit \<lparr>ai_type = ''MEMBERSHIP_APPROVED'', ai_user = ctx_user ctx, ai_device = rq_device req',
           ai_org = ctx_org ctx, ai_correlation = ctx_correlation ctx,
           ai_metadata = Some [(''requestId'', JStr i), (''syncGroupId'', JStr (rq_group req'))]\<rparr> (fi_audit ids) now) (\<lambda>_.
         ret req'))) db = (Inr req, db')"
    by (cases "findMembershipRequest i db") (simp_all add: approve_pairing_in_def)
  obtain u1 db1 where a: "approve_in i (Untrusted ctx) None None (fi_decision ids) (fi_member ids) now db = (Inr u1, db1)" and
    run1: "andthen (updateDeviceStatus (rq_device req') DevApproved now) (\<lambda>_.
         andthen (emit \<lparr>ai_type = ''MEMBERSHIP_APPROVED'', ai_user = ctx_user ctx, ai_device = rq_device req',
           ai_org = ctx_org ctx, ai_correlation = ctx_correlation ctx,
           ai_metadata = Some [(''requestId'', JStr i), (''syncGroupId'', JStr (rq_group req'))]\<rparr> (fi_audit ids) now) (\<lambda>_.
         ret req')) db1 = (Inr req, db')"
    using run by (rule andthen_InrE)
  obtain u2 db2 where b: "updateDeviceStatus (rq_device req') DevApproved now db1 = (Inr u2, db2)" and
    run2: "andthen (emit \<lparr>ai_type = ''MEMBERSHIP_APPROVED'', ai_user = ctx_user ctx, ai_device = rq_device req',
           ai_org = ctx_org ctx, ai_correlation = ctx_correlation ctx,
           ai_metadata = Some [(''requestId'', JStr i), (''syncGroupId'', JStr (rq_group req'))]\<rparr> (fi_audit ids) now) (\<lambda>_.
         ret req') db2 = (Inr req, db')"
    using run1 by (rule andthen_InrE)
  have ap: "approveMembership i (Untrusted ctx) None None (fi_decision ids) (fi_member ids) now db = (Inr (), db1)"
    using a by (simp add: approve_in_Inr [symmetric])
  then obtain r0 where r0: "db1 = approval r0 (Untrusted ctx) None (fi_decision ids) (fi_member ids) now db"
    unfolding approveMembership_Inr by blast
  have keep: "db_devices db1 = db_devices db" "db_groups db1 = db_groups db" by (simp_all add: r0 approval_def)
  have b': "updateDeviceStatus (rq_device req') DevApproved now db1 = (Inr (), db2)" using b by simp
  have req: "req = req'" and db': "\<exists>rows. db' = db2\<lparr>db_audit := rows\<rparr>"
    using run2 by (auto simp: emit_Inr elim!: andthen_InrE)
  show thesis
    by (rule that [of db1]) (use f req ap b' db' keep in \<open>auto simp: updateDeviceStatus_Inr\<close>)
qed

lemma find_device_update: "(\<And>d. dv_device_id (f d) = dv_device_id d) \<Longrightarrow>
    findByDeviceId dev (db\<lparr>db_devices := sql_update (\<lambda>d. dv_device_id d = dev) f ds\<rparr>) =
    map_option f (find_first (\<lambda>d. dv_device_id d = dev) ds)"
  by (induction ds) (auto simp: findByDeviceId_def)

lemma device_status_find: "findDeviceStatus dev db = map_option dv_status (findByDeviceId dev db)"
  by (simp add: findDeviceStatus_def findByDeviceId_def)

section \<open>Admission and exclusion\<close>

lemma approved_device:
  assumes "approvePairing i ctx ids now db = (Inr req, db')"
  obtains d where "findByDeviceId (rq_device req) db = Some d"
    "findByDeviceId (rq_device req) db' = Some (d\<lparr>dv_status := DevApproved, dv_updated_at := now, dv_last_seen := Some now\<rparr>)"
proof -
  let ?f = "\<lambda>d. d\<lparr>dv_status := DevApproved, dv_updated_at := now, dv_last_seen := Some now\<rparr>"
  obtain db1 where u: "rq_device req \<in> dv_device_id ` set (db_devices db)"
    "db_devices db' = sql_update (\<lambda>d. dv_device_id d = rq_device req) ?f (db_devices db)"
    using approvePairing_D [OF assms] by metis
  have "findByDeviceId (rq_device req) db \<noteq> None" using u(1) by (auto simp: findByDeviceId_def find_first_None)
  then obtain d where d: "findByDeviceId (rq_device req) db = Some d" by blast
  have "findByDeviceId (rq_device req) (db'\<lparr>db_devices := sql_update (\<lambda>d. dv_device_id d = rq_device req) ?f (db_devices db)\<rparr>) =
      map_option ?f (find_first (\<lambda>d. dv_device_id d = rq_device req) (db_devices db))"
    by (rule find_device_update) simp
  then have "findByDeviceId (rq_device req) db' = Some (?f d)" using d u(2) by (simp add: findByDeviceId_def)
  then show thesis using that d by blast
qed

text \<open>Pairing admits a device: after a handshake that passes every check is accepted for an active group of its
  organisation and the request is approved, a device new to the group is stored under the key that
  signed the handshake, is approved, passes both admission checks of pairing and may write.\<close>

theorem pairing_admits:
  assumes "requestPairing dp m g verifyFn opts ctx ids now ms s = (Inr i, s1)"
    "approvePairing i approver ids' now' (pa_db s1) = (Inr req, db2)"
    "hs_device m \<noteq> []" "\<forall>mb \<in> set (db_members (pa_db s)). \<not> (mb_device mb = hs_device m \<and> mb_group mb = g)"
    "sub_device (extractContextSubject writer) = hs_device m" "ctx_organisation writer = hs_organisation m"
    "ctx_user ctx = None \<or> ctx_user ctx = sub_user (extractContextSubject writer)"
  shows "pairing_canSync (hs_device m) g db2 \<and> requireActiveMembership writer g db2 = (Inr (), db2) \<and>
    (\<exists>d. findByDeviceId (hs_device m) db2 = Some d \<and> dv_public_key d = hs_signer m \<and> dv_status d = DevApproved) \<and>
    acceptable dp (pairing_options verifyFn opts) m ms \<and> signature_verdict (pairing_options verifyFn opts) m = Inr ()"
proof -
  obtain row where r: "findGroup g (pa_db s) = Some row" "gr_status row = GroupActive" "gr_org row = hs_organisation m"
    "record_request m g ctx ids now (pa_db s) = (Inr i, pa_db s1)"
    "handshake_validate dp (Some m) (pairing_options verifyFn opts) (pa_seen s) ms = None"
    "signature_verdict (pairing_options verifyFn opts) m = Inr ()"
    using requestPairing_D [OF assms(1)] by metis
  obtain d where d: "findByDeviceId (hs_device m) (pa_db s1) = Some d" "dv_public_key d = hs_signer m"
    "findMembershipRequest i (pa_db s1) = Some \<lparr>rq_id = i, rq_device = hs_device m, rq_group = g, rq_user = ctx_user ctx,
       rq_requested_at = now, rq_status = ReqPending\<rparr>"
    "db_members (pa_db s1) = db_members (pa_db s)" "db_groups (pa_db s1) = db_groups (pa_db s)"
    using record_request_D [OF r(4) assms(3)] by metis
  obtain db1 where a: "findMembershipRequest i (pa_db s1) = Some req"
    "approveMembership i (Untrusted approver) None None (fi_decision ids') (fi_member ids') now' (pa_db s1) = (Inr (), db1)"
    "db_members db2 = db_members db1" "db_groups db2 = db_groups (pa_db s1)"
    using approvePairing_D [OF assms(2)] by metis
  have req: "rq_device req = hs_device m" "rq_group req = g" "rq_user req = ctx_user ctx" "rq_id req = i" using a(1) d(3) by auto
  obtain d2 where d2: "findByDeviceId (hs_device m) db2 = Some d2" "dv_status d2 = DevApproved" "dv_public_key d2 = hs_signer m"
  proof -
    obtain d0 where "findByDeviceId (rq_device req) (pa_db s1) = Some d0"
      "findByDeviceId (rq_device req) db2 = Some (d0\<lparr>dv_status := DevApproved, dv_updated_at := now', dv_last_seen := Some now'\<rparr>)"
      using approved_device [OF assms(2)] by metis
    then show thesis using that d(1,2) req(1) by simp
  qed
  obtain req' where "rq_id req' = i" "may_decide (pa_db s1) (Untrusted approver) req' (fi_decision ids')"
    "db1 = approval req' (Untrusted approver) None (fi_decision ids') (fi_member ids') now' (pa_db s1)"
    using a(2) unfolding approveMembership_Inr by blast
  moreover from this have "req' = req" using a(1) by (simp add: may_decide_def)
  ultimately obtain mb where mb: "db_members db2 = db_members (pa_db s) @ [mb]" "mb_device mb = hs_device m" "mb_group mb = g"
    "mb_user mb = ctx_user ctx" "mb_status mb = MbrApproved"
    using a(3) d(4) req by (simp add: approval_def)
  have grp: "findGroup g db2 = Some row" using r(1) a(4) d(5) by (simp add: findGroup_def)
  have "find_first (\<lambda>x. mb_device x = hs_device m \<and> mb_group x = g) (db_members db2) = Some mb"
  proof -
    have "find_first (\<lambda>x. mb_device x = hs_device m \<and> mb_group x = g) (db_members (pa_db s)) = None"
      using assms(4) by (simp add: find_first_None)
    then show ?thesis using mb by (simp add: find_first_append)
  qed
  then have "canSync (hs_device m) g db2"
    using d2 mb(5) by (simp add: canSync_def device_status_find findMembershipStatus_def device_ok_def member_ok_def)
  then have "pairing_canSync (hs_device m) g db2" using d2 by (simp add: pairing_canSync_def device_ok_def)
  moreover have "may_write db2 writer g"
  proof -
    have "member_for (hs_device m) g (sub_user (extractContextSubject writer)) mb"
      using mb assms(7) by (cases "ctx_user ctx") (auto simp: member_for_def member_ok_def)
    then show ?thesis using grp r(2,3) assms(5,6) d2 mb(1)
      by (auto simp: may_write_def device_status_find device_ok_def)
  qed
  moreover have "acceptable dp (pairing_options verifyFn opts) m ms" using r(5) by (simp add: validate_None)
  ultimately show ?thesis using requireActiveMembership_run [of writer g db2] d2 r(6) by auto
qed

lemma approve_device_stuck:
  assumes "findDeviceStatus dev db \<notin> Some ` {DevPendingApproval, DevApproved, DevActive}"
  shows "\<exists>e. approveDevice dev i ctx ids now db = (Inl e, db)"
proof -
  have "\<exists>e. approve_device_in dev i ctx ids now db = (Inl e, db)"
  proof (cases "permitted db ctx ''devices.approve''")
    case True
    then have p: "requirePermission ctx ''devices.approve'' db = (Inr (), db)" by (simp add: requirePermission_Inr)
    show ?thesis unfolding approve_device_in_def run_andthen_Inr [where m = "requirePermission ctx ''devices.approve''", OF p]
      using assms by auto
  next
    case False
    obtain e where p: "requirePermission ctx ''devices.approve'' db = (Inl e, db)" using requirePermission_Inl [OF False] by blast
    show ?thesis unfolding approve_device_in_def run_andthen_Inl [where m = "requirePermission ctx ''devices.approve''", OF p]
      by simp
  qed
  then show ?thesis by (auto simp: approveDevice_def transaction_def)
qed

text \<open>A device that pairing registers cannot be approved by the identity administration: it is stored as
  unregistered, and \<open>approveDevice\<close> admits only devices pending approval, approved or active, so it
  refuses the request whoever asks.\<close>

theorem paired_device_not_approvable:
  assumes "requestPairing dp m g verifyFn opts ctx ids now ms s = (Inr i, s1)" "hs_device m \<noteq> []"
    "findByDeviceId (hs_device m) (pa_db s) = None"
  shows "\<exists>e. approveDevice (hs_device m) i admin ids' now' (pa_db s1) = (Inl e, pa_db s1)"
proof -
  have r: "record_request m g ctx ids now (pa_db s) = (Inr i, pa_db s1)" using requestPairing_D [OF assms(1)] by metis
  obtain d where "findByDeviceId (hs_device m) (pa_db s1) = Some d" "dv_status d = DevUnregistered"
    using record_request_D [OF r assms(2)] assms(3) by metis
  then show ?thesis by (intro approve_device_stuck) (auto simp: device_status_find)
qed

lemma revokeDevice_D:
  assumes "revokeDevice dev g reason ctx ids now db = (Inr (), db')"
  obtains "permitted db ctx ''devices.revoke''" "may_revoke db ctx dev g reason (fi_revocation ids)"
    "findDeviceStatus dev db \<noteq> None"
    "db_devices db' = sql_update (\<lambda>d. dv_device_id d = dev) (\<lambda>d. d\<lparr>dv_status := DevRevoked, dv_updated_at := now\<rparr>) (db_devices db)"
    "db_members db' = db_members (revocation dev g ctx reason (fi_revocation ids) now db)"
proof -
  have "revoke_device_in dev g reason ctx ids now db = (Inr (), db')" using assms by (simp add: revokeDevice_def transaction_Inr)
  then obtain u0 db0 where p: "requirePermission ctx ''devices.revoke'' db = (Inr u0, db0)" and
    r0: "andthen (get (findDeviceStatus dev)) (\<lambda>st.
     andthen (guard (st \<noteq> None) (raise ValidationError (''Device '' @ quoted dev @ '' does not exist''))) (\<lambda>_.
     andthen (revoke_in dev g ctx reason (fi_revocation ids) now) (\<lambda>_.
     andthen (setDeviceStatus dev DevRevoked now) (\<lambda>_.
     andthen (emit (admin_event ''DEVICE_REVOKED'' ctx [(''revokedDeviceId'', JStr dev), (''reason'', JStr reason)])
       (fi_audit ids) now) (\<lambda>_. ret ()))))) db0 = (Inr (), db')"
    unfolding revoke_device_in_def by (rule andthen_InrE)
  have p': "db0 = db" "permitted db ctx ''devices.revoke''" using p requirePermission_Inr [of ctx "''devices.revoke''" db db0] by simp_all
  have st: "findDeviceStatus dev db \<noteq> None" and
    r1: "andthen (revoke_in dev g ctx reason (fi_revocation ids) now) (\<lambda>_.
     andthen (setDeviceStatus dev DevRevoked now) (\<lambda>_.
     andthen (emit (admin_event ''DEVICE_REVOKED'' ctx [(''revokedDeviceId'', JStr dev), (''reason'', JStr reason)])
       (fi_audit ids) now) (\<lambda>_. ret ()))) db = (Inr (), db')"
    using r0 p'(1) by (auto split: if_split_asm)
  obtain u1 db1 where v: "revoke_in dev g ctx reason (fi_revocation ids) now db = (Inr u1, db1)" and
    r2: "andthen (setDeviceStatus dev DevRevoked now) (\<lambda>_.
     andthen (emit (admin_event ''DEVICE_REVOKED'' ctx [(''revokedDeviceId'', JStr dev), (''reason'', JStr reason)])
       (fi_audit ids) now) (\<lambda>_. ret ())) db1 = (Inr (), db')"
    using r1 by (rule andthen_InrE)
  have v': "may_revoke db ctx dev g reason (fi_revocation ids)" "db1 = revocation dev g ctx reason (fi_revocation ids) now db"
    using v revokeMembership_Inr [of dev g ctx reason "fi_revocation ids" now db db1]
    by (simp_all add: revokeMembership_def transaction_Inr)
  have "db_devices db1 = db_devices db" by (simp add: v'(2) revocation_def)
  then show thesis using that p'(2) st v' r2 by (auto simp: setDeviceStatus_def emit_Inr elim!: andthen_InrE)
qed

lemma revoked_device_status:
  assumes "revokeDevice dev g reason ctx ids now db = (Inr (), db')"
  shows "findDeviceStatus dev db' = Some DevRevoked"
proof -
  let ?f = "\<lambda>d. d\<lparr>dv_status := DevRevoked, dv_updated_at := now\<rparr>"
  have d: "findDeviceStatus dev db \<noteq> None" "db_devices db' = sql_update (\<lambda>d. dv_device_id d = dev) ?f (db_devices db)"
    using revokeDevice_D [OF assms] by metis+
  have "findByDeviceId dev (db'\<lparr>db_devices := sql_update (\<lambda>d. dv_device_id d = dev) ?f (db_devices db)\<rparr>) =
      map_option ?f (find_first (\<lambda>d. dv_device_id d = dev) (db_devices db))"
    by (rule find_device_update) simp
  then show ?thesis using d by (auto simp: device_status_find findByDeviceId_def)
qed

text \<open>The operations on devices, groups and the audit log that decide nothing about a device: all of them, under any context
  and on any device, but setting the status of this one and approving a pairing request of it.\<close>

inductive undecided_step :: "string \<Rightarrow> core_db \<Rightarrow> core_db \<Rightarrow> bool" for dev where
  us_register: "undecided_step dev db (snd (registerDevice opts i n now db))"
| us_pair: "undecided_step dev (pa_db s) (pa_db (snd (requestPairing dp m g verifyFn opts ctx ids now ms s)))"
| us_approve_pairing: "(\<forall>req. findMembershipRequest i db = Some req \<longrightarrow> rq_device req \<noteq> dev) \<Longrightarrow>
    undecided_step dev db (snd (approvePairing i ctx ids now db))"
| us_status: "d \<noteq> dev \<Longrightarrow> undecided_step dev db (snd (updateDeviceStatus d st now db))"
| us_approve_device: "undecided_step dev db (snd (approveDevice d i actx ids now db))"
| us_revoke_device: "undecided_step dev db (snd (revokeDevice d g reason actx ids now db))"
| us_create_group: "undecided_step dev db (snd (createGroup name descr org actx newId now db))"
| us_request: "undecided_step dev db (snd (requestMembership g d u i now db))"
| us_approve: "undecided_step dev db (snd (approveMembership i actx sig expected dec mbr now db))"
| us_reject: "undecided_step dev db (snd (rejectMembership i actx dec now db))"
| us_revoke: "undecided_step dev db (snd (revokeMembership d g actx reason v now db))"
| us_emit: "undecided_step dev db (snd (emit ev i now db))"
| us_other: "db_devices db' = db_devices db \<Longrightarrow> undecided_step dev db db'"

definition shut :: "string \<Rightarrow> core_db \<Rightarrow> bool" where
  "shut dev db \<longleftrightarrow> findDeviceStatus dev db = Some DevRevoked"

named_theorems stays_shut "operations that keep a revoked device revoked"

lemma shut_cong: "db_devices db' = db_devices db \<Longrightarrow> shut dev db' = shut dev db"
  by (simp add: shut_def findDeviceStatus_def)

lemma shut_update: "(\<And>x. dv_device_id (f x) = dv_device_id x) \<Longrightarrow> d \<noteq> dev \<or> (\<forall>x. dv_status (f x) = DevRevoked) \<Longrightarrow>
    db_devices db' = sql_update (\<lambda>x. dv_device_id x = d) f (db_devices db) \<Longrightarrow> shut dev db \<Longrightarrow> shut dev db'"
proof -
  assume f: "\<And>x. dv_device_id (f x) = dv_device_id x" "d \<noteq> dev \<or> (\<forall>x. dv_status (f x) = DevRevoked)"
    and db': "db_devices db' = sql_update (\<lambda>x. dv_device_id x = d) f (db_devices db)" and "shut dev db"
  then have st: "map_option dv_status (find_first (\<lambda>x. dv_device_id x = dev) (db_devices db)) = Some DevRevoked"
    by (simp add: shut_def findDeviceStatus_def)
  have "map_option dv_status (find_first (\<lambda>x. dv_device_id x = dev) (sql_update (\<lambda>x. dv_device_id x = d) f xs)) = Some DevRevoked"
    if "map_option dv_status (find_first (\<lambda>x. dv_device_id x = dev) xs) = Some DevRevoked" for xs
    using that f by (induction xs) (auto split: if_splits)
  then show ?thesis using st by (simp add: shut_def findDeviceStatus_def db')
qed

lemma shut_insert: "(\<And>db. db_devices (put db) = db_devices db) \<Longrightarrow> preserves (shut dev) (insert_row table unique refs put)"
proof (rule preserves_insert_row)
  fix db assume "\<And>db. db_devices (put db) = db_devices db" "shut dev db"
  then show "shut dev (put db)" using shut_cong [of "put db" db dev] by blast
qed

lemma shut_modify: "(\<And>db. db_devices (g db) = db_devices db) \<Longrightarrow> preserves (shut dev) (modify g)"
proof (rule preserves_modify)
  fix db assume "\<And>db. db_devices (g db) = db_devices db" "shut dev db"
  then show "shut dev (g db)" using shut_cong [of "g db" db dev] by blast
qed

lemma shut_rows [stays_shut]:
  "preserves (shut dev) (insertDecision dec)" "preserves (shut dev) (setRequestStatus i st)" "preserves (shut dev) (insertMember mbr)"
  "preserves (shut dev) (revokeMember now by' reason d g)" "preserves (shut dev) (insertRevocation rvk)"
  "preserves (shut dev) (insertMembershipRequest req)" "preserves (shut dev) (insertGroup grp)" "preserves (shut dev) (insertEvent ev)"
  by (simp_all add: insertDecision_def setRequestStatus_def insertMember_def revokeMember_def insertRevocation_def
      insertMembershipRequest_def insertGroup_def insertEvent_def shut_insert shut_modify)

lemma shut_groups [stays_shut]:
  "preserves (shut dev) (approve_in i actx sig expected dec mbr now)" "preserves (shut dev) (reject_in i actx dec now)"
  "preserves (shut dev) (revoke_in d g actx reason v now)" "preserves (shut dev) (createGroup name descr org actx newId now)"
  "preserves (shut dev) (requestMembership g d u i now)" "preserves (shut dev) (emit ev i now)"
  unfolding approve_in_def reject_in_def revoke_in_def createGroup_def Let_def requestMembership_def emit_def
  by (intro preserve stays_shut)+

lemma shut_register [stays_shut]: "preserves (shut dev) (registerDevice opts i n now)"
proof (rule preservesI)
  fix db assume "shut dev db"
  moreover obtain new where "db_devices (snd (registerDevice opts i n now db)) = db_devices db @ new"
    using register_append [of db opts i n now] unfolding device_append_def by blast
  ultimately show "shut dev (snd (registerDevice opts i n now db))"
    by (auto simp: shut_def findDeviceStatus_def find_first_append)
qed

lemma shut_status:
  "d \<noteq> dev \<Longrightarrow> preserves (shut dev) (updateDeviceStatus d st now)"
  "d \<noteq> dev \<Longrightarrow> preserves (shut dev) (setDeviceStatus d st now)"
  "preserves (shut dev) (setDeviceStatus d DevRevoked now)"
proof -
  show "preserves (shut dev) (updateDeviceStatus d st now)" if "d \<noteq> dev"
    by (rule preservesI, rule shut_update [OF _ _ status_devices]) (use that in simp_all)
  show "preserves (shut dev) (setDeviceStatus d st now)" if "d \<noteq> dev"
    unfolding setDeviceStatus_def by (rule preserves_modify, rule shut_update) (use that in simp_all)
  show "preserves (shut dev) (setDeviceStatus d DevRevoked now)"
    unfolding setDeviceStatus_def by (rule preserves_modify, rule shut_update) simp_all
qed

lemma shut_approve_device: "preserves (shut dev) (approveDevice d i actx ids now)"
proof (cases "d = dev")
  case True
  have "shut dev (snd (approveDevice d i actx ids now db))" if "shut dev db" for db
    using approve_device_stuck [of d db i actx ids now] that True by (auto simp: shut_def)
  then show ?thesis by (rule preservesI)
next
  case False
  show ?thesis unfolding approveDevice_def approve_device_in_def by (intro preserve stays_shut shut_status False)
qed

lemma shut_revoke_device: "preserves (shut dev) (revokeDevice d g reason actx ids now)"
  unfolding revokeDevice_def revoke_device_in_def by (intro preserve stays_shut shut_status)

lemma shut_pairing: "shut dev (pa_db s) \<Longrightarrow> shut dev (pa_db (snd (requestPairing dp m g verifyFn opts ctx ids now ms s)))"
proof -
  have "preserves (\<lambda>s. shut dev (pa_db s)) (lift_op pa_seen (\<lambda>t s. s\<lparr>pa_seen := t\<rparr>) v)" for v :: "(string list option, unit) op"
    by (simp add: preserves_def lift_op_def split: prod.split)
  moreover have "preserves (\<lambda>s. shut dev (pa_db s)) (on_db (transaction (record_request m g ctx ids now)))"
  proof -
    have "preserves (shut dev) (transaction (record_request m g ctx ids now))"
      unfolding record_request_def by (intro preserve stays_shut)
    then show ?thesis by (simp add: preserves_def on_db_run)
  qed
  ultimately have "preserves (\<lambda>s. shut dev (pa_db s)) (requestPairing dp m g verifyFn opts ctx ids now ms)"
    unfolding requestPairing_def by (intro preserve)
  then show "shut dev (pa_db s) \<Longrightarrow> ?thesis" by (rule preservesD)
qed

lemma shut_approve_pairing:
  assumes "\<forall>req. findMembershipRequest i db = Some req \<longrightarrow> rq_device req \<noteq> dev" "shut dev db"
  shows "shut dev (snd (approvePairing i ctx ids now db))"
proof -
  obtain r db' where run: "approvePairing i ctx ids now db = (r, db')" by fastforce
  show ?thesis
  proof (cases r)
    case (Inl e)
    then have "db' = db" using run unfolding approvePairing_def by (auto dest: transaction_error)
    then show ?thesis using run assms(2) by simp
  next
    case (Inr req)
    have req: "findMembershipRequest i db = Some req" and devices:
      "db_devices db' = sql_update (\<lambda>d. dv_device_id d = rq_device req)
         (\<lambda>d. d\<lparr>dv_status := DevApproved, dv_updated_at := now, dv_last_seen := Some now\<rparr>) (db_devices db)"
      using approvePairing_D [OF run [unfolded Inr]] by metis+
    have "rq_device req \<noteq> dev" using assms(1) req by blast
    then have "shut dev db'" by (intro shut_update [OF _ _ devices assms(2)]) simp_all
    then show ?thesis using run by simp
  qed
qed

lemma undecided_shut: "undecided_step dev db db' \<Longrightarrow> shut dev db \<Longrightarrow> shut dev db'"
proof (induction rule: undecided_step.induct)
  case (us_pair s dp m g verifyFn opts ctx ids now ms)
  then show ?case by (intro shut_pairing)
next
  case (us_approve_pairing i db ctx ids now)
  then show ?case by (intro shut_approve_pairing)
next
  case (us_status d db st now)
  then show ?case using preservesD [OF shut_status(1)] by blast
next
  case (us_other db' db)
  then show ?case using shut_cong [of db' db dev] by blast
qed (auto simp: approveMembership_def rejectMembership_def revokeMembership_def
    intro: preservesD [OF shut_register] preservesD [OF shut_approve_device] preservesD [OF shut_revoke_device]
      preservesD [OF shut_groups(4)] preservesD [OF shut_groups(5)] preservesD [OF shut_groups(6)]
      preservesD [OF preserves_transaction [OF shut_groups(1)]] preservesD [OF preserves_transaction [OF shut_groups(2)]]
      preservesD [OF preserves_transaction [OF shut_groups(3)]])

text \<open>C22. Revoking a device shuts it out everywhere and for good: only a subject that may revoke devices and manage the
  groups of its organisation can do it, and from then on, whatever registrations, pairing requests, approvals,
  rejections, revocations and group operations follow, on this device too, until its status is
  set directly or a pairing request of it is approved, in every group the device cannot sync and
  its writes are refused, and every session on it fails the next check and ends.\<close>

theorem revoked_device_locked_out:
  assumes "revokeDevice dev g reason ctx ids now db = (Inr (), db')" "(undecided_step dev)\<^sup>*\<^sup>* db' db''"
    "sub_device (extractContextSubject writer) = dev" "ss_db service = db''" "ss_current service = Some se" "se_device se = dev"
  shows "permitted db ctx ''devices.revoke'' \<and> permitted db ctx ''sync.manage'' \<and> own_group db ctx g \<and>
    findDeviceStatus dev db'' = Some DevRevoked \<and> \<not> canSync dev g' db'' \<and> \<not> pairing_canSync dev g' db'' \<and>
    (\<exists>e. requireActiveMembership writer g' db'' = (Inl e, db'')) \<and>
    (\<exists>e. validateCurrentSession dp ms service = (Inl e, service\<lparr>ss_current := None\<rparr>))"
proof -
  have "shut dev db''" using assms(2)
  proof (induction rule: rtranclp_induct)
    case base
    show ?case using revoked_device_status [OF assms(1)] by (simp add: shut_def)
  qed (rule undecided_shut)
  then have st: "findDeviceStatus dev db'' = Some DevRevoked" by (simp add: shut_def)
  have p: "permitted db ctx ''devices.revoke''" "may_revoke db ctx dev g reason (fi_revocation ids)"
    using revokeDevice_D [OF assms(1)] by metis+
  have "\<not> canSync dev g' db''" using st by (simp add: canSync_def device_ok_def)
  moreover from this have "\<not> pairing_canSync dev g' db''" by (simp add: pairing_canSync_def split: option.split)
  moreover have "\<not> may_write db'' writer g'" using st assms(3) by (simp add: may_write_def device_ok_def)
  moreover have "\<not> (live_device (ss_db service) (se_device se) \<and> \<not> expired dp ms se)"
    using st assms(4,6) by (auto simp: live_device_def device_status_find)
  then have "\<exists>e. validateCurrentSession dp ms service = (Inl e, service\<lparr>ss_current := None\<rparr>)"
    using validate_fails [OF assms(5)] by blast
  ultimately show ?thesis using p st requireActiveMembership_run [of writer g' db''] by (auto simp: may_revoke_def)
qed

text \<open>Approving any pending pairing request of a revoked device revives it: the device becomes approved again,
  whatever its status was and without the permission to approve devices, and every membership that
  is still approved, in other groups too, counts again.\<close>

theorem pairing_revives_revoked:
  assumes "approvePairing i approver ids now db = (Inr req, db2)" "findDeviceStatus (rq_device req) db = Some DevRevoked"
    "findMembershipStatus (rq_device req) g' db = Some MbrApproved"
  shows "permitted db (Untrusted approver) ''sync.manage'' \<and> findDeviceStatus (rq_device req) db2 = Some DevApproved \<and>
    canSync (rq_device req) g' db2 \<and> \<not> canSync (rq_device req) g' db"
proof -
  obtain d where "findByDeviceId (rq_device req) db2 = Some (d\<lparr>dv_status := DevApproved, dv_updated_at := now, dv_last_seen := Some now\<rparr>)"
    using approved_device [OF assms(1)] by blast
  then have st: "findDeviceStatus (rq_device req) db2 = Some DevApproved" by (simp add: device_status_find)
  obtain db1 where a: "approveMembership i (Untrusted approver) None None (fi_decision ids) (fi_member ids) now db = (Inr (), db1)"
    "db_members db2 = db_members db1"
    using approvePairing_D [OF assms(1)] by metis
  then obtain r where r: "may_decide db (Untrusted approver) r (fi_decision ids)"
    "db1 = approval r (Untrusted approver) None (fi_decision ids) (fi_member ids) now db"
    unfolding approveMembership_Inr by blast
  have "findMembershipStatus (rq_device req) g' db2 = Some MbrApproved"
    using assms(3) a(2) r(2) by (auto simp: findMembershipStatus_def approval_def find_first_append split: option.splits)
  then have "canSync (rq_device req) g' db2" using st by (simp add: canSync_def device_ok_def member_ok_def)
  moreover have "\<not> canSync (rq_device req) g' db" using assms(2) by (simp add: canSync_def device_ok_def)
  ultimately show ?thesis using st r(1) by (simp add: may_decide_def)
qed

section \<open>An example\<close>

definition sample_ids :: "string \<Rightarrow> fresh_ids" where
  "sample_ids x = \<lparr>fi_device_row = ''row'' @ x, fi_device = ''dev'' @ x, fi_request = ''req'' @ x, fi_decision = ''dec'' @ x,
     fi_member = ''mbr'' @ x, fi_revocation = ''rev'' @ x, fi_audit = ''aud'' @ x\<rparr>"

definition pair_message :: handshake_message where
  "pair_message = sample_message\<lparr>hs_organisation := ''o'', hs_device := ''p''\<rparr>"

definition pair_options :: handshake_options where
  "pair_options = sample_options\<lparr>ho_organisation := ''o''\<rparr>"

definition pair_ctx :: operation_context where
  "pair_ctx = \<lparr>ctx_correlation = ''c'', ctx_user = Some ''u'', ctx_device = ''d'', ctx_org = ''o''\<rparr>"

definition pair_writer :: any_context where
  "pair_writer = Untrusted (pair_ctx\<lparr>ctx_device := ''p''\<rparr>)"

definition pair_base :: core_db where
  "pair_base = sample_db\<lparr>db_groups := db_groups sample_db @ [(hd (db_groups sample_db))\<lparr>gr_id := ''h''\<rparr>]\<rparr>"

definition pair_requested :: core_db where
  "pair_requested = snd (record_request pair_message ''g'' pair_ctx (sample_ids ''1'') ''t1'' pair_base)"

definition pair_approved :: core_db where
  "pair_approved = snd (approvePairing ''req1'' pair_ctx (sample_ids ''2'') ''t2'' pair_requested)"

definition pair_revoked :: core_db where
  "pair_revoked = snd (revokeDevice ''p'' ''g'' ''lost'' sample_admin (sample_ids ''3'') ''t3'' pair_approved)"

text \<open>Two memberships and a further request of the device before its revocation.\<close>

definition pair_more :: core_db where
  "pair_more = snd (requestMembership ''g'' ''p'' None ''req5'' ''t2'' (snd (approvePairing ''req4'' pair_ctx (sample_ids ''4'') ''t2''
     (snd (requestMembership ''h'' ''p'' None ''req4'' ''t2'' pair_approved)))))"

definition pair_more_revoked :: core_db where
  "pair_more_revoked = snd (revokeDevice ''p'' ''g'' ''lost'' sample_admin (sample_ids ''3'') ''t3'' pair_more)"

definition pair_revived :: core_db where
  "pair_revived = snd (approvePairing ''req5'' pair_ctx (sample_ids ''6'') ''t4'' pair_more_revoked)"

lemma pair_validate: "handshake_validate iso_parse (Some pair_message) pair_options (Some []) 5 = None"
  "signature_verdict pair_options pair_message = Inr ()"
proof -
  show "handshake_validate iso_parse (Some pair_message) pair_options (Some []) 5 = None"
    using sample_acceptable by (simp add: validate_None acceptable_def pair_message_def pair_options_def sample_message_def sample_options_def)
  show "signature_verdict pair_options pair_message = Inr ()" by (simp add: signature_verdict_def pair_options_def sample_options_def)
qed

lemma pair_runs:
  "record_request pair_message ''g'' pair_ctx (sample_ids ''1'') ''t1'' pair_base = (Inr ''req1'', pair_requested)"
  "\<exists>req. approvePairing ''req1'' pair_ctx (sample_ids ''2'') ''t2'' pair_requested = (Inr req, pair_approved)"
  "revokeDevice ''p'' ''g'' ''lost'' sample_admin (sample_ids ''3'') ''t3'' pair_approved = (Inr (), pair_revoked)"
proof -
  have "fst (record_request pair_message ''g'' pair_ctx (sample_ids ''1'') ''t1'' pair_base) = Inr ''req1''"
    "\<not> Inl_or_not (fst (approvePairing ''req1'' pair_ctx (sample_ids ''2'') ''t2'' pair_requested))"
    "fst (revokeDevice ''p'' ''g'' ''lost'' sample_admin (sample_ids ''3'') ''t3'' pair_approved) = Inr ()"
    if "Inl_or_not = (\<lambda>r :: js_error + request_row. case r of Inl _ \<Rightarrow> True | Inr _ \<Rightarrow> False)" for Inl_or_not
    unfolding that by code_simp+
  then show "record_request pair_message ''g'' pair_ctx (sample_ids ''1'') ''t1'' pair_base = (Inr ''req1'', pair_requested)"
    "\<exists>req. approvePairing ''req1'' pair_ctx (sample_ids ''2'') ''t2'' pair_requested = (Inr req, pair_approved)"
    "revokeDevice ''p'' ''g'' ''lost'' sample_admin (sample_ids ''3'') ''t3'' pair_approved = (Inr (), pair_revoked)"
    unfolding pair_requested_def [symmetric] pair_approved_def [symmetric] pair_revoked_def [symmetric]
    by (auto simp: prod_eq_iff pair_requested_def pair_approved_def pair_revoked_def split: sum.splits)
qed

lemma pair_request_run:
  "requestPairing iso_parse pair_message ''g'' None pair_options pair_ctx (sample_ids ''1'') ''t1'' 5 \<lparr>pa_seen = Some [], pa_db = pair_base\<rparr> =
   (Inr ''req1'', \<lparr>pa_seen = Some [hs_nonce pair_message], pa_db = pair_requested\<rparr>)"
proof -
  have o: "pairing_options None pair_options = pair_options" by (simp add: pairing_options_def pair_options_def)
  have "requireValid iso_parse (Some pair_message) pair_options 5 (Some []) = (Inr (), Some [hs_nonce pair_message])"
    using pair_validate by (simp add: requireValid_Inr add_nonce_def)
  then have l: "lift_op pa_seen (\<lambda>t s. s\<lparr>pa_seen := t\<rparr>) (requireValid iso_parse (Some pair_message) pair_options 5)
      \<lparr>pa_seen = Some [], pa_db = pair_base\<rparr> = (Inr (), \<lparr>pa_seen = Some [hs_nonce pair_message], pa_db = pair_base\<rparr>)"
    by (simp add: lift_op_def)
  have t: "transaction (record_request pair_message ''g'' pair_ctx (sample_ids ''1'') ''t1'') pair_base = (Inr ''req1'', pair_requested)"
    using pair_runs(1) by (simp add: transaction_Inr)
  have g: "\<exists>row. findGroup ''g'' pair_base = Some row \<and> gr_status row = GroupActive \<and> gr_org row = ''o''"
    by (intro exI [of _ "hd (db_groups sample_db)"]) code_simp
  have h: "ctx_org pair_ctx = ''o''" "hs_organisation pair_message = ''o''" by (simp_all add: pair_ctx_def pair_message_def)
  show ?thesis
    unfolding requestPairing_def o run_andthen_Inr
      [where m = "lift_op pa_seen (\<lambda>t s. s\<lparr>pa_seen := t\<rparr>) (requireValid iso_parse (Some pair_message) pair_options 5)", OF l]
    using g h t by (auto simp: on_db_run)
qed

lemma pair_facts: "hs_device pair_message = ''p''" "hs_organisation pair_message = ''o''"
  "sub_device (extractContextSubject pair_writer) = ''p''" "ctx_organisation pair_writer = ''o''"
  "ctx_user pair_ctx = sub_user (extractContextSubject pair_writer)"
  by (simp_all add: pair_message_def pair_writer_def ctx_organisation_def pair_ctx_def)

theorem pairing_admits_witness: "pairing_canSync ''p'' ''g'' pair_approved"
proof -
  obtain req where "approvePairing ''req1'' pair_ctx (sample_ids ''2'') ''t2'' pair_requested = (Inr req, pair_approved)"
    using pair_runs(2) by blast
  then have a: "approvePairing ''req1'' pair_ctx (sample_ids ''2'') ''t2''
      (pa_db \<lparr>pa_seen = Some [hs_nonce pair_message], pa_db = pair_requested\<rparr>) = (Inr req, pair_approved)" by simp
  have "db_members pair_base = []" by (simp add: pair_base_def sample_db_def empty_db_def)
  then show ?thesis
    using pairing_admits [OF pair_request_run a, of pair_writer] pair_facts by auto
qed

theorem paired_device_not_approvable_witness:
  "\<exists>e. approveDevice ''p'' ''req1'' sample_admin (sample_ids ''7'') ''t5'' pair_requested = (Inl e, pair_requested)"
proof -
  have "findByDeviceId ''p'' pair_base = None"
    by (simp add: findByDeviceId_def pair_base_def sample_db_def empty_db_def)
  then show ?thesis
    using paired_device_not_approvable [OF pair_request_run, of sample_admin "sample_ids ''7''" "''t5''"] pair_facts by simp
qed

text \<open>After the revocation the device asks to pair again, an administrator approves the membership, and tries to approve
  the device.\<close>

definition pair_retried :: core_db where
  "pair_retried = snd (approveDevice ''p'' ''req8'' sample_admin (sample_ids ''9'') ''t6'' (snd (approveMembership ''req8'' sample_admin None None ''dec8'' ''mbr8'' ''t5''
     (snd (requestMembership ''g'' ''p'' None ''req8'' ''t4'' pair_revoked)))))"

lemma pair_retries: "(undecided_step ''p'')\<^sup>*\<^sup>* pair_revoked pair_retried"
  unfolding pair_retried_def
  by (rule rtranclp.rtrancl_into_rtrancl [OF rtranclp.rtrancl_into_rtrancl [OF r_into_rtranclp]]) (rule us_request us_approve us_approve_device)+

theorem revoked_device_locked_out_witness:
  "\<not> canSync ''p'' ''h'' pair_retried \<and> \<not> pairing_canSync ''p'' ''g'' pair_retried \<and>
   (\<exists>e. requireActiveMembership pair_writer ''h'' pair_retried = (Inl e, pair_retried)) \<and>
   map mb_id (db_members pair_retried) = [''mbr2'', ''mbr8'']"
proof -
  let ?se = "\<lparr>se_id = ''s'', se_user = ''u'', se_device = ''p'', se_org = ''o'', se_roles = [], se_established_at = ''t'',
    se_expires_at = None\<rparr>"
  have "map mb_id (db_members pair_retried) = [''mbr2'', ''mbr8'']" by code_simp
  then show ?thesis
    using revoked_device_locked_out [OF pair_runs(3) pair_retries pair_facts(3), of "\<lparr>ss_db = pair_retried, ss_current = Some ?se\<rparr>" ?se]
    by simp
qed

theorem pairing_revives_revoked_witness: "canSync ''p'' ''h'' pair_revived \<and> \<not> canSync ''p'' ''h'' pair_more_revoked"
proof -
  have "(case approvePairing ''req5'' pair_ctx (sample_ids ''6'') ''t4'' pair_more_revoked of (Inr r, _) \<Rightarrow> rq_device r = ''p'' | _ \<Rightarrow> False)"
    by code_simp
  then obtain req where r: "approvePairing ''req5'' pair_ctx (sample_ids ''6'') ''t4'' pair_more_revoked = (Inr req, pair_revived)"
    "rq_device req = ''p''"
    by (auto simp: pair_revived_def split: prod.splits sum.splits)
  have "findDeviceStatus ''p'' pair_more_revoked = Some DevRevoked" "findMembershipStatus ''p'' ''h'' pair_more_revoked = Some MbrApproved"
    by code_simp+
  then show ?thesis using pairing_revives_revoked [OF r(1), of "''h''"] r(2) by simp
qed

end
