(* ===== verification/Administration.thy ===== *)
theory Administration
  imports Pairing
begin

text \<open>
  Creating users (\<open>features/identity-admin/src/services/identityAdminService.ts\<close>) and managing
  organisations (\<open>features/organisations\<close>: service and repository, the latter on top of the insert
  and update of \<open>BaseRepository\<close>).  The properties say that neither reaches beyond the
  organisation and the permissions of the caller.
\<close>

section \<open>Administration of users\<close>

record create_user =
  cu_org :: string
  cu_name :: string
  cu_email :: "string option"
  cu_role :: "string option"

text \<open>\<open>toLowerCase\<close> on code units below 256.\<close>

definition js_lower_char :: "char \<Rightarrow> char" where
  "js_lower_char c = (let n = of_char c :: nat in
     if is_upper c \<or> (192 \<le> n \<and> n \<le> 222 \<and> n \<noteq> 215) then char_of (n + 32) else c)"

definition js_lower :: "string \<Rightarrow> string" where
  "js_lower s = map js_lower_char s"

definition roleExistsWithinOrganisation :: "string \<Rightarrow> string \<Rightarrow> core_db \<Rightarrow> bool" where
  "roleExistsWithinOrganisation roleId org db \<longleftrightarrow> (\<exists>r \<in> set (db_roles db). rl_id r = roleId \<and> rl_org r = org)"

definition insertUser :: "user_row \<Rightarrow> (core_db, unit) op" where
  "insertUser row = insert_row ''core_users.id'' (\<lambda>db. us_id row \<notin> us_id ` set (db_users db)) (\<lambda>db. has_org db (us_org row))
     (\<lambda>db. db\<lparr>db_users := db_users db @ [row]\<rparr>)"

definition assignRole :: "user_role_row \<Rightarrow> (core_db, unit) op" where
  "assignRole row = insert_row ''core_user_roles.id'' (\<lambda>db. ur_id row \<notin> ur_id ` set (db_user_roles db))
     (\<lambda>db. has_user db (Some (ur_user row)) \<and> ur_role row \<in> rl_id ` set (db_roles db) \<and> has_org db (ur_org row) \<and>
        has_user db (ur_granted_by row))
     (\<lambda>db. db\<lparr>db_user_roles := db_user_roles db @ [row]\<rparr>)"

definition new_user :: "create_user \<Rightarrow> string option \<Rightarrow> string \<Rightarrow> string \<Rightarrow> user_row" where
  "new_user input creator userId now = \<lparr>us_id = userId, us_created_at = now, us_updated_at = now, us_created_by = creator,
     us_updated_by = creator, us_org = cu_org input, us_name = trim (cu_name input),
     us_email = (case cu_email input of None \<Rightarrow> None
       | Some e \<Rightarrow> if js_lower (trim e) = [] then None else Some (js_lower (trim e))),
     us_status = UserActive\<rparr>"

definition create_user_in :: "create_user \<Rightarrow> any_context \<Rightarrow> string \<Rightarrow> string \<Rightarrow> string \<Rightarrow> string \<Rightarrow> (core_db, string) op" where
  "create_user_in input ctx userId userRoleId auditId now =
     (let s = extractContextSubject ctx in
     andthen (requirePermission ctx ''users.create'') (\<lambda>_.
     andthen (case cu_role input of None \<Rightarrow> ret () | Some r \<Rightarrow>
         andthen (requirePermission ctx ''roles.manage'') (\<lambda>_.
         andthen (get (roleExistsWithinOrganisation (trim r) (sub_org s))) (\<lambda>ok.
         guard ok (raise ValidationError (''Role '' @ quoted (trim r) @ '' does not exist in organisation '' @ quoted (sub_org s)))))) (\<lambda>_.
     andthen (insertUser (new_user input (sub_user s) userId now)) (\<lambda>_.
     andthen (case cu_role input of None \<Rightarrow> ret () | Some r \<Rightarrow>
         assignRole \<lparr>ur_id = userRoleId, ur_user = userId, ur_role = trim r, ur_org = cu_org input,
           ur_granted_by = sub_user s, ur_granted_at = now\<rparr>) (\<lambda>_.
     andthen (emit (admin_event ''USER_CREATED'' ctx [(''createdUserId'', JStr userId), (''displayName'', JStr (cu_name input))])
       auditId now) (\<lambda>_. ret userId))))))"

definition createUser :: "create_user \<Rightarrow> any_context \<Rightarrow> string \<Rightarrow> string \<Rightarrow> string \<Rightarrow> string \<Rightarrow> (core_db, string) op" where
  "createUser input ctx userId userRoleId auditId now =
     andthen (guard (trim (cu_name input) \<noteq> []) (raise ValidationError ''Display name is required'')) (\<lambda>_.
     andthen (guard (case cu_role input of None \<Rightarrow> True | Some r \<Rightarrow> trim r \<noteq> []) (raise ValidationError
       ''Role ID must be a non-empty string when provided'')) (\<lambda>_.
     andthen (guard (cu_org input = sub_org (extractContextSubject ctx)) (raise AuthorizationError
       (''Cross-tenant user creation forbidden: context organisation '' @ quoted (sub_org (extractContextSubject ctx)) @
        '' cannot create user in organisation '' @ quoted (cu_org input)))) (\<lambda>_.
     transaction (create_user_in input ctx userId userRoleId auditId now))))"

section \<open>Organisations\<close>

text \<open>SQLite's \<open>trim\<close> takes spaces only, its \<open>lower\<close> (here \<open>to_lower\<close>) maps the ASCII letters.\<close>

definition sql_trim :: "string \<Rightarrow> string" where
  "sql_trim s = rev (dropWhile (\<lambda>c. c = CHR '' '') (rev (dropWhile (\<lambda>c. c = CHR '' '') s)))"

definition domain_key :: "org_row \<Rightarrow> string option" where
  "domain_key r = (case og_domain r of None \<Rightarrow> None
     | Some d \<Rightarrow> if sql_trim d = [] then None else Some (to_lower (sql_trim d)))"

definition insertOrganisation :: "org_row \<Rightarrow> (core_db, unit) op" where
  "insertOrganisation row = insert_row ''core_organisations''
     (\<lambda>db. og_id row \<notin> og_id ` set (db_orgs db) \<and>
       (domain_key row \<noteq> None \<longrightarrow> domain_key row \<notin> domain_key ` set (db_orgs db)))
     (\<lambda>_. True) (\<lambda>db. db\<lparr>db_orgs := db_orgs db @ [row]\<rparr>)"

definition findByDomain :: "string \<Rightarrow> core_db \<Rightarrow> org_row option" where
  "findByDomain domain db = find_first (\<lambda>r. map_option (\<lambda>d. to_lower (sql_trim d)) (og_domain r) = Some domain) (db_orgs db)"

definition findByIdWithinOrganisation :: "string \<Rightarrow> string \<Rightarrow> core_db \<Rightarrow> org_row option" where
  "findByIdWithinOrganisation i org db = find_first (\<lambda>r. og_id r = i \<and> og_id r = org) (db_orgs db)"

definition findAllWithinOrganisation :: "string \<Rightarrow> core_db \<Rightarrow> org_row list" where
  "findAllWithinOrganisation org db = order_by og_name (filter (\<lambda>r. og_id r = org) (db_orgs db))"

definition new_organisation :: "string \<Rightarrow> string option \<Rightarrow> json option \<Rightarrow> string option \<Rightarrow> string \<Rightarrow> string \<Rightarrow> org_row" where
  "new_organisation name domain settings user newId now =
     \<lparr>og_id = newId, og_created_at = now, og_updated_at = now, og_created_by = user, og_updated_by = user,
       og_name = trim name, og_domain = domain, og_status = OrgActive,
       og_settings_json = map_option stringify settings\<rparr>"

definition create_organisation_in :: "string \<Rightarrow> string option \<Rightarrow> string option \<Rightarrow> json option \<Rightarrow> any_context \<Rightarrow> string \<Rightarrow> string \<Rightarrow> (core_db, org_row) op" where
  "create_organisation_in name input domain settings ctx newId now =
     andthen (requirePermission ctx ''organisations.create'') (\<lambda>_.
     andthen (get (\<lambda>db. case domain of None \<Rightarrow> None | Some d \<Rightarrow> findByDomain d db)) (\<lambda>existing.
     andthen (guard (existing = None) (raise ValidationError
       (''Organisation with domain '' @ quoted (the input) @ '' already exists''))) (\<lambda>_.
     let row = new_organisation name domain settings (sub_user (extractContextSubject ctx)) newId now in
     andthen (insertOrganisation row) (\<lambda>_. ret row))))"

definition createOrganisation :: "string \<Rightarrow> string option \<Rightarrow> json option \<Rightarrow> any_context \<Rightarrow> string \<Rightarrow> string \<Rightarrow> (core_db, org_row) op" where
  "createOrganisation name domain settings ctx newId now =
     andthen (guard (trim name \<noteq> []) (raise ValidationError ''Organisation name is required'')) (\<lambda>_.
     let d = (case domain of None \<Rightarrow> None | Some d \<Rightarrow> if js_lower (trim d) = [] then None else Some (js_lower (trim d))) in
     transaction (create_organisation_in name domain d settings ctx newId now))"

definition getOrganisationById :: "string \<Rightarrow> any_context \<Rightarrow> (core_db, org_row option) op" where
  "getOrganisationById i ctx = andthen (requirePermission ctx ''organisations.read'') (\<lambda>_.
     get (findByIdWithinOrganisation i (ctx_organisation ctx)))"

definition apply_update :: "string option \<Rightarrow> json option \<Rightarrow> string option \<Rightarrow> string \<Rightarrow> org_row \<Rightarrow> org_row" where
  "apply_update name settings user now r = r\<lparr>og_updated_at := now, og_updated_by := user,
     og_name := (case name of None \<Rightarrow> og_name r | Some n \<Rightarrow> trim n),
     og_settings_json := (case settings of None \<Rightarrow> og_settings_json r | Some v \<Rightarrow> Some (stringify v))\<rparr>"

definition update_organisation_in :: "string \<Rightarrow> string option \<Rightarrow> json option \<Rightarrow> any_context \<Rightarrow> string \<Rightarrow> (core_db, org_row) op" where
  "update_organisation_in i name settings ctx now =
     (let s = extractContextSubject ctx in
     andthen (requirePermission ctx ''organisations.manage'') (\<lambda>_.
     andthen (get (findByIdWithinOrganisation i (sub_org s))) (\<lambda>existing.
     andthen (guard (existing \<noteq> None) (raise ValidationError (''Organisation '' @ quoted i @ '' not found''))) (\<lambda>_.
     andthen (modify (\<lambda>db. db\<lparr>db_orgs := sql_update (\<lambda>r. og_id r = i) (apply_update name settings (sub_user s) now) (db_orgs db)\<rparr>)) (\<lambda>_.
     andthen (get (findByIdWithinOrganisation i (sub_org s))) (\<lambda>updated.
     case updated of None \<Rightarrow> throw (raise ValidationError (''Organisation '' @ quoted i @ '' disappeared during update''))
       | Some r \<Rightarrow> ret r))))))"

definition updateOrganisation :: "string \<Rightarrow> string option \<Rightarrow> json option \<Rightarrow> any_context \<Rightarrow> string \<Rightarrow> (core_db, org_row) op" where
  "updateOrganisation i name settings ctx now =
     andthen (guard (\<not> (name = None \<and> settings = None)) (raise ValidationError
       ''Organisation update must include at least one field'')) (\<lambda>_.
     andthen (guard (name = None \<or> trim (the name) \<noteq> []) (raise ValidationError ''Organisation name cannot be empty'')) (\<lambda>_.
     transaction (update_organisation_in i name settings ctx now)))"

definition listOrganisations :: "any_context \<Rightarrow> (core_db, org_row list) op" where
  "listOrganisations ctx = andthen (requirePermission ctx ''organisations.read'') (\<lambda>_.
     get (findAllWithinOrganisation (ctx_organisation ctx)))"

section \<open>Nothing beyond the caller's organisation\<close>

lemma requirePermission_state: "requirePermission ctx p db = (r, db') \<Longrightarrow> db' = db"
  using preservesD [OF preserves_requirePermission [of "\<lambda>d. d = db" ctx p]] by auto

lemma assignRole_Inr: "assignRole row db = (Inr (), db') \<longleftrightarrow> ur_id row \<notin> ur_id ` set (db_user_roles db) \<and>
    has_user db (Some (ur_user row)) \<and> ur_role row \<in> rl_id ` set (db_roles db) \<and> has_org db (ur_org row) \<and>
    has_user db (ur_granted_by row) \<and> db' = db\<lparr>db_user_roles := db_user_roles db @ [row]\<rparr>"
  by (auto simp: assignRole_def insert_row_run)

lemma insertUser_Inr: "insertUser row db = (Inr (), db') \<longleftrightarrow> us_id row \<notin> us_id ` set (db_users db) \<and> has_org db (us_org row) \<and>
    db' = db\<lparr>db_users := db_users db @ [row]\<rparr>"
  by (auto simp: insertUser_def insert_row_run)

definition given_role :: "create_user \<Rightarrow> any_context \<Rightarrow> string \<Rightarrow> string \<Rightarrow> string \<Rightarrow> user_role_row list" where
  "given_role input ctx userId userRoleId now = (case cu_role input of None \<Rightarrow> []
     | Some r \<Rightarrow> [\<lparr>ur_id = userRoleId, ur_user = userId, ur_role = trim r, ur_org = cu_org input,
         ur_granted_by = sub_user (extractContextSubject ctx), ur_granted_at = now\<rparr>])"

definition role_check :: "create_user \<Rightarrow> any_context \<Rightarrow> (core_db, unit) op" where
  "role_check input ctx = (case cu_role input of None \<Rightarrow> ret () | Some r \<Rightarrow>
     andthen (requirePermission ctx ''roles.manage'') (\<lambda>_.
     andthen (get (roleExistsWithinOrganisation (trim r) (sub_org (extractContextSubject ctx)))) (\<lambda>ok.
     guard ok (raise ValidationError (''Role '' @ quoted (trim r) @ '' does not exist in organisation '' @
       quoted (sub_org (extractContextSubject ctx)))))))"

definition role_grant :: "create_user \<Rightarrow> any_context \<Rightarrow> string \<Rightarrow> string \<Rightarrow> string \<Rightarrow> (core_db, unit) op" where
  "role_grant input ctx userId userRoleId now = (case cu_role input of None \<Rightarrow> ret () | Some r \<Rightarrow>
     assignRole \<lparr>ur_id = userRoleId, ur_user = userId, ur_role = trim r, ur_org = cu_org input,
       ur_granted_by = sub_user (extractContextSubject ctx), ur_granted_at = now\<rparr>)"

lemma create_user_split: "create_user_in input ctx userId userRoleId auditId now =
    andthen (requirePermission ctx ''users.create'') (\<lambda>_. andthen (role_check input ctx) (\<lambda>_.
    andthen (insertUser (new_user input (sub_user (extractContextSubject ctx)) userId now)) (\<lambda>_.
    andthen (role_grant input ctx userId userRoleId now) (\<lambda>_.
    andthen (emit (admin_event ''USER_CREATED'' ctx [(''createdUserId'', JStr userId), (''displayName'', JStr (cu_name input))])
       auditId now) (\<lambda>_. ret userId)))))"
  by (simp add: create_user_in_def role_check_def role_grant_def Let_def)

lemma role_check_Inr: "role_check input ctx db = (Inr (), db') \<Longrightarrow> db' = db \<and> (\<forall>r. cu_role input = Some r \<longrightarrow>
    permitted db ctx ''roles.manage'' \<and> roleExistsWithinOrganisation (trim r) (ctx_organisation ctx) db)"
  unfolding role_check_def ctx_organisation_def
  by (cases "cu_role input") (auto elim!: andthen_InrE simp: requirePermission_Inr split: if_split_asm)

lemma role_grant_Inr: "role_grant input ctx userId userRoleId now db = (Inr (), db') \<Longrightarrow>
    db' = db\<lparr>db_user_roles := db_user_roles db @ given_role input ctx userId userRoleId now\<rparr>"
  by (cases "cu_role input") (auto simp: role_grant_def given_role_def assignRole_Inr)

lemma createUser_D:
  assumes "createUser input ctx userId userRoleId auditId now db = (Inr u, db')"
  shows "u = userId \<and> permitted db ctx ''users.create'' \<and> cu_org input = ctx_organisation ctx \<and>
    userId \<notin> us_id ` set (db_users db) \<and>
    (\<forall>r. cu_role input = Some r \<longrightarrow>
       permitted db ctx ''roles.manage'' \<and> roleExistsWithinOrganisation (trim r) (ctx_organisation ctx) db) \<and>
    (\<exists>audit. db' = db\<lparr>db_users := db_users db @ [new_user input (sub_user (extractContextSubject ctx)) userId now],
       db_user_roles := db_user_roles db @ given_role input ctx userId userRoleId now, db_audit := audit\<rparr>)"
proof -
  have org: "cu_org input = ctx_organisation ctx"
    and run: "create_user_in input ctx userId userRoleId auditId now db = (Inr u, db')"
    using assms by (auto simp: createUser_def ctx_organisation_def transaction_Inr split: if_split_asm)
  obtain u0 db0 where p: "requirePermission ctx ''users.create'' db = (Inr u0, db0)" and
    r0: "andthen (role_check input ctx) (\<lambda>_.
    andthen (insertUser (new_user input (sub_user (extractContextSubject ctx)) userId now)) (\<lambda>_.
    andthen (role_grant input ctx userId userRoleId now) (\<lambda>_.
    andthen (emit (admin_event ''USER_CREATED'' ctx [(''createdUserId'', JStr userId), (''displayName'', JStr (cu_name input))])
       auditId now) (\<lambda>_. ret userId)))) db0 = (Inr u, db')"
    using run unfolding create_user_split by (rule andthen_InrE)
  have p': "db0 = db" "permitted db ctx ''users.create''" using p requirePermission_Inr [of ctx "''users.create''" db db0] by simp_all
  obtain u1 db1 where c: "role_check input ctx db = (Inr u1, db1)" and
    r1: "andthen (insertUser (new_user input (sub_user (extractContextSubject ctx)) userId now)) (\<lambda>_.
    andthen (role_grant input ctx userId userRoleId now) (\<lambda>_.
    andthen (emit (admin_event ''USER_CREATED'' ctx [(''createdUserId'', JStr userId), (''displayName'', JStr (cu_name input))])
       auditId now) (\<lambda>_. ret userId))) db1 = (Inr u, db')"
    using r0 unfolding p'(1) by (rule andthen_InrE)
  have c': "db1 = db" "\<forall>r. cu_role input = Some r \<longrightarrow>
       permitted db ctx ''roles.manage'' \<and> roleExistsWithinOrganisation (trim r) (ctx_organisation ctx) db"
    using c role_check_Inr [of input ctx db db1] by simp_all
  obtain u2 db2 where i: "insertUser (new_user input (sub_user (extractContextSubject ctx)) userId now) db = (Inr u2, db2)" and
    r2: "andthen (role_grant input ctx userId userRoleId now) (\<lambda>_.
    andthen (emit (admin_event ''USER_CREATED'' ctx [(''createdUserId'', JStr userId), (''displayName'', JStr (cu_name input))])
       auditId now) (\<lambda>_. ret userId)) db2 = (Inr u, db')"
    using r1 unfolding c'(1) by (rule andthen_InrE)
  obtain u3 db3 where g: "role_grant input ctx userId userRoleId now db2 = (Inr u3, db3)" and
    r3: "andthen (emit (admin_event ''USER_CREATED'' ctx [(''createdUserId'', JStr userId), (''displayName'', JStr (cu_name input))])
       auditId now) (\<lambda>_. ret userId) db3 = (Inr u, db')"
    using r2 by (rule andthen_InrE)
  have i': "userId \<notin> us_id ` set (db_users db)"
    "db2 = db\<lparr>db_users := db_users db @ [new_user input (sub_user (extractContextSubject ctx)) userId now]\<rparr>"
    using i insertUser_Inr [of "new_user input (sub_user (extractContextSubject ctx)) userId now" db db2]
    by (simp_all add: new_user_def)
  have "db3 = db2\<lparr>db_user_roles := db_user_roles db2 @ given_role input ctx userId userRoleId now\<rparr>"
    using g role_grant_Inr [of input ctx userId userRoleId now db2 db3] by simp
  moreover have "u = userId" "\<exists>audit. db' = db3\<lparr>db_audit := audit\<rparr>"
    using r3 by (auto simp: emit_Inr elim!: andthen_InrE)
  ultimately show ?thesis using org p'(2) c'(2) i' by auto
qed

lemma holds_grant_user: "holds_grant db w org name scope \<longleftrightarrow>
    (\<exists>ur \<in> {ur \<in> set (db_user_roles db). ur_user ur = w}. \<exists>r \<in> set (db_roles db). \<exists>rp \<in> set (db_role_permissions db).
       \<exists>p \<in> set (db_permissions db). ur_org ur = org \<and> rl_id r = ur_role ur \<and> rl_org r = org \<and>
         rp_role rp = rl_id r \<and> rp_permission rp = pm_id p \<and> pm_name p = name \<and> rp_scope rp = scope)"
  unfolding holds_grant_def by blast

lemma authorised_same:
  assumes "db_roles db' = db_roles db" "db_role_permissions db' = db_role_permissions db"
    "db_permissions db' = db_permissions db"
    "{ur \<in> set (db_user_roles db'). ur_user ur = w} = {ur \<in> set (db_user_roles db). ur_user ur = w}"
  shows "authorised db' w org p q = authorised db w org p q"
  unfolding authorised_def holds_grant_user assms ..

text \<open>Creating a user gives nothing the caller may not give: it needs the permission to create users, adds one
  active user to the caller's organisation and nothing else but, with the permission to manage roles,
  one role of that organisation, and leaves what every other user is authorised to do as it was; a
  refused creation changes nothing.\<close>

theorem user_creation_confined:
  assumes "createUser input ctx userId userRoleId auditId now db = (r, db')"
  shows "case r of Inl _ \<Rightarrow> db' = db
    | Inr u \<Rightarrow> u = userId \<and> permitted db ctx ''users.create'' \<and>
        db_users db' = db_users db @ [new_user input (sub_user (extractContextSubject ctx)) userId now] \<and>
        us_org (last (db_users db')) = ctx_organisation ctx \<and>
        (case cu_role input of None \<Rightarrow> db_user_roles db' = db_user_roles db
         | Some role \<Rightarrow> permitted db ctx ''roles.manage'' \<and> roleExistsWithinOrganisation (trim role) (ctx_organisation ctx) db \<and>
             (\<exists>ur. db_user_roles db' = db_user_roles db @ [ur] \<and> ur_user ur = userId \<and> ur_role ur = trim role \<and>
                ur_org ur = ctx_organisation ctx)) \<and>
        (w \<noteq> userId \<longrightarrow> authorised db' w org p q = authorised db w org p q)"
proof (cases r)
  case (Inl e)
  then show ?thesis using assms
    by (auto simp: createUser_def dest: transaction_error split: if_split_asm)
next
  case (Inr u)
  note D = createUser_D [OF assms [unfolded Inr]]
  then obtain audit where db': "db' = db\<lparr>db_users := db_users db @ [new_user input (sub_user (extractContextSubject ctx)) userId now],
       db_user_roles := db_user_roles db @ given_role input ctx userId userRoleId now, db_audit := audit\<rparr>" by blast
  have "w \<noteq> userId \<longrightarrow> authorised db' w org p q = authorised db w org p q"
    by (intro impI authorised_same) (auto simp: db' given_role_def split: option.splits)
  then show ?thesis using D Inr
    by (cases "cu_role input") (auto simp: db' given_role_def new_user_def)
qed

lemma user_creation_confined_witness:
  "createUser \<lparr>cu_org = ''o'', cu_name = '' Bob '', cu_email = None, cu_role = Some ''admin''\<rparr> sample_admin ''u2'' ''ur2'' ''a9'' ''t9'' sample_db
     = (Inr ''u2'', snd (createUser \<lparr>cu_org = ''o'', cu_name = '' Bob '', cu_email = None, cu_role = Some ''admin''\<rparr> sample_admin ''u2'' ''ur2'' ''a9'' ''t9'' sample_db)) \<and>
   authorised (snd (createUser \<lparr>cu_org = ''o'', cu_name = '' Bob '', cu_email = None, cu_role = Some ''admin''\<rparr> sample_admin ''u2'' ''ur2'' ''a9'' ''t9'' sample_db))
     ''u3'' ''o'' ''users.create'' None = authorised sample_db ''u3'' ''o'' ''users.create'' None"
proof -
  have run: "createUser \<lparr>cu_org = ''o'', cu_name = '' Bob '', cu_email = None, cu_role = Some ''admin''\<rparr> sample_admin ''u2'' ''ur2'' ''a9'' ''t9'' sample_db
     = (Inr ''u2'', snd (createUser \<lparr>cu_org = ''o'', cu_name = '' Bob '', cu_email = None, cu_role = Some ''admin''\<rparr> sample_admin ''u2'' ''ur2'' ''a9'' ''t9'' sample_db))"
    unfolding prod_eq_iff by code_simp
  show ?thesis using user_creation_confined [OF run, of "''u3''" "''o''" "''users.create''" None] run by simp
qed

section \<open>Organisations keep to themselves\<close>

definition orgs_ok :: "core_db \<Rightarrow> bool" where
  "orgs_ok db \<longleftrightarrow> distinct (map og_id (db_orgs db)) \<and> distinct (List.map_filter domain_key (db_orgs db))"

lemma lower_char_js [simp]: "lower_char (js_lower_char c) = js_lower_char c"
  by (cases "of_char c :: nat" rule: nat.exhaust)
    (auto simp: lower_char_def js_lower_char_def is_upper_def Let_def)

lemma space_js [simp]: "js_lower_char c = CHR '' '' \<longleftrightarrow> c = CHR '' ''"
proof
  assume a: "js_lower_char c = CHR '' ''"
  define n where "n = (of_char c :: nat)"
  show "c = CHR '' ''"
  proof (cases "is_upper c \<or> (192 \<le> n \<and> n \<le> 222 \<and> n \<noteq> 215)")
    case True
    then have n: "65 \<le> n" "n \<le> 222" by (auto simp: is_upper_def n_def Let_def)
    have "js_lower_char c = char_of (n + 32)"
      using True unfolding js_lower_char_def Let_def n_def [symmetric] by (rule if_P)
    then have "of_char (js_lower_char c) = (n + 32) mod 256" by (simp only: of_char_of)
    moreover have "of_char (js_lower_char c) = (32 :: nat)" unfolding a by simp
    ultimately show ?thesis using n by simp
  next
    case False
    then have "js_lower_char c = c" unfolding js_lower_char_def Let_def n_def by (rule if_not_P)
    then show ?thesis using a by simp
  qed
next
  assume c: "c = CHR '' ''"
  have "\<not> is_upper (CHR '' '')" by (simp add: is_upper_def Let_def)
  then show "js_lower_char c = CHR '' ''" unfolding c js_lower_char_def Let_def
    by (subst if_not_P) (simp, rule refl)
qed

lemma dropWhile_same: "xs = [] \<or> \<not> p (hd xs) \<Longrightarrow> dropWhile p xs = xs"
  by (cases xs) auto

lemma trim_ends: "trim s \<noteq> [] \<Longrightarrow> \<not> is_white (hd (trim s)) \<and> \<not> is_white (last (trim s))"
proof -
  assume n: "trim s \<noteq> []"
  let ?t = "rev (trim_left s)"
  have t: "trim s = rev (dropWhile is_white ?t)" by (simp add: trim_def)
  obtain ws where ws: "?t = ws @ dropWhile is_white ?t"
    by (metis takeWhile_dropWhile_id)
  have "hd (trim s) = hd (trim_left s)"
  proof -
    have "trim_left s = trim s @ rev ws" using ws t by (metis rev_append rev_rev_ident)
    then show ?thesis using n by simp
  qed
  moreover have "trim_left s \<noteq> []" using n t by auto
  then have "\<not> is_white (hd (trim_left s))" by (simp add: trim_left_def hd_dropWhile)
  moreover have "last (trim s) = hd (dropWhile is_white ?t)" using t n by (simp add: last_rev)
  ultimately show ?thesis using n t by (simp add: hd_dropWhile)
qed

lemma sql_trim_key [simp]: "sql_trim (js_lower (trim d)) = js_lower (trim d)"
proof (cases "trim d = []")
  case False
  have w: "is_white (CHR '' '')" by (simp add: is_white_def)
  then have "hd (trim d) \<noteq> CHR '' ''" "last (trim d) \<noteq> CHR '' ''" using trim_ends [OF False] by metis+
  then show ?thesis using False
    by (simp add: sql_trim_def js_lower_def dropWhile_same hd_map hd_rev last_map)
qed (simp add: sql_trim_def js_lower_def)

lemma to_lower_js [simp]: "to_lower (js_lower s) = js_lower s"
  by (simp add: to_lower_def js_lower_def)

lemma insertOrganisation_Inr: "insertOrganisation row db = (Inr (), db') \<longleftrightarrow> og_id row \<notin> og_id ` set (db_orgs db) \<and>
    (domain_key row \<noteq> None \<longrightarrow> domain_key row \<notin> domain_key ` set (db_orgs db)) \<and> db' = db\<lparr>db_orgs := db_orgs db @ [row]\<rparr>"
  by (auto simp: insertOrganisation_def insert_row_run)

lemma map_filter_snoc: "List.map_filter f (xs @ [x]) = List.map_filter f xs @ (case f x of None \<Rightarrow> [] | Some y \<Rightarrow> [y])"
  by (simp add: map_filter_def split: option.split)

lemma orgs_ok_snoc:
  assumes "orgs_ok db" "og_id row \<notin> og_id ` set (db_orgs db)"
    "domain_key row \<noteq> None \<longrightarrow> domain_key row \<notin> domain_key ` set (db_orgs db)"
  shows "orgs_ok (db\<lparr>db_orgs := db_orgs db @ [row]\<rparr>)"
  using assms by (force simp: orgs_ok_def map_filter_snoc set_map_filter split: option.split)

lemma create_organisation_in_D:
  assumes run: "create_organisation_in name inp d settings ctx newId now db = (Inr row, db')"
  shows "permitted db ctx ''organisations.create'' \<and>
    row = new_organisation name d settings (sub_user (extractContextSubject ctx)) newId now \<and>
    insertOrganisation row db = (Inr (), db')"
proof -
  obtain u0 db0 where p: "requirePermission ctx ''organisations.create'' db = (Inr u0, db0)"
    using run unfolding create_organisation_in_def by (rule andthen_InrE)
  then have p': "db0 = db" "permitted db ctx ''organisations.create''"
    using requirePermission_Inr [of ctx "''organisations.create''" db db0] by simp_all
  have r: "requirePermission ctx ''organisations.create'' db = (Inr (), db)" using p p' by simp
  show ?thesis using run p'(2)
    unfolding create_organisation_in_def run_andthen_Inr [where m = "requirePermission ctx ''organisations.create''", OF r]
    by (auto simp: Let_def elim!: andthen_InrE split: if_split_asm)
qed

lemma createOrganisation_D:
  assumes "createOrganisation name domain settings ctx newId now db = (Inr row, db')"
  shows "permitted db ctx ''organisations.create'' \<and> og_id row = newId \<and> og_name row = trim name \<and>
    newId \<notin> og_id ` set (db_orgs db) \<and>
    (domain_key row \<noteq> None \<longrightarrow> domain_key row \<notin> domain_key ` set (db_orgs db)) \<and>
    db' = db\<lparr>db_orgs := db_orgs db @ [row]\<rparr>"
proof -
  obtain d where run: "create_organisation_in name domain d settings ctx newId now db = (Inr row, db')"
    using assms by (auto simp: createOrganisation_def transaction_Inr Let_def split: if_split_asm)
  note D = create_organisation_in_D [OF run]
  then have "og_id row = newId" "og_name row = trim name" by (simp_all add: new_organisation_def)
  then show ?thesis using D unfolding insertOrganisation_Inr by metis
qed

lemma domain_key_update [simp]: "domain_key (apply_update name settings user now r) = domain_key r"
  by (simp add: domain_key_def apply_update_def cong: option.case_cong)

lemma og_id_update [simp]: "og_id (apply_update name settings user now r) = og_id r"
  by (simp add: apply_update_def)

lemma updateOrganisation_D:
  assumes "updateOrganisation i name settings ctx now db = (Inr row, db')"
  shows "permitted db ctx ''organisations.manage'' \<and> i = ctx_organisation ctx \<and> og_id row = i \<and> row \<in> set (db_orgs db') \<and>
    db' = db\<lparr>db_orgs := sql_update (\<lambda>r. og_id r = i)
      (apply_update name settings (sub_user (extractContextSubject ctx)) now) (db_orgs db)\<rparr>"
proof -
  have run: "update_organisation_in i name settings ctx now db = (Inr row, db')"
    using assms by (auto simp: updateOrganisation_def transaction_Inr split: if_split_asm)
  obtain u0 db0 where p: "requirePermission ctx ''organisations.manage'' db = (Inr u0, db0)"
    using run unfolding update_organisation_in_def Let_def by (rule andthen_InrE)
  then have p': "db0 = db" "permitted db ctx ''organisations.manage''"
    using requirePermission_Inr [of ctx "''organisations.manage''" db db0] by simp_all
  have r: "requirePermission ctx ''organisations.manage'' db = (Inr (), db)" using p p' by simp
  show ?thesis using run p'(2)
    unfolding update_organisation_in_def Let_def run_andthen_Inr [where m = "requirePermission ctx ''organisations.manage''", OF r]
    by (auto simp: findByIdWithinOrganisation_def ctx_organisation_def elim!: andthen_InrE split: if_split_asm option.split_asm
        dest: find_first_SomeD)
qed

lemma orgs_ok_update:
  assumes "orgs_ok db"
  shows "orgs_ok (db\<lparr>db_orgs := sql_update (\<lambda>r. og_id r = i) (apply_update name settings user now) (db_orgs db)\<rparr>)"
proof -
  have "map domain_key (sql_update (\<lambda>r. og_id r = i) (apply_update name settings user now) (db_orgs db)) = map domain_key (db_orgs db)"
    "map og_id (sql_update (\<lambda>r. og_id r = i) (apply_update name settings user now) (db_orgs db)) = map og_id (db_orgs db)"
    by (simp_all add: map_sql_update)
  moreover have "List.map_filter domain_key rows = List.map_filter (\<lambda>x. x) (map domain_key rows)" for rows
    by (induction rows) (simp_all split: option.split)
  ultimately show ?thesis using assms by (simp add: orgs_ok_def)
qed

lemma own_rows: "distinct (map og_id rows) \<Longrightarrow> length (filter (\<lambda>r. og_id r = i) rows) \<le> 1"
proof -
  assume "distinct (map og_id rows)"
  then have "distinct (map og_id (filter (\<lambda>r. og_id r = i) rows))" by (rule distinct_map_filter)
  then have "length (filter (\<lambda>r. og_id r = i) rows) = card (set (map og_id (filter (\<lambda>r. og_id r = i) rows)))"
    by (metis distinct_card length_map)
  also have "\<dots> \<le> card {i}" by (rule card_mono) auto
  finally show ?thesis by simp
qed

lemma creation_outcome:
  assumes ok: "orgs_ok db"
    and create: "createOrganisation name domain settings ctx newId now db = (created, db1)"
  shows "orgs_ok db1 \<and> (case created of Inl _ \<Rightarrow> db1 = db | Inr row \<Rightarrow>
       permitted db ctx ''organisations.create'' \<and> db_orgs db1 = db_orgs db @ [row] \<and> og_name row = trim name)"
proof (cases created)
  case (Inl e)
  then show ?thesis using create ok
    by (auto simp: createOrganisation_def Let_def dest: transaction_error split: if_split_asm)
next
  case (Inr row)
  note D = createOrganisation_D [OF create [unfolded Inr]]
  then show ?thesis using Inr orgs_ok_snoc [OF ok, of row] by auto
qed

lemma others_kept: "(\<And>r. key (f r) = key r) \<Longrightarrow>
    filter (\<lambda>r. key r \<noteq> i) (sql_update (\<lambda>r. key r = i) f rows) = filter (\<lambda>r. key r \<noteq> i) rows"
  by (induction rows) auto

lemma update_outcome:
  assumes ok: "orgs_ok db"
    and update: "updateOrganisation i new_name new_settings ctx now db = (updated, db2)"
  shows "orgs_ok db2 \<and> (case updated of Inl _ \<Rightarrow> db2 = db | Inr row \<Rightarrow>
       permitted db ctx ''organisations.manage'' \<and> i = ctx_organisation ctx \<and> og_id row = i \<and> row \<in> set (db_orgs db2) \<and>
       filter (\<lambda>r. og_id r \<noteq> i) (db_orgs db2) = filter (\<lambda>r. og_id r \<noteq> i) (db_orgs db) \<and>
       map domain_key (db_orgs db2) = map domain_key (db_orgs db))"
proof (cases updated)
  case (Inl e)
  then show ?thesis using update ok
    by (auto simp: updateOrganisation_def dest: transaction_error split: if_split_asm)
next
  case (Inr row)
  note D = updateOrganisation_D [OF update [unfolded Inr]]
  then have db2: "db2 = db\<lparr>db_orgs := sql_update (\<lambda>r. og_id r = i)
      (apply_update new_name new_settings (sub_user (extractContextSubject ctx)) now) (db_orgs db)\<rparr>" by blast
  have "orgs_ok db2" unfolding db2 by (rule orgs_ok_update [OF ok])
  moreover have "filter (\<lambda>r. og_id r \<noteq> i) (db_orgs db2) = filter (\<lambda>r. og_id r \<noteq> i) (db_orgs db)"
    "map domain_key (db_orgs db2) = map domain_key (db_orgs db)"
    unfolding db2 by (simp_all add: others_kept map_sql_update)
  ultimately show ?thesis using D unfolding Inr sum.case by (intro conjI) blast+
qed

lemma read_outcome: "case getOrganisationById i ctx db of (Inr (Some row), _) \<Rightarrow> og_id row = ctx_organisation ctx \<and> i = og_id row | _ \<Rightarrow> True"
proof -
  obtain r db' where r: "requirePermission ctx ''organisations.read'' db = (r, db')" by fastforce
  show ?thesis using r
    by (cases r) (auto simp: getOrganisationById_def findByIdWithinOrganisation_def run_andthen_Inl run_andthen_Inr split: option.splits
      dest!: find_first_SomeD)
qed

lemma list_outcome:
  assumes ok: "orgs_ok db"
  shows "case listOrganisations ctx db of (Inr rows, _) \<Rightarrow> length rows \<le> 1 \<and> og_id ` set rows \<subseteq> {ctx_organisation ctx} | _ \<Rightarrow> True"
proof -
  obtain r db' where r: "requirePermission ctx ''organisations.read'' db = (r, db')" by fastforce
  have d: "db' = db" using requirePermission_state [OF r] .
  show ?thesis using r own_rows [of "db_orgs db" "ctx_organisation ctx"] ok d
    by (cases r) (auto simp: listOrganisations_def findAllWithinOrganisation_def run_andthen_Inl run_andthen_Inr order_by_def orgs_ok_def)
qed

text \<open>Organisations keep apart, on every branch of their operations: ids and (trimmed, lower-case) domains stay
  unique; creating one needs its permission and appends one row; an update needs its permission, can
  only concern the caller's own organisation and leaves every other row and every domain; a refused
  operation changes nothing; and a caller reads no organisation but the own one.\<close>

theorem organisations_confined:
  assumes ok: "orgs_ok db"
    and create: "createOrganisation name domain settings ctx newId now db = (created, db1)"
    and update: "updateOrganisation i new_name new_settings ctx now db = (updated, db2)"
  shows "orgs_ok db1 \<and> orgs_ok db2 \<and>
    (case created of Inl _ \<Rightarrow> db1 = db | Inr row \<Rightarrow>
       permitted db ctx ''organisations.create'' \<and> db_orgs db1 = db_orgs db @ [row] \<and> og_name row = trim name) \<and>
    (case updated of Inl _ \<Rightarrow> db2 = db | Inr row \<Rightarrow>
       permitted db ctx ''organisations.manage'' \<and> i = ctx_organisation ctx \<and> og_id row = i \<and> row \<in> set (db_orgs db2) \<and>
       filter (\<lambda>r. og_id r \<noteq> i) (db_orgs db2) = filter (\<lambda>r. og_id r \<noteq> i) (db_orgs db) \<and>
       map domain_key (db_orgs db2) = map domain_key (db_orgs db)) \<and>
    (case getOrganisationById i ctx db of (Inr (Some row), _) \<Rightarrow> og_id row = ctx_organisation ctx \<and> i = og_id row | _ \<Rightarrow> True) \<and>
    (case listOrganisations ctx db of (Inr rows, _) \<Rightarrow> length rows \<le> 1 \<and> og_id ` set rows \<subseteq> {ctx_organisation ctx} | _ \<Rightarrow> True)"
  using creation_outcome [OF ok create] update_outcome [OF ok update] read_outcome [of ctx i db] list_outcome [OF ok, of ctx]
  by blast

lemma organisations_confined_witness:
  "orgs_ok (snd (createOrganisation ''New'' (Some '' A.org '') None sample_admin ''o2'' ''t8'' sample_db)) \<and>
   og_id (hd (db_orgs (snd (updateOrganisation ''o'' (Some ''Renamed'') None sample_admin ''t8'' sample_db)))) = ''o''"
proof -
  have ok: "orgs_ok sample_db" by code_simp
  have "orgs_ok (snd (createOrganisation ''New'' (Some '' A.org '') None sample_admin ''o2'' ''t8'' sample_db))"
    using organisations_confined [OF ok surjective_pairing surjective_pairing, where name = "''New''" and domain = "Some '' A.org ''"
      and settings = None and ctx = sample_admin and newId = "''o2''" and now = "''t8''" and i = "''o''"
      and new_name = "Some ''Renamed''" and new_settings = None] by blast
  moreover have "og_id (hd (db_orgs (snd (updateOrganisation ''o'' (Some ''Renamed'') None sample_admin ''t8'' sample_db)))) = ''o''"
    by code_simp
  ultimately show ?thesis by blast
qed

end
