(* ===== verification/Feature_Graph.thy ===== *)
theory Feature_Graph
  imports Core "HOL-Library.Multiset"
begin

text \<open>
  \<open>feature-system/src/registry/DependencyResolver.ts\<close>: the order in which features are initialised.
  The depth-first walk with its explicit stack is a function with a termination proof; its loop
  invariant \<open>walk_ok\<close> shows that it finds an order exactly when there is one.
\<close>

section \<open>Manifests\<close>

record permission_def =
  pd_name :: string
  pd_description :: string

record migration_def =
  mg_version :: rat
  mg_name :: string
  mg_sql :: string
  mg_checksum :: string

record sync_policy_def =
  sp_entity :: string
  sp_namespace :: string
  sp_strategy :: string
  sp_syncable :: bool

record navigation_item =
  nv_id :: string
  nv_label :: string
  nv_path :: string
  nv_icon :: "string option"
  nv_required :: "string option"
  nv_order :: "rat option"

record pruning_def =
  pr_id :: string
  pr_display :: string
  pr_table :: string
  pr_column :: string
  pr_days :: rat
  pr_filter :: "string option"

record manifest =
  mf_id :: string
  mf_name :: string
  mf_version :: string
  mf_description :: "string option"
  mf_dependencies :: "string list"
  mf_optional :: "string list option"
  mf_permissions :: "permission_def list"
  mf_migrations :: "migration_def list"
  mf_sync :: "sync_policy_def list option"
  mf_navigation :: "navigation_item list option"
  mf_pruning :: "pruning_def list option"

section \<open>Checks before the walk\<close>

fun check_ids :: "manifest list \<Rightarrow> string list \<Rightarrow> js_error + unit" where
  "check_ids [] seen = Inr ()"
| "check_ids (m # ms) seen = (if mf_id m \<in> set seen
     then Inl (raise ValidationError (''Duplicate feature ID '' @ quoted (mf_id m) @ '' detected.''))
     else check_ids ms (mf_id m # seen))"

text \<open>\<open>if (owner)\<close>: an owner with an empty id does not count.\<close>

fun check_permissions :: "(string \<times> string) list \<Rightarrow> (string \<times> string) list \<Rightarrow> js_error + unit" where
  "check_permissions [] owners = Inr ()"
| "check_permissions ((p, i) # ps) owners = (case assoc_get p owners of
       Some owner \<Rightarrow> if owner \<noteq> []
         then Inl (raise ValidationError (''Permission '' @ quoted p @ '' is declared by both '' @ quoted owner @ '' and '' @ quoted i @ ''.''))
         else check_permissions ps (assoc_set p i owners)
     | None \<Rightarrow> check_permissions ps (assoc_set p i owners))"

definition declared_permissions :: "manifest list \<Rightarrow> (string \<times> string) list" where
  "declared_permissions ms = concat (map (\<lambda>m. map (\<lambda>p. (pd_name p, mf_id m)) (mf_permissions m)) ms)"

definition find_manifest :: "manifest list \<Rightarrow> string \<Rightarrow> manifest option" where
  "find_manifest ms i = find_first (\<lambda>m. mf_id m = i) ms"

definition check_dependencies :: "manifest list \<Rightarrow> js_error + unit" where
  "check_dependencies ms =
     (case find_first (\<lambda>(i, d). find_manifest ms d = None)
         (concat (map (\<lambda>m. map (\<lambda>d. (mf_id m, d)) (mf_dependencies m)) ms)) of
        None \<Rightarrow> Inr ()
      | Some (i, d) \<Rightarrow> Inl (raise ValidationError (''Feature '' @ quoted i @ '' requires missing dependency '' @ quoted d @ ''.'')))"

section \<open>The walk\<close>

datatype visit = Visiting | Visited

record frame =
  fr_id :: string
  fr_deps :: "string list"
  fr_next :: nat

record walk_state =
  wk_visited :: "string \<rightharpoonup> visit"
  wk_order :: "manifest list"
  wk_path :: "string list"
  wk_stack :: "frame list"

definition deps_of :: "manifest list \<Rightarrow> manifest \<Rightarrow> string list" where
  "deps_of ms m = mf_dependencies m @
     filter (\<lambda>i. find_manifest ms i \<noteq> None) (case mf_optional m of None \<Rightarrow> [] | Some ids \<Rightarrow> ids)"

definition open_frame :: "manifest list \<Rightarrow> manifest \<Rightarrow> frame" where
  "open_frame ms m = \<lparr>fr_id = mf_id m, fr_deps = deps_of ms m, fr_next = 0\<rparr>"

definition cycle_error :: "string list \<Rightarrow> string \<Rightarrow> js_error" where
  "cycle_error path d = raise ValidationError (''Circular dependency detected in feature graph: '' @
     join_with '' -> '' (dropWhile (\<lambda>i. i \<noteq> d) path @ [d]))"

definition undefined_error :: js_error where
  "undefined_error = raise TypeError ''Cannot read properties of undefined''"

definition unvisited :: "manifest list \<Rightarrow> walk_state \<Rightarrow> nat" where
  "unvisited ms w = card {i \<in> mf_id ` set ms. wk_visited w i = None}"

definition left_over :: "walk_state \<Rightarrow> nat" where
  "left_over w = sum_list (map (\<lambda>f. length (fr_deps f) - fr_next f) (wk_stack w))"

lemma find_manifest_Some: "find_manifest ms i = Some m \<Longrightarrow> m \<in> set ms \<and> mf_id m = i"
  unfolding find_manifest_def by (drule find_first_SomeD) simp

lemma find_manifest_None: "find_manifest ms i = None \<longleftrightarrow> i \<notin> mf_id ` set ms"
  by (auto simp: find_manifest_def find_first_None)

text \<open>The top of the stack comes first.\<close>

function walk :: "manifest list \<Rightarrow> walk_state \<Rightarrow> js_error + walk_state" where
  "walk ms w = (case wk_stack w of
     [] \<Rightarrow> Inr w
   | f # rest \<Rightarrow>
       if fr_next f < length (fr_deps f) then
         let d = fr_deps f ! fr_next f; f' = f\<lparr>fr_next := Suc (fr_next f)\<rparr> in
         (case wk_visited w d of
            Some Visiting \<Rightarrow> Inl (cycle_error (wk_path w) d)
          | Some Visited \<Rightarrow> walk ms (w\<lparr>wk_stack := f' # rest\<rparr>)
          | None \<Rightarrow> (case find_manifest ms d of
              None \<Rightarrow> Inl undefined_error
            | Some m \<Rightarrow> walk ms (w\<lparr>wk_visited := (wk_visited w)(d \<mapsto> Visiting), wk_path := wk_path w @ [d],
                wk_stack := open_frame ms m # f' # rest\<rparr>)))
       else (case find_manifest ms (fr_id f) of
           None \<Rightarrow> Inl undefined_error
         | Some m \<Rightarrow> walk ms (w\<lparr>wk_visited := (wk_visited w)(fr_id f \<mapsto> Visited), wk_order := wk_order w @ [m],
             wk_path := butlast (wk_path w), wk_stack := rest\<rparr>)))"
  by pat_completeness auto

termination
proof (relation "measures [\<lambda>(ms, w). unvisited ms w, \<lambda>(ms, w). left_over w, \<lambda>(ms, w). length (wk_stack w)]", goal_cases)
  case 1
  then show ?case by simp
next
  case (2 ms w f rest d f' m)
  have "{i \<in> mf_id ` set ms. ((wk_visited w)(d \<mapsto> Visiting)) i = None} \<subset> {i \<in> mf_id ` set ms. wk_visited w i = None}"
    using find_manifest_Some [OF \<open>find_manifest ms d = Some m\<close>] \<open>wk_visited w d = None\<close> by auto
  then have "card {i \<in> mf_id ` set ms. ((wk_visited w)(d \<mapsto> Visiting)) i = None} < card {i \<in> mf_id ` set ms. wk_visited w i = None}"
    by (intro psubset_card_mono) auto
  then show ?case by (simp add: unvisited_def 2 del: fun_upd_apply)
next
  case (3 ms w f rest d f')
  then show ?case by (simp add: unvisited_def left_over_def)
next
  case (4 ms w f rest m)
  have "{i \<in> mf_id ` set ms. ((wk_visited w)(fr_id f \<mapsto> Visited)) i = None} \<subseteq> {i \<in> mf_id ` set ms. wk_visited w i = None}" by auto
  then have "card {i \<in> mf_id ` set ms. ((wk_visited w)(fr_id f \<mapsto> Visited)) i = None} \<le> card {i \<in> mf_id ` set ms. wk_visited w i = None}"
    by (intro card_mono) auto
  then show ?case using 4 by (auto simp: unvisited_def left_over_def simp del: fun_upd_apply)
qed

declare walk.simps [simp del]

definition start_walk :: "manifest list \<Rightarrow> manifest \<Rightarrow> (string \<rightharpoonup> visit) \<Rightarrow> manifest list \<Rightarrow> walk_state" where
  "start_walk ms m visited order = \<lparr>wk_visited = visited(mf_id m \<mapsto> Visiting), wk_order = order, wk_path = [mf_id m],
     wk_stack = [open_frame ms m]\<rparr>"

fun walk_all :: "manifest list \<Rightarrow> manifest list \<Rightarrow> (string \<rightharpoonup> visit) \<Rightarrow> manifest list \<Rightarrow> js_error + manifest list" where
  "walk_all ms [] visited order = Inr order"
| "walk_all ms (m # todo) visited order = (if visited (mf_id m) \<noteq> None then walk_all ms todo visited order
     else case walk ms (start_walk ms m visited order) of
       Inl e \<Rightarrow> Inl e
     | Inr w \<Rightarrow> walk_all ms todo (wk_visited w) (wk_order w))"

section \<open>The resolver\<close>

record resolved =
  rs_manifests :: "manifest list"
  rs_migrations :: "(string \<times> migration_def) list"

definition ordered_migrations :: "manifest list \<Rightarrow> (string \<times> migration_def) list" where
  "ordered_migrations order = concat (map (\<lambda>m. map (\<lambda>g. (mf_id m, g)) (sort_key mg_version (mf_migrations m))) order)"

definition resolve :: "manifest list \<Rightarrow> js_error + resolved" where
  "resolve ms = (case check_ids ms [] of Inl e \<Rightarrow> Inl e | Inr _ \<Rightarrow>
     (case check_permissions (declared_permissions ms) [] of Inl e \<Rightarrow> Inl e | Inr _ \<Rightarrow>
     (case check_dependencies ms of Inl e \<Rightarrow> Inl e | Inr _ \<Rightarrow>
     (case walk_all ms ms Map.empty [] of Inl e \<Rightarrow> Inl e | Inr order \<Rightarrow>
        Inr \<lparr>rs_manifests = order, rs_migrations = ordered_migrations order\<rparr>))))"

section \<open>The invariant of the walk\<close>

definition depends :: "manifest list \<Rightarrow> (string \<times> string) set" where
  "depends ms = {(a, b). \<exists>m. find_manifest ms a = Some m \<and> b \<in> set (deps_of ms m)}"

definition in_order :: "manifest list \<Rightarrow> manifest list \<Rightarrow> bool" where
  "in_order ms order \<longleftrightarrow> (\<forall>before m after. order = before @ m # after \<longrightarrow> set (deps_of ms m) \<subseteq> mf_id ` set before)"

text \<open>Below the frame of \<open>up\<close>, every frame has walked its dependencies up to \<open>up\<close>.\<close>

fun frames_ok :: "manifest list \<Rightarrow> string set \<Rightarrow> string option \<Rightarrow> frame list \<Rightarrow> bool" where
  "frames_ok ms fin up [] = True"
| "frames_ok ms fin up (f # fs) = ((\<exists>m. find_manifest ms (fr_id f) = Some m \<and> fr_deps f = deps_of ms m) \<and>
     set (take (fr_next f) (fr_deps f)) \<subseteq> fin \<union> set_option up \<and>
     set_option up \<subseteq> set (fr_deps f) \<and>
     frames_ok ms fin (Some (fr_id f)) fs)"

definition walked :: "walk_state \<Rightarrow> string set" where
  "walked w = {i. wk_visited w i = Some Visited}"

definition walk_ok :: "manifest list \<Rightarrow> walk_state \<Rightarrow> bool" where
  "walk_ok ms w \<longleftrightarrow> distinct (map fr_id (wk_stack w)) \<and>
     {i. wk_visited w i = Some Visiting} = fr_id ` set (wk_stack w) \<and>
     walked w = mf_id ` set (wk_order w) \<and>
     distinct (map mf_id (wk_order w)) \<and> set (wk_order w) \<subseteq> set ms \<and> in_order ms (wk_order w) \<and>
     frames_ok ms (walked w) None (wk_stack w)"

definition deps_closed :: "manifest list \<Rightarrow> bool" where
  "deps_closed ms \<longleftrightarrow> (\<forall>m \<in> set ms. set (deps_of ms m) \<subseteq> mf_id ` set ms)"

lemma frames_ok_mono: "frames_ok ms fin up fs \<Longrightarrow> fin \<subseteq> fin' \<Longrightarrow> set_option up' \<subseteq> set_option up \<Longrightarrow>
    set_option up \<subseteq> fin' \<union> set_option up' \<Longrightarrow> frames_ok ms fin' up' fs"
  by (induction fs arbitrary: up up') fastforce+

lemma frames_reach:
  "frames_ok ms fin up (f # fs) \<Longrightarrow> g \<in> set (f # fs) \<Longrightarrow> (fr_id g, fr_id f) \<in> (depends ms)\<^sup>*"
proof (induction fs arbitrary: up f)
  case (Cons h fs)
  show ?case
  proof (cases "g = f")
    case False
    then have "(fr_id g, fr_id h) \<in> (depends ms)\<^sup>*"
      using Cons.IH [of "Some (fr_id f)" h] Cons.prems by simp
    moreover have "(fr_id h, fr_id f) \<in> depends ms" using Cons.prems by (auto simp: depends_def)
    ultimately show ?thesis by (rule rtrancl_into_rtrancl)
  qed simp
qed simp

lemma in_order_snoc: "in_order ms order \<Longrightarrow> set (deps_of ms m) \<subseteq> mf_id ` set order \<Longrightarrow> in_order ms (order @ [m])"
  unfolding in_order_def by (auto simp: append_eq_append_conv2 append_eq_Cons_conv Cons_eq_append_conv)

lemma in_order_acyclic:
  assumes order: "in_order ms order" "distinct (map mf_id order)"
    and all: "\<And>m. m \<in> set ms \<Longrightarrow> m \<in> set order"
  shows "acyclic (depends ms)"
proof -
  define pos where "pos i = length (takeWhile (\<lambda>m. mf_id m \<noteq> i) order)" for i
  have "pos b < pos a" if edge: "(a, b) \<in> depends ms" for a b
  proof -
    obtain m where m: "find_manifest ms a = Some m" "b \<in> set (deps_of ms m)" using edge by (auto simp: depends_def)
    then have "m \<in> set order" "mf_id m = a" using find_manifest_Some all by blast+
    then obtain xs ys where split: "order = xs @ m # ys" by (meson split_list)
    then have b: "b \<in> mf_id ` set xs" using order(1) m(2) by (auto simp: in_order_def)
    have a: "a \<notin> mf_id ` set xs" using order(2) \<open>mf_id m = a\<close> by (auto simp: split)
    then have "pos a = length xs" using \<open>mf_id m = a\<close> unfolding pos_def split
      by (subst takeWhile_append2) (auto simp: image_iff)
    moreover have "pos b < length xs"
    proof -
      have "takeWhile (\<lambda>m. mf_id m \<noteq> b) order = takeWhile (\<lambda>m. mf_id m \<noteq> b) xs"
        using b unfolding split by (auto intro!: takeWhile_append1)
      moreover have "takeWhile (\<lambda>m. mf_id m \<noteq> b) xs \<noteq> xs" using b by (auto simp: takeWhile_eq_all_conv)
      ultimately show ?thesis unfolding pos_def
        by (metis length_takeWhile_le le_neq_implies_less takeWhile_eq_take take_all_iff order_refl)
    qed
    ultimately show ?thesis by simp
  qed
  then have "(depends ms)\<inverse> \<subseteq> measure pos" by auto
  then have "wf ((depends ms)\<inverse>)" using wf_subset wf_measure by blast
  then show ?thesis using wf_acyclic acyclic_converse by blast
qed

lemma walk_ok_step:
  assumes ok: "walk_ok ms w" and stack: "wk_stack w = f # rest" and nxt: "fr_next f < length (fr_deps f)"
    and d: "d = fr_deps f ! fr_next f" and f': "f' = f\<lparr>fr_next := Suc (fr_next f)\<rparr>"
  shows "wk_visited w d = Some Visited \<Longrightarrow> walk_ok ms (w\<lparr>wk_stack := f' # rest\<rparr>)"
    and "wk_visited w d = None \<Longrightarrow> find_manifest ms d = Some m \<Longrightarrow>
      walk_ok ms (w\<lparr>wk_visited := (wk_visited w)(d \<mapsto> Visiting), wk_path := p, wk_stack := open_frame ms m # f' # rest\<rparr>)"
    and "wk_visited w d = Some Visiting \<Longrightarrow> \<not> acyclic (depends ms)"
proof -
  have take: "set (take (Suc (fr_next f)) (fr_deps f)) = insert d (set (take (fr_next f) (fr_deps f)))"
    using nxt by (simp add: take_Suc_conv_app_nth d)
  have d_dep: "d \<in> set (fr_deps f)" using nxt by (simp add: d)
  note ok' = ok [unfolded walk_ok_def stack]
  show "walk_ok ms (w\<lparr>wk_stack := f' # rest\<rparr>)" if v: "wk_visited w d = Some Visited"
    using ok' v take by (auto simp: walk_ok_def walked_def f')
  show "walk_ok ms (w\<lparr>wk_visited := (wk_visited w)(d \<mapsto> Visiting), wk_path := p, wk_stack := open_frame ms m # f' # rest\<rparr>)"
    if v: "wk_visited w d = None" and m: "find_manifest ms d = Some m"
  proof -
    have id: "mf_id m = d" using find_manifest_Some [OF m] by simp
    have new: "d \<notin> fr_id ` set (f # rest)" using ok' v by (metis (mono_tags, lifting) mem_Collect_eq option.distinct(1))
    let ?w = "w\<lparr>wk_visited := (wk_visited w)(d \<mapsto> Visiting), wk_path := p, wk_stack := open_frame ms m # f' # rest\<rparr>"
    have same: "walked ?w = walked w" using v by (auto simp: walked_def)
    have visiting: "{i. wk_visited ?w i = Some Visiting} = insert d (fr_id ` set (f # rest))" using ok' by auto
    show ?thesis using ok' new take d_dep m id
      unfolding walk_ok_def same visiting by (auto simp: open_frame_def f')
  qed
  show "\<not> acyclic (depends ms)" if v: "wk_visited w d = Some Visiting"
  proof -
    obtain g where g: "g \<in> set (f # rest)" "fr_id g = d" using ok' v by (metis (mono_tags, lifting) imageE mem_Collect_eq)
    have "frames_ok ms (walked w) None (f # rest)" using ok' by blast
    then have "(d, fr_id f) \<in> (depends ms)\<^sup>*" using frames_reach g by blast
    moreover have "(fr_id f, d) \<in> depends ms" using ok' d_dep by (auto simp: depends_def)
    ultimately have "(d, d) \<in> (depends ms)\<^sup>+" by (rule rtrancl_into_trancl1)
    then show ?thesis unfolding acyclic_def by blast
  qed
qed

lemma walk_ok_pop:
  assumes ok: "walk_ok ms w" and stack: "wk_stack w = f # rest" and nxt: "\<not> fr_next f < length (fr_deps f)"
    and m: "find_manifest ms (fr_id f) = Some m"
  shows "walk_ok ms (w\<lparr>wk_visited := (wk_visited w)(fr_id f \<mapsto> Visited), wk_order := wk_order w @ [m], wk_path := p, wk_stack := rest\<rparr>)"
proof -
  note ok' = ok [unfolded walk_ok_def stack]
  have id: "mf_id m = fr_id f" and ms: "m \<in> set ms" using find_manifest_Some [OF m] by simp_all
  have deps: "set (deps_of ms m) \<subseteq> mf_id ` set (wk_order w)" using ok' nxt m by auto
  have new: "fr_id f \<notin> mf_id ` set (wk_order w)"
  proof -
    have "wk_visited w (fr_id f) = Some Visiting" using ok' by auto
    then have "fr_id f \<notin> walked w" by (simp add: walked_def)
    then show ?thesis using ok' by blast
  qed
  let ?w = "w\<lparr>wk_visited := (wk_visited w)(fr_id f \<mapsto> Visited), wk_order := wk_order w @ [m], wk_path := p, wk_stack := rest\<rparr>"
  have visiting: "{i. wk_visited ?w i = Some Visiting} = fr_id ` set rest"
    using ok' by (auto simp: image_iff split: if_split_asm)
  have fin_set: "walked ?w = insert (fr_id f) (walked w)" by (auto simp: walked_def)
  have frames: "frames_ok ms (insert (fr_id f) (walked w)) None rest"
    using ok' by (auto elim!: frames_ok_mono)
  show ?thesis using ok' id ms deps new frames in_order_snoc [of ms "wk_order w" m]
    unfolding walk_ok_def visiting fin_set by auto
qed

lemma walked_upd:
  "wk_visited w d = None \<Longrightarrow> walked (w\<lparr>wk_visited := (wk_visited w)(d \<mapsto> Visiting)\<rparr>) = walked w"
  "walked (w\<lparr>wk_visited := (wk_visited w)(d \<mapsto> Visited)\<rparr>) = insert d (walked w)"
  "walked (w\<lparr>wk_stack := st\<rparr>) = walked w"
  "walked (w\<lparr>wk_path := p\<rparr>) = walked w"
  "walked (w\<lparr>wk_order := ord\<rparr>) = walked w"
  by (auto simp: walked_def)

lemma walk_correct:
  "walk_ok ms w \<Longrightarrow> deps_closed ms \<Longrightarrow> case walk ms w of
     Inl _ \<Rightarrow> \<not> acyclic (depends ms)
   | Inr w' \<Rightarrow> walk_ok ms w' \<and> wk_stack w' = [] \<and> walked w \<union> fr_id ` set (wk_stack w) \<subseteq> walked w'"
proof (induction ms w rule: walk.induct)
  case (1 ms w)
  show ?case
  proof (cases "wk_stack w")
    case Nil
    then show ?thesis using 1 by (subst walk.simps) simp
  next
    case (Cons f rest)
    show ?thesis
    proof (cases "fr_next f < length (fr_deps f)")
      case True
      let ?d = "fr_deps f ! fr_next f" and ?f = "f\<lparr>fr_next := Suc (fr_next f)\<rparr>"
      note step = walk_ok_step [OF "1.prems"(1) Cons True refl refl]
      show ?thesis
      proof (cases "wk_visited w ?d")
        case None
        have "?d \<in> set (fr_deps f)" using True by simp
        then have "?d \<in> mf_id ` set ms" using "1.prems" Cons find_manifest_Some
          by (fastforce simp: walk_ok_def deps_closed_def)
        then obtain m where m: "find_manifest ms ?d = Some m" using find_manifest_None [of ms ?d] by auto
        then show ?thesis using "1.IH"(1) [OF Cons True refl refl None m step(2) [OF None m] "1.prems"(2)] None True Cons
          by (subst walk.simps) (auto simp: walked_upd Let_def split: sum.splits)
      next
        case (Some v)
        show ?thesis
        proof (cases v)
          case Visiting
          then have "wk_visited w ?d = Some Visiting" using Some by simp
          then show ?thesis using step(3) True Cons by (subst walk.simps) (simp add: Let_def)
        next
          case Visited
          then have d: "wk_visited w ?d = Some Visited" using Some by simp
          show ?thesis using "1.IH"(2) [OF Cons True refl refl d refl step(1) [OF d] "1.prems"(2)] d True Cons
            by (subst walk.simps) (auto simp: walked_upd Let_def split: sum.splits)
        qed
      qed
    next
      case False
      obtain m where m: "find_manifest ms (fr_id f) = Some m" using "1.prems" Cons by (auto simp: walk_ok_def)
      show ?thesis using "1.IH"(3) [OF Cons False m walk_ok_pop [OF "1.prems"(1) Cons False m] "1.prems"(2)] m False Cons
        by (subst walk.simps) (auto simp: walked_upd split: sum.splits)
    qed
  qed
qed

lemma walked_start: "visited (mf_id m) = None \<Longrightarrow> walked (start_walk ms m visited order) = {i. visited i = Some Visited}"
  by (auto simp: walked_def start_walk_def)

lemma walk_ok_start:
  assumes ok: "walk_ok ms \<lparr>wk_visited = visited, wk_order = order, wk_path = p, wk_stack = []\<rparr>"
    and m: "m \<in> set ms" "distinct (map mf_id ms)" "visited (mf_id m) = None"
  shows "walk_ok ms (start_walk ms m visited order)"
proof -
  have find: "find_manifest ms (mf_id m) = Some m"
    using m(1,2) unfolding find_manifest_def by (induction ms) (auto simp: image_iff)
  have "walked (start_walk ms m visited order) = {i. visited i = Some Visited}"
    using m(3) by (rule walked_start)
  moreover have "{i. wk_visited (start_walk ms m visited order) i = Some Visiting} = {mf_id m}"
    using ok by (auto simp: walk_ok_def start_walk_def)
  ultimately show ?thesis using ok find
    unfolding walk_ok_def by (auto simp: start_walk_def open_frame_def walked_def)
qed

lemma walk_all_correct:
  assumes closed: "deps_closed ms" and ids: "distinct (map mf_id ms)"
  shows "walk_ok ms \<lparr>wk_visited = visited, wk_order = order, wk_path = [], wk_stack = []\<rparr> \<Longrightarrow> set todo \<subseteq> set ms \<Longrightarrow>
    case walk_all ms todo visited order of Inl _ \<Rightarrow> \<not> acyclic (depends ms)
    | Inr order' \<Rightarrow> in_order ms order' \<and> distinct (map mf_id order') \<and> set order' \<subseteq> set ms \<and>
        mf_id ` set todo \<union> {i. visited i = Some Visited} \<subseteq> mf_id ` set order'"
proof (induction todo arbitrary: visited order)
  case Nil
  then show ?case by (auto simp: walk_ok_def walked_def)
next
  case (Cons m todo)
  show ?case
  proof (cases "visited (mf_id m)")
    case None
    have start: "walk_ok ms (start_walk ms m visited order)"
      using walk_ok_start [OF Cons.prems(1) _ ids None] Cons.prems(2) by simp
    show ?thesis
    proof (cases "walk ms (start_walk ms m visited order)")
      case (Inl e)
      then show ?thesis using walk_correct [OF start closed] None by simp
    next
      case (Inr w)
      then have w: "walk_ok ms w" "wk_stack w = []" "insert (mf_id m) {i. visited i = Some Visited} \<subseteq> walked w"
        using walk_correct [OF start closed] unfolding walked_start [of visited m, OF None]
        by (simp_all add: start_walk_def open_frame_def)
      have "walk_ok ms \<lparr>wk_visited = wk_visited w, wk_order = wk_order w, wk_path = [], wk_stack = []\<rparr>"
        using w by (simp add: walk_ok_def walked_def)
      from Cons.IH [OF this] Cons.prems(2) w(3) Inr None show ?thesis
        by (auto simp: walked_def split: sum.splits)
    qed
  next
    case (Some v)
    then have "v = Visited" using Cons.prems(1) by (cases v) (auto simp: walk_ok_def)
    then show ?thesis using Cons.IH [OF Cons.prems(1)] Cons.prems(2) Some by (auto split: sum.splits)
  qed
qed

section \<open>What the checks let through\<close>

lemma check_ids_Inr: "check_ids ms seen = Inr () \<longleftrightarrow> distinct (map mf_id ms) \<and> mf_id ` set ms \<inter> set seen = {}"
  by (induction ms seen rule: check_ids.induct) (auto simp: image_iff)

lemma assoc_set_subset: "set (assoc_set k v m) \<subseteq> insert (k, v) (set m)"
  by (induction m) (auto split: if_split_asm)

lemma check_permissions_Inr:
  "(\<forall>(p, i) \<in> set owners. i \<noteq> []) \<Longrightarrow> (\<forall>(p, i) \<in> set ps. i \<noteq> []) \<Longrightarrow>
   check_permissions ps owners = Inr () \<longleftrightarrow> distinct (map fst ps) \<and> fst ` set ps \<inter> fst ` set owners = {}"
proof (induction ps owners rule: check_permissions.induct)
  case (2 p i ps owners)
  show ?case
  proof (cases "assoc_get p owners")
    case None
    then have "\<forall>(q, j) \<in> set (assoc_set p i owners). j \<noteq> []"
      using "2.prems" assoc_set_subset [of p i owners] by fastforce
    moreover have "p \<notin> fst ` set owners" using None by (simp add: assoc_get_None)
    moreover have "check_permissions ((p, i) # ps) owners = check_permissions ps (assoc_set p i owners)" using None by simp
    moreover have "\<forall>(q, j) \<in> set ps. j \<noteq> []" using "2.prems"(2) by simp
    ultimately have "check_permissions ((p, i) # ps) owners = Inr () \<longleftrightarrow>
        distinct (map fst ps) \<and> fst ` set ps \<inter> insert p (fst ` set owners) = {}"
      using "2.IH"(1) [OF None] by (simp only: assoc_set_keys)
    then show ?thesis using \<open>p \<notin> fst ` set owners\<close>
      by (simp only: list.map distinct.simps list.set fst_conv image_insert set_map) blast
  next
    case (Some owner)
    then have "(p, owner) \<in> set owners" by (rule assoc_get_SomeD)
    then have owner: "owner \<noteq> []" "p \<in> fst ` set owners" using "2.prems"(1) by (blast, force)
    then have "check_permissions ((p, i) # ps) owners \<noteq> Inr ()" using Some by simp
    then show ?thesis using owner(2) by (simp only: list.set image_insert fst_conv) blast
  qed
qed simp

lemma check_dependencies_Inr: "check_dependencies ms = Inr () \<longleftrightarrow>
    (\<forall>m \<in> set ms. set (mf_dependencies m) \<subseteq> mf_id ` set ms)"
proof -
  have "check_dependencies ms = Inr () \<longleftrightarrow> find_first (\<lambda>(i, d). find_manifest ms d = None)
      (concat (map (\<lambda>m. map (\<lambda>d. (mf_id m, d)) (mf_dependencies m)) ms)) = None"
    by (simp add: check_dependencies_def split: option.split)
  also have "\<dots> \<longleftrightarrow> (\<forall>m \<in> set ms. set (mf_dependencies m) \<subseteq> mf_id ` set ms)"
    unfolding find_first_None find_manifest_None by auto
  finally show ?thesis .
qed

lemma check_dependencies_closed: "check_dependencies ms = Inr () \<Longrightarrow> deps_closed ms"
  by (auto simp: check_dependencies_Inr deps_closed_def deps_of_def find_manifest_None)

lemma mset_eq_ids: "distinct (map mf_id xs) \<Longrightarrow> distinct (map mf_id ys) \<Longrightarrow> set xs \<subseteq> set ys \<Longrightarrow>
    mf_id ` set ys \<subseteq> mf_id ` set xs \<Longrightarrow> mset xs = mset ys"
proof -
  assume a: "distinct (map mf_id xs)" "distinct (map mf_id ys)" "set xs \<subseteq> set ys" "mf_id ` set ys \<subseteq> mf_id ` set xs"
  have "inj_on mf_id (set ys)" using a(2) by (simp add: distinct_map)
  have "x \<in> set xs" if x: "x \<in> set ys" for x
  proof -
    obtain y where "y \<in> set xs" "mf_id y = mf_id x" using a(4) x by (metis imageE image_eqI subsetD)
    then show ?thesis using inj_onD [OF \<open>inj_on mf_id (set ys)\<close>] a(3) x by blast
  qed
  then have "set ys \<subseteq> set xs" by blast
  then have "set xs = set ys" using a(3) by blast
  then show ?thesis using a(1,2) by (simp add: distinct_map set_eq_iff_mset_eq_distinct)
qed

lemma resolve_parts:
  assumes "[] \<notin> mf_id ` set ms"
  shows "(\<exists>g. resolve ms = Inr g) \<longleftrightarrow> distinct (map mf_id ms) \<and> distinct (map fst (declared_permissions ms)) \<and>
      (\<forall>m \<in> set ms. set (mf_dependencies m) \<subseteq> mf_id ` set ms) \<and> (\<exists>order. walk_all ms ms Map.empty [] = Inr order)"
proof -
  have "\<forall>(p, i) \<in> set (declared_permissions ms). i \<noteq> []" using assms by (force simp: declared_permissions_def)
  then have "check_permissions (declared_permissions ms) [] = Inr () \<longleftrightarrow> distinct (map fst (declared_permissions ms))"
    by (subst check_permissions_Inr) simp_all
  moreover have "check_ids ms [] = Inr () \<longleftrightarrow> distinct (map mf_id ms)" by (simp add: check_ids_Inr)
  ultimately show ?thesis unfolding resolve_def check_dependencies_Inr [symmetric]
    by (auto split: sum.splits)
qed

lemma empty_walk_ok: "walk_ok ms \<lparr>wk_visited = Map.empty, wk_order = [], wk_path = [], wk_stack = []\<rparr>"
  by (simp add: walk_ok_def walked_def in_order_def)

lemma resolves_iff:
  assumes ids: "[] \<notin> mf_id ` set ms"
  shows "(\<exists>g. resolve ms = Inr g) \<longleftrightarrow> distinct (map mf_id ms) \<and> distinct (map fst (declared_permissions ms)) \<and>
    (\<forall>m \<in> set ms. set (mf_dependencies m) \<subseteq> mf_id ` set ms) \<and> acyclic (depends ms)"
proof -
  have "(\<exists>order. walk_all ms ms Map.empty [] = Inr order) \<longleftrightarrow> acyclic (depends ms)"
    if d: "distinct (map mf_id ms)" and c: "check_dependencies ms = Inr ()"
  proof -
    note W = walk_all_correct [OF check_dependencies_closed [OF c] d empty_walk_ok subset_refl]
    show ?thesis
    proof (cases "walk_all ms ms Map.empty []")
      case (Inr order)
      then have o: "in_order ms order" "distinct (map mf_id order)" "set order \<subseteq> set ms" "mf_id ` set ms \<subseteq> mf_id ` set order"
        using W by simp_all
      have "mset order = mset ms" by (rule mset_eq_ids [OF o(2) d o(3,4)])
      then have "set order = set ms" by (metis set_mset_mset)
      then show ?thesis using in_order_acyclic [OF o(1,2)] Inr by simp
    qed (use W in simp)
  qed
  then show ?thesis unfolding resolve_parts [OF ids] check_dependencies_Inr by blast
qed

lemma resolved_order:
  assumes run: "resolve ms = Inr g"
  shows "mset (rs_manifests g) = mset ms \<and> in_order ms (rs_manifests g) \<and> rs_migrations g = ordered_migrations (rs_manifests g)"
proof -
  have d: "distinct (map mf_id ms)" and c: "check_dependencies ms = Inr ()"
    and w: "walk_all ms ms Map.empty [] = Inr (rs_manifests g)" and mg: "rs_migrations g = ordered_migrations (rs_manifests g)"
    using run check_ids_Inr [of ms "[]"] by (auto simp: resolve_def split: sum.splits)
  have o: "in_order ms (rs_manifests g)" "distinct (map mf_id (rs_manifests g))" "set (rs_manifests g) \<subseteq> set ms"
    "mf_id ` set ms \<subseteq> mf_id ` set (rs_manifests g)"
    using walk_all_correct [OF check_dependencies_closed [OF c] d empty_walk_ok subset_refl] w by simp_all
  show ?thesis using mset_eq_ids [OF o(2) d o(3,4)] o(1) mg by blast
qed

text \<open>C25. The resolver always answers, and when no id is empty, as the validator ensures, it answers with an order exactly when there is one: the ids are distinct, no
  permission is declared twice, every required dependency is present and the dependencies, required
  or optional and present, have no cycle.\<close>

theorem resolution_exact:
  assumes ids: "[] \<notin> mf_id ` set ms"
  shows "(\<exists>g. resolve ms = Inr g) \<longleftrightarrow> distinct (map mf_id ms) \<and> distinct (map fst (declared_permissions ms)) \<and>
    (\<forall>m \<in> set ms. set (mf_dependencies m) \<subseteq> mf_id ` set ms) \<and> acyclic (depends ms)"
  using resolves_iff [OF ids] .

text \<open>The order the resolver returns is a rearrangement of the features in which every feature comes after all
  its dependencies, required or optional and present, and the migrations follow it, each feature's
  together and by ascending version.\<close>

theorem resolution_order:
  assumes run: "resolve ms = Inr g"
  shows "mset (rs_manifests g) = mset ms \<and>
    (\<forall>before m after. rs_manifests g = before @ m # after \<longrightarrow> set (deps_of ms m) \<subseteq> mf_id ` set before) \<and>
    map snd (rs_migrations g) = concat (map (\<lambda>m. sort_key mg_version (mf_migrations m)) (rs_manifests g)) \<and>
    mset (rs_migrations g) = mset (concat (map (\<lambda>m. map (Pair (mf_id m)) (mf_migrations m)) (rs_manifests g)))"
proof -
  have "map snd (ordered_migrations order) = concat (map (\<lambda>m. sort_key mg_version (mf_migrations m)) order)"
    "mset (ordered_migrations order) = mset (concat (map (\<lambda>m. map (Pair (mf_id m)) (mf_migrations m)) order))" for order
    by (induction order) (simp_all add: ordered_migrations_def comp_def)
  then show ?thesis using resolved_order [OF run] unfolding in_order_def by simp
qed

section \<open>An example\<close>

definition bare_manifest :: "string \<Rightarrow> string list \<Rightarrow> string list \<Rightarrow> manifest" where
  "bare_manifest i deps optional = \<lparr>mf_id = i, mf_name = i, mf_version = ''1.0.0'', mf_description = None, mf_dependencies = deps,
     mf_optional = Some optional, mf_permissions = [\<lparr>pd_name = i @ ''.read'', pd_description = []\<rparr>],
     mf_migrations = [\<lparr>mg_version = 2, mg_name = ''b'', mg_sql = [], mg_checksum = []\<rparr>,
       \<lparr>mg_version = 1, mg_name = ''a'', mg_sql = [], mg_checksum = []\<rparr>],
     mf_sync = None, mf_navigation = None, mf_pruning = None\<rparr>"

definition sample_features :: "manifest list" where
  "sample_features = [bare_manifest ''app'' [''base''] [''extra'', ''gone''], bare_manifest ''base'' [] [], bare_manifest ''extra'' [''base''] []]"

definition cyclic_features :: "manifest list" where
  "cyclic_features = [bare_manifest ''a'' [''b''] [], bare_manifest ''b'' [] [''a'']]"

lemma sample_resolved: "map mf_id (case resolve sample_features of Inr g \<Rightarrow> rs_manifests g | Inl _ \<Rightarrow> []) = [''base'', ''extra'', ''app'']"
  "resolve sample_features = Inr (case resolve sample_features of Inr g \<Rightarrow> g | Inl _ \<Rightarrow> undefined)"
  "isl (resolve cyclic_features)"
proof -
  show "map mf_id (case resolve sample_features of Inr g \<Rightarrow> rs_manifests g | Inl _ \<Rightarrow> []) = [''base'', ''extra'', ''app'']" by code_simp
  then show "resolve sample_features = Inr (case resolve sample_features of Inr g \<Rightarrow> g | Inl _ \<Rightarrow> undefined)" by (simp split: sum.splits)
  show "isl (resolve cyclic_features)" by code_simp
qed

lemma resolution_exact_witness: "acyclic (depends sample_features) \<and> \<not> acyclic (depends cyclic_features)"
proof -
  have ids: "[] \<notin> mf_id ` set sample_features" "[] \<notin> mf_id ` set cyclic_features"
    by (simp_all add: sample_features_def cyclic_features_def bare_manifest_def)
  have "distinct (map mf_id cyclic_features)" "distinct (map fst (declared_permissions cyclic_features))"
    "\<forall>m \<in> set cyclic_features. set (mf_dependencies m) \<subseteq> mf_id ` set cyclic_features" by code_simp+
  then show ?thesis
    using resolution_exact [OF ids(1)] resolution_exact [OF ids(2)] sample_resolved(2,3) by (metis isl_def sum.disc(2))
qed

lemma resolution_order_witness:
  "mset (map mf_id (rs_manifests (case resolve sample_features of Inr g \<Rightarrow> g | Inl _ \<Rightarrow> undefined))) = {#''app'', ''base'', ''extra''#}"
proof -
  have "mset (rs_manifests (case resolve sample_features of Inr g \<Rightarrow> g | Inl _ \<Rightarrow> undefined)) = mset sample_features"
    using resolution_order [OF sample_resolved(2)] by (rule conjunct1)
  then have "mset (map mf_id (rs_manifests (case resolve sample_features of Inr g \<Rightarrow> g | Inl _ \<Rightarrow> undefined))) = image_mset mf_id (mset sample_features)"
    by simp
  then show ?thesis by (simp add: sample_features_def bare_manifest_def)
qed

end
