(* ===== verification/Manifests.thy ===== *)
theory Manifests
  imports Feature_Graph Json
begin

text \<open>
  \<open>feature-system/src/manifest/ManifestValidator.ts\<close>: what a feature manifest must be to enter the
  registry.  The value is JSON (the manifests are declarative data); a missing key is \<open>undefined\<close>.
  \<open>manifest_of\<close> reads the fields of a value of the right shape.
\<close>

section \<open>Regular expressions\<close>

definition lower_dec_re :: regex where "lower_dec_re = Sym (\<lambda>c. is_lower c \<or> is_dec c)"

text \<open>\<open>/^[a-z0-9]+(-[a-z0-9]+)*$/\<close>\<close>

definition id_re :: regex where
  "id_re = seq [some lower_dec_re, Rep (Cat (lit ''-'') (some lower_dec_re))]"

text \<open>\<open>/^[a-z0-9_-]+\.[a-z0-9_.-]+$/\<close>\<close>

definition permission_re :: regex where
  "permission_re = seq [some (Sym (\<lambda>c. is_lower c \<or> is_dec c \<or> c = CHR ''_'' \<or> c = CHR ''-'')), lit ''.'',
     some (Sym (\<lambda>c. is_lower c \<or> is_dec c \<or> c = CHR ''_'' \<or> c = CHR ''.'' \<or> c = CHR ''-''))]"

text \<open>\<open>/^\d+\.\d+\.\d+(-[0-9A-Za-z.-]+)?$/\<close>\<close>

definition semver_re :: regex where
  "semver_re = seq [some dec_re, lit ''.'', some dec_re, lit ''.'', some dec_re,
     opt (Cat (lit ''-'') (some (Sym (\<lambda>c. is_dec c \<or> is_upper c \<or> is_lower c \<or> c = CHR ''.'' \<or> c = CHR ''-''))))]"

text \<open>\<open>/^(?:\{(?:application|organisation|syncGroup)\}|[a-zA-Z0-9_-]+)$/\<close>\<close>

definition segment_re :: regex where
  "segment_re = one_of [seq [lit ''{'', one_of [lit ''application'', lit ''organisation'', lit ''syncGroup''], lit ''}''],
     some (Sym (\<lambda>c. is_word_char c \<or> c = CHR ''-''))]"

text \<open>\<open>/^[a-z][a-z0-9_]*$/\<close> and \<open>/^[a-zA-Z0-9_]+$/\<close>\<close>

definition entity_re :: regex where
  "entity_re = Cat (Sym is_lower) (Rep (Sym (\<lambda>c. is_lower c \<or> is_dec c \<or> c = CHR ''_'')))"

definition identifier_re :: regex where
  "identifier_re = some (Sym is_word_char)"

definition conflict_strategies :: "string list" where
  "conflict_strategies = [''lww'', ''append-only'', ''additive'', ''manual'', ''immutable'', ''crdt'']"

section \<open>The structure\<close>

fun prop_of :: "string \<Rightarrow> json \<Rightarrow> json option" where
  "prop_of k (JObj m) = assoc_get k m"
| "prop_of k _ = None"

fun isRecord :: "json \<Rightarrow> bool" where
  "isRecord (JObj m) = True"
| "isRecord _ = False"

fun is_string :: "json \<Rightarrow> bool" where
  "is_string (JStr s) = True"
| "is_string _ = False"

fun is_number :: "json \<Rightarrow> bool" where
  "is_number (JNum q) = True"
| "is_number _ = False"

fun is_boolean :: "json \<Rightarrow> bool" where
  "is_boolean (JBool b) = True"
| "is_boolean _ = False"

fun is_array_of :: "(json \<Rightarrow> bool) \<Rightarrow> json \<Rightarrow> bool" where
  "is_array_of p (JArr vs) = list_all p vs"
| "is_array_of p _ = False"

definition needs :: "string \<Rightarrow> (json \<Rightarrow> bool) \<Rightarrow> json \<Rightarrow> bool" where
  "needs k p v = (case prop_of k v of None \<Rightarrow> False | Some x \<Rightarrow> p x)"

definition allows :: "string \<Rightarrow> (json \<Rightarrow> bool) \<Rightarrow> json \<Rightarrow> bool" where
  "allows k p v = (case prop_of k v of None \<Rightarrow> True | Some x \<Rightarrow> p x)"

definition permission_shape :: "json \<Rightarrow> bool" where
  "permission_shape v \<longleftrightarrow> isRecord v \<and> needs ''name'' is_string v \<and> needs ''description'' is_string v"

definition migration_shape :: "json \<Rightarrow> bool" where
  "migration_shape v \<longleftrightarrow> isRecord v \<and> needs ''name'' is_string v \<and> needs ''sql'' is_string v \<and>
     needs ''checksum'' is_string v \<and> needs ''version'' is_number v"

definition sync_shape :: "json \<Rightarrow> bool" where
  "sync_shape v \<longleftrightarrow> isRecord v \<and> needs ''entityType'' is_string v \<and> needs ''namespacePattern'' is_string v \<and>
     needs ''syncable'' is_boolean v \<and> needs ''conflictPolicy'' (\<lambda>c. isRecord c \<and> needs ''strategy'' is_string c) v"

definition pruning_shape :: "json \<Rightarrow> bool" where
  "pruning_shape v \<longleftrightarrow> isRecord v \<and> needs ''id'' is_string v \<and> needs ''displayName'' is_string v \<and>
     needs ''tableName'' is_string v \<and> needs ''timestampColumn'' is_string v \<and>
     needs ''defaultRetentionDays'' is_number v \<and> allows ''filterCondition'' is_string v"

definition navigation_shape :: "json \<Rightarrow> bool" where
  "navigation_shape v \<longleftrightarrow> isRecord v \<and> needs ''id'' is_string v \<and> needs ''label'' is_string v \<and> needs ''path'' is_string v \<and>
     allows ''icon'' is_string v \<and> allows ''requiredPermission'' is_string v \<and> allows ''order'' is_number v"

fun first_failure :: "(bool \<times> js_error) list \<Rightarrow> js_error + unit" where
  "first_failure [] = Inr ()"
| "first_failure ((ok, e) # cs) = (if ok then first_failure cs else Inl e)"

definition invalidShape :: "string \<Rightarrow> string \<Rightarrow> js_error" where
  "invalidShape field featureId = raise ValidationError
     (''Feature manifest '' @ quoted featureId @ '' has an invalid or missing '' @ quoted field @ '' field.'')"

definition any_json :: "json \<Rightarrow> bool" where "any_json v = True"

definition validateStructure :: "json \<Rightarrow> js_error + unit" where
  "validateStructure v = (if \<not> isRecord v then Inl (invalidShape ''manifest'' ''unknown'') else
     let e = (\<lambda>field. invalidShape field (case prop_of ''id'' v of Some (JStr i) \<Rightarrow> i | _ \<Rightarrow> ''unknown'')) in
     first_failure
      [(needs ''name'' (\<lambda>x. case x of JStr n \<Rightarrow> trim n \<noteq> [] | _ \<Rightarrow> False) v, e ''name''),
       (needs ''dependencies'' (is_array_of is_string) v, e ''dependencies''),
       (allows ''optionalDependencies'' (is_array_of is_string) v, e ''optionalDependencies''),
       (needs ''permissions'' (is_array_of any_json) v, e ''permissions''),
       (needs ''permissions'' (is_array_of permission_shape) v, e ''permissions[]''),
       (needs ''migrations'' (is_array_of any_json) v, e ''migrations''),
       (needs ''migrations'' (is_array_of migration_shape) v, e ''migrations[]''),
       (allows ''syncPolicies'' (is_array_of any_json) v, e ''syncPolicies''),
       (allows ''syncPolicies'' (is_array_of sync_shape) v, e ''syncPolicies[]''),
       (allows ''pruningPolicies'' (is_array_of any_json) v, e ''pruningPolicies''),
       (allows ''pruningPolicies'' (is_array_of pruning_shape) v, e ''pruningPolicies[]''),
       (allows ''navigation'' (is_array_of any_json) v, e ''navigation''),
       (allows ''navigation'' (is_array_of navigation_shape) v, e ''navigation[]''),
       (allows ''description'' is_string v, e ''description'')])"

section \<open>The fields\<close>

fun str_val_of :: "json option \<Rightarrow> string" where
  "str_val_of (Some (JStr s)) = s"
| "str_val_of _ = []"

fun opt_str :: "json option \<Rightarrow> string option" where
  "opt_str (Some (JStr s)) = Some s"
| "opt_str _ = None"

fun opt_num :: "json option \<Rightarrow> rat option" where
  "opt_num (Some (JNum q)) = Some q"
| "opt_num _ = None"

fun elements :: "json option \<Rightarrow> json list" where
  "elements (Some (JArr vs)) = vs"
| "elements _ = []"

definition opt_elements :: "json option \<Rightarrow> json list option" where
  "opt_elements v = map_option (\<lambda>x. elements (Some x)) v"

text \<open>\<open>String(v)\<close>, for objects without a \<open>toString\<close> of their own.\<close>

fun js_string :: "json \<Rightarrow> string" where
  "js_string JNull = ''null''"
| "js_string (JBool b) = (if b then ''true'' else ''false'')"
| "js_string (JNum q) = num_str q"
| "js_string (JStr s) = s"
| "js_string (JArr vs) = join_with '','' (map (\<lambda>v. if v = JNull then [] else js_string v) vs)"
| "js_string (JObj m) = ''[object Object]''"

definition text_of :: "json option \<Rightarrow> string" where
  "text_of v = (case v of None \<Rightarrow> ''undefined'' | Some x \<Rightarrow> js_string x)"

definition missing :: "json option \<Rightarrow> bool" where
  "missing v = (case v of None \<Rightarrow> True | Some x \<Rightarrow> js_false x)"

definition permission_of :: "json \<Rightarrow> permission_def" where
  "permission_of v = \<lparr>pd_name = str_val_of (prop_of ''name'' v), pd_description = str_val_of (prop_of ''description'' v)\<rparr>"

definition migration_of :: "json \<Rightarrow> migration_def" where
  "migration_of v = \<lparr>mg_version = (case opt_num (prop_of ''version'' v) of None \<Rightarrow> 0 | Some q \<Rightarrow> q),
     mg_name = str_val_of (prop_of ''name'' v), mg_sql = str_val_of (prop_of ''sql'' v),
     mg_checksum = str_val_of (prop_of ''checksum'' v)\<rparr>"

definition sync_of :: "json \<Rightarrow> sync_policy_def" where
  "sync_of v = \<lparr>sp_entity = str_val_of (prop_of ''entityType'' v), sp_namespace = str_val_of (prop_of ''namespacePattern'' v),
     sp_strategy = (case prop_of ''conflictPolicy'' v of None \<Rightarrow> [] | Some c \<Rightarrow> str_val_of (prop_of ''strategy'' c)),
     sp_syncable = (prop_of ''syncable'' v = Some (JBool True))\<rparr>"

definition pruning_of :: "json \<Rightarrow> pruning_def" where
  "pruning_of v = \<lparr>pr_id = str_val_of (prop_of ''id'' v), pr_display = str_val_of (prop_of ''displayName'' v),
     pr_table = str_val_of (prop_of ''tableName'' v), pr_column = str_val_of (prop_of ''timestampColumn'' v),
     pr_days = (case opt_num (prop_of ''defaultRetentionDays'' v) of None \<Rightarrow> 0 | Some q \<Rightarrow> q),
     pr_filter = opt_str (prop_of ''filterCondition'' v)\<rparr>"

definition navigation_of :: "json \<Rightarrow> navigation_item" where
  "navigation_of v = \<lparr>nv_id = str_val_of (prop_of ''id'' v), nv_label = str_val_of (prop_of ''label'' v),
     nv_path = str_val_of (prop_of ''path'' v), nv_icon = opt_str (prop_of ''icon'' v),
     nv_required = opt_str (prop_of ''requiredPermission'' v), nv_order = opt_num (prop_of ''order'' v)\<rparr>"

definition manifest_of :: "json \<Rightarrow> manifest" where
  "manifest_of v = \<lparr>mf_id = text_of (prop_of ''id'' v), mf_name = str_val_of (prop_of ''name'' v),
     mf_version = text_of (prop_of ''version'' v), mf_description = opt_str (prop_of ''description'' v),
     mf_dependencies = map (\<lambda>x. str_val_of (Some x)) (elements (prop_of ''dependencies'' v)),
     mf_optional = map_option (map (\<lambda>x. str_val_of (Some x))) (opt_elements (prop_of ''optionalDependencies'' v)),
     mf_permissions = map permission_of (elements (prop_of ''permissions'' v)),
     mf_migrations = map migration_of (elements (prop_of ''migrations'' v)),
     mf_sync = map_option (map sync_of) (opt_elements (prop_of ''syncPolicies'' v)),
     mf_navigation = map_option (map navigation_of) (opt_elements (prop_of ''navigation'' v)),
     mf_pruning = map_option (map pruning_of) (opt_elements (prop_of ''pruningPolicies'' v))\<rparr>"

section \<open>The rules\<close>

definition in_feature :: "string \<Rightarrow> string \<Rightarrow> string \<Rightarrow> string" where
  "in_feature what name i = what @ quoted name @ '' in feature '' @ quoted i"

definition check_permission_names :: "manifest \<Rightarrow> js_error + unit" where
  "check_permission_names m = first_failure (map (\<lambda>p. (re_test permission_re (pd_name p),
     raise ValidationError (in_feature ''Permission '' (pd_name p) (mf_id m) @
       '' must follow hierarchical dot-notation (e.g. 'inventory.read').''))) (mf_permissions m))"

fun check_versions :: "string \<Rightarrow> migration_def list \<Rightarrow> rat list \<Rightarrow> js_error + unit" where
  "check_versions i [] seen = Inr ()"
| "check_versions i (g # gs) seen =
     (if \<not> is_safe_integer (Fin (mg_version g)) \<or> mg_version g \<le> 0
      then Inl (raise ValidationError (in_feature ''Migration '' (mg_name g) i @ '' has an invalid version '' @
        num_str (mg_version g) @ ''. Versions must be positive integers.''))
      else if mg_version g \<in> set seen
      then Inl (raise ValidationError (''Duplicate migration version '' @ num_str (mg_version g) @
        '' detected in feature '' @ quoted i @ ''.''))
      else check_versions i gs (mg_version g # seen))"

definition required_segments :: "string list" where
  "required_segments = [''{application}'', ''{organisation}'', ''{syncGroup}'']"

fun check_sync :: "string \<Rightarrow> sync_policy_def list \<Rightarrow> string list \<Rightarrow> js_error + unit" where
  "check_sync i [] seen = Inr ()"
| "check_sync i (p # ps) seen =
     (if \<not> re_test entity_re (sp_entity p)
      then Inl (raise ValidationError (''Sync policy in feature '' @ quoted i @ '' has invalid entityType '' @ quoted (sp_entity p) @ ''.''))
      else if sp_entity p \<in> set seen
      then Inl (raise ValidationError (''Duplicate sync policy entityType '' @ quoted (sp_entity p) @ '' in feature '' @ quoted i @ ''.''))
      else if \<not> list_all (re_test segment_re) (split_char (CHR ''/'') (sp_namespace p)) \<or>
        \<not> list_all (\<lambda>r. r \<in> set (split_char (CHR ''/'') (sp_namespace p))) required_segments
      then Inl (raise ValidationError (in_feature ''Sync policy '' (sp_entity p) i @ '' must use safe path segments and include '' @
        join_with '', '' required_segments @ ''.''))
      else if sp_strategy p \<notin> set conflict_strategies
      then Inl (raise ValidationError (in_feature ''Sync policy '' (sp_entity p) i @ '' has an unsupported conflict strategy.''))
      else check_sync i ps (sp_entity p # seen))"

fun check_pruning :: "string \<Rightarrow> pruning_def list \<Rightarrow> string list \<Rightarrow> js_error + unit" where
  "check_pruning i [] seen = Inr ()"
| "check_pruning i (p # ps) seen =
     (if pr_id p = []
      then Inl (raise ValidationError (''Pruning policy in feature '' @ quoted i @ '' must have a valid non-empty id.''))
      else if pr_id p \<in> set seen
      then Inl (raise ValidationError (''Duplicate pruning policy id '' @ quoted (pr_id p) @ '' in feature '' @ quoted i @ ''.''))
      else if \<not> re_test identifier_re (pr_table p)
      then Inl (raise ValidationError (in_feature ''Pruning policy '' (pr_id p) i @ '' has invalid tableName '' @ quoted (pr_table p) @ ''.''))
      else if \<not> re_test identifier_re (pr_column p)
      then Inl (raise ValidationError (in_feature ''Pruning policy '' (pr_id p) i @ '' has invalid timestampColumn '' @ quoted (pr_column p) @ ''.''))
      else if pr_days p \<le> 0
      then Inl (raise ValidationError (in_feature ''Pruning policy '' (pr_id p) i @
        '' must have a positive finite defaultRetentionDays (got '' @ num_str (pr_days p) @ '').''))
      else if (case pr_filter p of None \<Rightarrow> False | Some f \<Rightarrow> f \<noteq> [] \<and> \<not> isSafePruningFilterCondition f)
      then Inl (raise ValidationError (in_feature ''Pruning policy '' (pr_id p) i @
        '' has an unsafe filterCondition. Use a single column comparison with a literal value.''))
      else check_pruning i ps (pr_id p # seen))"

definition and_then :: "js_error + unit \<Rightarrow> js_error + 'a \<Rightarrow> js_error + 'a" where
  "and_then r q = (case r of Inl e \<Rightarrow> Inl e | Inr _ \<Rightarrow> q)"

text \<open>The checks of \<open>conflictPolicy\<close>, \<open>strategy\<close> and \<open>syncable\<close> repeated after the structure cannot fail and
  are left out; so is \<open>Number.isFinite\<close>, which holds of every JSON number.\<close>

definition validate :: "json \<Rightarrow> js_error + unit" where
  "validate v = and_then (validateStructure v) (let m = manifest_of v in
     and_then (first_failure
       [(\<not> missing (prop_of ''id'' v) \<and> re_test id_re (mf_id m), raise ValidationError (''Feature manifest ID '' @ quoted (mf_id m) @
          '' is invalid. It must be lowercase kebab-case (e.g. 'inventory-tracking').'')),
        (\<not> missing (prop_of ''version'' v) \<and> re_test semver_re (mf_version m), raise ValidationError
          (''Feature manifest version '' @ quoted (mf_version m) @ '' for '' @ quoted (mf_id m) @
           '' is not a valid Semantic Version (e.g. '1.0.0').''))])
     (and_then (check_permission_names m)
     (and_then (check_versions (mf_id m) (mf_migrations m) [])
     (and_then (case mf_sync m of None \<Rightarrow> Inr () | Some ps \<Rightarrow> check_sync (mf_id m) ps [])
     (case mf_pruning m of None \<Rightarrow> Inr () | Some ps \<Rightarrow> check_pruning (mf_id m) ps [])))))"

end
