(* ===== verification/Manifest_Claims.thy ===== *)
theory Manifest_Claims
  imports Manifests
begin

text \<open>
  What the validator accepts, as a type of JSON values and a well-formedness condition stated without
  the validator's loops and regular expressions.
\<close>

section \<open>The type of a manifest\<close>

datatype shape = StrS | NumS | BoolS | AnyS | ListS shape | RecS "(string \<times> bool \<times> shape) list"

text \<open>In a record shape the flag says that the key is required.\<close>

fun has_shape :: "shape \<Rightarrow> json \<Rightarrow> bool"
  and has_fields :: "(string \<times> bool \<times> shape) list \<Rightarrow> (string \<times> json) list \<Rightarrow> bool" where
  "has_shape StrS v = is_string v"
| "has_shape NumS v = is_number v"
| "has_shape BoolS v = is_boolean v"
| "has_shape AnyS v = True"
| "has_shape (ListS s) v = (case v of JArr vs \<Rightarrow> list_all (has_shape s) vs | _ \<Rightarrow> False)"
| "has_shape (RecS fs) v = (case v of JObj m \<Rightarrow> has_fields fs m | _ \<Rightarrow> False)"
| "has_fields [] m = True"
| "has_fields ((k, required, s) # fs) m =
     ((case assoc_get k m of None \<Rightarrow> \<not> required | Some v \<Rightarrow> has_shape s v) \<and> has_fields fs m)"

definition permission_type :: shape where
  "permission_type = RecS [(''name'', True, StrS), (''description'', True, StrS)]"

definition migration_type :: shape where
  "migration_type = RecS [(''version'', True, NumS), (''name'', True, StrS), (''sql'', True, StrS), (''checksum'', True, StrS)]"

definition sync_type :: shape where
  "sync_type = RecS [(''entityType'', True, StrS), (''namespacePattern'', True, StrS),
     (''conflictPolicy'', True, RecS [(''strategy'', True, StrS)]), (''syncable'', True, BoolS)]"

definition navigation_type :: shape where
  "navigation_type = RecS [(''id'', True, StrS), (''label'', True, StrS), (''path'', True, StrS),
     (''icon'', False, StrS), (''requiredPermission'', False, StrS), (''order'', False, NumS)]"

definition pruning_type :: shape where
  "pruning_type = RecS [(''id'', True, StrS), (''displayName'', True, StrS), (''tableName'', True, StrS),
     (''timestampColumn'', True, StrS), (''defaultRetentionDays'', True, NumS), (''filterCondition'', False, StrS)]"

text \<open>The type of \<open>id\<close> and \<open>version\<close> is not checked.\<close>

definition manifest_shape :: shape where
  "manifest_shape = RecS
    [(''id'', True, AnyS), (''name'', True, StrS), (''version'', True, AnyS), (''description'', False, StrS),
     (''dependencies'', True, ListS StrS), (''optionalDependencies'', False, ListS StrS),
     (''permissions'', True, ListS permission_type), (''migrations'', True, ListS migration_type),
     (''syncPolicies'', False, ListS sync_type), (''navigation'', False, ListS navigation_type),
     (''pruningPolicies'', False, ListS pruning_type)]"

section \<open>Well-formed manifests\<close>

definition kebab_case :: "string \<Rightarrow> bool" where
  "kebab_case s \<longleftrightarrow> list_all (\<lambda>w. w \<noteq> [] \<and> list_all (\<lambda>c. is_lower c \<or> is_dec c) w) (split_char (CHR ''-'') s)"

definition sql_identifier :: "string \<Rightarrow> bool" where
  "sql_identifier s \<longleftrightarrow> s \<noteq> [] \<and> list_all is_word_char s"

definition placeholder :: "string \<Rightarrow> bool" where
  "placeholder s \<longleftrightarrow> s \<in> {''{application}'', ''{organisation}'', ''{syncGroup}''}"

definition namespace_ok :: "string \<Rightarrow> bool" where
  "namespace_ok s \<longleftrightarrow> (let segments = split_char (CHR ''/'') s in
     (\<forall>w \<in> set segments. placeholder w \<or> w \<noteq> [] \<and> list_all (\<lambda>c. is_word_char c \<or> c = CHR ''-'') w) \<and>
     set required_segments \<subseteq> set segments)"

definition sync_rules :: "sync_policy_def list \<Rightarrow> bool" where
  "sync_rules ps \<longleftrightarrow> distinct (map sp_entity ps) \<and>
     (\<forall>p \<in> set ps. accepts entity_re (sp_entity p) \<and> namespace_ok (sp_namespace p) \<and> sp_strategy p \<in> set conflict_strategies)"

definition pruning_rules :: "pruning_def list \<Rightarrow> bool" where
  "pruning_rules ps \<longleftrightarrow> distinct (map pr_id ps) \<and>
     (\<forall>p \<in> set ps. pr_id p \<noteq> [] \<and> sql_identifier (pr_table p) \<and> sql_identifier (pr_column p) \<and> 0 < pr_days p \<and>
        (case pr_filter p of None \<Rightarrow> True | Some f \<Rightarrow> f \<noteq> [] \<longrightarrow> isSafePruningFilterCondition f))"

definition well_formed :: "manifest \<Rightarrow> bool" where
  "well_formed m \<longleftrightarrow> kebab_case (mf_id m) \<and> accepts semver_re (mf_version m) \<and>
     (\<forall>p \<in> set (mf_permissions m). accepts permission_re (pd_name p)) \<and>
     (\<forall>g \<in> set (mf_migrations m). 0 < mg_version g \<and> is_safe_integer (Fin (mg_version g))) \<and>
     distinct (map mg_version (mf_migrations m)) \<and>
     list_all sync_rules (case mf_sync m of None \<Rightarrow> [] | Some ps \<Rightarrow> [ps]) \<and>
     list_all pruning_rules (case mf_pruning m of None \<Rightarrow> [] | Some ps \<Rightarrow> [ps])"

section \<open>The regular expressions\<close>

lemma kebab_split: "accepts id_re s \<longleftrightarrow> kebab_case s"
proof -
  have dash: "\<not> (is_lower (CHR ''-'') \<or> is_dec (CHR ''-''))" by (simp add: is_lower_def is_dec_def)
  define ok where "ok w \<longleftrightarrow> w \<noteq> [] \<and> list_all (\<lambda>c. is_lower c \<or> is_dec c) w" for w
  have word: "accepts (some lower_dec_re) w \<longleftrightarrow> ok w" for w
    unfolding lower_dec_re_def accepts_plus_sym ok_def ..
  have no_dash: "ok w \<Longrightarrow> CHR ''-'' \<notin> set w" for w using dash by (auto simp: ok_def list_all_iff)
  have rep: "accepts (Rep (Cat (lit ''-'') (some lower_dec_re))) t \<Longrightarrow>
      \<exists>ws. list_all ok ws \<and> t = concat (map (\<lambda>w. CHR ''-'' # w) ws)" for t
  proof (induction "Rep (Cat (lit ''-'') (some lower_dec_re))" t rule: accepts.induct)
    case accepts_stop
    show ?case by (intro exI [of _ "[]"]) simp
  next
    case (accepts_more u v)
    then obtain ws where ws: "list_all ok ws" "v = concat (map (\<lambda>w. CHR ''-'' # w) ws)" by blast
    obtain w where "u = CHR ''-'' # w" "ok w" using accepts_more(1) by (auto simp: accepts_cat_iff word simp del: lit.simps)
    then show ?case using ws by (intro exI [of _ "w # ws"]) simp
  qed
  have rep': "list_all ok ws \<Longrightarrow> accepts (Rep (Cat (lit ''-'') (some lower_dec_re))) (concat (map (\<lambda>w. CHR ''-'' # w) ws))" for ws
  proof (induction ws)
    case (Cons w ws)
    then have "accepts (Cat (lit ''-'') (some lower_dec_re)) (''-'' @ w)" by (intro accepts_cat) (simp_all add: word del: lit.simps)
    then show ?case using Cons accepts_more [of _ "''-'' @ w"] by (simp del: lit.simps)
  qed (simp add: accepts_stop)
  have join: "w @ concat (map (\<lambda>w. CHR ''-'' # w) ws) = join_with ''-'' (w # ws)" for w ws
  proof (induction ws arbitrary: w)
    case (Cons a ws)
    have "w @ concat (map (\<lambda>w. CHR ''-'' # w) (a # ws)) = w @ CHR ''-'' # (a @ concat (map (\<lambda>w. CHR ''-'' # w) ws))" by simp
    then show ?case unfolding Cons.IH by simp
  qed simp
  have eq: "accepts id_re s \<longleftrightarrow> (\<exists>w ws. ok w \<and> list_all ok ws \<and> s = join_with ''-'' (w # ws))"
    using rep rep' unfolding id_re_def join [symmetric]
    by (auto simp: accepts_cat_iff word simp del: lit.simps)
  show ?thesis
  proof
    assume "accepts id_re s"
    then obtain w ws where s: "ok w" "list_all ok ws" "s = join_with ''-'' (w # ws)" unfolding eq by blast
    then have "split_char (CHR ''-'') s = w # ws"
      using split_join [of "w # ws" "CHR ''-''"] no_dash by (auto simp: list_all_iff)
    then show "kebab_case s" using s unfolding kebab_case_def ok_def by simp
  next
    assume k: "kebab_case s"
    obtain w ws where ws: "split_char (CHR ''-'') s = w # ws" by (meson list.exhaust split_char_nonempty)
    then have "s = join_with ''-'' (w # ws)" using join_split [of "CHR ''-''" s] by simp
    then show "accepts id_re s" using k ws unfolding eq kebab_case_def ok_def by auto
  qed
qed

lemma segment_split: "accepts segment_re w \<longleftrightarrow> placeholder w \<or> w \<noteq> [] \<and> list_all (\<lambda>c. is_word_char c \<or> c = CHR ''-'') w"
  by (auto simp: segment_re_def accepts_one_of accepts_plus_sym accepts_cat_iff placeholder_def)

lemma identifier_split: "accepts identifier_re w \<longleftrightarrow> sql_identifier w"
  by (simp add: identifier_re_def accepts_plus_sym sql_identifier_def)

section \<open>The checks one by one\<close>

lemma and_then_Inr [simp]: "and_then r q = Inr () \<longleftrightarrow> r = Inr () \<and> q = Inr ()"
  by (cases r) (auto simp: and_then_def)

lemma first_failure_Inr: "first_failure cs = Inr () \<longleftrightarrow> list_all fst cs"
  by (induction cs rule: first_failure.induct) auto

lemma permission_names_Inr: "check_permission_names m = Inr () \<longleftrightarrow> (\<forall>p \<in> set (mf_permissions m). accepts permission_re (pd_name p))"
  by (auto simp: check_permission_names_def first_failure_Inr list_all_iff re_test_iff)

lemma versions_Inr: "check_versions i gs seen = Inr () \<longleftrightarrow> (\<forall>g \<in> set gs. 0 < mg_version g \<and> is_safe_integer (Fin (mg_version g))) \<and>
    distinct (map mg_version gs) \<and> mg_version ` set gs \<inter> set seen = {}"
  by (induction i gs seen rule: check_versions.induct) (auto simp: not_le image_iff)

lemma sync_Inr: "check_sync i ps seen = Inr () \<longleftrightarrow> distinct (map sp_entity ps) \<and> sp_entity ` set ps \<inter> set seen = {} \<and>
    (\<forall>p \<in> set ps. accepts entity_re (sp_entity p) \<and> namespace_ok (sp_namespace p) \<and> sp_strategy p \<in> set conflict_strategies)"
proof (induction i ps seen rule: check_sync.induct)
  case (2 i p ps seen)
  have "namespace_ok (sp_namespace p) \<longleftrightarrow> list_all (re_test segment_re) (split_char (CHR ''/'') (sp_namespace p)) \<and>
      list_all (\<lambda>r. r \<in> set (split_char (CHR ''/'') (sp_namespace p))) required_segments"
    by (auto simp: namespace_ok_def Let_def list_all_iff re_test_iff segment_split)
  then show ?case using 2 by (auto simp: re_test_iff image_iff)
qed simp

lemma pruning_Inr: "check_pruning i ps seen = Inr () \<longleftrightarrow> distinct (map pr_id ps) \<and> pr_id ` set ps \<inter> set seen = {} \<and>
    (\<forall>p \<in> set ps. pr_id p \<noteq> [] \<and> sql_identifier (pr_table p) \<and> sql_identifier (pr_column p) \<and> 0 < pr_days p \<and>
       (case pr_filter p of None \<Rightarrow> True | Some f \<Rightarrow> f \<noteq> [] \<longrightarrow> isSafePruningFilterCondition f))"
  by (induction i ps seen rule: check_pruning.induct)
    (auto simp: re_test_iff identifier_split image_iff not_le split: option.splits)

section \<open>Structure and type\<close>

lemma needs_obj: "needs k p (JObj m) \<longleftrightarrow> (case assoc_get k m of None \<Rightarrow> False | Some x \<Rightarrow> p x)"
  and allows_obj: "allows k p (JObj m) \<longleftrightarrow> (case assoc_get k m of None \<Rightarrow> True | Some x \<Rightarrow> p x)"
  by (simp_all add: needs_def allows_def)

lemma shape_ext: "(\<And>v. p v = has_shape s v) \<Longrightarrow> p = has_shape s"
  by (rule ext)

lemma string_shape: "is_string = has_shape StrS"
  by (rule shape_ext) simp

lemma permission_shape_type: "permission_shape v = has_shape permission_type v"
  by (cases v) (auto simp: permission_shape_def permission_type_def needs_obj split: option.split)

lemma migration_shape_type: "migration_shape v = has_shape migration_type v"
  by (cases v) (auto simp: migration_shape_def migration_type_def needs_obj split: option.split)

lemma strategy_shape: "(isRecord c \<and> needs ''strategy'' is_string c) = has_shape (RecS [(''strategy'', True, StrS)]) c"
  by (cases c) (auto simp: needs_obj split: option.split)

lemma sync_shape_type: "sync_shape v = has_shape sync_type v"
  unfolding sync_shape_def sync_type_def strategy_shape
  by (cases v) (auto simp: needs_obj split: option.split)

lemma pruning_shape_type: "pruning_shape v = has_shape pruning_type v"
  by (cases v) (auto simp: pruning_shape_def pruning_type_def needs_obj allows_obj split: option.split)

lemma navigation_shape_type: "navigation_shape v = has_shape navigation_type v"
  by (cases v) (auto simp: navigation_shape_def navigation_type_def needs_obj allows_obj split: option.split)

lemmas shape_types = string_shape
  shape_ext [OF permission_shape_type] shape_ext [OF migration_shape_type] shape_ext [OF sync_shape_type]
  shape_ext [OF pruning_shape_type] shape_ext [OF navigation_shape_type]

lemma array_shape: "is_array_of (has_shape s) = has_shape (ListS s)"
proof
  show "is_array_of (has_shape s) v = has_shape (ListS s) v" for v by (cases v) simp_all
qed

lemma array_any: "has_shape (ListS s) v \<Longrightarrow> is_array_of any_json v"
  by (cases v) (simp_all add: any_json_def list_all_iff)

definition named :: "json \<Rightarrow> bool" where
  "named v \<longleftrightarrow> trim (str_val_of (prop_of ''name'' v)) \<noteq> []"

lemma needs_array: "needs k (has_shape (ListS s)) v \<Longrightarrow> needs k (is_array_of any_json) v"
  and allows_array: "allows k (has_shape (ListS s)) v \<Longrightarrow> allows k (is_array_of any_json) v"
  by (auto simp: needs_def allows_def array_any split: option.splits)

lemma trim_Nil [simp]: "trim [] = []"
  by (simp add: trim_def trim_left_def)

lemma needs_name: "needs ''name'' (\<lambda>x. case x of JStr n \<Rightarrow> trim n \<noteq> [] | _ \<Rightarrow> False) v \<longleftrightarrow>
    needs ''name'' (has_shape StrS) v \<and> named v"
  unfolding needs_def named_def
  by (cases "prop_of ''name'' v") (auto split: json.splits)

lemma structure_Inr: "validateStructure v = Inr () \<longleftrightarrow> isRecord v \<and> named v \<and>
    needs ''name'' (has_shape StrS) v \<and> needs ''dependencies'' (has_shape (ListS StrS)) v \<and>
    allows ''optionalDependencies'' (has_shape (ListS StrS)) v \<and> needs ''permissions'' (has_shape (ListS permission_type)) v \<and>
    needs ''migrations'' (has_shape (ListS migration_type)) v \<and> allows ''syncPolicies'' (has_shape (ListS sync_type)) v \<and>
    allows ''pruningPolicies'' (has_shape (ListS pruning_type)) v \<and> allows ''navigation'' (has_shape (ListS navigation_type)) v \<and>
    allows ''description'' (has_shape StrS) v"
  unfolding validateStructure_def Let_def shape_types array_shape needs_name
  by (auto simp: first_failure_Inr simp del: has_shape.simps intro: needs_array allows_array)

lemma structure_typed: "validateStructure v = Inr () \<and> prop_of ''id'' v \<noteq> None \<and> prop_of ''version'' v \<noteq> None \<longleftrightarrow>
    has_shape manifest_shape v \<and> named v"
proof (cases v)
  case (JObj m)
  then show ?thesis unfolding structure_Inr manifest_shape_def
    by (auto simp: needs_obj allows_obj simp del: has_shape.simps(1,5) split: option.splits)
qed (simp_all add: structure_Inr manifest_shape_def)

section \<open>What the validator accepts\<close>

lemma missing_None: "\<not> missing x \<Longrightarrow> x \<noteq> None"
  by (cases x) (simp_all add: missing_def)

lemma list_all_Nil: "list_all p [] \<longleftrightarrow> True"
  by simp

lemma rules_Inr: "validate v = Inr () \<longleftrightarrow> validateStructure v = Inr () \<and> \<not> missing (prop_of ''id'' v) \<and>
    \<not> missing (prop_of ''version'' v) \<and> well_formed (manifest_of v)"
proof -
  define m where "m = manifest_of v"
  have sync: "(case mf_sync m of None \<Rightarrow> Inr () | Some ps \<Rightarrow> check_sync (mf_id m) ps []) = Inr () \<longleftrightarrow>
      list_all sync_rules (case mf_sync m of None \<Rightarrow> [] | Some ps \<Rightarrow> [ps])"
    by (cases "mf_sync m") (simp_all add: sync_Inr sync_rules_def)
  have pruning: "(case mf_pruning m of None \<Rightarrow> Inr () | Some ps \<Rightarrow> check_pruning (mf_id m) ps []) = Inr () \<longleftrightarrow>
      list_all pruning_rules (case mf_pruning m of None \<Rightarrow> [] | Some ps \<Rightarrow> [ps])"
    by (cases "mf_pruning m") (simp_all add: pruning_Inr pruning_rules_def)
  have versions: "check_versions (mf_id m) (mf_migrations m) [] = Inr () \<longleftrightarrow>
      (\<forall>g \<in> set (mf_migrations m). 0 < mg_version g \<and> is_safe_integer (Fin (mg_version g))) \<and> distinct (map mg_version (mf_migrations m))"
    by (simp add: versions_Inr)
  show ?thesis
    unfolding validate_def Let_def m_def [symmetric] and_then_Inr first_failure_Inr permission_names_Inr versions sync pruning
      well_formed_def list.pred_inject(2) list_all_Nil fst_conv re_test_iff kebab_split by argo
qed

text \<open>C26. The validator accepts a value exactly when it has the type of a manifest, up to the types of \<open>id\<close> and
  \<open>version\<close>, a name, and well-formed contents: a kebab-case id, a semantic version, dotted permission
  names, distinct positive migration versions, sync policies on distinct entity types whose namespaces
  hold the three placeholders, and pruning policies on plain table and column names with a safe filter.\<close>

theorem validated_manifest: "validate v = Inr () \<longleftrightarrow>
    has_shape manifest_shape v \<and> named v \<and> \<not> missing (prop_of ''id'' v) \<and> \<not> missing (prop_of ''version'' v) \<and>
    well_formed (manifest_of v)"
  using structure_typed [of v] missing_None [of "prop_of ''id'' v"] missing_None [of "prop_of ''version'' v"]
  unfolding rules_Inr by argo

text \<open>The types of id and version are not checked: an accepted manifest is accepted again with its id wrapped in an
  array, which is not a string and, as a key of the registry, not the same feature.\<close>

theorem untyped_identity:
  assumes ok: "validate (JObj m) = Inr ()" and i: "assoc_get ''id'' m = Some (JStr i)"
  shows "validate (JObj (assoc_set ''id'' (JArr [JStr i]) m)) = Inr () \<and>
    mf_id (manifest_of (JObj (assoc_set ''id'' (JArr [JStr i]) m))) = mf_id (manifest_of (JObj m)) \<and>
    prop_of ''id'' (JObj (assoc_set ''id'' (JArr [JStr i]) m)) \<noteq> prop_of ''id'' (JObj m)"
proof -
  let ?m = "assoc_set ''id'' (JArr [JStr i]) m"
  have other: "k \<noteq> ''id'' \<Longrightarrow> prop_of k (JObj ?m) = prop_of k (JObj m)" for k by simp
  have same: "manifest_of (JObj ?m) = manifest_of (JObj m)"
    unfolding manifest_of_def using i by (simp add: other text_of_def)
  have "validateStructure (JObj ?m) = Inr ()"
    using ok unfolding rules_Inr structure_Inr named_def needs_def allows_def by (simp add: other)
  then show ?thesis using ok i unfolding rules_Inr same by (simp add: missing_def other)
qed

definition sample_manifest :: json where
  "sample_manifest = JObj [(''id'', JStr ''a''), (''name'', JStr ''A''), (''version'', JStr ''1.0.0''), (''dependencies'', JArr []),
     (''permissions'', JArr []), (''migrations'', JArr [])]"

lemma untyped_identity_witness: "validate (JObj [(''id'', JArr [JStr ''a'']), (''name'', JStr ''A''), (''version'', JStr ''1.0.0''),
    (''dependencies'', JArr []), (''permissions'', JArr []), (''migrations'', JArr [])]) = Inr ()"
proof -
  have "validate sample_manifest = Inr ()" by code_simp
  then show ?thesis using untyped_identity [of _ "''a''"] unfolding sample_manifest_def by fastforce
qed

end
