(* ===== verification/Feature_Registry.thy ===== *)
theory Feature_Registry
  imports Manifest_Claims
begin

text \<open>
  \<open>feature-system/src/registry/FeatureRegistry.ts\<close>: the registered manifests in the order of
  registration and the cached graph.  Manifests are values here, as the registry keeps frozen copies.
  The specification is the registry without a cache, over the list of manifests alone; the registry
  refines it (\<open>registry_refines\<close>).
\<close>

section \<open>Refinement of operations\<close>

text \<open>Under the invariant, the concrete operation gives the result of the abstract one, keeps the invariant and
  moves to a state with the abstract operation's state.\<close>

definition refines :: "('c \<Rightarrow> bool) \<Rightarrow> ('c \<Rightarrow> 'a) \<Rightarrow> ('c, 'r) op \<Rightarrow> ('a, 'r) op \<Rightarrow> bool" where
  "refines I view m m' \<longleftrightarrow> (\<forall>s. I s \<longrightarrow> I (snd (m s)) \<and> fst (m s) = fst (m' (view s)) \<and> view (snd (m s)) = snd (m' (view s)))"

named_theorems refine

lemma refinesI: "(\<And>s. I s \<Longrightarrow> I (snd (m s)) \<and> fst (m s) = fst (m' (view s)) \<and> view (snd (m s)) = snd (m' (view s))) \<Longrightarrow>
    refines I view m m'"
  by (simp add: refines_def)

lemma refinesD: "refines I view m m' \<Longrightarrow> I s \<Longrightarrow> I (snd (m s)) \<and> fst (m s) = fst (m' (view s)) \<and> view (snd (m s)) = snd (m' (view s))"
  by (simp add: refines_def)

lemma refines_ret [refine]: "refines I view (ret a) (ret a)"
  and refines_throw [refine]: "refines I view (throw e) (throw e)"
  and refines_result [refine]: "refines I view (from_result r) (from_result r)"
  and refines_guard [refine]: "refines I view (guard b e) (guard b e)"
  by (simp_all add: refines_def op_defs split: sum.split)

lemma refines_get: "(\<And>s. I s \<Longrightarrow> g s = g' (view s)) \<Longrightarrow> refines I view (get g) (get g')"
  by (simp add: refines_def)

lemma refines_modify: "(\<And>s. I s \<Longrightarrow> I (g s) \<and> view (g s) = g' (view s)) \<Longrightarrow> refines I view (modify g) (modify g')"
  by (simp add: refines_def)

lemma refines_andthen [refine]:
  assumes m: "refines I view m m'" and f: "\<And>a. refines I view (f a) (f' a)"
  shows "refines I view (andthen m f) (andthen m' f')"
proof (rule refinesI)
  fix s
  assume s: "I s"
  obtain r t where run: "m s = (r, t)" by fastforce
  obtain r' t' where run': "m' (view s) = (r', t')" by fastforce
  have step: "I t" "r' = r" "view t = t'" using refinesD [OF m s] run run' by simp_all
  show "I (snd (andthen m f s)) \<and> fst (andthen m f s) = fst (andthen m' f' (view s)) \<and>
      view (snd (andthen m f s)) = snd (andthen m' f' (view s))"
    using step refinesD [OF f step(1)] run run' by (cases r) (auto simp: run_andthen_Inl run_andthen_Inr)
qed

section \<open>Manifests as values\<close>

definition opt_field :: "string \<Rightarrow> ('a \<Rightarrow> json) \<Rightarrow> 'a option \<Rightarrow> (string \<times> json) list" where
  "opt_field k f v = (case v of None \<Rightarrow> [] | Some x \<Rightarrow> [(k, f x)])"

definition permission_json :: "permission_def \<Rightarrow> json" where
  "permission_json p = JObj [(''name'', JStr (pd_name p)), (''description'', JStr (pd_description p))]"

definition migration_json :: "migration_def \<Rightarrow> json" where
  "migration_json g = JObj [(''version'', JNum (mg_version g)), (''name'', JStr (mg_name g)), (''sql'', JStr (mg_sql g)),
     (''checksum'', JStr (mg_checksum g))]"

definition sync_json :: "sync_policy_def \<Rightarrow> json" where
  "sync_json p = JObj [(''entityType'', JStr (sp_entity p)), (''namespacePattern'', JStr (sp_namespace p)),
     (''conflictPolicy'', JObj [(''strategy'', JStr (sp_strategy p))]), (''syncable'', JBool (sp_syncable p))]"

definition navigation_json :: "navigation_item \<Rightarrow> json" where
  "navigation_json n = JObj ([(''id'', JStr (nv_id n)), (''label'', JStr (nv_label n)), (''path'', JStr (nv_path n))] @
     opt_field ''icon'' JStr (nv_icon n) @ opt_field ''requiredPermission'' JStr (nv_required n) @ opt_field ''order'' JNum (nv_order n))"

definition pruning_json :: "pruning_def \<Rightarrow> json" where
  "pruning_json p = JObj ([(''id'', JStr (pr_id p)), (''displayName'', JStr (pr_display p)), (''tableName'', JStr (pr_table p)),
     (''timestampColumn'', JStr (pr_column p)), (''defaultRetentionDays'', JNum (pr_days p))] @
     opt_field ''filterCondition'' JStr (pr_filter p))"

definition manifest_json :: "manifest \<Rightarrow> json" where
  "manifest_json m = JObj ([(''id'', JStr (mf_id m)), (''name'', JStr (mf_name m)), (''version'', JStr (mf_version m)),
     (''dependencies'', JArr (map JStr (mf_dependencies m))),
     (''permissions'', JArr (map permission_json (mf_permissions m))),
     (''migrations'', JArr (map migration_json (mf_migrations m)))] @
     opt_field ''description'' JStr (mf_description m) @
     opt_field ''optionalDependencies'' (\<lambda>ids. JArr (map JStr ids)) (mf_optional m) @
     opt_field ''syncPolicies'' (\<lambda>ps. JArr (map sync_json ps)) (mf_sync m) @
     opt_field ''navigation'' (\<lambda>ns. JArr (map navigation_json ns)) (mf_navigation m) @
     opt_field ''pruningPolicies'' (\<lambda>ps. JArr (map pruning_json ps)) (mf_pruning m))"

section \<open>The registry\<close>

record registry =
  rg_features :: "(string \<times> manifest) list"
  rg_graph :: "resolved option"

definition empty_registry :: registry where
  "empty_registry = \<lparr>rg_features = [], rg_graph = None\<rparr>"

definition registered :: "registry \<Rightarrow> manifest list" where
  "registered r = map snd (rg_features r)"

definition registerFeature :: "manifest \<Rightarrow> (registry, unit) op" where
  "registerFeature m =
     andthen (from_result (validate (manifest_json m))) (\<lambda>_.
     andthen (get (\<lambda>r. assoc_get (mf_id m) (rg_features r))) (\<lambda>known.
     andthen (guard (known = None) (raise ValidationError (''Feature '' @ quoted (mf_id m) @ '' has already been registered.''))) (\<lambda>_.
     modify (\<lambda>r. r\<lparr>rg_features := assoc_set (mf_id m) m (rg_features r), rg_graph := None\<rparr>))))"

definition isInstalled :: "string \<Rightarrow> registry \<Rightarrow> bool" where
  "isInstalled i r \<longleftrightarrow> assoc_get i (rg_features r) \<noteq> None"

definition getFeature :: "string \<Rightarrow> registry \<Rightarrow> manifest option" where
  "getFeature i r = assoc_get i (rg_features r)"

definition ensureResolved :: "(registry, resolved) op" where
  "ensureResolved = andthen (get rg_graph) (\<lambda>graph. case graph of
       Some g \<Rightarrow> ret g
     | None \<Rightarrow> andthen (get registered) (\<lambda>ms. andthen (from_result (resolve ms)) (\<lambda>g.
         andthen (modify (\<lambda>r. r\<lparr>rg_graph := Some g\<rparr>)) (\<lambda>_. ret g))))"

definition getAllFeatures :: "(registry, manifest list) op" where
  "getAllFeatures = andthen ensureResolved (\<lambda>g. ret (rs_manifests g))"

definition getAllPermissions :: "(registry, permission_def list) op" where
  "getAllPermissions = andthen getAllFeatures (\<lambda>ms. ret (concat (map mf_permissions ms)))"

definition getAllMigrations :: "(registry, (string \<times> migration_def) list) op" where
  "getAllMigrations = andthen ensureResolved (\<lambda>g. ret (rs_migrations g))"

definition given :: "'a list option \<Rightarrow> 'a list" where
  "given v = (case v of None \<Rightarrow> [] | Some xs \<Rightarrow> xs)"

definition getAllSyncPolicies :: "(registry, sync_policy_def list) op" where
  "getAllSyncPolicies = andthen getAllFeatures (\<lambda>ms. ret (concat (map (\<lambda>m. given (mf_sync m)) ms)))"

definition getAllNavigationItems :: "(registry, navigation_item list) op" where
  "getAllNavigationItems = andthen getAllFeatures (\<lambda>ms. ret
     (sort_key (\<lambda>n. case nv_order n of None \<Rightarrow> 999 | Some q \<Rightarrow> q) (concat (map (\<lambda>m. given (mf_navigation m)) ms))))"

definition getAllPruningPolicies :: "(registry, pruning_def list) op" where
  "getAllPruningPolicies = andthen getAllFeatures (\<lambda>ms. ret (concat (map (\<lambda>m. given (mf_pruning m)) ms)))"

section \<open>The registry without a cache\<close>

definition spec_register :: "manifest \<Rightarrow> (manifest list, unit) op" where
  "spec_register m = andthen (from_result (validate (manifest_json m))) (\<lambda>_.
     andthen (get (\<lambda>ms. mf_id m \<in> mf_id ` set ms)) (\<lambda>known.
     andthen (guard (\<not> known) (raise ValidationError (''Feature '' @ quoted (mf_id m) @ '' has already been registered.''))) (\<lambda>_.
     modify (\<lambda>ms. ms @ [m]))))"

definition spec_resolved :: "(resolved \<Rightarrow> 'r) \<Rightarrow> (manifest list, 'r) op" where
  "spec_resolved f = andthen (get resolve) (\<lambda>r. andthen (from_result r) (\<lambda>g. ret (f g)))"

definition coherent :: "registry \<Rightarrow> bool" where
  "coherent r \<longleftrightarrow> (\<forall>(i, m) \<in> set (rg_features r). i = mf_id m) \<and> distinct (map fst (rg_features r)) \<and>
     (\<forall>g. rg_graph r = Some g \<longrightarrow> resolve (registered r) = Inr g)"

lemma assoc_set_new: "assoc_get k m = None \<Longrightarrow> assoc_set k v m = m @ [(k, v)]"
  by (induction m) (auto split: if_split_asm)

lemma coherent_keys: "coherent r \<Longrightarrow> assoc_get i (rg_features r) = None \<longleftrightarrow> i \<notin> mf_id ` set (registered r)"
proof -
  assume "coherent r"
  then have "\<forall>e \<in> set (rg_features r). fst e = mf_id (snd e)" by (auto simp: coherent_def)
  then have "fst ` set (rg_features r) = (\<lambda>e. mf_id (snd e)) ` set (rg_features r)" by (intro image_cong) simp_all
  then show ?thesis by (simp add: assoc_get_None registered_def image_image)
qed

lemma ensure_refines: "refines coherent registered ensureResolved (spec_resolved id)"
proof (rule refinesI)
  fix r
  assume c: "coherent r"
  show "coherent (snd (ensureResolved r)) \<and> fst (ensureResolved r) = fst (spec_resolved id (registered r)) \<and>
      registered (snd (ensureResolved r)) = snd (spec_resolved id (registered r))"
    using c by (cases "rg_graph r"; cases "resolve (registered r)")
      (auto simp: ensureResolved_def spec_resolved_def coherent_def registered_def)
qed

lemma register_refines: "refines coherent registered (registerFeature m) (spec_register m)"
proof (rule refinesI)
  fix r
  assume c: "coherent r"
  show "coherent (snd (registerFeature m r)) \<and> fst (registerFeature m r) = fst (spec_register m (registered r)) \<and>
      registered (snd (registerFeature m r)) = snd (spec_register m (registered r))"
  proof (cases "validate (manifest_json m)")
    case (Inr u)
    show ?thesis
    proof (cases "assoc_get (mf_id m) (rg_features r)")
      case None
      then have "mf_id m \<notin> fst ` set (rg_features r)" "mf_id m \<notin> mf_id ` set (registered r)"
        using coherent_keys [OF c] by (simp_all add: assoc_get_None)
      then show ?thesis using c Inr None
        by (auto simp: registerFeature_def spec_register_def assoc_set_new coherent_def registered_def)
    next
      case (Some k)
      then have "mf_id m \<in> mf_id ` set (registered r)" using coherent_keys [OF c, of "mf_id m"] by auto
      then show ?thesis using c Inr Some by (auto simp: registerFeature_def spec_register_def)
    qed
  qed (use c in \<open>simp add: registerFeature_def spec_register_def\<close>)
qed

lemma spec_resolved_andthen: "andthen (spec_resolved f) (\<lambda>x. ret (h x)) = spec_resolved (\<lambda>g. h (f g))"
proof
  fix ms
  show "andthen (spec_resolved f) (\<lambda>x. ret (h x)) ms = spec_resolved (\<lambda>g. h (f g)) ms"
    unfolding spec_resolved_def by (cases "resolve ms") (auto simp: op_defs)
qed

lemma query_refines:
  assumes "refines coherent registered m (spec_resolved f)"
  shows "refines coherent registered (andthen m (\<lambda>x. ret (h x))) (spec_resolved (\<lambda>g. h (f g)))"
  unfolding spec_resolved_andthen [symmetric] by (intro refine assms)

lemma features_refine: "refines coherent registered getAllFeatures (spec_resolved rs_manifests)"
  using query_refines [OF ensure_refines, of rs_manifests] by (simp only: getAllFeatures_def id_apply)

text \<open>C27. The registry refines the registry without a cache, in which a registration only appends the manifest and
  every query resolves the list of manifests again: in a registry whose cache is coherent every
  operation gives the same result, leaves the same manifests and keeps the cache coherent.\<close>

theorem registry_refines:
  "coherent empty_registry \<and> registered empty_registry = [] \<and>
   refines coherent registered (registerFeature m) (spec_register m) \<and>
   refines coherent registered getAllFeatures (spec_resolved rs_manifests) \<and>
   refines coherent registered getAllMigrations (spec_resolved rs_migrations) \<and>
   refines coherent registered getAllPermissions (spec_resolved (\<lambda>g. concat (map mf_permissions (rs_manifests g)))) \<and>
   refines coherent registered getAllSyncPolicies (spec_resolved (\<lambda>g. concat (map (\<lambda>m. given (mf_sync m)) (rs_manifests g)))) \<and>
   refines coherent registered getAllPruningPolicies (spec_resolved (\<lambda>g. concat (map (\<lambda>m. given (mf_pruning m)) (rs_manifests g)))) \<and>
   refines coherent registered getAllNavigationItems (spec_resolved (\<lambda>g. sort_key (\<lambda>n. case nv_order n of None \<Rightarrow> 999 | Some q \<Rightarrow> q)
     (concat (map (\<lambda>m. given (mf_navigation m)) (rs_manifests g)))))"
proof (intro conjI)
  show "coherent empty_registry" "registered empty_registry = []"
    by (simp_all add: coherent_def registered_def empty_registry_def)
  show "refines coherent registered (registerFeature m) (spec_register m)" by (rule register_refines)
  show "refines coherent registered getAllFeatures (spec_resolved rs_manifests)" by (rule features_refine)
  show "refines coherent registered getAllMigrations (spec_resolved rs_migrations)"
    using query_refines [OF ensure_refines, of rs_migrations] by (simp only: getAllMigrations_def id_apply)
qed (unfold getAllPermissions_def getAllSyncPolicies_def getAllPruningPolicies_def getAllNavigationItems_def,
    (rule query_refines [OF features_refine])+)

section \<open>Registered manifests\<close>

lemma assoc_get_opt_field:
  "assoc_get k (opt_field k' f v) = (if k = k' then map_option f v else None)"
  "k \<noteq> k' \<Longrightarrow> assoc_get k (opt_field k' f v @ ys) = assoc_get k ys"
  "assoc_get k ys = None \<Longrightarrow> assoc_get k (opt_field k f v @ ys) = map_option f v"
  by (cases v; simp add: opt_field_def)+

lemma opt_back [simp]: "opt_str (map_option JStr v) = v" "opt_num (map_option JNum q) = q"
  by (cases v; simp) (cases q; simp)

lemma json_back [simp]:
  "permission_of (permission_json p) = p" "migration_of (migration_json g) = g" "sync_of (sync_json s) = s"
  "navigation_of (navigation_json n) = n" "pruning_of (pruning_json d) = d"
  by (simp_all add: permission_of_def permission_json_def migration_of_def migration_json_def sync_of_def sync_json_def
      navigation_of_def navigation_json_def pruning_of_def pruning_json_def assoc_get_opt_field)

lemma opt_elements_back: "map_option (map f) (opt_elements (map_option (\<lambda>xs. JArr (map g xs)) v)) = map_option (map (\<lambda>x. f (g x))) v"
  by (cases v) (simp_all add: opt_elements_def)

lemma manifest_back [simp]: "manifest_of (manifest_json m) = m"
  by (simp add: manifest_of_def manifest_json_def assoc_get_opt_field opt_elements_back text_of_def comp_def option.map_ident)

inductive registry_reachable :: "registry \<Rightarrow> bool" where
  rr_new: "registry_reachable empty_registry"
| rr_register: "registry_reachable r \<Longrightarrow> registry_reachable (snd (registerFeature m r))"
| rr_resolve: "registry_reachable r \<Longrightarrow> registry_reachable (snd (ensureResolved r))"

lemma kebab_nonempty: "kebab_case s \<Longrightarrow> s \<noteq> []"
  by (cases s) (simp_all add: kebab_case_def)

lemma validated_well_formed: "validate (manifest_json m) = Inr () \<Longrightarrow> well_formed m"
  by (simp add: rules_Inr)

lemma register_adds: "registered (snd (registerFeature m r)) = registered r \<or>
    validate (manifest_json m) = Inr () \<and> registered (snd (registerFeature m r)) = registered r @ [m]"
  by (cases "validate (manifest_json m)")
    (auto simp: registerFeature_def registered_def assoc_set_new)

lemma coherent_ids: "coherent r \<Longrightarrow> distinct (map mf_id (registered r))"
proof -
  assume c: "coherent r"
  then have "map mf_id (registered r) = map fst (rg_features r)"
    by (auto simp: coherent_def registered_def)
  then show ?thesis using c by (simp add: coherent_def)
qed

lemma reachable_coherent: "registry_reachable r \<Longrightarrow> coherent r \<and> list_all well_formed (registered r)"
proof (induction rule: registry_reachable.induct)
  case rr_new
  show ?case by (simp add: coherent_def registered_def empty_registry_def)
next
  case (rr_register r m)
  then show ?case using refinesD [OF register_refines, of r m] register_adds [of m r] validated_well_formed [of m] by auto
next
  case (rr_resolve r)
  have "snd (spec_resolved id ms) = ms" for ms
    unfolding spec_resolved_def by (cases "resolve ms") simp_all
  then show ?case using refinesD [OF ensure_refines, of r] rr_resolve by simp
qed

text \<open>In every reachable registry the registered manifests are well-formed and their ids distinct, and asking for
  the features succeeds exactly when no permission is declared twice, every required dependency is
  registered and the dependencies have no cycle; the answer is then in dependency order.\<close>

theorem registry_ready:
  assumes "registry_reachable r"
  shows "list_all well_formed (registered r) \<and> distinct (map mf_id (registered r)) \<and>
    (isl (fst (getAllFeatures r)) \<longleftrightarrow> \<not> (distinct (map fst (declared_permissions (registered r))) \<and>
       check_dependencies (registered r) = Inr () \<and> acyclic (depends (registered r)))) \<and>
    (case fst (getAllFeatures r) of Inl _ \<Rightarrow> True
     | Inr ms \<Rightarrow> mset ms = mset (registered r) \<and> in_order (registered r) ms)"
proof -
  note R = reachable_coherent [OF assms]
  then have ids: "[] \<notin> mf_id ` set (registered r)" using kebab_nonempty unfolding list_all_iff well_formed_def by (metis imageE)
  have answer: "fst (getAllFeatures r) = map_sum (\<lambda>e. e) rs_manifests (resolve (registered r))"
  proof -
    have "fst (getAllFeatures r) = fst (spec_resolved rs_manifests (registered r))"
      using refinesD [OF features_refine] R by blast
    then show ?thesis by (cases "resolve (registered r)") (simp_all add: spec_resolved_def)
  qed
  have "isl (fst (getAllFeatures r)) \<longleftrightarrow> \<not> (\<exists>g. resolve (registered r) = Inr g)"
    unfolding answer by (cases "resolve (registered r)") simp_all
  then have "isl (fst (getAllFeatures r)) \<longleftrightarrow> \<not> (distinct (map fst (declared_permissions (registered r))) \<and>
       check_dependencies (registered r) = Inr () \<and> acyclic (depends (registered r)))"
    using resolves_iff [OF ids] coherent_ids [of r] R unfolding check_dependencies_Inr by blast
  moreover have "case fst (getAllFeatures r) of Inl _ \<Rightarrow> True
     | Inr ms \<Rightarrow> mset ms = mset (registered r) \<and> in_order (registered r) ms"
    unfolding answer using resolved_order [of "registered r"] by (cases "resolve (registered r)") simp_all
  ultimately show ?thesis using R coherent_ids by blast
qed

lemma registry_ready_witness:
  "fst (getAllFeatures (snd (registerFeature (bare_manifest ''b'' [''a''] []) (snd (registerFeature (bare_manifest ''a'' [] []) empty_registry))))) =
     Inr [bare_manifest ''a'' [] [], bare_manifest ''b'' [''a''] []] \<and>
   acyclic (depends (registered (snd (registerFeature (bare_manifest ''b'' [''a''] [])
     (snd (registerFeature (bare_manifest ''a'' [] []) empty_registry))))))"
proof -
  let ?r = "snd (registerFeature (bare_manifest ''b'' [''a''] []) (snd (registerFeature (bare_manifest ''a'' [] []) empty_registry)))"
  have "registry_reachable ?r" by (intro registry_reachable.intros)
  moreover have run: "fst (getAllFeatures ?r) = Inr [bare_manifest ''a'' [] [], bare_manifest ''b'' [''a''] []]" by code_simp
  then have "\<not> isl (fst (getAllFeatures ?r))" by simp
  ultimately have "acyclic (depends (registered ?r))" using registry_ready [of ?r] by blast
  then show ?thesis using run by blast
qed

end
