(* ===== verification/Database.thy ===== *)
theory Database
  imports Ops
begin

text \<open>
  The two drivers of the package \<open>database\<close> behind \<open>DatabaseConnection\<close>: \<open>MemoryDatabaseConnection\<close>
  (SQLite in the process, transactions and savepoints by SQL commands) and \<open>NativeDatabaseConnection\<close>
  (a transaction collects its writes and sends them to the native side).  The SQL engine is a
  parameter: what a statement answers and does to the database.  A transaction callback is a program
  that asks its client and continues with the answer.
\<close>

section \<open>The engine and the callbacks\<close>

record ('d, 'p, 'w) engine =
  eng_query :: "string \<Rightarrow> 'p \<Rightarrow> 'd \<Rightarrow> js_error + 'w list"
  eng_execute :: "string \<Rightarrow> 'p \<Rightarrow> 'd \<Rightarrow> js_error + 'd \<times> nat"
  eng_commit :: "'d \<Rightarrow> js_error option"
  eng_admit :: "(string \<times> 'p) list \<Rightarrow> js_error option"

text \<open>A statement that fails leaves the database as it was; statements that themselves begin or end transactions are
  outside the model.\<close>

text \<open>\<open>tx.query\<close>, \<open>tx.execute\<close> (the number of rows may be unknown) and \<open>tx.savepoint\<close>; the continuation gets the
  answer or the error the await throws, which the callback may catch.\<close>

datatype ('p, 'w, 'r) callback =
    Return 'r
  | Throw js_error
  | Query string 'p "js_error + 'w list \<Rightarrow> ('p, 'w, 'r) callback"
  | Execute string 'p "js_error + nat option \<Rightarrow> ('p, 'w, 'r) callback"
  | Savepoint "('p, 'w, 'r) callback" "js_error + 'r \<Rightarrow> ('p, 'w, 'r) callback"

section \<open>The memory driver\<close>

text \<open>A connection of SQLite: the data, the data at \<open>BEGIN\<close>, the savepoints with theirs, and the driver's counter.\<close>

record 'd memory_connection =
  mc_data :: 'd
  mc_begun :: "'d option"
  mc_savepoints :: "(string \<times> 'd) list"
  mc_counter :: nat

definition sql_begin :: "('d memory_connection, unit) op" where
  "sql_begin = andthen (get mc_begun) (\<lambda>t. andthen (guard (t = None) (raise PlainError ''cannot start a transaction within a transaction'')) (\<lambda>_.
     modify (\<lambda>c. c\<lparr>mc_begun := Some (mc_data c)\<rparr>)))"

definition sql_commit :: "('d, 'p, 'w) engine \<Rightarrow> ('d memory_connection, unit) op" where
  "sql_commit e = andthen (get (\<lambda>c. eng_commit e (mc_data c))) (\<lambda>failure. case failure of
       Some err \<Rightarrow> throw err
     | None \<Rightarrow> modify (\<lambda>c. c\<lparr>mc_begun := None, mc_savepoints := []\<rparr>))"

definition sql_rollback :: "('d memory_connection, unit) op" where
  "sql_rollback = andthen (get mc_begun) (\<lambda>t. case t of
       None \<Rightarrow> throw (raise PlainError ''cannot rollback - no transaction is active'')
     | Some d \<Rightarrow> modify (\<lambda>c. c\<lparr>mc_data := d, mc_begun := None, mc_savepoints := []\<rparr>))"

definition sql_savepoint :: "string \<Rightarrow> ('d memory_connection, unit) op" where
  "sql_savepoint name = modify (\<lambda>c. c\<lparr>mc_savepoints := (name, mc_data c) # mc_savepoints c\<rparr>)"

fun from_savepoint :: "string \<Rightarrow> (string \<times> 'd) list \<Rightarrow> (string \<times> 'd) list" where
  "from_savepoint name [] = []"
| "from_savepoint name ((n, d) # r) = (if n = name then (n, d) # r else from_savepoint name r)"

definition sql_release :: "string \<Rightarrow> ('d memory_connection, unit) op" where
  "sql_release name = andthen (get (\<lambda>c. from_savepoint name (mc_savepoints c))) (\<lambda>st. case st of
       [] \<Rightarrow> throw (raise PlainError (''no such savepoint: '' @ name))
     | _ # r \<Rightarrow> modify (\<lambda>c. c\<lparr>mc_savepoints := r\<rparr>))"

definition sql_rollback_to :: "string \<Rightarrow> ('d memory_connection, unit) op" where
  "sql_rollback_to name = andthen (get (\<lambda>c. from_savepoint name (mc_savepoints c))) (\<lambda>st. case st of
       [] \<Rightarrow> throw (raise PlainError (''no such savepoint: '' @ name))
     | (n, d) # r \<Rightarrow> modify (\<lambda>c. c\<lparr>mc_data := d, mc_savepoints := (n, d) # r\<rparr>))"

text \<open>\<open>try { ... } catch { }\<close>\<close>

definition ignore_failure :: "('s, unit) op \<Rightarrow> ('s, unit) op" where
  "ignore_failure m = catch_op m (\<lambda>_. ret ())"

definition savepoint_name :: "nat \<Rightarrow> string" where
  "savepoint_name n = ''sp_'' @ nat_str n"

definition next_savepoint :: "('d memory_connection, string) op" where
  "next_savepoint = andthen (modify (\<lambda>c. c\<lparr>mc_counter := Suc (mc_counter c)\<rparr>)) (\<lambda>_. get (\<lambda>c. savepoint_name (mc_counter c)))"

definition attempt :: "('s, 'r) op \<Rightarrow> ('s, js_error + 'r) op" where
  "attempt m = (\<lambda>s. case m s of (r, s') \<Rightarrow> (Inr r, s'))"

text \<open>\<open>createTransactionClient\<close>: what the client answers, over the whole callback.\<close>

primrec mem_run :: "('d, 'p, 'w) engine \<Rightarrow> ('p, 'w, 'r) callback \<Rightarrow> ('d memory_connection, 'r) op" where
  "mem_run e (Return r) = ret r"
| "mem_run e (Throw err) = throw err"
| "mem_run e (Query sql ps k) = andthen (get (\<lambda>c. eng_query e sql ps (mc_data c))) (\<lambda>a. mem_run e (k a))"
| "mem_run e (Execute sql ps k) = andthen (get (\<lambda>c. eng_execute e sql ps (mc_data c))) (\<lambda>a. case a of
       Inl err \<Rightarrow> mem_run e (k (Inl err))
     | Inr (d, n) \<Rightarrow> andthen (modify (\<lambda>c. c\<lparr>mc_data := d\<rparr>)) (\<lambda>_. mem_run e (k (Inr (Some n)))))"
| "mem_run e (Savepoint p k) = andthen next_savepoint (\<lambda>name. andthen (sql_savepoint name) (\<lambda>_.
     andthen (attempt (andthen (mem_run e p) (\<lambda>r. andthen (sql_release name) (\<lambda>_. ret r)))) (\<lambda>a. case a of
       Inr r \<Rightarrow> mem_run e (k (Inr r))
     | Inl err \<Rightarrow> andthen (ignore_failure (andthen (sql_rollback_to name) (\<lambda>_. sql_release name))) (\<lambda>_. mem_run e (k (Inl err))))))"

definition mem_transaction :: "('d, 'p, 'w) engine \<Rightarrow> ('p, 'w, 'r) callback \<Rightarrow> ('d memory_connection, 'r) op" where
  "mem_transaction e p = andthen sql_begin (\<lambda>_.
     catch_op (andthen (mem_run e p) (\<lambda>r. andthen (sql_commit e) (\<lambda>_. ret r)))
       (\<lambda>err. andthen (ignore_failure sql_rollback) (\<lambda>_. throw err)))"

definition mem_query :: "('d, 'p, 'w) engine \<Rightarrow> string \<Rightarrow> 'p \<Rightarrow> ('d memory_connection, 'w list) op" where
  "mem_query e sql ps = andthen (get (\<lambda>c. eng_query e sql ps (mc_data c))) (\<lambda>a. case a of
       Inl err \<Rightarrow> throw (raise DatabaseError (''Database query failed: '' @ err_message err))
     | Inr rows \<Rightarrow> ret rows)"

definition mem_execute :: "('d, 'p, 'w) engine \<Rightarrow> string \<Rightarrow> 'p \<Rightarrow> ('d memory_connection, nat) op" where
  "mem_execute e sql ps = andthen (get (\<lambda>c. eng_execute e sql ps (mc_data c))) (\<lambda>a. case a of
       Inl err \<Rightarrow> throw (raise DatabaseError (''Database execute failed: '' @ err_message err))
     | Inr (d, n) \<Rightarrow> andthen (modify (\<lambda>c. c\<lparr>mc_data := d\<rparr>)) (\<lambda>_. ret n))"

section \<open>The native driver\<close>

definition read_in_transaction :: js_error where
  "read_in_transaction = raise DatabaseError
     (''db.transaction(): query() is not supported inside a transaction callback. '' @
      ''The Tauri IPC bridge collects operations and executes them atomically on the '' @
      ''Rust side - intermediate reads cannot be returned across the IPC boundary. '' @
      ''Perform all reads before calling db.transaction().'')"

primrec collect_writes :: "('p, 'w, 'r) callback \<Rightarrow> (string \<times> 'p) list \<Rightarrow> (js_error + 'r) \<times> (string \<times> 'p) list" where
  "collect_writes (Return r) acc = (Inr r, acc)"
| "collect_writes (Throw err) acc = (Inl err, acc)"
| "collect_writes (Query sql ps k) acc = collect_writes (k (Inl read_in_transaction)) acc"
| "collect_writes (Execute sql ps k) acc = collect_writes (k (Inr None)) (acc @ [(sql, ps)])"
| "collect_writes (Savepoint p k) acc = (case collect_writes p [] of
       (Inr r, nested) \<Rightarrow> collect_writes (k (Inr r)) (acc @ nested)
     | (Inl err, nested) \<Rightarrow> collect_writes (k (Inl err)) acc)"

text \<open>\<open>transaction_json\<close> of \<open>native-core\<close>: the limits on the request (\<open>eng_admit\<close>), then one SQL transaction over the
  operations.\<close>

fun execute_all :: "('d, 'p, 'w) engine \<Rightarrow> (string \<times> 'p) list \<Rightarrow> 'd \<Rightarrow> js_error + 'd" where
  "execute_all e [] d = Inr d"
| "execute_all e ((sql, ps) # ops) d = (case eng_execute e sql ps d of
       Inl err \<Rightarrow> Inl err | Inr (d', n) \<Rightarrow> execute_all e ops d')"

definition db_transaction :: "('d, 'p, 'w) engine \<Rightarrow> (string \<times> 'p) list \<Rightarrow> 'd \<Rightarrow> js_error + 'd" where
  "db_transaction e ops d = (case eng_admit e ops of Some err \<Rightarrow> Inl err
     | None \<Rightarrow> (case execute_all e ops d of Inl err \<Rightarrow> Inl err
       | Inr d' \<Rightarrow> (case eng_commit e d' of Some err \<Rightarrow> Inl err | None \<Rightarrow> Inr d')))"

definition wrap_failure :: "js_error \<Rightarrow> js_error" where
  "wrap_failure err = (if err_class err = DatabaseError then err
     else raise DatabaseError (''Database transaction failed: '' @ err_message err))"

definition native_transaction :: "('d, 'p, 'w) engine \<Rightarrow> ('p, 'w, 'r) callback \<Rightarrow> ('d, 'r) op" where
  "native_transaction e p = (\<lambda>d. case collect_writes p [] of
       (Inl err, _) \<Rightarrow> (Inl (wrap_failure err), d)
     | (Inr r, ops) \<Rightarrow> (case db_transaction e ops d of
         Inl err \<Rightarrow> (Inl (wrap_failure err), d)
       | Inr d' \<Rightarrow> (Inr r, d')))"

text \<open>The answers of \<open>db_query\<close> and \<open>db_execute\<close>, valid as the native side sends them.\<close>

definition native_query :: "('d, 'p, 'w) engine \<Rightarrow> string \<Rightarrow> 'p \<Rightarrow> ('d, 'w list) op" where
  "native_query e sql ps = andthen (get (eng_query e sql ps)) (\<lambda>a. case a of
       Inl err \<Rightarrow> throw (raise DatabaseError (''Database query failed: '' @ err_message err))
     | Inr rows \<Rightarrow> ret rows)"

definition native_execute :: "('d, 'p, 'w) engine \<Rightarrow> string \<Rightarrow> 'p \<Rightarrow> ('d, nat) op" where
  "native_execute e sql ps = andthen (get (eng_execute e sql ps)) (\<lambda>a. case a of
       Inl err \<Rightarrow> throw (raise DatabaseError (''Database execute failed: '' @ err_message err))
     | Inr (d, n) \<Rightarrow> andthen (modify (\<lambda>_. d)) (\<lambda>_. ret n))"

section \<open>What the memory driver keeps\<close>

lemma run_attempt [simp]: "andthen (attempt m) f s = f (fst (m s)) (snd (m s))"
  by (simp add: attempt_def andthen_def split: prod.split)

definition frame_of :: "'d memory_connection \<Rightarrow> 'd option \<times> (string \<times> 'd) list" where
  "frame_of c = (mc_begun c, mc_savepoints c)"

lemma next_savepoint_run: "andthen next_savepoint f c = f (savepoint_name (Suc (mc_counter c))) (c\<lparr>mc_counter := Suc (mc_counter c)\<rparr>)"
  by (simp add: next_savepoint_def andthen_assoc)

definition in_savepoint :: "'d memory_connection \<Rightarrow> 'd memory_connection" where
  "in_savepoint c = c\<lparr>mc_counter := Suc (mc_counter c),
     mc_savepoints := (savepoint_name (Suc (mc_counter c)), mc_data c) # mc_savepoints c\<rparr>"

lemma savepoint_run:
  assumes keep: "frame_of (snd (mem_run e p (in_savepoint c))) = frame_of (in_savepoint c)"
  shows "mem_run e (Savepoint p k) c = (case mem_run e p (in_savepoint c) of
      (Inr r, c') \<Rightarrow> mem_run e (k (Inr r)) (c'\<lparr>mc_savepoints := mc_savepoints c\<rparr>)
    | (Inl err, c') \<Rightarrow> mem_run e (k (Inl err)) (c'\<lparr>mc_data := mc_data c, mc_savepoints := mc_savepoints c\<rparr>))"
proof -
  obtain r c' where run: "mem_run e p (in_savepoint c) = (r, c')" by fastforce
  let ?n = "savepoint_name (Suc (mc_counter c))"
  have st: "mc_savepoints c' = (?n, mc_data c) # mc_savepoints c" using keep run by (simp add: frame_of_def in_savepoint_def)
  have start: "mem_run e (Savepoint p k) c = andthen (attempt (andthen (mem_run e p) (\<lambda>r. andthen (sql_release ?n) (\<lambda>_. ret r)))) (\<lambda>a. case a of
       Inr r \<Rightarrow> mem_run e (k (Inr r))
     | Inl err \<Rightarrow> andthen (ignore_failure (andthen (sql_rollback_to ?n) (\<lambda>_. sql_release ?n))) (\<lambda>_. mem_run e (k (Inl err)))) (in_savepoint c)"
    by (simp add: next_savepoint_run sql_savepoint_def in_savepoint_def del: run_attempt)
  have release: "sql_release ?n c1 = (Inr (), c1\<lparr>mc_savepoints := mc_savepoints c\<rparr>)"
    if "mc_savepoints c1 = (?n, mc_data c) # mc_savepoints c" for c1
    using that by (simp add: sql_release_def)
  have restored: "sql_rollback_to ?n c' = (Inr (), c'\<lparr>mc_data := mc_data c\<rparr>)"
    using st by (simp add: sql_rollback_to_def)
  show ?thesis
  proof (cases r)
    case (Inr v)
    have "andthen (mem_run e p) (\<lambda>r. andthen (sql_release ?n) (\<lambda>_. ret r)) (in_savepoint c) = (Inr v, c'\<lparr>mc_savepoints := mc_savepoints c\<rparr>)"
      using run Inr release [OF st] by (simp add: run_andthen_Inr)
    then show ?thesis unfolding start using run Inr by simp
  next
    case (Inl err)
    have "andthen (mem_run e p) (\<lambda>r. andthen (sql_release ?n) (\<lambda>_. ret r)) (in_savepoint c) = (Inl err, c')"
      using run Inl by (simp add: run_andthen_Inl)
    moreover have "ignore_failure (andthen (sql_rollback_to ?n) (\<lambda>_. sql_release ?n)) c' =
        (Inr (), c'\<lparr>mc_data := mc_data c, mc_savepoints := mc_savepoints c\<rparr>)"
      using restored release [of "c'\<lparr>mc_data := mc_data c\<rparr>"] st by (simp add: ignore_failure_def catch_op_def run_andthen_Inr)
    ultimately show ?thesis unfolding start using run Inl by (simp add: run_andthen_Inr)
  qed
qed

lemma mem_run_frame: "frame_of (snd (mem_run e p c)) = frame_of c"
proof (induction p arbitrary: c)
  case (Execute sql ps k)
  then show ?case by (auto simp: frame_of_def split: sum.split)
next
  case (Savepoint p k)
  obtain r c' where run: "mem_run e p (in_savepoint c) = (r, c')" by fastforce
  have k: "frame_of c' = frame_of (in_savepoint c)" using Savepoint.IH(1) [of "in_savepoint c"] run by simp
  then have "mc_begun c' = mc_begun c" by (simp add: frame_of_def in_savepoint_def)
  then show ?case unfolding savepoint_run [OF Savepoint.IH(1)] using run Savepoint.IH(2)
    by (auto simp: frame_of_def split: sum.split)
qed (auto simp: frame_of_def)

section \<open>Transactions are atomic\<close>

lemma transaction_run:
  assumes idle: "mc_begun c = None"
  shows "mem_transaction e p c = (case mem_run e p (c\<lparr>mc_begun := Some (mc_data c)\<rparr>) of
      (Inr r, c') \<Rightarrow> (case eng_commit e (mc_data c') of
          None \<Rightarrow> (Inr r, c'\<lparr>mc_begun := None, mc_savepoints := []\<rparr>)
        | Some err \<Rightarrow> (Inl err, c'\<lparr>mc_data := mc_data c, mc_begun := None, mc_savepoints := []\<rparr>))
    | (Inl err, c') \<Rightarrow> (Inl err, c'\<lparr>mc_data := mc_data c, mc_begun := None, mc_savepoints := []\<rparr>))"
proof -
  let ?c = "c\<lparr>mc_begun := Some (mc_data c)\<rparr>"
  obtain r c' where run: "mem_run e p ?c = (r, c')" by fastforce
  have begun: "mc_begun c' = Some (mc_data c)" using mem_run_frame [of e p ?c] run by (simp add: frame_of_def)
  have start: "mem_transaction e p c = catch_op (andthen (mem_run e p) (\<lambda>r. andthen (sql_commit e) (\<lambda>_. ret r)))
       (\<lambda>err. andthen (ignore_failure sql_rollback) (\<lambda>_. throw err)) ?c"
    using idle by (simp add: mem_transaction_def sql_begin_def andthen_assoc)
  have undo: "andthen (ignore_failure sql_rollback) (\<lambda>_. throw err) c' =
      (Inl err, c'\<lparr>mc_data := mc_data c, mc_begun := None, mc_savepoints := []\<rparr>)" for err
    using begun by (simp add: ignore_failure_def catch_op_def sql_rollback_def andthen_def op_defs)
  show ?thesis
  proof (cases r)
    case (Inl err)
    then show ?thesis unfolding start using run undo by (simp add: catch_op_def run_andthen_Inl)
  next
    case (Inr v)
    then show ?thesis unfolding start using run undo
      by (cases "eng_commit e (mc_data c')") (simp_all add: catch_op_def run_andthen_Inr sql_commit_def andthen_assoc)
  qed
qed

text \<open>C28. Transactions of the memory driver are atomic: a transaction that fails, in its callback or at the commit, leaves
  the data as they were; either way no transaction stays open; and a savepoint whose callback fails
  puts the data back before its caller goes on with the error.\<close>

theorem transactions_atomic:
  assumes idle: "mc_begun c = None"
  shows "(case mem_transaction e p c of (Inl _, c') \<Rightarrow> mc_data c' = mc_data c | (Inr _, c') \<Rightarrow> eng_commit e (mc_data c') = None) \<and>
    mc_begun (snd (mem_transaction e p c)) = None \<and> mc_savepoints (snd (mem_transaction e p c)) = [] \<and>
    (case mem_run e q (in_savepoint c) of (Inr _, _) \<Rightarrow> True
     | (Inl err, c') \<Rightarrow> mem_run e (Savepoint q k) c =
         mem_run e (k (Inl err)) (c'\<lparr>mc_data := mc_data c, mc_savepoints := mc_savepoints c\<rparr>))"
proof -
  obtain r c' where run: "mem_run e p (c\<lparr>mc_begun := Some (mc_data c)\<rparr>) = (r, c')" by fastforce
  have "case mem_run e q (in_savepoint c) of (Inr _, _) \<Rightarrow> True
     | (Inl err, c') \<Rightarrow> mem_run e (Savepoint q k) c =
         mem_run e (k (Inl err)) (c'\<lparr>mc_data := mc_data c, mc_savepoints := mc_savepoints c\<rparr>)"
    unfolding savepoint_run [OF mem_run_frame] by (auto split: prod.split sum.split)
  then show ?thesis unfolding transaction_run [OF idle] run
    by (cases r; cases "eng_commit e (mc_data c')") simp_all
qed

section \<open>Callbacks that only write\<close>

text \<open>A failing await ends the callback, perhaps with another error, and no answer to a write is used, as none is known on the native side.\<close>

inductive writes_only :: "('p, 'w, 'r) callback \<Rightarrow> bool" where
  wo_return: "writes_only (Return r)"
| wo_throw: "writes_only (Throw err)"
| wo_execute: "(\<And>err. \<exists>err'. k (Inl err) = Throw err') \<Longrightarrow> (\<And>n. k (Inr n) = q) \<Longrightarrow> writes_only q \<Longrightarrow> writes_only (Execute sql ps k)"
| wo_savepoint: "writes_only p \<Longrightarrow> (\<And>err. \<exists>err'. k (Inl err) = Throw err') \<Longrightarrow> (\<And>r. writes_only (k (Inr r))) \<Longrightarrow> writes_only (Savepoint p k)"

inductive reads :: "('p, 'w, 'r) callback \<Rightarrow> bool" where
  rd_query: "(\<And>err. k (Inl err) = Throw err) \<Longrightarrow> reads (Query sql ps k)"
| rd_execute: "reads (k (Inr None)) \<Longrightarrow> reads (Execute sql ps k)"
| rd_savepoint: "reads p \<Longrightarrow> (\<And>err. k (Inl err) = Throw err) \<Longrightarrow> reads (Savepoint p k)"

lemma collect_append: "collect_writes p acc = (fst (collect_writes p []), acc @ snd (collect_writes p []))"
proof (induction p arbitrary: acc)
  case (Query sql ps k)
  show ?case unfolding collect_writes.simps by (rule Query.IH [OF rangeI])
next
  case (Execute sql ps k)
  have k: "collect_writes (k (Inr None)) a = (fst (collect_writes (k (Inr None)) []), a @ snd (collect_writes (k (Inr None)) []))" for a
    by (rule Execute.IH [OF rangeI])
  have eq: "collect_writes (Execute sql ps k) a =
      (fst (collect_writes (k (Inr None)) []), (a @ [(sql, ps)]) @ snd (collect_writes (k (Inr None)) []))" for a
    unfolding collect_writes.simps by (rule k)
  show ?case unfolding eq by simp
next
  case (Savepoint p k)
  obtain r nested where p: "collect_writes p [] = (r, nested)" by fastforce
  have k: "collect_writes (k x) a = (fst (collect_writes (k x) []), a @ snd (collect_writes (k x) []))" for x a
    by (rule Savepoint.IH(2) [OF rangeI])
  show ?case
  proof (cases r)
    case (Inl err)
    then have "collect_writes (Savepoint p k) a = collect_writes (k (Inl err)) a" for a using p by simp
    then show ?thesis using k by metis
  next
    case (Inr v)
    have "collect_writes (Savepoint p k) a = (fst (collect_writes (k (Inr v)) []), (a @ nested) @ snd (collect_writes (k (Inr v)) []))" for a
      using p Inr k [of "Inr v" "a @ nested"] by simp
    then show ?thesis by (metis append_Nil append_assoc fst_conv snd_conv)
  qed
qed simp_all

lemma execute_all_append: "execute_all e (xs @ ys) d = (case execute_all e xs d of Inl err \<Rightarrow> Inl err | Inr d' \<Rightarrow> execute_all e ys d')"
  by (induction e xs d rule: execute_all.induct) (auto split: sum.split)

lemma write_program:
  "writes_only p \<Longrightarrow> case (fst (collect_writes p []), execute_all e (snd (collect_writes p [])) (mc_data c)) of
      (Inr v, Inr d) \<Rightarrow> \<exists>c'. mem_run e p c = (Inr v, c') \<and> mc_data c' = d
    | _ \<Rightarrow> isl (fst (mem_run e p c))"
proof (induction p arbitrary: c rule: writes_only.induct)
  case (wo_execute k q sql ps)
  have coll: "collect_writes (Execute sql ps k) [] = (fst (collect_writes q []), (sql, ps) # snd (collect_writes q []))"
    using wo_execute(2) collect_append [of q "[(sql, ps)]"] by simp
  show ?case
  proof (cases "eng_execute e sql ps (mc_data c)")
    case (Inl err)
    then have "isl (fst (mem_run e (Execute sql ps k) c))" using wo_execute(1) [of err] by auto
    then show ?thesis unfolding coll using Inl by (simp split: sum.split)
  next
    case (Inr dn)
    obtain d n where dn: "dn = (d, n)" by fastforce
    have run: "mem_run e (Execute sql ps k) c = mem_run e q (c\<lparr>mc_data := d\<rparr>)" using Inr dn wo_execute(2) by simp
    show ?thesis unfolding coll run using wo_execute.IH [of "c\<lparr>mc_data := d\<rparr>"] Inr dn by simp
  qed
next
  case (wo_savepoint p k)
  note IH = wo_savepoint.IH(1) [of "in_savepoint c"]
  obtain r nested where p: "collect_writes p [] = (r, nested)" by fastforce
  obtain m c' where run: "mem_run e p (in_savepoint c) = (m, c')" by fastforce
  have data: "mc_data (in_savepoint c) = mc_data c" by (simp add: in_savepoint_def)
  note sp = savepoint_run [OF mem_run_frame, of e p k c, unfolded run]
  show ?case
  proof (cases r)
    case (Inl err)
    then have "isl m" using IH p run by simp
    then obtain err' where "m = Inl err'" by (cases m) simp_all
    then have "isl (fst (mem_run e (Savepoint p k) c))" using sp wo_savepoint(2) [of err'] by (auto simp del: mem_run.simps(5))
    then show ?thesis using Inl p wo_savepoint(2) [of err] by (auto simp del: mem_run.simps(5) split: sum.split)
  next
    case (Inr v)
    have coll: "collect_writes (Savepoint p k) [] = (fst (collect_writes (k (Inr v)) []), nested @ snd (collect_writes (k (Inr v)) []))"
      using p Inr collect_append [of "k (Inr v)" nested] by simp
    show ?thesis
    proof (cases "execute_all e nested (mc_data c)")
      case (Inl err)
      then have "isl m" using IH p run Inr data \<open>r = Inr v\<close> by simp
      then obtain err' where "m = Inl err'" by (cases m) simp_all
      then have "isl (fst (mem_run e (Savepoint p k) c))" using sp wo_savepoint(2) [of err'] by (auto simp del: mem_run.simps(5))
      then show ?thesis unfolding coll using Inl by (simp add: execute_all_append split: sum.split)
    next
      case (Inr d)
      then have "m = Inr v" "mc_data c' = d" using IH p run data \<open>r = Inr v\<close> by simp_all
      have run2: "mem_run e (Savepoint p k) c = mem_run e (k (Inr v)) (c'\<lparr>mc_savepoints := mc_savepoints c\<rparr>)"
        using sp \<open>m = Inr v\<close> by (simp del: mem_run.simps)
      show ?thesis unfolding coll run2
        using wo_savepoint.IH(2) [of v "c'\<lparr>mc_savepoints := mc_savepoints c\<rparr>"] Inr \<open>mc_data c' = d\<close>
        by (simp add: execute_all_append)
    qed
  qed
qed simp_all

section \<open>The drivers compared\<close>

text \<open>C29. For callbacks that only write, the native driver refines the memory driver: from the same data, and for a
  request within the native limits, both commit the same result and data, or both fail and leave the
  data, the native driver always with a database error.\<close>

theorem native_refines_memory:
  assumes p: "writes_only p" and idle: "mc_begun c = None" and admit: "\<And>ops. eng_admit e ops = None"
  shows "case mem_transaction e p c of
      (Inr r, c') \<Rightarrow> native_transaction e p (mc_data c) = (Inr r, mc_data c')
    | (Inl err, c') \<Rightarrow> mc_data c' = mc_data c \<and>
        (\<exists>err'. native_transaction e p (mc_data c) = (Inl err', mc_data c) \<and> err_class err' = DatabaseError)"
proof -
  let ?c = "c\<lparr>mc_begun := Some (mc_data c)\<rparr>"
  obtain r ops where coll: "collect_writes p [] = (r, ops)" by fastforce
  have wrap: "err_class (wrap_failure err) = DatabaseError" for err
    by (simp add: wrap_failure_def platform_error_def)
  note W = write_program [OF p, of e ?c, unfolded coll]
  show ?thesis
  proof (cases r)
    case (Inl err)
    then have "isl (fst (mem_run e p ?c))" using W by simp
    then show ?thesis unfolding transaction_run [OF idle] using Inl coll wrap
      by (cases "mem_run e p ?c"; cases "fst (mem_run e p ?c)") (auto simp: native_transaction_def)
  next
    case (Inr v)
    show ?thesis
    proof (cases "execute_all e ops (mc_data c)")
      case (Inl err)
      then have "isl (fst (mem_run e p ?c))" using W \<open>r = Inr v\<close> by simp
      then show ?thesis unfolding transaction_run [OF idle] using Inl \<open>r = Inr v\<close> coll wrap admit
        by (cases "mem_run e p ?c"; cases "fst (mem_run e p ?c)") (auto simp: native_transaction_def db_transaction_def)
    next
      case (Inr d)
      then obtain c' where "mem_run e p ?c = (Inr v, c')" "mc_data c' = d" using W \<open>r = Inr v\<close> by auto
      then show ?thesis unfolding transaction_run [OF idle] using Inr \<open>r = Inr v\<close> coll wrap admit
        by (cases "eng_commit e d") (simp_all add: native_transaction_def db_transaction_def)
    qed
  qed
qed

text \<open>C30. A callback that reads, and does not catch what the read throws, fails on the native driver whatever the
  database holds, and nothing of it is written, although the interface types the client of both drivers alike.\<close>

theorem native_read_fails:
  assumes p: "reads p"
  shows "native_transaction e p d = (Inl read_in_transaction, d)"
proof -
  have "fst (collect_writes p []) = Inl read_in_transaction"
    using p
  proof (induction rule: reads.induct)
    case (rd_execute k sql ps)
    then show ?case using collect_append [of "k (Inr None)" "[(sql, ps)]"] by simp
  next
    case (rd_savepoint p k)
    obtain r nested where "collect_writes p [] = (r, nested)" by fastforce
    then show ?case using rd_savepoint by simp
  qed simp
  moreover have "wrap_failure read_in_transaction = read_in_transaction"
    by (simp add: wrap_failure_def read_in_transaction_def platform_error_def)
  ultimately show ?thesis by (cases "collect_writes p []") (simp add: native_transaction_def)
qed

section \<open>An example\<close>

text \<open>An engine over a list of numbers: an insert appends, a query answers the list.\<close>

definition sample_engine :: "(nat list, nat, nat) engine" where
  "sample_engine = \<lparr>eng_query = (\<lambda>sql n d. Inr d),
     eng_execute = (\<lambda>sql n d. if n \<in> set d then Inl (raise PlainError ''UNIQUE constraint failed'') else Inr (d @ [n], 1)),
     eng_commit = (\<lambda>d. None), eng_admit = (\<lambda>ops. None)\<rparr>"

definition sample_connection :: "nat list memory_connection" where
  "sample_connection = \<lparr>mc_data = [1], mc_begun = None, mc_savepoints = [], mc_counter = 0\<rparr>"

text \<open>\<open>await tx.execute(sql, [n])\<close> and \<open>await tx.query(sql)\<close>, then the rest.\<close>

definition write_then :: "nat \<Rightarrow> (nat, nat, 'r) callback \<Rightarrow> (nat, nat, 'r) callback" where
  "write_then n q = Execute ''INSERT'' n (\<lambda>a. case a of Inl err \<Rightarrow> Throw err | Inr _ \<Rightarrow> q)"

definition read_then :: "(nat list \<Rightarrow> (nat, nat, 'r) callback) \<Rightarrow> (nat, nat, 'r) callback" where
  "read_then q = Query ''SELECT'' 0 (\<lambda>a. case a of Inl err \<Rightarrow> Throw err | Inr rows \<Rightarrow> q rows)"

lemma write_then_only: "writes_only q \<Longrightarrow> writes_only (write_then n q)"
  unfolding write_then_def by (rule wo_execute [where q = q]) simp_all

lemma transactions_atomic_witness:
  "mc_data (snd (mem_transaction sample_engine (write_then 2 (write_then 2 (Return ()))) sample_connection)) = [1]"
proof -
  have fails: "isl (fst (mem_transaction sample_engine (write_then 2 (write_then 2 (Return ()))) sample_connection))" by code_simp
  have "mc_begun sample_connection = None" by (simp add: sample_connection_def)
  from transactions_atomic [OF this, of sample_engine "write_then 2 (write_then 2 (Return ()))" "Return ()" "\<lambda>_. Return ()"] fails
  have "mc_data (snd (mem_transaction sample_engine (write_then 2 (write_then 2 (Return ()))) sample_connection)) = mc_data sample_connection"
    by (cases "mem_transaction sample_engine (write_then 2 (write_then 2 (Return ()))) sample_connection";
        cases "fst (mem_transaction sample_engine (write_then 2 (write_then 2 (Return ()))) sample_connection)") simp_all
  then show ?thesis by (simp add: sample_connection_def)
qed

lemma native_refines_memory_witness:
  "native_transaction sample_engine (write_then 2 (write_then 3 (Return ()))) [1] = (Inr (), [1, 2, 3])"
proof -
  have p: "writes_only (write_then 2 (write_then 3 (Return ())))" by (intro write_then_only wo_return)
  have c: "mc_begun sample_connection = None" "mc_data sample_connection = [1]" by (simp_all add: sample_connection_def)
  have run: "fst (mem_transaction sample_engine (write_then 2 (write_then 3 (Return ()))) sample_connection) = Inr ()"
    "mc_data (snd (mem_transaction sample_engine (write_then 2 (write_then 3 (Return ()))) sample_connection)) = [1, 2, 3]" by code_simp+
  show ?thesis using native_refines_memory [OF p c(1), of sample_engine] run c(2)
    by (cases "mem_transaction sample_engine (write_then 2 (write_then 3 (Return ()))) sample_connection") (simp add: sample_engine_def)
qed

lemma native_read_fails_witness:
  "native_transaction sample_engine (read_then (\<lambda>rows. write_then 2 (Return rows))) [1] = (Inl read_in_transaction, [1]) \<and>
   fst (mem_transaction sample_engine (read_then (\<lambda>rows. write_then 2 (Return rows))) sample_connection) = Inr [1]"
proof -
  have "reads (read_then (\<lambda>rows. write_then 2 (Return rows)))" unfolding read_then_def by (rule rd_query) simp
  then have "native_transaction sample_engine (read_then (\<lambda>rows. write_then 2 (Return rows))) [1] = (Inl read_in_transaction, [1])"
    by (rule native_read_fails)
  moreover have "fst (mem_transaction sample_engine (read_then (\<lambda>rows. write_then 2 (Return rows))) sample_connection) = Inr [1]" by code_simp
  ultimately show ?thesis by blast
qed

end
