(* ===== verification/Sql_Script.thy ===== *)
theory Sql_Script
  imports Prelude
begin

text \<open>
  \<open>splitSqlScript\<close> of the package \<open>database\<close>: one pass over a migration script that cuts it into statements
  at the semicolons outside quotes, comments and trigger bodies.  The loop is modelled on its state;
  a lexer and a cut of its tokens state what the loop computes.
\<close>

section \<open>The scanner\<close>

text \<open>\<open>sc_text\<close> is \<open>script.slice(start, index)\<close>.\<close>

record scan =
  sc_statements :: "string list"
  sc_text :: string
  sc_head :: "string list"
  sc_token :: bool
  sc_line :: bool
  sc_block :: bool
  sc_quote :: "char option"
  sc_trigger :: bool
  sc_body :: bool
  sc_case :: nat

definition scan_start :: scan where
  "scan_start = \<lparr>sc_statements = [], sc_text = [], sc_head = [], sc_token = False, sc_line = False, sc_block = False,
     sc_quote = None, sc_trigger = False, sc_body = False, sc_case = 0\<rparr>"

definition resetStatement :: "scan \<Rightarrow> scan" where
  "resetStatement st = st\<lparr>sc_text := [], sc_token := False, sc_head := [], sc_trigger := False, sc_body := False, sc_case := 0\<rparr>"

definition creates_trigger :: "string list \<Rightarrow> bool" where
  "creates_trigger h \<longleftrightarrow> take 2 h = [''CREATE'', ''TRIGGER''] \<or>
     take 3 h = [''CREATE'', ''TEMP'', ''TRIGGER''] \<or> take 3 h = [''CREATE'', ''TEMPORARY'', ''TRIGGER'']"

definition record_head :: "string \<Rightarrow> scan \<Rightarrow> scan" where
  "record_head w st = (if \<not> sc_body st \<and> length (sc_head st) < 3
     then st\<lparr>sc_head := sc_head st @ [w], sc_trigger := creates_trigger (sc_head st @ [w])\<rparr> else st)"

definition track_body :: "string \<Rightarrow> scan \<Rightarrow> scan" where
  "track_body w st = (if \<not> sc_trigger st then st
     else if \<not> sc_body st \<and> w = ''BEGIN'' then st\<lparr>sc_body := True\<rparr>
     else if sc_body st \<and> w = ''CASE'' then st\<lparr>sc_case := sc_case st + 1\<rparr>
     else if sc_body st \<and> w = ''END'' then (if 0 < sc_case st then st\<lparr>sc_case := sc_case st - 1\<rparr> else st\<lparr>sc_body := False\<rparr>)
     else st)"

definition recordWord :: "string \<Rightarrow> scan \<Rightarrow> scan" where
  "recordWord word st = track_body (to_upper word) (record_head (to_upper word) st)"

definition word_start :: "char \<Rightarrow> bool" where
  "word_start c \<longleftrightarrow> is_upper c \<or> is_lower c \<or> c = CHR ''_''"

definition word_char :: "char \<Rightarrow> bool" where
  "word_char c \<longleftrightarrow> word_start c \<or> is_dec c"

definition followed_by :: "char \<Rightarrow> string \<Rightarrow> bool" where
  "followed_by c rest \<longleftrightarrow> (case rest of [] \<Rightarrow> False | d # _ \<Rightarrow> d = c)"

definition is_newline :: "char \<Rightarrow> bool" where
  "is_newline c \<longleftrightarrow> c = CHR 0x0A \<or> c = CHR 0x0D"

text \<open>\<open>index += 1 + n\<close>\<close>

definition advance :: "char \<Rightarrow> string \<Rightarrow> nat \<Rightarrow> scan \<Rightarrow> nat \<times> scan" where
  "advance c rest n st = (n, st\<lparr>sc_text := sc_text st @ c # take n rest\<rparr>)"

text \<open>One iteration of the loop at the character \<open>c\<close>; the result says how many further characters it consumes.\<close>

definition scan_step :: "char \<Rightarrow> string \<Rightarrow> scan \<Rightarrow> nat \<times> scan" where
  "scan_step c rest st = (
     if sc_line st then advance c rest 0 (if is_newline c then st\<lparr>sc_line := False\<rparr> else st)
     else if sc_block st then
       (if c = CHR ''*'' \<and> followed_by CHR ''/'' rest then advance c rest 1 (st\<lparr>sc_block := False\<rparr>) else advance c rest 0 st)
     else case sc_quote st of
       Some q \<Rightarrow> (if c = q then
           (if followed_by q rest \<and> q \<noteq> CHR '']'' then advance c rest 1 st else advance c rest 0 (st\<lparr>sc_quote := None\<rparr>))
         else advance c rest 0 st)
     | None \<Rightarrow>
       if c = CHR ''-'' \<and> followed_by CHR ''-'' rest then advance c rest 1 (st\<lparr>sc_line := True\<rparr>)
       else if c = CHR ''/'' \<and> followed_by CHR ''*'' rest then advance c rest 1 (st\<lparr>sc_block := True\<rparr>)
       else if c = CHR 0x27 \<or> c = CHR 0x22 \<or> c = CHR 0x60 then advance c rest 0 (st\<lparr>sc_token := True, sc_quote := Some c\<rparr>)
       else if c = CHR ''['' then advance c rest 0 (st\<lparr>sc_token := True, sc_quote := Some CHR '']''\<rparr>)
       else if c = CHR '';'' \<and> \<not> sc_body st then
         (0, resetStatement (if sc_token st then st\<lparr>sc_statements := sc_statements st @ [sc_text st @ [c]]\<rparr> else st))
       else if word_start c then
         (let w = takeWhile word_char rest in advance c rest (length w) (recordWord (c # w) (st\<lparr>sc_token := True\<rparr>)))
       else advance c rest 0 (if is_white c then st else st\<lparr>sc_token := True\<rparr>))"

function scan_loop :: "string \<Rightarrow> scan \<Rightarrow> scan" where
  "scan_loop [] st = st"
| "scan_loop (c # rest) st = (case scan_step c rest st of (n, st') \<Rightarrow> scan_loop (drop n rest) st')"
  by pat_completeness auto
termination by (relation "measure (length \<circ> fst)") auto

definition scan_end :: "scan \<Rightarrow> string list" where
  "scan_end st = sc_statements st @ (if sc_token st then [sc_text st] else [])"

definition splitSqlScript :: "string \<Rightarrow> string list" where
  "splitSqlScript script = scan_end (scan_loop script scan_start)"

section \<open>The tokens of a script\<close>

datatype sql_token =
    Comment string
  | Quoted string
  | Word string
  | Semicolon
  | Space char
  | Other char

fun token_text :: "sql_token \<Rightarrow> string" where
  "token_text (Comment s) = s"
| "token_text (Quoted s) = s"
| "token_text (Word s) = s"
| "token_text Semicolon = '';''"
| "token_text (Space c) = [c]"
| "token_text (Other c) = [c]"

definition tokens_text :: "sql_token list \<Rightarrow> string" where
  "tokens_text ts = concat (map token_text ts)"

text \<open>What a comment or a quoted value still takes of the text, and the text after it.\<close>

fun line_comment :: "string \<Rightarrow> string \<times> string" where
  "line_comment [] = ([], [])"
| "line_comment (c # r) = (if is_newline c then ([c], r) else case line_comment r of (a, b) \<Rightarrow> (c # a, b))"

fun block_comment :: "string \<Rightarrow> string \<times> string" where
  "block_comment [] = ([], [])"
| "block_comment (c # r) = (if c = CHR ''*'' \<and> followed_by CHR ''/'' r then (''*/'', drop 1 r)
     else case block_comment r of (a, b) \<Rightarrow> (c # a, b))"

fun quoted_value :: "char \<Rightarrow> string \<Rightarrow> string \<times> string" where
  "quoted_value q [] = ([], [])"
| "quoted_value q (c # r) = (if c = q then
       (if followed_by q r \<and> q \<noteq> CHR '']'' then (case quoted_value q (drop 1 r) of (a, b) \<Rightarrow> (q # q # a, b)) else ([c], r))
     else case quoted_value q r of (a, b) \<Rightarrow> (c # a, b))"

definition closing_quote :: "char \<Rightarrow> char option" where
  "closing_quote c = (if c = CHR 0x27 \<or> c = CHR 0x22 \<or> c = CHR 0x60 then Some c else if c = CHR ''['' then Some CHR '']'' else None)"

definition next_token :: "char \<Rightarrow> string \<Rightarrow> sql_token \<times> string" where
  "next_token c r = (
     if c = CHR ''-'' \<and> followed_by CHR ''-'' r then (case line_comment (drop 1 r) of (a, b) \<Rightarrow> (Comment (''--'' @ a), b))
     else if c = CHR ''/'' \<and> followed_by CHR ''*'' r then (case block_comment (drop 1 r) of (a, b) \<Rightarrow> (Comment (''/*'' @ a), b))
     else case closing_quote c of
       Some q \<Rightarrow> (case quoted_value q r of (a, b) \<Rightarrow> (Quoted (c # a), b))
     | None \<Rightarrow> if c = CHR '';'' then (Semicolon, r)
       else if word_start c then (Word (c # takeWhile word_char r), dropWhile word_char r)
       else (if is_white c then Space c else Other c, r))"

lemma followed_byE: "followed_by c r \<Longrightarrow> (\<And>r'. r = c # r' \<Longrightarrow> P) \<Longrightarrow> P"
  by (cases r) (auto simp: followed_by_def)

lemma line_comment_text: "line_comment s = (a, b) \<Longrightarrow> s = a @ b"
  by (induction s arbitrary: a b) (auto split: if_splits prod.splits)

lemma block_comment_text: "block_comment s = (a, b) \<Longrightarrow> s = a @ b"
  by (induction s arbitrary: a b) (auto split: if_splits prod.splits elim!: followed_byE)

lemma quoted_value_text: "quoted_value q s = (a, b) \<Longrightarrow> s = a @ b"
  by (induction q s arbitrary: a b rule: quoted_value.induct) (auto split: if_splits prod.splits elim!: followed_byE)

lemma next_token_text: "next_token c r = (t, b) \<Longrightarrow> c # r = token_text t @ b"
  by (auto simp: next_token_def split: if_splits prod.splits option.splits elim!: followed_byE
      dest!: line_comment_text block_comment_text quoted_value_text)

lemma token_text_nonempty: "next_token c r = (t, b) \<Longrightarrow> token_text t \<noteq> []"
  by (auto simp: next_token_def split: if_splits prod.splits option.splits)

lemma next_token_shorter: "next_token c r = (t, b) \<Longrightarrow> length b < Suc (length r)"
proof -
  assume n: "next_token c r = (t, b)"
  have "length (c # r) = length (token_text t) + length b" using next_token_text [OF n] by (metis length_append)
  then show ?thesis using token_text_nonempty [OF n] by (cases "token_text t") auto
qed

function lex :: "string \<Rightarrow> sql_token list" where
  "lex [] = []"
| "lex (c # r) = (case next_token c r of (t, b) \<Rightarrow> t # lex b)"
  by pat_completeness auto
termination by (relation "measure length") (auto dest!: sym [of _ "next_token _ _"] next_token_shorter)

section \<open>What the scanner cuts\<close>

text \<open>The trigger body after the words of a statement: closed, or open within so many \<open>CASE\<close>s.\<close>

definition body_word :: "nat option \<Rightarrow> string \<Rightarrow> nat option" where
  "body_word d w = (case d of
       None \<Rightarrow> if w = ''BEGIN'' then Some 0 else None
     | Some n \<Rightarrow> if w = ''CASE'' then Some (n + 1)
       else if w = ''END'' then (if n = 0 then None else Some (n - 1)) else d)"

definition trigger_body :: "string list \<Rightarrow> nat option" where
  "trigger_body ws = (if creates_trigger ws then foldl body_word None (drop 2 ws) else None)"

fun words_of :: "sql_token list \<Rightarrow> string list" where
  "words_of [] = []"
| "words_of (Word w # ts) = to_upper w # words_of ts"
| "words_of (_ # ts) = words_of ts"

fun is_code :: "sql_token \<Rightarrow> bool" where
  "is_code (Comment _) = False"
| "is_code Semicolon = False"
| "is_code (Space _) = False"
| "is_code _ = True"

definition has_code :: "sql_token list \<Rightarrow> bool" where
  "has_code ts = list_ex is_code ts"

text \<open>A statement ends at a semicolon outside the trigger bodies.\<close>

fun cut :: "sql_token list \<Rightarrow> sql_token list \<Rightarrow> sql_token list list" where
  "cut acc [] = [acc]"
| "cut acc (t # ts) = (if t = Semicolon \<and> trigger_body (words_of acc) = None then (acc @ [t]) # cut [] ts
     else cut (acc @ [t]) ts)"

definition script_statements :: "string \<Rightarrow> string list" where
  "script_statements s = map tokens_text (filter has_code (cut [] (lex s)))"

section \<open>The scanner reads token by token\<close>

fun take_token :: "sql_token \<Rightarrow> scan \<Rightarrow> scan" where
  "take_token (Comment a) st = st\<lparr>sc_text := sc_text st @ a\<rparr>"
| "take_token (Quoted a) st = st\<lparr>sc_text := sc_text st @ a, sc_token := True\<rparr>"
| "take_token (Word w) st = (recordWord w (st\<lparr>sc_token := True\<rparr>))\<lparr>sc_text := sc_text st @ w\<rparr>"
| "take_token Semicolon st = (if sc_body st then st\<lparr>sc_text := sc_text st @ '';'', sc_token := True\<rparr>
     else resetStatement (if sc_token st then st\<lparr>sc_statements := sc_statements st @ [sc_text st @ '';'']\<rparr> else st))"
| "take_token (Space c) st = st\<lparr>sc_text := sc_text st @ [c]\<rparr>"
| "take_token (Other c) st = st\<lparr>sc_text := sc_text st @ [c], sc_token := True\<rparr>"

definition between_tokens :: "scan \<Rightarrow> bool" where
  "between_tokens st \<longleftrightarrow> \<not> sc_line st \<and> \<not> sc_block st \<and> sc_quote st = None"

lemma recordWord_frame [simp]:
  "sc_text (recordWord w st) = sc_text st" "sc_token (recordWord w st) = sc_token st" "sc_line (recordWord w st) = sc_line st"
  "sc_block (recordWord w st) = sc_block st" "sc_quote (recordWord w st) = sc_quote st" "sc_statements (recordWord w st) = sc_statements st"
  by (simp_all add: recordWord_def record_head_def track_body_def)

lemma between_take_token: "between_tokens st \<Longrightarrow> between_tokens (take_token t st)"
  by (cases t) (auto simp: between_tokens_def resetStatement_def)

lemma between_tokens_flags:
  assumes "between_tokens st"
  shows "st\<lparr>sc_line := False, sc_text := x\<rparr> = st\<lparr>sc_text := x\<rparr>" "st\<lparr>sc_block := False, sc_text := x\<rparr> = st\<lparr>sc_text := x\<rparr>"
    "st\<lparr>sc_quote := None, sc_text := x\<rparr> = st\<lparr>sc_text := x\<rparr>"
  using assms by (cases st; simp add: between_tokens_def)+

lemma text_first: "st\<lparr>sc_text := x, sc_line := l\<rparr> = st\<lparr>sc_line := l, sc_text := x\<rparr>"
  "st\<lparr>sc_text := x, sc_block := l\<rparr> = st\<lparr>sc_block := l, sc_text := x\<rparr>" "st\<lparr>sc_text := x, sc_quote := q\<rparr> = st\<lparr>sc_quote := q, sc_text := x\<rparr>"
  "st\<lparr>sc_text := x, sc_token := t\<rparr> = st\<lparr>sc_token := t, sc_text := x\<rparr>"
  by simp_all

lemma between_tokens_text [simp]: "between_tokens (st\<lparr>sc_text := x\<rparr>) = between_tokens st"
  by (simp add: between_tokens_def)

lemma scan_line: "line_comment s = (a, b) \<Longrightarrow> between_tokens st \<Longrightarrow>
    scan_end (scan_loop s (st\<lparr>sc_line := True\<rparr>)) = scan_end (scan_loop b (st\<lparr>sc_text := sc_text st @ a\<rparr>))"
proof (induction s arbitrary: a b st)
  case (Cons c s)
  show ?case
  proof (cases "is_newline c")
    case True
    then show ?thesis using Cons.prems(1) between_tokens_flags [OF Cons.prems(2)] by (auto simp: scan_step_def advance_def)
  next
    case False
    obtain a' where a': "line_comment s = (a', b)" "a = c # a'" using Cons.prems False by (auto split: prod.splits)
    show ?thesis using Cons.IH [OF a'(1), of "st\<lparr>sc_text := sc_text st @ [c]\<rparr>"] Cons.prems(2) False a'
      by (simp add: scan_step_def advance_def text_first)
  qed
qed (simp add: scan_end_def)

lemma scan_block: "block_comment s = (a, b) \<Longrightarrow> between_tokens st \<Longrightarrow>
    scan_end (scan_loop s (st\<lparr>sc_block := True\<rparr>)) = scan_end (scan_loop b (st\<lparr>sc_text := sc_text st @ a\<rparr>))"
proof (induction s arbitrary: a b st rule: block_comment.induct)
  case (2 c s)
  have line: "\<not> sc_line st" using "2.prems" by (simp add: between_tokens_def)
  show ?case
  proof (cases "c = CHR ''*'' \<and> followed_by CHR ''/'' s")
    case True
    then show ?thesis using "2.prems"(1) between_tokens_flags [OF "2.prems"(2)] line
      by (auto simp: scan_step_def advance_def elim!: followed_byE)
  next
    case False
    obtain a' where a': "block_comment s = (a', b)" "a = c # a'" using "2.prems" False by (auto split: prod.splits)
    show ?thesis using "2.IH" [OF False a'(1), of "st\<lparr>sc_text := sc_text st @ [c]\<rparr>"] "2.prems"(2) False a' line
      by (auto simp: scan_step_def advance_def text_first)
  qed
qed (simp add: scan_end_def)

lemma scan_quoted: "quoted_value q s = (a, b) \<Longrightarrow> between_tokens st \<Longrightarrow>
    scan_end (scan_loop s (st\<lparr>sc_quote := Some q\<rparr>)) = scan_end (scan_loop b (st\<lparr>sc_text := sc_text st @ a\<rparr>))"
proof (induction q s arbitrary: a b st rule: quoted_value.induct)
  case (2 q c s)
  have flags: "\<not> sc_line st" "\<not> sc_block st" using "2.prems" by (simp_all add: between_tokens_def)
  consider (close) "c = q" "\<not> (followed_by q s \<and> q \<noteq> CHR '']'')" | (twice) "c = q" "followed_by q s \<and> q \<noteq> CHR '']''" | (inside) "c \<noteq> q"
    by blast
  then show ?case
  proof cases
    case close
    then show ?thesis using "2.prems"(1) between_tokens_flags [OF "2.prems"(2)] flags by (auto simp: scan_step_def advance_def)
  next
    case twice
    obtain s' where s': "s = q # s'" using twice by (auto elim: followed_byE)
    obtain a' where a': "quoted_value q (drop 1 s) = (a', b)" "a = q # q # a'" using "2.prems" twice by (auto split: prod.splits)
    show ?thesis using "2.IH"(1) [OF twice a'(1), of "st\<lparr>sc_text := sc_text st @ [q, q]\<rparr>"] "2.prems"(2) twice a' flags s'
      by (simp add: scan_step_def advance_def text_first)
  next
    case inside
    obtain a' where a': "quoted_value q s = (a', b)" "a = c # a'" using "2.prems" inside by (auto split: prod.splits)
    show ?thesis using "2.IH"(2) [OF inside a'(1), of "st\<lparr>sc_text := sc_text st @ [c]\<rparr>"] "2.prems"(2) inside a' flags
      by (simp add: scan_step_def advance_def text_first)
  qed
qed (simp add: scan_end_def)

lemma drop_takeWhile: "drop (length (takeWhile p r)) r = dropWhile p r" "take (length (takeWhile p r)) r = takeWhile p r"
  by (induction r) auto

lemma word_start_char: "word_start c \<Longrightarrow> c \<noteq> CHR '';'' \<and> c \<noteq> CHR ''-'' \<and> c \<noteq> CHR ''/'' \<and> closing_quote c = None"
  by (auto simp: word_start_def is_upper_def is_lower_def closing_quote_def)

lemma scan_token:
  assumes n: "next_token c r = (t, b)" and bt: "between_tokens st"
  shows "scan_end (scan_loop (c # r) st) = scan_end (scan_loop b (take_token t st))"
proof -
  have flags: "\<not> sc_line st" "\<not> sc_block st" "sc_quote st = None" using bt by (simp_all add: between_tokens_def)
  have bt2: "between_tokens (st\<lparr>sc_token := True, sc_text := x\<rparr>)" for x using bt by (simp add: between_tokens_def)
  consider (line) "c = CHR ''-''" "followed_by CHR ''-'' r" | (block) "c = CHR ''/''" "followed_by CHR ''*'' r"
    | (quote) q where "\<not> (c = CHR ''-'' \<and> followed_by CHR ''-'' r)" "\<not> (c = CHR ''/'' \<and> followed_by CHR ''*'' r)" "closing_quote c = Some q"
    | (plain) "\<not> (c = CHR ''-'' \<and> followed_by CHR ''-'' r)" "\<not> (c = CHR ''/'' \<and> followed_by CHR ''*'' r)" "closing_quote c = None"
    by (cases "closing_quote c") blast+
  then show ?thesis
  proof cases
    case line
    obtain r' where r': "r = CHR ''-'' # r'" using line by (auto elim: followed_byE)
    obtain a where a: "line_comment r' = (a, b)" "t = Comment (''--'' @ a)" using n line r' by (auto simp: next_token_def split: prod.splits)
    show ?thesis using scan_line [OF a(1), of "st\<lparr>sc_text := sc_text st @ ''--''\<rparr>"] bt line r' a flags
      by (simp add: scan_step_def advance_def text_first)
  next
    case block
    obtain r' where r': "r = CHR ''*'' # r'" using block by (auto elim: followed_byE)
    obtain a where a: "block_comment r' = (a, b)" "t = Comment (''/*'' @ a)" using n block r' by (auto simp: next_token_def split: prod.splits)
    show ?thesis using scan_block [OF a(1), of "st\<lparr>sc_text := sc_text st @ ''/*''\<rparr>"] bt block r' a flags
      by (simp add: scan_step_def advance_def text_first)
  next
    case quote
    obtain a where a: "quoted_value q r = (a, b)" "t = Quoted (c # a)" using n quote unfolding next_token_def
      by (auto split: prod.splits if_splits)
    have "scan_step c r st = (0, st\<lparr>sc_token := True, sc_text := sc_text st @ [c]\<rparr>\<lparr>sc_quote := Some q\<rparr>)"
      using quote flags by (auto simp: scan_step_def advance_def closing_quote_def split: if_splits)
    then show ?thesis using scan_quoted [OF a(1) bt2] a(2) by (simp add: text_first)
  next
    case plain
    then have nq: "\<not> (c = CHR 0x27 \<or> c = CHR 0x22 \<or> c = CHR 0x60)" "c \<noteq> CHR ''[''" by (auto simp: closing_quote_def split: if_splits)
    show ?thesis
    proof (cases "c = CHR '';''")
      case True
      then show ?thesis using n plain nq flags
        by (auto simp: next_token_def scan_step_def advance_def text_first resetStatement_def closing_quote_def word_start_def is_upper_def is_lower_def is_white_def)
    next
      case False
      note step = scan_step_def [of c r st] advance_def flags plain nq False
      show ?thesis
      proof (cases "word_start c")
        case True
        then show ?thesis using n plain False by (auto simp: next_token_def step Let_def drop_takeWhile text_first split: if_splits)
      next
        case False
        then have "scan_step c r st = advance c r 0 (if is_white c then st else st\<lparr>sc_token := True\<rparr>)"
          using step(1) flags plain nq \<open>c \<noteq> CHR '';''\<close> by auto
        then show ?thesis using n plain False \<open>c \<noteq> CHR '';''\<close>
          by (auto simp: next_token_def advance_def text_first split: if_splits)
      qed
    qed
  qed
qed

lemma scan_tokens: "between_tokens st \<Longrightarrow> scan_end (scan_loop s st) = scan_end (fold take_token (lex s) st)"
proof (induction s arbitrary: st rule: lex.induct)
  case (2 c r)
  obtain t b where n: "next_token c r = (t, b)" by fastforce
  show ?case unfolding scan_token [OF n "2.prems"] using "2.IH" [OF n [symmetric] between_take_token [OF "2.prems"]] n
    by (simp del: scan_loop.simps)
qed simp

section \<open>The scanner cuts the tokens\<close>

lemma words_of_append [simp]: "words_of (xs @ ys) = words_of xs @ words_of ys"
  by (induction xs rule: words_of.induct) auto

lemma has_code_append [simp]: "has_code (xs @ ys) \<longleftrightarrow> has_code xs \<or> has_code ys"
  by (simp add: has_code_def)

lemma tokens_text_append [simp]: "tokens_text (xs @ ys) = tokens_text xs @ tokens_text ys"
  by (simp add: tokens_text_def)

definition words_seen :: "string list \<Rightarrow> scan \<Rightarrow> bool" where
  "words_seen ws st \<longleftrightarrow> sc_head st = take 3 ws \<and> sc_trigger st = creates_trigger ws \<and>
     trigger_body ws = (if sc_body st then Some (sc_case st) else None) \<and> (\<not> sc_body st \<longrightarrow> sc_case st = 0)"

lemma take_long: "take 2 ws = [a, b] \<Longrightarrow> 2 \<le> length ws" "take 3 ws = [a, b, c] \<Longrightarrow> 3 \<le> length ws"
  by (cases ws; cases "tl ws"; cases "tl (tl ws)"; simp)+

lemma creates_trigger_long: "3 \<le> length ws \<Longrightarrow> creates_trigger (ws @ [w]) = creates_trigger ws"
  by (simp add: creates_trigger_def)

lemma trigger_body_snoc: "creates_trigger ws \<Longrightarrow> creates_trigger (ws @ [w]) \<Longrightarrow> trigger_body (ws @ [w]) = body_word (trigger_body ws) w"
proof -
  assume c: "creates_trigger ws" "creates_trigger (ws @ [w])"
  then have "2 \<le> length ws" unfolding creates_trigger_def using take_long [of ws] by fastforce
  then show ?thesis using c by (simp add: trigger_body_def)
qed

lemma creates_trigger_snoc:
  assumes "creates_trigger ws"
  shows "creates_trigger (ws @ [w])"
  using assms [unfolded creates_trigger_def]
proof (elim disjE)
  assume "take 2 ws = [''CREATE'', ''TRIGGER'']"
  then show ?thesis using take_long(1) [of ws] by (simp add: creates_trigger_def)
qed (use assms creates_trigger_long take_long(2) [of ws] in blast)+

lemma creates_trigger_last:
  assumes "\<not> creates_trigger ws" "creates_trigger (ws @ [w])"
  shows "w = ''TRIGGER'' \<and> length ws < 3 \<and> ws \<noteq> []"
proof -
  have "length ws < 3" using assms creates_trigger_long [of ws w] by force
  moreover have "ws = [] \<or> (\<exists>a. ws = [a]) \<or> (\<exists>a b. ws = [a, b]) \<or> 3 \<le> length ws"
    by (cases ws; cases "tl ws"; cases "tl (tl ws)") auto
  ultimately show ?thesis using assms unfolding creates_trigger_def by auto
qed

lemma trigger_body_new:
  assumes "\<not> creates_trigger ws"
  shows "trigger_body (ws @ [w]) = None"
proof (cases "creates_trigger (ws @ [w])")
  case True
  have "drop 2 (ws @ [w]) = [] \<or> drop 2 (ws @ [w]) = [''TRIGGER'']"
    using creates_trigger_last [OF assms True] by (cases ws; cases "tl ws"; cases "tl (tl ws)") auto
  then have "foldl body_word None (drop 2 (ws @ [w])) = None" by (auto simp only: foldl.simps) (simp add: body_word_def)
  then show ?thesis unfolding trigger_body_def by simp
qed (simp add: trigger_body_def)

lemma words_seen_word: "words_seen ws st \<Longrightarrow> words_seen (ws @ [to_upper w]) (recordWord w st)"
proof -
  assume s: "words_seen ws st"
  let ?w = "to_upper w"
  have body: "sc_body st \<Longrightarrow> creates_trigger ws" using s by (auto simp: words_seen_def trigger_body_def split: if_splits)
  have long: "sc_body st \<Longrightarrow> 3 \<le> length ws"
  proof -
    assume b: "sc_body st"
    then have "trigger_body ws \<noteq> None" using s by (simp add: words_seen_def)
    then have "drop 2 ws \<noteq> []" by (auto simp: trigger_body_def split: if_splits)
    then show ?thesis by simp
  qed
  have head: "record_head ?w st = st\<lparr>sc_head := take 3 (ws @ [?w]), sc_trigger := creates_trigger (ws @ [?w])\<rparr>"
  proof (cases "3 \<le> length ws")
    case True
    then show ?thesis using s creates_trigger_long [OF True, of ?w] by (cases st) (simp add: record_head_def words_seen_def)
  next
    case False
    then show ?thesis using s long by (auto simp: record_head_def words_seen_def)
  qed
  show ?thesis
  proof (cases "creates_trigger ws")
    case True
    note t = trigger_body_snoc [OF True creates_trigger_snoc [OF True]] creates_trigger_snoc [OF True, of ?w]
    show ?thesis using s t by (auto simp: recordWord_def head track_body_def words_seen_def body_word_def)
  next
    case False
    have "\<not> sc_body st" using body False by blast
    moreover have "creates_trigger (ws @ [?w]) \<Longrightarrow> ?w \<noteq> ''BEGIN''" using creates_trigger_last [OF False] by force
    ultimately show ?thesis using s trigger_body_new [OF False, of ?w]
      by (auto simp: recordWord_def head track_body_def words_seen_def)
  qed
qed

definition segment_seen :: "sql_token list \<Rightarrow> scan \<Rightarrow> bool" where
  "segment_seen acc st \<longleftrightarrow> sc_text st = tokens_text acc \<and> sc_token st = has_code acc \<and> words_seen (words_of acc) st"

lemma trigger_has_code: "trigger_body (words_of acc) \<noteq> None \<Longrightarrow> has_code acc"
proof -
  assume "trigger_body (words_of acc) \<noteq> None"
  then have "words_of acc \<noteq> []" by (auto simp: trigger_body_def creates_trigger_def)
  then show ?thesis by (induction acc rule: words_of.induct) (auto simp: has_code_def)
qed

lemma segment_seen_start: "segment_seen [] (resetStatement st)"
  by (simp add: segment_seen_def resetStatement_def words_seen_def tokens_text_def has_code_def creates_trigger_def trigger_body_def)

lemma segment_seen_take:
  assumes "segment_seen acc st" "\<not> (t = Semicolon \<and> trigger_body (words_of acc) = None)"
  shows "segment_seen (acc @ [t]) (take_token t st) \<and> sc_statements (take_token t st) = sc_statements st"
proof -
  have w: "words_seen ws (st\<lparr>sc_text := x, sc_token := y\<rparr>) = words_seen ws st" "words_seen ws (st\<lparr>sc_text := x\<rparr>) = words_seen ws st"
    "words_seen ws (st\<lparr>sc_token := y\<rparr>) = words_seen ws st" for ws x y and st :: scan by (simp_all add: words_seen_def)
  show ?thesis
  proof (cases t)
    case (Word v)
    then show ?thesis using assms words_seen_word [of "words_of acc" "st\<lparr>sc_token := True\<rparr>" v]
      by (simp add: segment_seen_def w tokens_text_def has_code_def)
  next
    case Semicolon
    then have "sc_body st" using assms by (auto simp: segment_seen_def words_seen_def split: if_splits)
    moreover have "has_code acc" using Semicolon assms(2) by (intro trigger_has_code) simp
    ultimately show ?thesis using assms Semicolon by (simp add: segment_seen_def w tokens_text_def)
  qed (use assms in \<open>simp_all add: segment_seen_def w tokens_text_def has_code_def text_first\<close>)
qed

lemma scan_cuts: "segment_seen acc st \<Longrightarrow>
    scan_end (fold take_token ts st) = sc_statements st @ map tokens_text (filter has_code (cut acc ts))"
proof (induction ts arbitrary: acc st)
  case Nil
  then show ?case by (simp add: scan_end_def segment_seen_def)
next
  case (Cons t ts)
  show ?case
  proof (cases "t = Semicolon \<and> trigger_body (words_of acc) = None")
    case True
    then have "\<not> sc_body st" using Cons.prems by (simp add: segment_seen_def words_seen_def split: if_splits)
    then show ?thesis using True Cons.prems Cons.IH [OF segment_seen_start]
      by (simp add: segment_seen_def tokens_text_def has_code_def) (simp add: resetStatement_def)
  next
    case False
    then show ?thesis using Cons.IH segment_seen_take [OF Cons.prems False] by auto
  qed
qed

lemma split_statements: "splitSqlScript script = script_statements script"
proof -
  have "between_tokens scan_start" by (simp add: between_tokens_def scan_start_def)
  moreover have "resetStatement scan_start = scan_start" by (simp add: resetStatement_def scan_start_def)
  then have "segment_seen [] scan_start" using segment_seen_start [of scan_start] by simp
  ultimately show ?thesis
    by (simp add: splitSqlScript_def script_statements_def scan_tokens scan_cuts) (simp add: scan_start_def)
qed

section \<open>Pieces of a script\<close>

lemma text_lex: "tokens_text (lex s) = s"
proof (induction s rule: lex.induct)
  case (2 c r)
  obtain t b where n: "next_token c r = (t, b)" by fastforce
  show ?case using "2.IH" [OF n [symmetric]] next_token_text [OF n, symmetric] n by (simp add: tokens_text_def)
qed (simp add: tokens_text_def)

lemma text_cut: "concat (map tokens_text (cut acc ts)) = tokens_text acc @ tokens_text ts"
  by (induction acc ts rule: cut.induct) (simp_all add: tokens_text_def)

lemma followed_by_prefix: "followed_by c (v @ z) \<Longrightarrow> v = [] \<or> followed_by c v"
  by (cases v) (auto simp: followed_by_def)

lemma line_comment_prefix: "line_comment s = (a, v @ z) \<Longrightarrow> line_comment (a @ v) = (a, v)"
  by (induction s arbitrary: a) (auto split: if_splits prod.splits)

lemma block_comment_prefix: "block_comment s = (a, v @ z) \<Longrightarrow> block_comment (a @ v) = (a, v)"
proof (induction s arbitrary: a)
  case (Cons c s)
  show ?case
  proof (cases "c = CHR ''*'' \<and> followed_by CHR ''/'' s")
    case True
    then show ?thesis using Cons.prems by (auto simp: followed_by_def)
  next
    case False
    obtain a' where a': "block_comment s = (a', v @ z)" "a = c # a'" using Cons.prems False by (auto split: prod.splits)
    have "\<not> (c = CHR ''*'' \<and> followed_by CHR ''/'' (a' @ v))"
      using False block_comment_text [OF a'(1)] by (cases a'; cases v) (auto simp: followed_by_def)
    then show ?thesis using Cons.IH [OF a'(1)] a'(2) by auto
  qed
qed simp

lemma quoted_value_prefix: "quoted_value q s = (a, v @ z) \<Longrightarrow> quoted_value q (a @ v) = (a, v)"
proof (induction q s arbitrary: a rule: quoted_value.induct)
  case (2 q c s)
  consider (close) "c = q" "\<not> (followed_by q s \<and> q \<noteq> CHR '']'')" | (twice) "c = q" "followed_by q s \<and> q \<noteq> CHR '']''" | (inside) "c \<noteq> q"
    by blast
  then show ?case
  proof cases
    case close
    then have "a = [q]" "s = v @ z" using "2.prems" by auto
    then show ?thesis using close by (cases v) (auto simp: followed_by_def)
  next
    case twice
    obtain a' where a': "quoted_value q (drop 1 s) = (a', v @ z)" "a = q # q # a'" using "2.prems" twice by (auto split: prod.splits)
    show ?thesis using "2.IH"(1) [OF twice a'(1)] a' twice by (simp add: followed_by_def)
  next
    case inside
    obtain a' where a': "quoted_value q s = (a', v @ z)" "a = c # a'" using "2.prems" inside by (auto split: prod.splits)
    show ?thesis using "2.IH"(2) [OF inside a'(1)] a' inside by simp
  qed
qed simp

lemma takeWhile_prefix: "dropWhile p s = v @ z \<Longrightarrow> takeWhile p (takeWhile p s @ v) = takeWhile p s \<and> dropWhile p (takeWhile p s @ v) = v"
proof -
  assume d: "dropWhile p s = v @ z"
  have "v = [] \<or> \<not> p (hd v)"
  proof (cases v)
    case (Cons x w)
    then show ?thesis using hd_dropWhile [of p s] d by force
  qed simp
  then show ?thesis by (cases v) (auto simp: takeWhile_append dropWhile_append dest: set_takeWhileD)
qed

lemma next_token_prefix:
  assumes n: "next_token c r = (t, v @ z)"
  shows "\<exists>r'. token_text t @ v = c # r' \<and> next_token c r' = (t, v)"
proof -
  consider (line) "c = CHR ''-''" "followed_by CHR ''-'' r" | (block) "c = CHR ''/''" "followed_by CHR ''*'' r"
    | (quote) q where "\<not> (c = CHR ''-'' \<and> followed_by CHR ''-'' r)" "\<not> (c = CHR ''/'' \<and> followed_by CHR ''*'' r)" "closing_quote c = Some q"
    | (plain) "\<not> (c = CHR ''-'' \<and> followed_by CHR ''-'' r)" "\<not> (c = CHR ''/'' \<and> followed_by CHR ''*'' r)" "closing_quote c = None"
    by (cases "closing_quote c") blast+
  then show ?thesis
  proof cases
    case line
    then obtain a where "line_comment (drop 1 r) = (a, v @ z)" "t = Comment (''--'' @ a)" using n by (auto simp: next_token_def split: prod.splits)
    then show ?thesis using line_comment_prefix line by (simp add: next_token_def followed_by_def)
  next
    case block
    then obtain a where "block_comment (drop 1 r) = (a, v @ z)" "t = Comment (''/*'' @ a)" using n by (auto simp: next_token_def split: prod.splits)
    then show ?thesis using block_comment_prefix block by (simp add: next_token_def followed_by_def)
  next
    case quote
    then obtain a where a: "quoted_value q r = (a, v @ z)" "t = Quoted (c # a)"
      using n unfolding next_token_def by (auto split: prod.splits if_splits)
    have "c \<noteq> CHR ''-''" "c \<noteq> CHR ''/''" using quote(3) by (auto simp: closing_quote_def split: if_splits)
    then show ?thesis using quoted_value_prefix [OF a(1)] a(2) quote(3) by (auto simp: next_token_def)
  next
    case plain
    show ?thesis
    proof (cases "word_start c")
      case True
      note w = word_start_char [OF True]
      then have "t = Word (c # takeWhile word_char r)" "dropWhile word_char r = v @ z" using n plain True by (auto simp: next_token_def split: if_splits)
      then show ?thesis using takeWhile_prefix [of word_char r v z] w True by (auto simp: next_token_def)
    next
      case False
      then have r: "r = v @ z" "token_text t = [c]" using n plain by (auto simp: next_token_def split: if_splits)
      have "\<not> (c = CHR ''-'' \<and> followed_by CHR ''-'' v)" "\<not> (c = CHR ''/'' \<and> followed_by CHR ''*'' v)"
        using plain r by (cases v; auto simp: followed_by_def)+
      then show ?thesis using n plain False r by (auto simp: next_token_def split: if_splits)
    qed
  qed
qed

lemma lex_Cons: "next_token c r = (t, b) \<Longrightarrow> lex (c # r) = t # lex b"
  by simp

lemma lex_ConsE:
  assumes "lex s = t # ts"
  obtains c r b where "s = c # r" "next_token c r = (t, b)" "lex b = ts"
proof (cases s)
  case (Cons c r)
  obtain t' b where "next_token c r = (t', b)" by fastforce
  then show ?thesis using that [OF Cons, of b] assms Cons by simp
qed (use assms in simp)

lemma lex_prefix: "lex s = ts @ us \<Longrightarrow> lex (tokens_text ts) = ts"
proof (induction ts arbitrary: s)
  case (Cons t ts)
  then obtain c r b where s: "s = c # r" "next_token c r = (t, b)" "lex b = ts @ us" using lex_ConsE by (metis append_Cons)
  have "b = tokens_text ts @ tokens_text us" using text_lex [of b] s(3) by simp
  then obtain r' where "token_text t @ tokens_text ts = c # r'" "next_token c r' = (t, tokens_text ts)"
    using next_token_prefix s(2) by blast
  then show ?case using lex_Cons Cons.IH [OF s(3)] by (simp add: tokens_text_def)
qed (simp add: tokens_text_def)

lemma lex_suffix: "lex s = ts @ us \<Longrightarrow> lex (tokens_text us) = us"
proof (induction ts arbitrary: s)
  case Nil
  then show ?case using text_lex [of s] by simp
next
  case (Cons t ts)
  then show ?case by (metis append_Cons lex_ConsE)
qed

lemma concat_cut: "concat (cut acc ts) = acc @ ts"
  by (induction acc ts rule: cut.induct) simp_all

lemma lex_segment:
  assumes "seg \<in> set (cut [] (lex s))"
  shows "lex (tokens_text seg) = seg"
proof -
  obtain xs ys where "cut [] (lex s) = xs @ seg # ys" using assms by (meson split_list)
  then have "lex s = concat xs @ seg @ concat ys" using concat_cut [of "[]" "lex s"] by simp
  then show ?thesis using lex_suffix lex_prefix by metis
qed

lemma cut_segment: "seg \<in> set (cut acc ts) \<Longrightarrow>
    (\<exists>ys. seg = acc @ ys \<and> (cut acc ys = [seg] \<or> cut acc ys = [seg, []])) \<or> cut [] seg = [seg] \<or> cut [] seg = [seg, []]"
proof (induction acc ts rule: cut.induct)
  case (1 acc)
  then show ?case by simp
next
  case (2 acc t ts)
  show ?case
  proof (cases "t = Semicolon \<and> trigger_body (words_of acc) = None")
    case True
    then consider "seg = acc @ [t]" | "seg \<in> set (cut [] ts)" using "2.prems" by auto
    then show ?thesis
    proof cases
      case 1
      then show ?thesis using True by (intro disjI1 exI [of _ "[t]"]) simp
    next
      case 2
      then show ?thesis using "2.IH"(1) [OF True] by auto
    qed
  next
    case False
    then have "seg \<in> set (cut (acc @ [t]) ts)" using "2.prems" by auto
    then consider ys where "seg = (acc @ [t]) @ ys" "cut (acc @ [t]) ys = [seg] \<or> cut (acc @ [t]) ys = [seg, []]"
      | "cut [] seg = [seg] \<or> cut [] seg = [seg, []]" using "2.IH"(2) [OF False] by blast
    then show ?thesis
    proof cases
      case 1
      then show ?thesis using False by (intro disjI1 exI [of _ "t # ys"]) auto
    qed blast
  qed
qed

lemma split_segment:
  assumes "seg \<in> set (cut [] (lex s))"
  shows "splitSqlScript (tokens_text seg) = (if has_code seg then [tokens_text seg] else [])"
proof -
  have "cut [] seg = [seg] \<or> cut [] seg = [seg, []]" using cut_segment [OF assms] by auto
  then show ?thesis unfolding split_statements script_statements_def lex_segment [OF assms] by (auto simp: has_code_def)
qed

definition script_pieces :: "string \<Rightarrow> string list" where
  "script_pieces s = map tokens_text (cut [] (lex s))"

text \<open>C31. The one-pass scanner cuts a script as the grammar of its tokens says, at the semicolons outside quotes,
  comments and trigger bodies: the pieces are the whole script, the statements are the pieces with some
  code in them, and each piece, split again, is one statement or, of blanks and comments only, none.\<close>

theorem script_split:
  "splitSqlScript script = script_statements script \<and> concat (script_pieces script) = script \<and>
   splitSqlScript script = filter (\<lambda>p. has_code (lex p)) (script_pieces script) \<and>
   list_all (\<lambda>p. splitSqlScript p = (if has_code (lex p) then [p] else [])) (script_pieces script)"
proof -
  have "filter (\<lambda>p. has_code (lex p)) (map tokens_text ss) = map tokens_text (filter has_code ss)"
    if "set ss \<subseteq> set (cut [] (lex script))" for ss
    using that by (induction ss) (auto simp: lex_segment)
  moreover have "concat (script_pieces script) = script"
    using text_cut [of "[]" "lex script"] text_lex [of script] by (simp add: script_pieces_def tokens_text_def [of "[]"])
  moreover have "list_all (\<lambda>p. splitSqlScript p = (if has_code (lex p) then [p] else [])) (script_pieces script)"
    by (auto simp: script_pieces_def list_all_iff split_segment lex_segment)
  ultimately show ?thesis using split_statements [of script] by (simp add: script_statements_def script_pieces_def)
qed

text \<open>A trigger, a quoted semicolon and a comment, and a script without code.\<close>

lemma script_split_sample:
  "splitSqlScript ''CREATE TRIGGER t BEGIN SELECT 1; END; SELECT \"a;b\" -- c;'' =
     [''CREATE TRIGGER t BEGIN SELECT 1; END;'', '' SELECT \"a;b\" -- c;''] \<and>
   splitSqlScript '' ; /* SELECT 1; */ ;'' = []"
  by code_simp

end
