(* ===== verification/Migrations.thy ===== *)
theory Migrations
  imports Database Sql_Script Feature_Graph Hlc
begin

text \<open>
  \<open>database/src/migrations/MigrationEngine.ts\<close>: validation of the supplied migrations, comparison with the
  table \<open>core_migrations\<close>, and one transaction per pending migration.  The engine runs on either driver
  of \<open>Database\<close>; the locale \<open>migration_store\<close> is what it relies on, and holds for both.
\<close>

section \<open>Migrations and the table of applied ones\<close>

text \<open>\<open>{ ...migration, owner }\<close> over the migration of a manifest.\<close>

record migration_script = migration_def +
  ms_owner :: "string option"

record migration_row =
  mr_owner :: string
  mr_version :: int
  mr_name :: string
  mr_applied_at :: string
  mr_checksum :: string

text \<open>The table, if it was created, and everything else the statements of the migrations work on.\<close>

record 'd migration_db =
  md_rows :: "migration_row list option"
  md_data :: 'd

definition owner_of :: "migration_script \<Rightarrow> string" where
  "owner_of m = (case ms_owner m of None \<Rightarrow> ''platform'' | Some ow \<Rightarrow> ow)"

definition version_of :: "migration_script \<Rightarrow> int" where
  "version_of m = \<lfloor>mg_version m\<rfloor>"

definition identity_of :: "string \<Rightarrow> int \<Rightarrow> string" where
  "identity_of ow v = ow @ '':'' @ int_str v"

definition script_identity :: "migration_script \<Rightarrow> string" where
  "script_identity m = identity_of (owner_of m) (version_of m)"

definition row_identity :: "migration_row \<Rightarrow> string" where
  "row_identity r = identity_of (mr_owner r) (mr_version r)"

definition SELECT_APPLIED :: string where
  "SELECT_APPLIED = ''SELECT owner, version, checksum FROM core_migrations ORDER BY owner ASC, version ASC''"

definition INSERT_MIGRATION :: string where
  "INSERT_MIGRATION = ''INSERT INTO core_migrations (owner, version, name, applied_at, checksum) VALUES (?, ?, ?, ?, ?)''"

definition CREATE_MIGRATIONS :: string where
  "CREATE_MIGRATIONS = ''CREATE TABLE IF NOT EXISTS core_migrations''"

section \<open>What the database does with them\<close>

text \<open>The engine of the drivers: the statements above on the table with its primary key, any other statement (without
  parameters) by \<open>run\<close> on the rest of the database.\<close>

definition create_table :: "'d migration_db \<Rightarrow> 'd migration_db" where
  "create_table d = (case md_rows d of None \<Rightarrow> d\<lparr>md_rows := Some []\<rparr> | Some rows \<Rightarrow> d)"

definition insert_migration_row :: "migration_row \<Rightarrow> 'd migration_db \<Rightarrow> js_error + 'd migration_db \<times> nat" where
  "insert_migration_row row d = (case md_rows d of
       None \<Rightarrow> Inl (raise PlainError ''no such table: core_migrations'')
     | Some rows \<Rightarrow> if \<exists>r \<in> set rows. mr_owner r = mr_owner row \<and> mr_version r = mr_version row
         then Inl (raise PlainError ''UNIQUE constraint failed: core_migrations.owner, core_migrations.version'')
         else Inr (d\<lparr>md_rows := Some (rows @ [row])\<rparr>, 1))"

definition run_statement :: "(string \<Rightarrow> 'd \<Rightarrow> js_error + 'd) \<Rightarrow> string \<Rightarrow> 'd migration_db \<Rightarrow> js_error + 'd migration_db \<times> nat" where
  "run_statement run sql d = (case run sql (md_data d) of Inl err \<Rightarrow> Inl err | Inr x \<Rightarrow> Inr (d\<lparr>md_data := x\<rparr>, 0))"

definition migration_engine :: "(string \<Rightarrow> 'd \<Rightarrow> js_error + 'd) \<Rightarrow> ('d migration_db \<Rightarrow> js_error option) \<Rightarrow>
    ((string \<times> migration_row option) list \<Rightarrow> js_error option) \<Rightarrow> ('d migration_db, migration_row option, migration_row) engine" where
  "migration_engine run commit admit = \<lparr>
     eng_query = (\<lambda>sql ps d. case md_rows d of
         None \<Rightarrow> Inl (raise PlainError ''no such table: core_migrations'')
       | Some rows \<Rightarrow> Inr (order_by mr_owner (order_by mr_version rows))),
     eng_execute = (\<lambda>sql ps d. case ps of
         Some row \<Rightarrow> insert_migration_row row d
       | None \<Rightarrow> if sql = CREATE_MIGRATIONS then Inr (create_table d, 0) else run_statement run sql d),
     eng_commit = commit, eng_admit = admit\<rparr>"

text \<open>A driver, as the migration engine uses it.\<close>

record 's migration_driver =
  dr_execute :: "string \<Rightarrow> ('s, unit) op"
  dr_query :: "string \<Rightarrow> ('s, migration_row list) op"
  dr_transaction :: "(migration_row option, migration_row, unit) callback \<Rightarrow> ('s, unit) op"

definition memory_driver :: "('d migration_db, migration_row option, migration_row) engine \<Rightarrow> 'd migration_db memory_connection migration_driver" where
  "memory_driver e = \<lparr>dr_execute = (\<lambda>sql. andthen (mem_execute e sql None) (\<lambda>_. ret ())),
     dr_query = (\<lambda>sql. mem_query e sql None), dr_transaction = mem_transaction e\<rparr>"

definition native_driver :: "('d migration_db, migration_row option, migration_row) engine \<Rightarrow> 'd migration_db migration_driver" where
  "native_driver e = \<lparr>dr_execute = (\<lambda>sql. andthen (native_execute e sql None) (\<lambda>_. ret ())),
     dr_query = (\<lambda>sql. native_query e sql None), dr_transaction = native_transaction e\<rparr>"

section \<open>Validation\<close>

definition valid_script :: "migration_script \<Rightarrow> bool" where
  "valid_script m \<longleftrightarrow> of_int \<lfloor>mg_version m\<rfloor> = mg_version m \<and> safe_int \<lfloor>mg_version m\<rfloor> \<and> 0 < mg_version m \<and>
     trim (owner_of m) \<noteq> [] \<and> trim (mg_name m) \<noteq> [] \<and> trim (mg_checksum m) \<noteq> [] \<and> trim (mg_sql m) \<noteq> []"

fun check_scripts :: "migration_script list \<Rightarrow> string list \<Rightarrow> js_error + unit" where
  "check_scripts [] identities = Inr ()"
| "check_scripts (m # ms) identities =
     (if \<not> valid_script m then Inl (raise MigrationError
        ''Migration definitions require a positive version and non-empty owner, name, checksum, and SQL'')
      else if script_identity m \<in> set identities then Inl (raise MigrationError
        (''Duplicate migration identity '' @ quoted (script_identity m) @ '' in supplied migration set''))
      else if splitSqlScript (mg_sql m) = [] then Inl (raise MigrationError
        (''Migration '' @ quoted (script_identity m) @ '' does not contain an executable SQL statement''))
      else check_scripts ms (script_identity m # identities))"

text \<open>\<open>versionsByOwner\<close>, in the order of the owners' first migrations.\<close>

fun versions_by_owner :: "migration_script list \<Rightarrow> (string \<times> int list) list \<Rightarrow> (string \<times> int list) list" where
  "versions_by_owner [] acc = acc"
| "versions_by_owner (m # ms) acc = versions_by_owner ms (assoc_set (owner_of m)
     ((case assoc_get (owner_of m) acc of None \<Rightarrow> [] | Some vs \<Rightarrow> vs) @ [version_of m]) acc)"

fun first_gap :: "int \<Rightarrow> int list \<Rightarrow> int option" where
  "first_gap expected [] = None"
| "first_gap expected (v # vs) = (if v \<noteq> expected then Some expected else first_gap (expected + 1) vs)"

fun check_sequences :: "(string \<times> int list) list \<Rightarrow> js_error + unit" where
  "check_sequences [] = Inr ()"
| "check_sequences ((ow, vs) # r) = (case first_gap 1 (sort vs) of
       Some expected \<Rightarrow> Inl (raise MigrationError
         (''Migration sequence for owner '' @ quoted ow @ '' is missing version '' @ int_str expected))
     | None \<Rightarrow> check_sequences r)"

section \<open>Application\<close>

definition ensureMigrationTable :: "'s migration_driver \<Rightarrow> ('s, unit) op" where
  "ensureMigrationTable dr = dr_execute dr CREATE_MIGRATIONS"

definition getAppliedMigrations :: "'s migration_driver \<Rightarrow> ('s, migration_row list) op" where
  "getAppliedMigrations dr = andthen (ensureMigrationTable dr) (\<lambda>_. dr_query dr SELECT_APPLIED)"

definition getAppliedVersions :: "'s migration_driver \<Rightarrow> ('s, int list) op" where
  "getAppliedVersions dr = andthen (getAppliedMigrations dr) (\<lambda>rows.
     ret (map mr_version (filter (\<lambda>r. mr_owner r = ''platform'') rows)))"

definition applied_checksums :: "migration_row list \<Rightarrow> (string \<times> string) list" where
  "applied_checksums rows = fold (\<lambda>r. assoc_set (row_identity r) (mr_checksum r)) rows []"

definition removed_migration :: "migration_script list \<Rightarrow> migration_row list \<Rightarrow> migration_row option" where
  "removed_migration ms rows = find_first (\<lambda>r. mr_owner r \<in> owner_of ` set ms \<and> row_identity r \<notin> script_identity ` set ms) rows"

definition cmp_scripts :: "(string \<Rightarrow> string \<Rightarrow> int) \<Rightarrow> migration_script \<Rightarrow> migration_script \<Rightarrow> int" where
  "cmp_scripts lc a b = (if lc (owner_of a) (owner_of b) \<noteq> 0 then lc (owner_of a) (owner_of b) else version_of a - version_of b)"

definition row_of_script :: "(migration_script \<Rightarrow> string) \<Rightarrow> migration_script \<Rightarrow> migration_row" where
  "row_of_script clock m = \<lparr>mr_owner = owner_of m, mr_version = version_of m, mr_name = mg_name m,
     mr_applied_at = clock m, mr_checksum = mg_checksum m\<rparr>"

definition migration_failed :: "migration_script \<Rightarrow> js_error \<Rightarrow> js_error" where
  "migration_failed m err = raise MigrationError (''Migration '' @ owner_of m @ '':v'' @ int_str (version_of m) @
     '' ('' @ quoted (mg_name m) @ '') failed: '' @ err_message err)"

text \<open>The callback of the transaction; the catch wraps the error of whichever await fails.\<close>

fun migration_callback :: "(migration_script \<Rightarrow> string) \<Rightarrow> migration_script \<Rightarrow> string list \<Rightarrow> (migration_row option, migration_row, unit) callback" where
  "migration_callback clock m [] = Execute INSERT_MIGRATION (Some (row_of_script clock m))
     (\<lambda>a. case a of Inl err \<Rightarrow> Throw (migration_failed m err) | Inr _ \<Rightarrow> Return ())"
| "migration_callback clock m (q # qs) = Execute q None
     (\<lambda>a. case a of Inl err \<Rightarrow> Throw (migration_failed m err) | Inr _ \<Rightarrow> migration_callback clock m qs)"

definition checksum_mismatch :: "migration_script \<Rightarrow> js_error" where
  "checksum_mismatch m = raise MigrationError (''Migration checksum mismatch for '' @ owner_of m @ '':v'' @
     int_str (version_of m) @ '' ('' @ quoted (mg_name m) @ '')'')"

fun apply_each :: "'s migration_driver \<Rightarrow> (migration_script \<Rightarrow> string) \<Rightarrow> (string \<times> string) list \<Rightarrow> migration_script list \<Rightarrow>
    nat \<Rightarrow> ('s, nat) op" where
  "apply_each dr clock applied [] n = ret n"
| "apply_each dr clock applied (m # ms) n = (case assoc_get (script_identity m) applied of
       Some checksum \<Rightarrow> if checksum \<noteq> mg_checksum m then throw (checksum_mismatch m) else apply_each dr clock applied ms n
     | None \<Rightarrow> andthen (dr_transaction dr (migration_callback clock m (splitSqlScript (mg_sql m))))
         (\<lambda>_. apply_each dr clock applied ms (n + 1)))"

definition applyMigrations :: "(string \<Rightarrow> string \<Rightarrow> int) \<Rightarrow> 's migration_driver \<Rightarrow> (migration_script \<Rightarrow> string) \<Rightarrow>
    migration_script list \<Rightarrow> ('s, nat) op" where
  "applyMigrations lc dr clock ms =
     andthen (from_result (check_scripts ms [])) (\<lambda>_.
     andthen (from_result (check_sequences (versions_by_owner ms []))) (\<lambda>_.
     andthen (ensureMigrationTable dr) (\<lambda>_.
     andthen (getAppliedMigrations dr) (\<lambda>rows.
     case removed_migration ms rows of
       Some r \<Rightarrow> throw (raise MigrationError (''Applied migration '' @
         quoted (mr_owner r @ '':v'' @ int_str (mr_version r)) @ '' is missing from the supplied migration set''))
     | None \<Rightarrow> apply_each dr clock (applied_checksums rows) (js_sort (cmp_scripts lc) ms) 0))))"

section \<open>Identities\<close>

lemma int_str_start_char: "x \<in> set (int_str i) \<Longrightarrow> x = CHR ''-'' \<or> is_dec x"
  by (auto simp: int_str_def nat_str_dec split: if_splits)

lemma int_str_inj: "int_str i = int_str j \<longleftrightarrow> i = j"
proof
  assume e: "int_str i = int_str j"
  have minus: "nat_str n \<noteq> CHR ''-'' # w" for n w
    using nat_str_dec [of "CHR ''-''" n] by (auto simp: is_dec_def)
  have inj: "nat_str m = nat_str n \<Longrightarrow> m = n" for m n by (metis str_val_nat_str)
  show "i = j" using e minus [of "nat i" "nat_str (nat (- j))"] minus [of "nat j" "nat_str (nat (- i))"]
      inj [of "nat i" "nat j"] inj [of "nat (- i)" "nat (- j)"]
    by (auto simp: int_str_def split: if_splits)
qed simp

lemma last_separator: "a @ c # x = b @ c # y \<Longrightarrow> c \<notin> set x \<Longrightarrow> c \<notin> set y \<Longrightarrow> a = b \<and> x = y"
  by (fastforce simp: append_eq_append_conv2 append_eq_Cons_conv Cons_eq_append_conv)

lemma identity_of_inj [simp]: "identity_of ow v = identity_of ow' v' \<longleftrightarrow> ow = ow' \<and> v = v'"
proof -
  have colon: "CHR '':'' \<notin> set (int_str i)" for i using int_str_start_char [of "CHR '':''" i] by (auto simp: is_dec_def)
  show ?thesis using last_separator [of ow "CHR '':''" "int_str v" ow' "int_str v'"] colon
    by (auto simp: identity_of_def int_str_inj)
qed

section \<open>What one migration writes\<close>

definition migration_writes :: "(migration_script \<Rightarrow> string) \<Rightarrow> migration_script \<Rightarrow> (string \<times> migration_row option) list" where
  "migration_writes clock m = map (\<lambda>q. (q, None)) (splitSqlScript (mg_sql m)) @ [(INSERT_MIGRATION, Some (row_of_script clock m))]"

definition migrated :: "(string \<Rightarrow> 'd \<Rightarrow> js_error + 'd) \<Rightarrow> (migration_script \<Rightarrow> string) \<Rightarrow> migration_script \<Rightarrow> 'd migration_db \<Rightarrow> js_error + 'd migration_db" where
  "migrated run clock m d = execute_all (migration_engine run (\<lambda>_. None) (\<lambda>_. None)) (migration_writes clock m) d"

text \<open>The migrations one after another.\<close>

fun upgraded :: "(string \<Rightarrow> 'd \<Rightarrow> js_error + 'd) \<Rightarrow> (migration_script \<Rightarrow> string) \<Rightarrow> migration_script list \<Rightarrow> 'd migration_db \<Rightarrow> js_error + 'd migration_db" where
  "upgraded run clock [] d = Inr d"
| "upgraded run clock (m # ms) d = (case migrated run clock m d of Inl err \<Rightarrow> Inl err | Inr d' \<Rightarrow> upgraded run clock ms d')"

definition applied_rows :: "'d migration_db \<Rightarrow> migration_row list" where
  "applied_rows d = (case md_rows d of None \<Rightarrow> [] | Some rows \<Rightarrow> rows)"

lemma engine_execute: "eng_execute (migration_engine run commit admit) sql ps d = (case ps of
     Some row \<Rightarrow> insert_migration_row row d
   | None \<Rightarrow> if sql = CREATE_MIGRATIONS then Inr (create_table d, 0) else run_statement run sql d)"
  by (simp add: migration_engine_def)

lemma execute_all_engine: "execute_all (migration_engine run commit admit) ops d = execute_all (migration_engine run (\<lambda>_. None) (\<lambda>_. None)) ops d"
  by (induction "migration_engine run commit admit" ops d rule: execute_all.induct)
    (auto simp: engine_execute split: sum.split)

lemma statements_keep_rows: "md_rows d \<noteq> None \<Longrightarrow> execute_all (migration_engine run commit admit) (map (\<lambda>q. (q, None)) qs) d = Inr d' \<Longrightarrow> md_rows d' = md_rows d"
proof (induction qs arbitrary: d)
  case (Cons q qs)
  then obtain d1 n where d1: "eng_execute (migration_engine run commit admit) q None d = Inr (d1, n)"
    "execute_all (migration_engine run commit admit) (map (\<lambda>q. (q, None)) qs) d1 = Inr d'" by (auto split: sum.splits)
  have "md_rows d1 = md_rows d" using d1(1) Cons.prems(1)
    by (auto simp: engine_execute run_statement_def create_table_def split: sum.splits if_splits option.splits)
  then show ?case using Cons.IH [OF _ d1(2)] Cons.prems(1) by simp
qed simp

lemma migrated_rows:
  assumes "md_rows d = Some rows" "migrated run clock m d = Inr d'"
  shows "md_rows d' = Some (rows @ [row_of_script clock m]) \<and> script_identity m \<notin> row_identity ` set rows"
proof -
  obtain d1 where d1: "execute_all (migration_engine run (\<lambda>_. None) (\<lambda>_. None)) (map (\<lambda>q. (q, None)) (splitSqlScript (mg_sql m))) d = Inr d1"
    "insert_migration_row (row_of_script clock m) d1 = Inr (d', 1)"
    using assms(2) by (auto simp: migrated_def migration_writes_def execute_all_append engine_execute insert_migration_row_def split: sum.splits option.splits if_splits)
  have "md_rows d1 = Some rows" using statements_keep_rows [OF _ d1(1)] assms(1) by simp
  then show ?thesis using d1(2)
    by (auto simp: insert_migration_row_def row_of_script_def script_identity_def row_identity_def image_iff split: if_splits)
qed

lemma upgraded_rows: "md_rows d = Some rows \<Longrightarrow> upgraded run clock ms d = Inr d' \<Longrightarrow> md_rows d' = Some (rows @ map (row_of_script clock) ms)"
proof (induction ms arbitrary: d rows)
  case (Cons m ms)
  then obtain d1 where "migrated run clock m d = Inr d1" "upgraded run clock ms d1 = Inr d'" by (auto split: sum.splits)
  then show ?case using migrated_rows [OF Cons.prems(1)] Cons.IH by fastforce
qed simp

definition todo :: "(string \<Rightarrow> string \<Rightarrow> int) \<Rightarrow> migration_script list \<Rightarrow> 'd migration_db \<Rightarrow> migration_script list" where
  "todo lc ms d = filter (\<lambda>m. script_identity m \<notin> row_identity ` set (applied_rows d)) (js_sort (cmp_scripts lc) ms)"

definition checksums_match :: "migration_script list \<Rightarrow> migration_row list \<Rightarrow> bool" where
  "checksums_match ms rows \<longleftrightarrow> (\<forall>m \<in> set ms. \<forall>r \<in> set rows. row_identity r = script_identity m \<longrightarrow> mr_checksum r = mg_checksum m)"

definition table_ok :: "'d migration_db \<Rightarrow> bool" where
  "table_ok d \<longleftrightarrow> distinct (map row_identity (applied_rows d))"

lemma applied_checksums_fold:
  "assoc_get k (fold (\<lambda>r. assoc_set (row_identity r) (mr_checksum r)) rows acc) =
     (case find_first (\<lambda>r. row_identity r = k) (rev rows) of Some r \<Rightarrow> Some (mr_checksum r) | None \<Rightarrow> assoc_get k acc)"
  by (induction rows arbitrary: acc) (auto simp: find_first_append split: option.split)

lemma applied_checksums_None: "assoc_get k (applied_checksums rows) = None \<longleftrightarrow> k \<notin> row_identity ` set rows"
proof (cases "find_first (\<lambda>r. row_identity r = k) (rev rows)")
  case None
  then have "k \<notin> row_identity ` set rows" unfolding find_first_None by auto
  then show ?thesis using None by (simp add: applied_checksums_def applied_checksums_fold)
next
  case (Some r)
  then have "k \<in> row_identity ` set rows" using find_first_SomeD [OF Some] by auto
  then show ?thesis using Some by (simp add: applied_checksums_def applied_checksums_fold)
qed

lemma applied_checksums_Some:
  assumes "distinct (map row_identity rows)" "r \<in> set rows"
  shows "assoc_get (row_identity r) (applied_checksums rows) = Some (mr_checksum r)"
proof (cases "find_first (\<lambda>r'. row_identity r' = row_identity r) (rev rows)")
  case None
  then show ?thesis unfolding find_first_None using assms(2) by auto
next
  case (Some r')
  have "r' \<in> set rows" "row_identity r' = row_identity r" using find_first_SomeD [OF Some] by simp_all
  then have "r' = r" using assms by (simp add: distinct_map inj_on_def)
  then show ?thesis using Some by (simp add: applied_checksums_def applied_checksums_fold)
qed

lemma migrated_ok:
  assumes "table_ok d" "md_rows d \<noteq> None" "migrated run clock m d = Inr d'"
  shows "table_ok d' \<and> md_rows d' \<noteq> None"
proof -
  obtain rows where r: "md_rows d = Some rows" using assms(2) by auto
  have "row_identity (row_of_script clock m) = script_identity m" by (simp add: row_identity_def row_of_script_def script_identity_def)
  then show ?thesis using migrated_rows [OF r assms(3)] assms(1) r by (auto simp: table_ok_def applied_rows_def)
qed

lemma upgraded_ok: "table_ok d \<Longrightarrow> md_rows d \<noteq> None \<Longrightarrow> upgraded run clock ms d = Inr d' \<Longrightarrow> table_ok d' \<and> md_rows d' \<noteq> None"
proof (induction ms arbitrary: d)
  case (Cons m ms)
  then obtain d1 where "migrated run clock m d = Inr d1" "upgraded run clock ms d1 = Inr d'" by (auto split: sum.splits)
  then show ?case using migrated_ok Cons by blast
qed simp

section \<open>The interface to the drivers\<close>

definition pending :: "(string \<times> string) list \<Rightarrow> migration_script list \<Rightarrow> migration_script list" where
  "pending applied ms = filter (\<lambda>m. assoc_get (script_identity m) applied = None) ms"

locale migration_store =
  fixes dr :: "'s migration_driver" and db :: "'s \<Rightarrow> 'd migration_db" and ready :: "'s \<Rightarrow> bool" and run :: "string \<Rightarrow> 'd \<Rightarrow> js_error + 'd"
  assumes create: "ready s \<Longrightarrow> \<exists>s'. dr_execute dr CREATE_MIGRATIONS s = (Inr (), s') \<and> ready s' \<and> db s' = create_table (db s)"
    and select: "ready s \<Longrightarrow> md_rows (db s) = Some rows \<Longrightarrow> dr_query dr SELECT_APPLIED s = (Inr (order_by mr_owner (order_by mr_version rows)), s)"
    and migrate: "ready s \<Longrightarrow> \<exists>r s'. dr_transaction dr (migration_callback clock m (splitSqlScript (mg_sql m))) s = (r, s') \<and> ready s' \<and>
      (case r of Inl _ \<Rightarrow> db s' = db s | Inr _ \<Rightarrow> migrated run clock m (db s) = Inr (db s'))"
begin

lemma apply_each_outcome:
  "ready s \<Longrightarrow> apply_each dr clock applied ms n s = (r, s') \<Longrightarrow>
    ready s' \<and> (\<exists>k \<le> length (pending applied ms). upgraded run clock (take k (pending applied ms)) (db s) = Inr (db s') \<and>
      (\<forall>c. r = Inr c \<longrightarrow> k = length (pending applied ms) \<and> c = n + k \<and>
        (\<forall>m \<in> set ms. \<forall>x. assoc_get (script_identity m) applied = Some x \<longrightarrow> x = mg_checksum m)))"
proof (induction ms arbitrary: s n)
  case Nil
  then show ?case by (auto simp: pending_def)
next
  case (Cons m ms)
  show ?case
  proof (cases "assoc_get (script_identity m) applied")
    case (Some x)
    have p: "pending applied (m # ms) = pending applied ms" using Some by (simp add: pending_def)
    show ?thesis
    proof (cases "x = mg_checksum m")
      case True
      then have "apply_each dr clock applied ms n s = (r, s')" using Cons.prems(2) Some by simp
      from Cons.IH [OF Cons.prems(1) this] show ?thesis unfolding p using Some True by auto
    next
      case False
      then have "r = Inl (checksum_mismatch m)" "s' = s" using Cons.prems(2) Some by simp_all
      then show ?thesis using Cons.prems(1) by (auto intro!: exI [of _ 0])
    qed
  next
    case None
    have p: "pending applied (m # ms) = m # pending applied ms" using None by (simp add: pending_def)
    obtain r1 s1 where t: "dr_transaction dr (migration_callback clock m (splitSqlScript (mg_sql m))) s = (r1, s1)" "ready s1"
      "case r1 of Inl _ \<Rightarrow> db s1 = db s | Inr _ \<Rightarrow> migrated run clock m (db s) = Inr (db s1)"
      using migrate [OF Cons.prems(1)] by blast
    show ?thesis
    proof (cases r1)
      case (Inl err)
      then have "r = Inl err" "s' = s1" using Cons.prems(2) None t(1) by (simp_all add: andthen_def)
      then show ?thesis using t Inl by (auto intro!: exI [of _ 0])
    next
      case (Inr u)
      then have go: "apply_each dr clock applied ms (n + 1) s1 = (r, s')" using Cons.prems(2) None t(1) by (simp add: andthen_def)
      obtain k where k: "ready s'" "k \<le> length (pending applied ms)" "upgraded run clock (take k (pending applied ms)) (db s1) = Inr (db s')"
        "\<forall>c. r = Inr c \<longrightarrow> k = length (pending applied ms) \<and> c = n + 1 + k \<and>
          (\<forall>m \<in> set ms. \<forall>x. assoc_get (script_identity m) applied = Some x \<longrightarrow> x = mg_checksum m)"
        using Cons.IH [OF t(2) go] by blast
      show ?thesis unfolding p using k t(3) Inr None by (intro conjI exI [of _ "Suc k"]) auto
    qed
  qed
qed


lemma ready_table:
  assumes "ready s"
  obtains s' where "getAppliedMigrations dr s = (Inr (order_by mr_owner (order_by mr_version (applied_rows (db s)))), s')"
    "ready s'" "db s' = create_table (db s)"
proof -
  obtain s1 where s1: "dr_execute dr CREATE_MIGRATIONS s = (Inr (), s1)" "ready s1" "db s1 = create_table (db s)"
    using create [OF assms] by blast
  have "md_rows (db s1) = Some (applied_rows (db s))" using s1(3) by (auto simp: create_table_def applied_rows_def split: option.splits)
  from select [OF s1(2) this] show ?thesis using s1
    by (intro that [of s1]) (simp_all add: getAppliedMigrations_def ensureMigrationTable_def run_andthen_Inr)
qed

lemma create_table_twice [simp]: "create_table (create_table d) = create_table d" "applied_rows (create_table d) = applied_rows d"
  "md_rows (create_table d) = Some (applied_rows d)"
  by (auto simp: create_table_def applied_rows_def split: option.split)

lemma applyMigrations_outcome:
  assumes "ready s" "applyMigrations lc dr clock ms s = (r, s')"
  shows "ready s' \<and> ((\<exists>err. r = Inl err) \<and> (db s' = db s \<or> db s' = create_table (db s)) \<or>
    check_scripts ms [] = Inr () \<and> check_sequences (versions_by_owner ms []) = Inr () \<and>
    removed_migration ms (order_by mr_owner (order_by mr_version (applied_rows (db s)))) = None \<and>
    (\<exists>k \<le> length (todo lc ms (db s)). upgraded run clock (take k (todo lc ms (db s))) (create_table (db s)) = Inr (db s') \<and>
      (\<forall>c. r = Inr c \<longrightarrow> k = length (todo lc ms (db s)) \<and> c = k \<and>
        (table_ok (db s) \<longrightarrow> checksums_match ms (applied_rows (db s))))))"
proof (cases "check_scripts ms [] = Inr () \<and> check_sequences (versions_by_owner ms []) = Inr ()")
  case False
  then show ?thesis using assms by (auto simp: applyMigrations_def split: sum.splits)
next
  case True
  let ?rows = "order_by mr_owner (order_by mr_version (applied_rows (db s)))"
  obtain s1 where s1: "ensureMigrationTable dr s = (Inr (), s1)" "ready s1" "db s1 = create_table (db s)"
    using create [OF assms(1)] by (auto simp: ensureMigrationTable_def)
  obtain s2 where s2: "getAppliedMigrations dr s1 = (Inr ?rows, s2)" "ready s2" "db s2 = create_table (db s)"
    using ready_table [OF s1(2)] s1(3) by auto
  have go: "applyMigrations lc dr clock ms s = (case removed_migration ms ?rows of
      Some r \<Rightarrow> throw (raise MigrationError (''Applied migration '' @
         quoted (mr_owner r @ '':v'' @ int_str (mr_version r)) @ '' is missing from the supplied migration set''))
    | None \<Rightarrow> apply_each dr clock (applied_checksums ?rows) (js_sort (cmp_scripts lc) ms) 0) s2"
    unfolding applyMigrations_def using True s1(1) s2(1) by (simp add: run_andthen_Inr)
  show ?thesis
  proof (cases "removed_migration ms ?rows")
    case (Some x)
    then show ?thesis using assms(2) go s2 by auto
  next
    case None
    then have ap: "apply_each dr clock (applied_checksums ?rows) (js_sort (cmp_scripts lc) ms) 0 s2 = (r, s')" using assms(2) go by simp
    have todo: "pending (applied_checksums ?rows) (js_sort (cmp_scripts lc) ms) = todo lc ms (db s)"
      by (simp add: pending_def todo_def applied_checksums_None)
    have match: "checksums_match ms (applied_rows (db s))"
      if "table_ok (db s)" "\<forall>m \<in> set (js_sort (cmp_scripts lc) ms). \<forall>x. assoc_get (script_identity m) (applied_checksums ?rows) = Some x \<longrightarrow> x = mg_checksum m"
    proof -
      have "distinct (map row_identity ?rows)" using that(1) by (simp add: table_ok_def)
      then show ?thesis using that(2) applied_checksums_Some [of ?rows] unfolding checksums_match_def by fastforce
    qed
    show ?thesis using apply_each_outcome [OF s2(2) ap] s2(3) todo True None match by auto
  qed
qed

end

section \<open>Versions without gaps\<close>

definition gap_free :: "migration_row list \<Rightarrow> bool" where
  "gap_free rows \<longleftrightarrow> (\<forall>r \<in> set rows. 1 \<le> mr_version r \<and>
     (\<forall>u \<in> {1..<mr_version r}. \<exists>r' \<in> set rows. mr_owner r' = mr_owner r \<and> mr_version r' = u))"

lemma first_gap_None: "first_gap e vs = None \<Longrightarrow> set vs = {e..<e + int (length vs)}"
proof (induction e vs rule: first_gap.induct)
  case (2 e v vs)
  then have "v = e" "set vs = {e + 1..<e + 1 + int (length vs)}" by (auto split: if_splits)
  then show ?case by auto
qed simp

lemma versions_by_owner_get:
  "assoc_get ow (versions_by_owner ms acc) = (if assoc_get ow acc = None \<and> (\<forall>m \<in> set ms. owner_of m \<noteq> ow) then None
     else Some ((case assoc_get ow acc of None \<Rightarrow> [] | Some vs \<Rightarrow> vs) @ map version_of (filter (\<lambda>m. owner_of m = ow) ms)))"
  by (induction ms acc rule: versions_by_owner.induct) (auto split: option.split)

lemma check_sequences_ok: "check_sequences l = Inr () \<Longrightarrow> (ow, vs) \<in> set l \<Longrightarrow> first_gap 1 (sort vs) = None"
  by (induction l rule: check_sequences.induct) (auto split: option.splits)

lemma supplied_versions:
  assumes "check_sequences (versions_by_owner ms []) = Inr ()" "m \<in> set ms"
  shows "1 \<le> version_of m" "1 \<le> u \<Longrightarrow> u \<le> version_of m \<Longrightarrow> \<exists>m' \<in> set ms. owner_of m' = owner_of m \<and> version_of m' = u"
proof -
  let ?vs = "map version_of (filter (\<lambda>m'. owner_of m' = owner_of m) ms)"
  have "assoc_get (owner_of m) (versions_by_owner ms []) = Some ?vs" using assms(2) by (auto simp: versions_by_owner_get)
  then have "first_gap 1 (sort ?vs) = None" using check_sequences_ok [OF assms(1)] assoc_get_SomeD by fast
  then have vs: "set ?vs = {1..<1 + int (length ?vs)}" using first_gap_None [of 1 "sort ?vs"] by (simp del: set_map)
  have m: "version_of m \<in> set ?vs" using assms(2) by auto
  then show "1 \<le> version_of m" unfolding vs by simp
  assume "1 \<le> u" "u \<le> version_of m"
  then have "u \<in> set ?vs" using m unfolding vs by simp
  then show "\<exists>m' \<in> set ms. owner_of m' = owner_of m \<and> version_of m' = u" by auto
qed

lemma cmp_scripts_laws:
  assumes "collation lc"
  shows "cmp_scripts lc a b \<le> 0 \<or> cmp_scripts lc b a \<le> 0"
    "cmp_scripts lc a b \<le> 0 \<Longrightarrow> cmp_scripts lc b c \<le> 0 \<Longrightarrow> cmp_scripts lc a c \<le> 0"
proof -
  note total = collation.lc_total [OF assms] and zero = collation.lc_zero_sym [OF assms]
    and anti = collation.lc_anti [OF assms] and trans = collation.lc_trans [OF assms]
  show "cmp_scripts lc a b \<le> 0 \<or> cmp_scripts lc b a \<le> 0"
    using total [of "owner_of a" "owner_of b"] zero [of "owner_of a" "owner_of b"] by (auto simp: cmp_scripts_def)
  assume ab: "cmp_scripts lc a b \<le> 0" and bc: "cmp_scripts lc b c \<le> 0"
  let ?a = "owner_of a" and ?b = "owner_of b" and ?c = "owner_of c"
  have le: "lc ?a ?b \<le> 0" "lc ?b ?c \<le> 0" using ab bc by (auto simp: cmp_scripts_def split: if_splits)
  have ac: "lc ?a ?c \<le> 0" by (rule trans [OF le])
  have eq: "lc ?a ?b = 0 \<and> lc ?b ?c = 0" if "lc ?a ?c = 0"
  proof -
    have ca: "lc ?c ?a \<le> 0" using that zero [of ?a ?c] by linarith
    have "\<not> lc ?a ?b < 0" using anti [of ?a ?b] trans [OF le(2) ca] by linarith
    moreover have "\<not> lc ?b ?c < 0" using anti [of ?b ?c] trans [OF ca le(1)] by linarith
    ultimately show ?thesis using le by linarith
  qed
  show "cmp_scripts lc a c \<le> 0"
  proof (cases "lc ?a ?c = 0")
    case True
    then show ?thesis using eq ab bc by (simp add: cmp_scripts_def)
  next
    case False
    then show ?thesis using ac by (simp add: cmp_scripts_def)
  qed
qed

lemma todo_sorted:
  assumes "collation lc"
  shows "sorted_wrt (\<lambda>a b. owner_of a = owner_of b \<longrightarrow> version_of a \<le> version_of b) (todo lc ms d)"
proof -
  have "sorted_wrt (\<lambda>a b. cmp_scripts lc a b \<le> 0) (js_sort (cmp_scripts lc) ms)"
    by (rule js_sort_sorted [OF cmp_scripts_laws [OF assms]])
  then have "sorted_wrt (\<lambda>a b. cmp_scripts lc a b \<le> 0) (todo lc ms d)" unfolding todo_def by (rule sorted_wrt_filter)
  then show ?thesis
    by (rule sorted_wrt_mono_rel [rotated]) (use collation.lc_refl [OF assms] in \<open>auto simp: cmp_scripts_def split: if_splits\<close>)
qed

lemma sorted_prefix:
  assumes "sorted_wrt P xs" "x \<in> set (take k xs)" "y \<in> set xs" "\<not> P x y"
  shows "y \<in> set (take k xs)"
proof (rule ccontr)
  assume "y \<notin> set (take k xs)"
  then have "y \<in> set (drop k xs)" using assms(3) by (metis append_take_drop_id Un_iff set_append)
  moreover have "sorted_wrt P (take k xs @ drop k xs)" using assms(1) by simp
  ultimately show False using assms(2,4) unfolding sorted_wrt_append by blast
qed

lemma gap_free_prefix:
  assumes lc: "collation lc" and ok: "check_sequences (versions_by_owner ms []) = Inr ()" and gf: "gap_free (applied_rows d)"
  shows "gap_free (applied_rows d @ map (row_of_script clock) (take k (todo lc ms d)))"
proof -
  let ?new = "take k (todo lc ms d)"
  have supplied: "m \<in> set ms" if "m \<in> set ?new" for m using that by (auto simp: todo_def dest: in_set_takeD)
  have row: "mr_owner (row_of_script clock m) = owner_of m" "mr_version (row_of_script clock m) = version_of m" for m
    by (simp_all add: row_of_script_def)
  have new: "\<exists>r \<in> set (applied_rows d @ map (row_of_script clock) ?new). mr_owner r = owner_of m \<and> mr_version r = u"
    if m: "m \<in> set ?new" and u: "u \<in> {1..<version_of m}" for m u
  proof -
    obtain m' where m': "m' \<in> set ms" "owner_of m' = owner_of m" "version_of m' = u"
      using supplied_versions(2) [OF ok supplied [OF m], of u] u by auto
    show ?thesis
    proof (cases "script_identity m' \<in> row_identity ` set (applied_rows d)")
      case True
      then show ?thesis using m' by (auto simp: script_identity_def row_identity_def)
    next
      case False
      then have "m' \<in> set (todo lc ms d)" using m'(1) by (simp add: todo_def)
      then have "m' \<in> set ?new" using sorted_prefix [OF todo_sorted [OF lc] m] m' u by auto
      then show ?thesis using m' row [of m'] by (intro bexI [of _ "row_of_script clock m'"]) auto
    qed
  qed
  have one: "1 \<le> version_of m" if "m \<in> set ?new" for m using supplied_versions(1) [OF ok supplied [OF that]] .
  show ?thesis unfolding gap_free_def
  proof
    fix r assume "r \<in> set (applied_rows d @ map (row_of_script clock) ?new)"
    then consider "r \<in> set (applied_rows d)" | m where "m \<in> set ?new" "r = row_of_script clock m" by auto
    then show "1 \<le> mr_version r \<and> (\<forall>u \<in> {1..<mr_version r}. \<exists>r' \<in> set (applied_rows d @ map (row_of_script clock) ?new).
        mr_owner r' = mr_owner r \<and> mr_version r' = u)"
    proof cases
      case 1
      then show ?thesis using gf unfolding gap_free_def set_append by blast
    next
      case 2
      then show ?thesis using one [of m] new [of m] row by metis
    qed
  qed
qed

section \<open>Running again\<close>

lemma check_scripts_distinct: "check_scripts ms ids = Inr () \<Longrightarrow> distinct (map script_identity ms) \<and> script_identity ` set ms \<inter> set ids = {}"
  by (induction ms ids rule: check_scripts.induct) (auto split: if_splits)

lemma apply_each_none: "(\<And>m. m \<in> set ms \<Longrightarrow> assoc_get (script_identity m) applied = Some (mg_checksum m)) \<Longrightarrow>
    apply_each dr clock applied ms n s = (Inr n, s)"
  by (induction ms) auto

lemma identity_row [simp]: "row_identity (row_of_script clock m) = script_identity m"
  by (simp add: row_identity_def row_of_script_def script_identity_def)

lemma applied_after:
  assumes "upgraded run clock ms (create_table d) = Inr d'"
  shows "applied_rows d' = applied_rows d @ map (row_of_script clock) ms" "md_rows d' \<noteq> None"
proof -
  have "md_rows (create_table d) = Some (applied_rows d)" by (auto simp: create_table_def applied_rows_def split: option.split)
  from upgraded_rows [OF this assms] show "applied_rows d' = applied_rows d @ map (row_of_script clock) ms" "md_rows d' \<noteq> None"
    by (simp_all add: applied_rows_def)
qed

lemma removed_None: "removed_migration ms rows = None \<longleftrightarrow> (\<forall>r \<in> set rows. mr_owner r \<in> owner_of ` set ms \<longrightarrow> row_identity r \<in> script_identity ` set ms)"
  unfolding removed_migration_def find_first_None by blast

context migration_store
begin

lemma rerun:
  assumes ready: "ready s" and ok: "table_ok (db s)" and first: "applyMigrations lc dr clock ms s = (Inr n, s')"
  shows "\<exists>s''. applyMigrations lc dr clock' ms s' = (Inr 0, s'') \<and> db s'' = db s'"
proof -
  let ?todo = "todo lc ms (db s)" and ?rows = "applied_rows (db s')"
  let ?sorted = "order_by mr_owner (order_by mr_version ?rows)"
  have O: "ready s'" "check_scripts ms [] = Inr ()" "check_sequences (versions_by_owner ms []) = Inr ()"
    "removed_migration ms (order_by mr_owner (order_by mr_version (applied_rows (db s)))) = None"
    "upgraded run clock ?todo (create_table (db s)) = Inr (db s')" "checksums_match ms (applied_rows (db s))"
    using applyMigrations_outcome [OF ready first] ok by auto
  have rows: "?rows = applied_rows (db s) @ map (row_of_script clock) ?todo" and table: "md_rows (db s') \<noteq> None"
    using applied_after [OF O(5)] by simp_all
  have ok': "table_ok (db s')" using upgraded_ok [OF _ _ O(5)] ok by (simp add: table_ok_def)
  have sub: "set ?todo \<subseteq> set ms" by (auto simp: todo_def)
  have removed: "removed_migration ms ?sorted = None"
    using O(4) sub unfolding removed_None by (auto simp: rows)
  have recorded: "assoc_get (script_identity m) (applied_checksums ?sorted) = Some (mg_checksum m)" if m: "m \<in> set ms" for m
  proof -
    have "script_identity m \<in> row_identity ` set (applied_rows (db s)) \<or> m \<in> set ?todo" using m by (simp add: todo_def)
    then have "\<exists>r \<in> set ?rows. row_identity r = script_identity m"
    proof
      assume "m \<in> set ?todo"
      then show ?thesis by (intro bexI [of _ "row_of_script clock m"]) (auto simp: rows)
    qed (force simp: rows)
    then obtain r where r: "r \<in> set ?rows" "row_identity r = script_identity m" by blast
    have "mr_checksum r = mg_checksum m"
    proof (cases "r \<in> set (applied_rows (db s))")
      case True
      then show ?thesis using O(6) m r(2) unfolding checksums_match_def by blast
    next
      case False
      then obtain m1 where m1: "m1 \<in> set ?todo" "r = row_of_script clock m1" using r(1) rows by auto
      then have "m1 = m" using check_scripts_distinct [OF O(2)] sub m r(2) by (auto simp: distinct_map inj_on_def)
      then show ?thesis using m1(2) by (simp add: row_of_script_def)
    qed
    moreover have "assoc_get (row_identity r) (applied_checksums ?sorted) = Some (mr_checksum r)"
      using ok' r(1) by (intro applied_checksums_Some) (simp_all add: table_ok_def)
    ultimately show ?thesis using r(2) by simp
  qed
  obtain s1 where s1: "ensureMigrationTable dr s' = (Inr (), s1)" "ready s1" "db s1 = create_table (db s')"
    using create [OF O(1)] by (auto simp: ensureMigrationTable_def)
  obtain s2 where s2: "getAppliedMigrations dr s1 = (Inr ?sorted, s2)" "db s2 = create_table (db s')"
    using ready_table [OF s1(2)] s1(3) by auto
  have "apply_each dr clock' (applied_checksums ?sorted) (js_sort (cmp_scripts lc) ms) 0 s2 = (Inr 0, s2)"
    using recorded by (intro apply_each_none) simp
  then have "applyMigrations lc dr clock' ms s' = (Inr 0, s2)"
    unfolding applyMigrations_def using O(2,3) removed s1(1) s2(1) by (simp add: run_andthen_Inr)
  moreover have "create_table (db s') = db s'" using table by (auto simp: create_table_def)
  ultimately show ?thesis using s2(2) by simp
qed

lemma keeps_gap_free:
  assumes "collation lc" "ready s" "gap_free (applied_rows (db s))" "applyMigrations lc dr clock ms s = (r, s')"
  shows "gap_free (applied_rows (db s'))"
proof -
  consider "db s' = db s \<or> db s' = create_table (db s)"
    | k where "check_sequences (versions_by_owner ms []) = Inr ()" "upgraded run clock (take k (todo lc ms (db s))) (create_table (db s)) = Inr (db s')"
    using applyMigrations_outcome [OF assms(2,4)] by blast
  then show ?thesis
  proof cases
    case 1
    then show ?thesis using assms(3) by auto
  next
    case 2
    then show ?thesis using applied_after(1) [OF 2(2)] gap_free_prefix [OF assms(1) 2(1) assms(3)] by simp
  qed
qed

end

section \<open>The drivers provide it\<close>

lemma memory_callback:
  fixes e :: "('d migration_db, migration_row option, migration_row) engine"
  shows "case execute_all e (map (\<lambda>q. (q, None)) qs @ [(INSERT_MIGRATION, Some (row_of_script clock m))]) (mc_data c) of
      Inr d \<Rightarrow> mem_run e (migration_callback clock m qs) c = (Inr (), c\<lparr>mc_data := d\<rparr>)
    | Inl err \<Rightarrow> fst (mem_run e (migration_callback clock m qs) c) = Inl (migration_failed m err)"
proof (induction qs arbitrary: c)
  case (Cons q qs)
  show ?case
  proof (cases "eng_execute e q None (mc_data c)")
    case (Inr x)
    obtain d n where x: "x = (d, n)" by fastforce
    show ?thesis using Cons.IH [of "c\<lparr>mc_data := d\<rparr>"] Inr x by (simp split: sum.splits)
  qed simp
qed (auto split: sum.split)

lemma collect_callback: "collect_writes (migration_callback clock m qs) acc =
    (Inr (), acc @ map (\<lambda>q. (q, None)) qs @ [(INSERT_MIGRATION, Some (row_of_script clock m))])"
  by (induction qs arbitrary: acc) simp_all

interpretation mem: migration_store "memory_driver (migration_engine run commit admit)" mc_data "\<lambda>c. mc_begun c = None" run
  for run :: "string \<Rightarrow> 'd \<Rightarrow> js_error + 'd" and commit admit
proof
  fix c :: "'d migration_db memory_connection" and clock :: "migration_script \<Rightarrow> string" and m
  assume idle: "mc_begun c = None"
  let ?e = "migration_engine run commit admit"
  show "\<exists>c'. dr_execute (memory_driver ?e) CREATE_MIGRATIONS c = (Inr (), c') \<and> mc_begun c' = None \<and> mc_data c' = create_table (mc_data c)"
    using idle by (simp add: memory_driver_def mem_execute_def engine_execute andthen_assoc)
  show "dr_query (memory_driver ?e) SELECT_APPLIED c = (Inr (order_by mr_owner (order_by mr_version rows)), c)"
    if "md_rows (mc_data c) = Some rows" for rows
    using that by (simp add: memory_driver_def mem_query_def migration_engine_def)
  let ?c = "c\<lparr>mc_begun := Some (mc_data c)\<rparr>"
  obtain r c1 where run: "mem_run ?e (migration_callback clock m (splitSqlScript (mg_sql m))) ?c = (r, c1)" by fastforce
  show "\<exists>r c'. dr_transaction (memory_driver ?e) (migration_callback clock m (splitSqlScript (mg_sql m))) c = (r, c') \<and> mc_begun c' = None \<and>
      (case r of Inl _ \<Rightarrow> mc_data c' = mc_data c | Inr _ \<Rightarrow> migrated run clock m (mc_data c) = Inr (mc_data c'))"
  proof (cases "migrated run clock m (mc_data c)")
    case (Inl err)
    then have "isl r" using memory_callback [where e = ?e and qs = "splitSqlScript (mg_sql m)" and clock = clock and m = m and c = ?c] run
      by (simp add: migrated_def migration_writes_def execute_all_engine [of run commit admit])
    then show ?thesis using run by (cases r) (simp_all add: memory_driver_def transaction_run [OF idle])
  next
    case (Inr d)
    then have "r = Inr ()" "c1 = ?c\<lparr>mc_data := d\<rparr>" using memory_callback [where e = ?e and qs = "splitSqlScript (mg_sql m)" and clock = clock and m = m and c = ?c] run
      by (simp_all add: migrated_def migration_writes_def execute_all_engine [of run commit admit])
    then show ?thesis using run Inr by (cases "commit d") (simp_all add: memory_driver_def transaction_run [OF idle] migration_engine_def)
  qed
qed

interpretation native: migration_store "native_driver (migration_engine run commit admit)" "\<lambda>d. d" "\<lambda>_. True" run
  for run :: "string \<Rightarrow> 'd \<Rightarrow> js_error + 'd" and commit admit
proof
  fix d :: "'d migration_db" and clock :: "migration_script \<Rightarrow> string" and m
  let ?e = "migration_engine run commit admit"
  show "\<exists>d'. dr_execute (native_driver ?e) CREATE_MIGRATIONS d = (Inr (), d') \<and> True \<and> d' = create_table d"
    by (simp add: native_driver_def native_execute_def engine_execute andthen_assoc)
  show "dr_query (native_driver ?e) SELECT_APPLIED d = (Inr (order_by mr_owner (order_by mr_version rows)), d)"
    if "md_rows d = Some rows" for rows
    using that by (simp add: native_driver_def native_query_def migration_engine_def)
  show "\<exists>r d'. dr_transaction (native_driver ?e) (migration_callback clock m (splitSqlScript (mg_sql m))) d = (r, d') \<and> True \<and>
      (case r of Inl _ \<Rightarrow> d' = d | Inr _ \<Rightarrow> migrated run clock m d = Inr d')"
    by (auto simp: native_driver_def native_transaction_def collect_callback db_transaction_def migrated_def migration_writes_def
        execute_all_engine [of run commit admit] split: option.splits sum.splits)
qed

section \<open>Properties\<close>

text \<open>What a call may do to the database: nothing; or the table is there and a number of the pending migrations, in
  order, each with all its statements and its row; all of them when it returns.\<close>

definition upgrade_outcome :: "(string \<Rightarrow> string \<Rightarrow> int) \<Rightarrow> (string \<Rightarrow> 'd \<Rightarrow> js_error + 'd) \<Rightarrow> (migration_script \<Rightarrow> string) \<Rightarrow>
    migration_script list \<Rightarrow> 'd migration_db \<Rightarrow> js_error + nat \<Rightarrow> 'd migration_db \<Rightarrow> bool" where
  "upgrade_outcome lc run clock ms d r d' \<longleftrightarrow> isl r \<and> d' = d \<or>
     (\<exists>k \<in> {..length (todo lc ms d)}. upgraded run clock (take k (todo lc ms d)) (create_table d) = Inr d' \<and>
        applied_rows d' = applied_rows d @ map (row_of_script clock) (take k (todo lc ms d)) \<and>
        (case r of Inl err \<Rightarrow> True | Inr n \<Rightarrow> n = length (todo lc ms d) \<and> k = n \<and> (table_ok d \<longrightarrow> checksums_match ms (applied_rows d))))"

context migration_store
begin

lemma outcome:
  assumes "ready s" "applyMigrations lc dr clock ms s = (r, s')"
  shows "upgrade_outcome lc run clock ms (db s) r (db s')"
proof -
  consider "isl r" "db s' = db s \<or> db s' = create_table (db s)"
    | k where "k \<le> length (todo lc ms (db s))" "upgraded run clock (take k (todo lc ms (db s))) (create_table (db s)) = Inr (db s')"
      "\<forall>c. r = Inr c \<longrightarrow> k = length (todo lc ms (db s)) \<and> c = k \<and> (table_ok (db s) \<longrightarrow> checksums_match ms (applied_rows (db s)))"
    using applyMigrations_outcome [OF assms] by auto
  then show ?thesis
  proof cases
    case 1
    then show ?thesis by (cases r) (auto simp: upgrade_outcome_def intro!: bexI [of _ 0])
  next
    case 2
    then show ?thesis using applied_after(1) [OF 2(2)] unfolding upgrade_outcome_def
      by (intro disjI2 bexI [of _ k]) (auto split: sum.split)
  qed
qed

end

text \<open>C32. Upgrades are ordered and atomic by migration, on either driver: whatever fails, the database holds exactly a
  number of the pending migrations in their order, each completely and with its row, and nothing of
  the others; a call that returns has applied them all and found every recorded checksum unchanged.\<close>

theorem migrations_prefix:
  assumes "mc_begun c = None"
  shows "(case applyMigrations lc (memory_driver (migration_engine run commit admit)) clock ms c of
      (r, c') \<Rightarrow> mc_begun c' = None \<and> upgrade_outcome lc run clock ms (mc_data c) r (mc_data c')) \<and>
    (case applyMigrations lc (native_driver (migration_engine run commit admit)) clock ms d of
      (r, d') \<Rightarrow> upgrade_outcome lc run clock ms d r d')"
  using mem.outcome [OF assms] mem.applyMigrations_outcome [OF assms] native.outcome by (auto split: prod.split)

text \<open>C33. A repeated upgrade does nothing: after a call that returned, another one with the same migrations applies none and
  leaves the database as it is, on either driver.\<close>

theorem migrations_rerun:
  assumes idle: "mc_begun c = None" and ok: "table_ok (mc_data c)" "table_ok d"
  shows "(case applyMigrations lc (memory_driver (migration_engine run commit admit)) clock ms c of
      (Inl _, c') \<Rightarrow> True
    | (Inr _, c') \<Rightarrow> (case applyMigrations lc (memory_driver (migration_engine run commit admit)) clock' ms c' of
        (r, c'') \<Rightarrow> r = Inr 0 \<and> mc_data c'' = mc_data c')) \<and>
    (case applyMigrations lc (native_driver (migration_engine run commit admit)) clock ms d of
      (Inl _, d') \<Rightarrow> True
    | (Inr _, d') \<Rightarrow> applyMigrations lc (native_driver (migration_engine run commit admit)) clock' ms d' = (Inr 0, d'))"
  (is "?mem \<and> ?native")
proof
  obtain r c' where run: "applyMigrations lc (memory_driver (migration_engine run commit admit)) clock ms c = (r, c')" by fastforce
  show ?mem
  proof (cases r)
    case (Inr n)
    show ?thesis using mem.rerun [OF idle ok(1) run [unfolded Inr], of clock'] run Inr by auto
  qed (simp add: run)
  obtain r d' where run: "applyMigrations lc (native_driver (migration_engine run commit admit)) clock ms d = (r, d')" by fastforce
  show ?native
  proof (cases r)
    case (Inr n)
    show ?thesis using native.rerun [OF TrueI ok(2) run [unfolded Inr], of clock'] run Inr by auto
  qed (simp add: run)
qed

text \<open>C34. No owner's history ever has a gap: if the recorded versions of every owner are 1 up to some number, then so they
  are after any call, failed or not, on either driver, whatever the supplied migrations.\<close>

theorem migrations_gap_free:
  assumes "collation lc" "mc_begun c = None" "gap_free (applied_rows (mc_data c))" "gap_free (applied_rows d)"
  shows "gap_free (applied_rows (mc_data (snd (applyMigrations lc (memory_driver (migration_engine run commit admit)) clock ms c)))) \<and>
    gap_free (applied_rows (snd (applyMigrations lc (native_driver (migration_engine run commit admit)) clock ms d)))"
  using mem.keeps_gap_free [OF assms(1,2,3) surjective_pairing] native.keeps_gap_free [OF assms(1) TrueI assms(4) surjective_pairing] by blast

text \<open>C35. A statement that fails is reported by name on the memory driver only: on the native driver, where the callback has
  returned before the statements run, the same migration ends in a plain database error.\<close>

theorem migration_error_by_driver:
  assumes idle: "mc_begun c = None" and admit: "admit (migration_writes clock m) = None"
    and fails: "migrated run clock m (mc_data c) = Inl err" and plain: "err_class err = PlainError"
  shows "fst (dr_transaction (memory_driver (migration_engine run commit admit)) (migration_callback clock m (splitSqlScript (mg_sql m))) c) =
      Inl (migration_failed m err) \<and>
    dr_transaction (native_driver (migration_engine run commit admit)) (migration_callback clock m (splitSqlScript (mg_sql m))) (mc_data c) =
      (Inl (raise DatabaseError (''Database transaction failed: '' @ err_message err)), mc_data c)"
proof
  let ?e = "migration_engine run commit admit" and ?c = "c\<lparr>mc_begun := Some (mc_data c)\<rparr>"
  have all: "execute_all ?e (migration_writes clock m) (mc_data c) = Inl err"
    using fails by (simp add: migrated_def execute_all_engine [of run commit admit])
  obtain r c' where run: "mem_run ?e (migration_callback clock m (splitSqlScript (mg_sql m))) ?c = (r, c')" by fastforce
  have "r = Inl (migration_failed m err)"
    using memory_callback [where e = ?e and qs = "splitSqlScript (mg_sql m)" and clock = clock and m = m and c = ?c] run all
    by (simp add: migration_writes_def)
  then show "fst (dr_transaction (memory_driver ?e) (migration_callback clock m (splitSqlScript (mg_sql m))) c) = Inl (migration_failed m err)"
    using run by (simp add: memory_driver_def transaction_run [OF idle])
  show "dr_transaction (native_driver ?e) (migration_callback clock m (splitSqlScript (mg_sql m))) (mc_data c) =
      (Inl (raise DatabaseError (''Database transaction failed: '' @ err_message err)), mc_data c)"
  proof -
    have "collect_writes (migration_callback clock m (splitSqlScript (mg_sql m))) [] = (Inr (), migration_writes clock m)"
      by (simp add: collect_callback migration_writes_def)
    moreover have "db_transaction ?e (migration_writes clock m) (mc_data c) = Inl err"
      unfolding db_transaction_def all using admit by (simp add: migration_engine_def)
    moreover have "wrap_failure err = raise DatabaseError (''Database transaction failed: '' @ err_message err)"
      using plain by (simp add: wrap_failure_def)
    ultimately show ?thesis by (simp add: native_driver_def native_transaction_def)
  qed
qed

section \<open>An example\<close>

definition sample_run :: "string \<Rightarrow> string list \<Rightarrow> js_error + string list" where
  "sample_run sql d = (if sql = ''BAD;'' then Inl (raise PlainError ''syntax error'') else Inr (d @ [sql]))"

definition sample_script :: "nat \<Rightarrow> string \<Rightarrow> migration_script" where
  "sample_script v sql = \<lparr>mg_version = of_nat v, mg_name = ''m'', mg_sql = sql, mg_checksum = ''c'', ms_owner = None\<rparr>"

definition sample_scripts :: "migration_script list" where
  "sample_scripts = [sample_script 2 ''B;'', sample_script 1 ''A;A;'']"

definition sample_migration_db :: "string list migration_db" where
  "sample_migration_db = \<lparr>md_rows = None, md_data = []\<rparr>"

definition sample_memory :: "string list migration_db memory_connection" where
  "sample_memory = \<lparr>mc_data = sample_migration_db, mc_begun = None, mc_savepoints = [], mc_counter = 0\<rparr>"

abbreviation "sample_engine_of \<equiv> migration_engine sample_run (\<lambda>_. None) (\<lambda>_. None)"

abbreviation "sample_upgrade ms \<equiv> applyMigrations cmp_units (memory_driver sample_engine_of) (\<lambda>_. ''t'') ms sample_memory"

lemma sample_upgrades:
  "fst (sample_upgrade sample_scripts) = Inr 2" "md_data (mc_data (snd (sample_upgrade sample_scripts))) = [''A;'', ''A;'', ''B;'']"
  "isl (fst (sample_upgrade [sample_script 2 ''B;BAD;'', sample_script 1 ''A;'']))"
  "map mr_version (applied_rows (mc_data (snd (sample_upgrade [sample_script 2 ''B;BAD;'', sample_script 1 ''A;''])))) = [1]"
  by code_simp+

lemma sample_idle: "mc_begun sample_memory = None" "table_ok (mc_data sample_memory)" "table_ok sample_migration_db" "gap_free (applied_rows (mc_data sample_memory))"
  by (simp_all add: sample_memory_def sample_migration_db_def table_ok_def gap_free_def applied_rows_def)

lemma migrations_prefix_witness:
  "upgrade_outcome cmp_units sample_run (\<lambda>_. ''t'') sample_scripts (mc_data sample_memory) (fst (sample_upgrade sample_scripts))
     (mc_data (snd (sample_upgrade sample_scripts)))"
  using migrations_prefix [OF sample_idle(1), where lc = cmp_units and run = sample_run and commit = "\<lambda>_. None" and admit = "\<lambda>_. None" and clock = "\<lambda>_. ''t''" and ms = sample_scripts]
  by (simp add: case_prod_beta)

lemma migrations_rerun_witness:
  "fst (applyMigrations cmp_units (memory_driver sample_engine_of) (\<lambda>_. ''u'') sample_scripts (snd (sample_upgrade sample_scripts))) = Inr 0"
  using migrations_rerun [OF sample_idle(1,2,3), where lc = cmp_units and run = sample_run and commit = "\<lambda>_. None" and admit = "\<lambda>_. None" and clock = "\<lambda>_. ''t''"
    and ms = sample_scripts and clock' = "\<lambda>_. ''u''"] sample_upgrades(1)
  by (cases "sample_upgrade sample_scripts") (simp add: case_prod_beta)

lemma migrations_gap_free_witness:
  "gap_free (applied_rows (mc_data (snd (sample_upgrade sample_scripts))))"
  using migrations_gap_free [OF units.collation_axioms sample_idle(1,4), of sample_migration_db] sample_idle(4)
  by (simp add: sample_memory_def)

lemma migration_error_by_driver_witness:
  "err_class (migration_failed (sample_script 1 ''BAD;'') (raise PlainError ''syntax error'')) = MigrationError \<and>
   fst (dr_transaction (native_driver sample_engine_of) (migration_callback (\<lambda>_. ''t'') (sample_script 1 ''BAD;'') [''BAD;'']) sample_migration_db) =
     Inl (raise DatabaseError ''Database transaction failed: syntax error'')"
proof -
  have split: "splitSqlScript (mg_sql (sample_script 1 ''BAD;'')) = [''BAD;'']" by code_simp
  have "migrated sample_run (\<lambda>_. ''t'') (sample_script 1 ''BAD;'') (mc_data sample_memory) = Inl (raise PlainError ''syntax error'')"
    by code_simp
  moreover have "err_class (raise PlainError ''syntax error'') = PlainError" by (simp add: platform_error_def)
  ultimately have "dr_transaction (native_driver sample_engine_of) (migration_callback (\<lambda>_. ''t'') (sample_script 1 ''BAD;'') (splitSqlScript (mg_sql (sample_script 1 ''BAD;''))))
      (mc_data sample_memory) = (Inl (raise DatabaseError (''Database transaction failed: '' @ err_message (raise PlainError ''syntax error''))), mc_data sample_memory)"
    using migration_error_by_driver [OF sample_idle(1), where admit = "\<lambda>_. None" and commit = "\<lambda>_. None" and run = sample_run
        and clock = "\<lambda>_. ''t''" and m = "sample_script 1 ''BAD;''"] by blast
  moreover have "mc_data sample_memory = sample_migration_db" by (simp add: sample_memory_def)
  ultimately show ?thesis unfolding split by (simp add: platform_error_def migration_failed_def del: migration_callback.simps)
qed

end
