(* ===== verification/Maintenance.thy ===== *)
theory Maintenance
  imports Manifests Inbox Tasks
begin

text \<open>
  The package \<open>maintenance\<close>: the pruners of the platform's tables and of the tables named by feature policies, the
  registry, the orchestrator, and the task handler of \<open>tasks/src/maintenance\<close>.  The database is the
  list of its tables with rows of column values, all under their names in lower case, as SQLite compares
  names; which statements it refuses, what it makes of a table or column name it does not know (a
  literal, the row id or an error), what a policy's filter means and whether \<open>VACUUM\<close> fails are parameters.
  An abort signal is the number of times it still answers \<open>false\<close>.
\<close>

section \<open>Tables\<close>

datatype sql_value = SqlNull | SqlText string | SqlNum rat

type_synonym sql_row = "(string \<times> sql_value) list"

record sql_table =
  tc_columns :: "string list"
  tc_rows :: "sql_row list"

type_synonym storage = "(string \<times> sql_table) list"

record storage_env =
  en_refuse :: "string \<Rightarrow> sql_row list \<Rightarrow> js_error option"
  en_filter :: "string \<Rightarrow> string \<Rightarrow> js_error + (sql_row \<Rightarrow> bool)"
  en_term :: "string \<Rightarrow> string \<Rightarrow> js_error + (sql_row \<Rightarrow> sql_value)"
  en_no_table :: "string \<Rightarrow> js_error"
  en_vacuum :: "storage \<Rightarrow> js_error option"

definition column :: "string \<Rightarrow> sql_row \<Rightarrow> sql_value" where
  "column c r = (case assoc_get c r of None \<Rightarrow> SqlNull | Some v \<Rightarrow> v)"

text \<open>\<open>v <= ?\<close> for a text parameter: \<open>NULL\<close> compares with nothing, numbers sort before all text.\<close>

fun at_most :: "string \<Rightarrow> sql_value \<Rightarrow> bool" where
  "at_most t SqlNull = False"
| "at_most t (SqlText s) = (s \<le> t)"
| "at_most t (SqlNum q) = True"

definition text_in :: "string list \<Rightarrow> sql_value \<Rightarrow> bool" where
  "text_in ts v = (case v of SqlText s \<Rightarrow> s \<in> set ts | _ \<Rightarrow> False)"

section \<open>The pruners\<close>

text \<open>A pruner by its two statements: the table, the error of preparing them against the columns of the table, the
  condition of its \<open>SELECT COUNT(*)\<close> and that of its \<open>DELETE\<close>, for a cutoff.\<close>

record pruner =
  pn_id :: string
  pn_name :: string
  pn_days :: rat
  pn_table :: string
  pn_prepare :: "storage_env \<Rightarrow> string list \<Rightarrow> js_error option"
  pn_counted :: "storage_env \<Rightarrow> string list \<Rightarrow> string \<Rightarrow> sql_row \<Rightarrow> bool"
  pn_expired :: "storage_env \<Rightarrow> string list \<Rightarrow> string \<Rightarrow> sql_row \<Rightarrow> bool"

definition needs_columns :: "string list \<Rightarrow> storage_env \<Rightarrow> string list \<Rightarrow> js_error option" where
  "needs_columns cs env columns = (case find_first (\<lambda>c. c \<notin> set columns) cs of
     None \<Rightarrow> None | Some c \<Rightarrow> Some (raise PlainError (''no such column: '' @ c)))"

text \<open>\<open>state IN (...) AND (time <= ? OR (time IS NULL AND other <= ?))\<close>\<close>

definition finished_before :: "string \<Rightarrow> string list \<Rightarrow> string \<Rightarrow> string \<Rightarrow> string \<Rightarrow> sql_row \<Rightarrow> bool" where
  "finished_before state done_states time other cutoff r \<longleftrightarrow> text_in done_states (column state r) \<and>
     (at_most cutoff (column time r) \<or> column time r = SqlNull \<and> at_most cutoff (column other r))"

definition AuditEventsPruner :: pruner where
  "AuditEventsPruner = \<lparr>pn_id = ''core.audit.events'', pn_name = ''Audit Events Pruner'', pn_days = 90,
     pn_table = ''core_audit_events'', pn_prepare = needs_columns [''timestamp''],
     pn_counted = (\<lambda>env columns cutoff r. at_most cutoff (column ''timestamp'' r)),
     pn_expired = (\<lambda>env columns cutoff r. at_most cutoff (column ''timestamp'' r))\<rparr>"

definition BackgroundTasksPruner :: pruner where
  "BackgroundTasksPruner = \<lparr>pn_id = ''core.tasks'', pn_name = ''Background Tasks Pruner'', pn_days = 7,
     pn_table = ''core_background_tasks'', pn_prepare = needs_columns [''state'', ''completed_at'', ''updated_at''],
     pn_counted = (\<lambda>env columns. finished_before ''state'' [''COMPLETED'', ''CANCELLED''] ''completed_at'' ''updated_at''),
     pn_expired = (\<lambda>env columns. finished_before ''state'' [''COMPLETED'', ''CANCELLED''] ''completed_at'' ''updated_at'')\<rparr>"

definition ReplicatedTombstonePruner :: pruner where
  "ReplicatedTombstonePruner = \<lparr>pn_id = ''core.sync.tombstones'', pn_name = ''Replicated Tombstone Pruner'', pn_days = 30,
     pn_table = ''core_sync_tombstones'', pn_prepare = needs_columns [''replicated_at''],
     pn_counted = (\<lambda>env columns cutoff r. column ''replicated_at'' r \<noteq> SqlNull \<and> at_most cutoff (column ''replicated_at'' r)),
     pn_expired = (\<lambda>env columns cutoff r. column ''replicated_at'' r \<noteq> SqlNull \<and> at_most cutoff (column ''replicated_at'' r))\<rparr>"

definition SyncInboxPruner :: pruner where
  "SyncInboxPruner = \<lparr>pn_id = ''core.sync.inbox'', pn_name = ''Sync Inbox Pruner'', pn_days = 30,
     pn_table = ''core_sync_inbox'', pn_prepare = needs_columns [''apply_status'', ''applied_at'', ''created_at''],
     pn_counted = (\<lambda>env columns. finished_before ''apply_status'' [''APPLIED'', ''CONFLICT''] ''applied_at'' ''created_at''),
     pn_expired = (\<lambda>env columns. finished_before ''apply_status'' [''APPLIED'', ''CONFLICT''] ''applied_at'' ''created_at'')\<rparr>"

definition SyncOutboxPruner :: pruner where
  "SyncOutboxPruner = \<lparr>pn_id = ''core.sync.outbox'', pn_name = ''Sync Outbox Pruner'', pn_days = 14,
     pn_table = ''core_sync_outbox'', pn_prepare = needs_columns [''status'', ''sent_at'', ''created_at''],
     pn_counted = (\<lambda>env columns. finished_before ''status'' [''SENT''] ''sent_at'' ''created_at''),
     pn_expired = (\<lambda>env columns. finished_before ''status'' [''SENT''] ''sent_at'' ''created_at'')\<rparr>"

text \<open>The names of a policy: a column of the table, or what the database makes of it; the filter as
  \<open>policy.filterCondition ? ... : ""\<close> takes it.\<close>

definition policy_term :: "storage_env \<Rightarrow> string list \<Rightarrow> pruning_def \<Rightarrow> js_error + (sql_row \<Rightarrow> sql_value)" where
  "policy_term env columns pol = (if to_lower (pr_column pol) \<in> set columns then Inr (column (to_lower (pr_column pol)))
     else en_term env (to_lower (pr_table pol)) (pr_column pol))"

definition policy_filter :: "storage_env \<Rightarrow> pruning_def \<Rightarrow> js_error + (sql_row \<Rightarrow> bool)" where
  "policy_filter env pol = (case pr_filter pol of None \<Rightarrow> Inr (\<lambda>r. True)
     | Some f \<Rightarrow> if f = [] then Inr (\<lambda>r. True) else en_filter env (to_lower (pr_table pol)) f)"

definition policy_prepare :: "pruning_def \<Rightarrow> storage_env \<Rightarrow> string list \<Rightarrow> js_error option" where
  "policy_prepare pol env columns = (case policy_term env columns pol of Inl err \<Rightarrow> Some err
     | Inr _ \<Rightarrow> (case policy_filter env pol of Inl err \<Rightarrow> Some err | Inr _ \<Rightarrow> None))"

text \<open>\<open>column <= ?\<close> and the filter.\<close>

definition policy_condition :: "pruning_def \<Rightarrow> storage_env \<Rightarrow> string list \<Rightarrow> string \<Rightarrow> sql_row \<Rightarrow> bool" where
  "policy_condition pol env columns cutoff r = (case (policy_term env columns pol, policy_filter env pol) of
     (Inr v, Inr f) \<Rightarrow> at_most cutoff (v r) \<and> f r | _ \<Rightarrow> False)"

definition policy_error :: "pruning_def \<Rightarrow> js_error option" where
  "policy_error pol =
     (if pr_days pol \<le> 0 then Some (raise ValidationError (''Invalid defaultRetentionDays in declarative pruning policy '' @
        quoted (pr_id pol) @ ''. It must be a positive finite number.''))
      else if \<not> re_test identifier_re (pr_table pol) then Some (raise ValidationError (''Invalid table name '' @ quoted (pr_table pol) @
        '' in declarative pruning policy '' @ quoted (pr_id pol) @ ''. Only alphanumeric characters and underscores are permitted.''))
      else if \<not> re_test identifier_re (pr_column pol) then Some (raise ValidationError (''Invalid timestamp column '' @ quoted (pr_column pol) @
        '' in declarative pruning policy '' @ quoted (pr_id pol) @ ''. Only alphanumeric characters and underscores are permitted.''))
      else (case pr_filter pol of None \<Rightarrow> None
        | Some f \<Rightarrow> if f \<noteq> [] \<and> \<not> isSafePruningFilterCondition f then Some (raise ValidationError
            (''Unsafe filterCondition in pruning policy '' @ quoted (pr_id pol) @ ''. Use a single column comparison with a literal value.''))
          else None))"

definition policy_pruner :: "pruning_def \<Rightarrow> pruner" where
  "policy_pruner pol = \<lparr>pn_id = pr_id pol, pn_name = pr_display pol, pn_days = pr_days pol, pn_table = to_lower (pr_table pol),
     pn_prepare = policy_prepare pol, pn_counted = policy_condition pol, pn_expired = policy_condition pol\<rparr>"

definition DeclarativeTablePruner :: "pruning_def \<Rightarrow> js_error + pruner" where
  "DeclarativeTablePruner pol = (case policy_error pol of Some err \<Rightarrow> Inl err | None \<Rightarrow> Inr (policy_pruner pol))"

section \<open>Pruning in batches\<close>

type_synonym signal = "nat option"

fun aborted :: "signal \<Rightarrow> bool \<times> signal" where
  "aborted None = (False, None)"
| "aborted (Some 0) = (True, Some 0)"
| "aborted (Some (Suc n)) = (False, Some n)"

fun delete_first :: "('r \<Rightarrow> bool) \<Rightarrow> nat \<Rightarrow> 'r list \<Rightarrow> 'r list" where
  "delete_first p n [] = []"
| "delete_first p n (r # rs) = (if p r \<and> 0 < n then delete_first p (n - 1) rs else r # delete_first p n rs)"

lemma delete_first_length: "length (delete_first p n rs) + length (take n (filter p rs)) = length rs"
proof (induction p n rs rule: delete_first.induct)
  case (2 p n r rs)
  then show ?case by (cases n) auto
qed simp

text \<open>The loop of \<open>prune\<close>: the result, what the signal still answers, and the rows.\<close>

function prune_rows :: "(sql_row list \<Rightarrow> js_error option) \<Rightarrow> (sql_row \<Rightarrow> bool) \<Rightarrow> nat \<Rightarrow> signal \<Rightarrow> nat \<Rightarrow> sql_row list \<Rightarrow>
    (js_error + nat) \<times> signal \<times> sql_row list" where
  "prune_rows refuse p n sig rowsPruned rows = (case aborted sig of
       (True, sig') \<Rightarrow> (Inr rowsPruned, sig', rows)
     | (False, sig') \<Rightarrow> (let affected = take n (filter p rows) in case refuse affected of
         Some err \<Rightarrow> (Inl err, sig', rows)
       | None \<Rightarrow> if affected = [] then (Inr rowsPruned, sig', rows)
         else if length affected < n then (Inr (rowsPruned + length affected), sig', delete_first p n rows)
         else prune_rows refuse p n sig' (rowsPruned + length affected) (delete_first p n rows)))"
  by pat_completeness auto
termination
proof (relation "measure (\<lambda>(refuse, p, n, sig, acc, rows). length rows)")
  fix refuse :: "sql_row list \<Rightarrow> js_error option" and p n sig acc rows x y aff
  assume "aff = take n (filter p rows)" "aff \<noteq> []" "\<not> length aff < n"
  then have "0 < length (take n (filter p rows))" by blast
  then have "length (delete_first p n rows) < length rows" using delete_first_length [of p n rows] by linarith
  then show "((refuse, p, n, y, acc + length aff, delete_first p n rows), refuse, p, n, sig, acc, rows)
      \<in> measure (\<lambda>(refuse, p, n, sig, acc, rows). length rows)" by simp
qed simp

declare prune_rows.simps [simp del]

definition rows_of :: "string \<Rightarrow> storage \<Rightarrow> sql_row list" where
  "rows_of t s = (case assoc_get t s of None \<Rightarrow> [] | Some tbl \<Rightarrow> tc_rows tbl)"

definition set_rows :: "string \<Rightarrow> sql_row list \<Rightarrow> storage \<Rightarrow> storage" where
  "set_rows t rows s = (case assoc_get t s of None \<Rightarrow> s | Some tbl \<Rightarrow> assoc_set t (tbl\<lparr>tc_rows := rows\<rparr>) s)"

definition columns_of :: "string \<Rightarrow> storage \<Rightarrow> string list" where
  "columns_of t s = (case assoc_get t s of None \<Rightarrow> [] | Some tbl \<Rightarrow> tc_columns tbl)"

definition statement_error :: "storage_env \<Rightarrow> pruner \<Rightarrow> storage \<Rightarrow> js_error option" where
  "statement_error env p s = (case assoc_get (pn_table p) s of
       None \<Rightarrow> Some (en_no_table env (pn_table p))
     | Some tbl \<Rightarrow> pn_prepare p env (tc_columns tbl))"

definition countEligible :: "storage_env \<Rightarrow> pruner \<Rightarrow> string \<Rightarrow> storage \<Rightarrow> js_error + nat" where
  "countEligible env p cutoff s = (case statement_error env p s of
       Some err \<Rightarrow> Inl (raise DatabaseError (''Database query failed: '' @ err_message err))
     | None \<Rightarrow> Inr (sql_count (pn_counted p env (columns_of (pn_table p) s) cutoff) (rows_of (pn_table p) s)))"

record pruning_result =
  ps_handler :: string
  ps_name :: string
  ps_rows :: nat
  ps_error :: "string option"

text \<open>The cutoff is the time value of the \<open>Date\<close>.\<close>

definition validatePruningContext :: "jsnum \<Rightarrow> jsnum \<Rightarrow> js_error + unit" where
  "validatePruningContext batchSize cutoff =
     (if \<not> (is_safe_integer batchSize \<and> js_less (Fin 0) batchSize)
        then Inl (raise ValidationError ''Pruning batch size must be a positive safe integer'')
      else if \<not> is_finite cutoff then Inl (raise ValidationError ''Pruning cutoffDate must be a valid Date.'')
      else Inr ())"

definition execute_failed :: "js_error \<Rightarrow> js_error" where
  "execute_failed err = raise DatabaseError (''Database execute failed: '' @ err_message err)"

definition delete_batches :: "storage_env \<Rightarrow> pruner \<Rightarrow> nat \<Rightarrow> string \<Rightarrow> signal \<Rightarrow> storage \<Rightarrow> (js_error + nat) \<times> signal \<times> storage" where
  "delete_batches env p n isoCutoff sig s = (case prune_rows
       (\<lambda>out. case statement_error env p s of Some err \<Rightarrow> Some (execute_failed err) | None \<Rightarrow> map_option execute_failed (en_refuse env (pn_table p) out))
       (pn_expired p env (columns_of (pn_table p) s) isoCutoff) n sig 0 (rows_of (pn_table p) s) of
     (r, sig', rows) \<Rightarrow> (r, sig', set_rows (pn_table p) rows s))"

definition prune :: "storage_env \<Rightarrow> pruner \<Rightarrow> jsnum \<Rightarrow> jsnum \<Rightarrow> signal \<Rightarrow> storage \<Rightarrow> (js_error + pruning_result) \<times> signal \<times> storage" where
  "prune env p batchSize cutoff sig s = (case validatePruningContext batchSize cutoff of
       Inl err \<Rightarrow> (Inl err, sig, s)
     | Inr _ \<Rightarrow> (case to_iso cutoff of
         Inl err \<Rightarrow> (Inl err, sig, s)
       | Inr isoCutoff \<Rightarrow> (case delete_batches env p (nat \<lfloor>num_val batchSize\<rfloor>) isoCutoff sig s of
           (Inl err, sig', s') \<Rightarrow> (Inl err, sig', s')
         | (Inr k, sig', s') \<Rightarrow> (Inr \<lparr>ps_handler = pn_id p, ps_name = pn_name p, ps_rows = k, ps_error = None\<rparr>, sig', s'))))"

section \<open>The registry\<close>

type_synonym handlers = "(string \<times> pruner) list"

definition duplicate_handler :: "string \<Rightarrow> js_error" where
  "duplicate_handler i = raise ValidationError (''Pruning handler with id '' @ quoted i @ '' is already registered or duplicated.'')"

definition registerHandler :: "pruner \<Rightarrow> (handlers, unit) op" where
  "registerHandler h = andthen (get (\<lambda>hs. assoc_get (pn_id h) hs)) (\<lambda>known.
     andthen (guard (known = None) (raise ValidationError (''Pruning handler with id '' @ quoted (pn_id h) @ '' is already registered.''))) (\<lambda>_.
     modify (assoc_set (pn_id h) h)))"

fun build_pruners :: "pruning_def list \<Rightarrow> js_error + pruner list" where
  "build_pruners [] = Inr []"
| "build_pruners (p # ps) = (case DeclarativeTablePruner p of Inl err \<Rightarrow> Inl err
     | Inr h \<Rightarrow> (case build_pruners ps of Inl err \<Rightarrow> Inl err | Inr hs \<Rightarrow> Inr (h # hs)))"

fun check_new_handlers :: "handlers \<Rightarrow> pruner list \<Rightarrow> string list \<Rightarrow> js_error + unit" where
  "check_new_handlers known [] seen = Inr ()"
| "check_new_handlers known (h # hs) seen = (if pn_id h \<in> set seen \<or> assoc_get (pn_id h) known \<noteq> None
     then Inl (duplicate_handler (pn_id h)) else check_new_handlers known hs (pn_id h # seen))"

definition preparePolicies :: "pruning_def list \<Rightarrow> (handlers, pruner list) op" where
  "preparePolicies ps = andthen (from_result (build_pruners ps)) (\<lambda>hs.
     andthen (get (\<lambda>known. check_new_handlers known hs [])) (\<lambda>c. andthen (from_result c) (\<lambda>_. ret hs)))"

definition registerPreparedPolicies :: "pruner list \<Rightarrow> (handlers, unit) op" where
  "registerPreparedPolicies hs = andthen (get (\<lambda>known. check_new_handlers known hs [])) (\<lambda>c. andthen (from_result c) (\<lambda>_.
     modify (fold (\<lambda>h. assoc_set (pn_id h) h) hs)))"

definition registerPolicies :: "pruning_def list \<Rightarrow> (handlers, unit) op" where
  "registerPolicies ps = andthen (preparePolicies ps) registerPreparedPolicies"

definition registerPolicy :: "pruning_def \<Rightarrow> (handlers, unit) op" where
  "registerPolicy p = registerPolicies [p]"

definition getHandler :: "string \<Rightarrow> (handlers, pruner option) op" where
  "getHandler i = get (assoc_get i)"

definition getAllHandlers :: "(handlers, pruner list) op" where
  "getAllHandlers = get (map snd)"

definition hasHandler :: "string \<Rightarrow> (handlers, bool) op" where
  "hasHandler i = get (\<lambda>hs. assoc_get i hs \<noteq> None)"

definition unregisterHandler :: "string \<Rightarrow> (handlers, bool) op" where
  "unregisterHandler i = andthen (hasHandler i) (\<lambda>b. andthen (modify (assoc_del i)) (\<lambda>_. ret b))"

definition core_pruners :: "pruner list" where
  "core_pruners = [SyncOutboxPruner, SyncInboxPruner, BackgroundTasksPruner, AuditEventsPruner, ReplicatedTombstonePruner]"

definition registerCoreDefaults :: "(handlers, unit) op" where
  "registerCoreDefaults = modify (fold (\<lambda>h hs. if assoc_get (pn_id h) hs = None then assoc_set (pn_id h) h hs else hs) core_pruners)"

definition new_handlers :: "bool \<Rightarrow> handlers" where
  "new_handlers includeCoreDefaults = (if includeCoreDefaults then snd (registerCoreDefaults []) else [])"

section \<open>The orchestrator\<close>

record orchestrator =
  or_handlers :: handlers
  or_batch :: jsnum
  or_overrides :: "(string \<times> jsnum) list"

definition validatePositiveNumber :: "string \<Rightarrow> jsnum \<Rightarrow> bool \<Rightarrow> js_error + unit" where
  "validatePositiveNumber field v whole =
     (if \<not> is_finite v \<or> js_le v (Fin 0) \<or> whole \<and> \<not> is_safe_integer v
      then Inl (raise ValidationError (''Maintenance '' @ field @ '' must be a positive'' @ (if whole then '' safe integer'' else '' finite number'')))
      else Inr ())"

text \<open>\<open>new Date(Date.now() - days)\<close>: the time value is truncated, and none outside the range of dates.\<close>

definition cutoffForRetention :: "int \<Rightarrow> jsnum \<Rightarrow> js_error + jsnum" where
  "cutoffForRetention now days = (case validatePositiveNumber ''retention days'' days False of
       Inl err \<Rightarrow> Inl err
     | Inr _ \<Rightarrow> (let q = of_int now - num_val days * 86400000; t = (if 0 \<le> q then \<lfloor>q\<rfloor> else \<lceil>q\<rceil>) in
         if valid_time t then Inr (Fin (of_int t))
         else Inl (raise ValidationError ''Maintenance retention days exceed the supported date range'')))"

fun check_overrides :: "(string \<times> jsnum) list \<Rightarrow> js_error + unit" where
  "check_overrides [] = Inr ()"
| "check_overrides ((i, days) # r) = (case validatePositiveNumber (''retention override for '' @ i) days False of
     Inl err \<Rightarrow> Inl err | Inr _ \<Rightarrow> check_overrides r)"

definition new_orchestrator :: "handlers option \<Rightarrow> jsnum option \<Rightarrow> (string \<times> jsnum) list option \<Rightarrow> js_error + orchestrator" where
  "new_orchestrator registry defaultBatchSize overrides =
     (let hs = (case registry of Some h \<Rightarrow> h | None \<Rightarrow> new_handlers True);
          batch = (case defaultBatchSize of Some b \<Rightarrow> b | None \<Rightarrow> Fin 500);
          ov = (case overrides of Some m \<Rightarrow> m | None \<Rightarrow> []) in
      case validatePositiveNumber ''batch size'' batch True of
        Inl err \<Rightarrow> Inl err
      | Inr _ \<Rightarrow> (case check_overrides ov of Inl err \<Rightarrow> Inl err
        | Inr _ \<Rightarrow> Inr \<lparr>or_handlers = hs, or_batch = batch, or_overrides = ov\<rparr>))"

definition setRetentionOverride :: "string \<Rightarrow> jsnum \<Rightarrow> (orchestrator, unit) op" where
  "setRetentionOverride i days = andthen (from_result (validatePositiveNumber (''retention override for '' @ i) days False)) (\<lambda>_.
     modify (\<lambda>c. c\<lparr>or_overrides := assoc_set i days (or_overrides c)\<rparr>))"

text \<open>The overrides are an object: a key it inherits answers something that is no number.\<close>

definition inherited_keys :: "string list" where
  "inherited_keys = [''constructor'', ''__defineGetter__'', ''__defineSetter__'', ''hasOwnProperty'', ''__lookupGetter__'',
     ''__lookupSetter__'', ''isPrototypeOf'', ''propertyIsEnumerable'', ''toString'', ''valueOf'', ''__proto__'', ''toLocaleString'']"

definition getRetentionDays :: "orchestrator \<Rightarrow> string \<Rightarrow> jsnum \<Rightarrow> jsnum" where
  "getRetentionDays c i fallback = (case assoc_get i (or_overrides c) of Some d \<Rightarrow> d
     | None \<Rightarrow> if i \<in> set inherited_keys then NaN else fallback)"

record candidate_stats =
  cs_handler :: string
  cs_name :: string
  cs_days :: jsnum
  cs_cutoff :: string
  cs_count :: nat
  cs_error :: "string option"

definition inspect_handler :: "storage_env \<Rightarrow> int \<Rightarrow> orchestrator \<Rightarrow> storage \<Rightarrow> pruner \<Rightarrow> candidate_stats" where
  "inspect_handler env now c s p =
     (let days = getRetentionDays c (pn_id p) (Fin (pn_days p));
          stats = (\<lambda>cutoff n err. \<lparr>cs_handler = pn_id p, cs_name = pn_name p, cs_days = days, cs_cutoff = cutoff, cs_count = n, cs_error = err\<rparr>) in
      case cutoffForRetention now days of
        Inl err \<Rightarrow> stats [] 0 (Some (err_message err))
      | Inr cutoff \<Rightarrow> (case to_iso cutoff of
          Inl err \<Rightarrow> stats [] 0 (Some (err_message err))
        | Inr isoCutoff \<Rightarrow> (case countEligible env p isoCutoff s of
            Inl err \<Rightarrow> stats isoCutoff 0 (Some (err_message err))
          | Inr n \<Rightarrow> stats isoCutoff n None)))"

definition inspectAll :: "storage_env \<Rightarrow> int \<Rightarrow> orchestrator \<Rightarrow> storage \<Rightarrow> candidate_stats list" where
  "inspectAll env now c s = map (inspect_handler env now c s) (map snd (or_handlers c))"

definition pruneHandler :: "storage_env \<Rightarrow> int \<Rightarrow> orchestrator \<Rightarrow> string \<Rightarrow> jsnum option \<Rightarrow> jsnum option \<Rightarrow> signal \<Rightarrow> storage \<Rightarrow>
    (js_error + pruning_result) \<times> signal \<times> storage" where
  "pruneHandler env now c handlerId days batch sig s = (case assoc_get handlerId (or_handlers c) of
       None \<Rightarrow> (Inl (raise PlainError (''[MaintenanceOrchestrator] Pruning handler '' @ quoted handlerId @ '' not found.'')), sig, s)
     | Some h \<Rightarrow> (let retention = (case days of Some d \<Rightarrow> d | None \<Rightarrow> getRetentionDays c (pn_id h) (Fin (pn_days h)));
           b = (case batch of Some b \<Rightarrow> b | None \<Rightarrow> or_batch c) in
         case validatePositiveNumber ''batch size'' b True of
           Inl err \<Rightarrow> (Inl err, sig, s)
         | Inr _ \<Rightarrow> (case cutoffForRetention now retention of
             Inl err \<Rightarrow> (Inl err, sig, s)
           | Inr cutoff \<Rightarrow> prune env h b cutoff sig s)))"

fun plan_handlers :: "int \<Rightarrow> orchestrator \<Rightarrow> pruner list \<Rightarrow> js_error + (pruner \<times> jsnum) list" where
  "plan_handlers now c [] = Inr []"
| "plan_handlers now c (h # hs) = (case cutoffForRetention now (getRetentionDays c (pn_id h) (Fin (pn_days h))) of
       Inl err \<Rightarrow> Inl err
     | Inr cutoff \<Rightarrow> (case plan_handlers now c hs of Inl err \<Rightarrow> Inl err | Inr ps \<Rightarrow> Inr ((h, cutoff) # ps)))"

definition failed_result :: "pruner \<Rightarrow> string \<Rightarrow> pruning_result" where
  "failed_result h message = \<lparr>ps_handler = pn_id h, ps_name = pn_name h, ps_rows = 0, ps_error = Some message\<rparr>"

text \<open>The loop over the plans: the results, whether it stopped at the signal, the signal and the database.\<close>

fun run_plans :: "storage_env \<Rightarrow> jsnum \<Rightarrow> (pruner \<times> jsnum) list \<Rightarrow> signal \<Rightarrow> storage \<Rightarrow>
    pruning_result list \<times> bool \<times> signal \<times> storage" where
  "run_plans env b [] sig s = ([], False, sig, s)"
| "run_plans env b ((h, cutoff) # ps) sig s = (case aborted sig of
       (True, sig') \<Rightarrow> ([failed_result h ''Pruning aborted by signal''], True, sig', s)
     | (False, sig') \<Rightarrow> (case prune env h b cutoff sig' s of (r, sig'', s') \<Rightarrow>
         (case run_plans env b ps sig'' s' of (rs, ab, sig3, s3) \<Rightarrow>
           ((case r of Inr res \<Rightarrow> res | Inl err \<Rightarrow> failed_result h (err_message err)) # rs, ab, sig3, s3))))"

record maintenance_report =
  rp_total :: nat
  rp_results :: "pruning_result list"
  rp_vacuum :: bool
  rp_success :: bool
  rp_aborted :: bool

definition pruneAll :: "storage_env \<Rightarrow> int \<Rightarrow> orchestrator \<Rightarrow> bool \<Rightarrow> jsnum option \<Rightarrow> signal \<Rightarrow> storage \<Rightarrow>
    (js_error + maintenance_report) \<times> signal \<times> storage" where
  "pruneAll env now c skipVacuum batch sig s =
     (let b = (case batch of Some b \<Rightarrow> b | None \<Rightarrow> or_batch c) in
      case validatePositiveNumber ''batch size'' b True of
        Inl err \<Rightarrow> (Inl err, sig, s)
      | Inr _ \<Rightarrow> (case plan_handlers now c (map snd (or_handlers c)) of
          Inl err \<Rightarrow> (Inl err, sig, s)
        | Inr plans \<Rightarrow> (case run_plans env b plans sig s of (results, stopped, sig1, s1) \<Rightarrow>
            (case aborted sig1 of (sig_aborted, sig2) \<Rightarrow>
              (let wasAborted = (sig_aborted \<or> stopped); total = sum_list (map ps_rows results);
                   vacuum = (\<not> skipVacuum \<and> (0 < total \<or> \<not> wasAborted) \<and> en_vacuum env s1 = None) in
               (Inr \<lparr>rp_total = total, rp_results = results, rp_vacuum = vacuum,
                  rp_success = (\<not> wasAborted \<and> list_all (\<lambda>r. \<not> truthy (ps_error r)) results), rp_aborted = wasAborted\<rparr>, sig2, s1))))))"

section \<open>The task handler\<close>

definition handleMaintenance :: "storage_env \<Rightarrow> int \<Rightarrow> orchestrator \<Rightarrow> bool \<Rightarrow> jsnum option \<Rightarrow> signal \<Rightarrow> storage \<Rightarrow>
    (js_error + maintenance_report) \<times> signal \<times> storage" where
  "handleMaintenance env now c skipVacuum batch sig s = (case pruneAll env now c skipVacuum batch sig s of
       (Inl err, sig1, s1) \<Rightarrow> (Inl err, sig1, s1)
     | (Inr report, sig1, s1) \<Rightarrow> (case (if rp_aborted report then (True, sig1) else aborted sig1) of
         (True, sig2) \<Rightarrow> (Inl (raise PlainError ''[StorageMaintenanceWorker] Maintenance was interrupted before completion.''), sig2, s1)
       | (False, sig2) \<Rightarrow> if \<not> rp_success report then (Inl (raise PlainError (''[StorageMaintenanceWorker] Maintenance failed: '' @
             join_with ''; '' (map (\<lambda>r. ps_handler r @ '': '' @ the (ps_error r)) (filter (\<lambda>r. truthy (ps_error r)) (rp_results report))))), sig2, s1)
           else (Inr report, sig2, s1)))"

text \<open>\<open>enqueueMaintenance\<close>: the correlation id is drawn by the caller; \<open>undefined\<close> fields vanish from the payload.\<close>

definition maintenance_definition :: "string option \<Rightarrow> bool option \<Rightarrow> rat option \<Rightarrow> string \<Rightarrow> task_definition" where
  "maintenance_definition org skipVacuum batch correlation =
     (let o1 = (case org of Some x \<Rightarrow> x | None \<Rightarrow> ''system''); d = DEFAULT_RETRY_POLICY in
      \<lparr>def_type = ''platform.maintenance.storage'', def_unique_key = Some (''maintenance:storage:'' @ o1),
       def_payload = Serializable (JObj ([(''organisationId'', JStr o1)] @
         (case skipVacuum of Some b \<Rightarrow> [(''skipVacuum'', JBool b)] | None \<Rightarrow> []) @
         (case batch of Some n \<Rightarrow> [(''batchSize'', JNum n)] | None \<Rightarrow> []))),
       def_scheduled_at = None,
       def_policy = \<lparr>ov_max_attempts = Some (pol_max_attempts d), ov_initial_delay = Some (pol_initial_delay d),
         ov_multiplier = Some (pol_multiplier d), ov_max_delay = Some (pol_max_delay d), ov_jitter = Some (pol_jitter d)\<rparr>,
       def_timeout = None, def_org = o1, def_user = None, def_correlation = correlation\<rparr>)"

definition enqueueMaintenance :: "string option \<Rightarrow> bool option \<Rightarrow> rat option \<Rightarrow> string \<Rightarrow> string \<Rightarrow> string \<Rightarrow> (task_table, unit) op" where
  "enqueueMaintenance org skipVacuum batch correlation newId now =
     andthen (enqueue (maintenance_definition org skipVacuum batch correlation) newId now) (\<lambda>_. ret ())"

section \<open>What the loop deletes\<close>

lemma delete_first_0 [simp]: "delete_first p 0 rs = rs"
  by (induction rs) auto

lemma delete_first_add: "delete_first p a (delete_first p b rs) = delete_first p (b + a) rs"
proof (induction rs arbitrary: b)
  case (Cons r rs)
  then show ?case by (cases b) auto
qed simp

lemma delete_first_all: "length (filter p rs) \<le> n \<Longrightarrow> delete_first p n rs = filter (\<lambda>r. \<not> p r) rs"
proof (induction rs arbitrary: n)
  case (Cons r rs)
  then show ?case by (cases n) (auto simp: filter_empty_conv filter_id_conv)
qed simp

lemma delete_first_count: "length (filter p (delete_first p n rs)) = length (filter p rs) - n"
proof (induction rs arbitrary: n)
  case (Cons r rs)
  then show ?case by (cases n) auto
qed simp

lemma filter_delete_first: "(\<And>r. q r \<Longrightarrow> \<not> p r) \<Longrightarrow> filter q (delete_first p n rs) = filter q rs"
proof (induction rs arbitrary: n)
  case (Cons r rs)
  then show ?case by (cases n) auto
qed simp

lemma prune_rows_deletes:
  "prune_rows refuse p n sig acc rows = (r, sig', rows') \<Longrightarrow>
    \<exists>k \<le> length (filter p rows). rows' = delete_first p k rows \<and> (\<forall>m. r = Inr m \<longrightarrow> m = acc + k)"
proof (induction refuse p n sig acc rows arbitrary: rule: prune_rows.induct)
  case (1 refuse p n sig acc rows)
  obtain b sig1 where ab: "aborted sig = (b, sig1)" by fastforce
  let ?out = "take n (filter p rows)"
  note run = "1.prems" [unfolded prune_rows.simps [of refuse p n sig acc rows] ab Let_def]
  consider (stop) "b \<or> refuse ?out \<noteq> None \<or> ?out = []" | (last) "\<not> b" "refuse ?out = None" "?out \<noteq> []" "length ?out < n"
    | (more) "\<not> b" "refuse ?out = None" "?out \<noteq> []" "\<not> length ?out < n" by blast
  then show ?case
  proof cases
    case stop
    then show ?thesis using run by (intro exI [of _ 0]) (auto split: bool.splits option.splits if_splits)
  next
    case last
    then have "length (filter p rows) < n" by simp
    then have "delete_first p n rows = delete_first p (length (filter p rows)) rows" by (simp add: delete_first_all)
    moreover have "?out = filter p rows" using \<open>length (filter p rows) < n\<close> by simp
    moreover have "(r, sig', rows') = (Inr (acc + length ?out), sig1, delete_first p n rows)" using run last \<open>length (filter p rows) < n\<close> by auto
    ultimately show ?thesis by (intro exI [of _ "length (filter p rows)"]) auto
  next
    case more
    then have n: "n \<le> length (filter p rows)" by simp
    then have len: "length ?out = n" by simp
    have go: "prune_rows refuse p n sig1 (acc + n) (delete_first p n rows) = (r, sig', rows')" using run more len by simp
    have "\<exists>k \<le> length (filter p (delete_first p n rows)). rows' = delete_first p k (delete_first p n rows) \<and> (\<forall>m. r = Inr m \<longrightarrow> m = acc + n + k)"
      using "1.IH" [OF ab [symmetric] _ refl more(2-4)] more(1) go len by auto
    then obtain k where k: "k \<le> length (filter p rows) - n" "rows' = delete_first p (n + k) rows" "\<forall>m. r = Inr m \<longrightarrow> m = acc + n + k"
      by (auto simp: delete_first_count delete_first_add)
    then show ?thesis using n by (intro exI [of _ "n + k"]) auto
  qed
qed

lemma prune_rows_all:
  assumes "0 < n" "\<And>out. refuse out = None"
  shows "prune_rows refuse p n None acc rows = (Inr (acc + length (filter p rows)), None, filter (\<lambda>r. \<not> p r) rows)"
proof (induction "length rows" arbitrary: acc rows rule: less_induct)
  case less
  let ?out = "take n (filter p rows)"
  consider "filter p rows = []" | "filter p rows \<noteq> []" "length ?out < n" | "filter p rows \<noteq> []" "\<not> length ?out < n" by blast
  then show ?case
  proof cases
    case 1
    then have "filter (\<lambda>r. \<not> p r) rows = rows" by (simp add: filter_empty_conv)
    then show ?thesis using 1 assms(2) by (simp add: prune_rows.simps)
  next
    case 2
    then have "length (filter p rows) < n" by simp
    then show ?thesis using 2 assms by (simp add: prune_rows.simps [of _ _ _ _ _ rows] delete_first_all Let_def)
  next
    case 3
    then have n: "n \<le> length (filter p rows)" by simp
    have "length ?out = n" using n by simp
    then have shorter: "length (delete_first p n rows) < length rows" using delete_first_length [of p n rows] assms(1) by linarith
    have rest: "filter (\<lambda>r. \<not> p r) (delete_first p n rows) = filter (\<lambda>r. \<not> p r) rows" by (rule filter_delete_first) simp
    show ?thesis using 3 n assms less [OF shorter, of "acc + n"] rest
      by (simp add: prune_rows.simps [of _ _ _ _ _ rows] delete_first_count Let_def)
  qed
qed

section \<open>What a pruner does to the database\<close>

lemma rows_of_set: "rows_of t (set_rows t' rows s) = (if t = t' \<and> assoc_get t' s \<noteq> None then rows else rows_of t s)"
  by (auto simp: rows_of_def set_rows_def split: option.splits)

definition rows_total :: "storage \<Rightarrow> nat" where
  "rows_total s = sum_list (map (\<lambda>(t, tbl). length (tc_rows tbl)) s)"

lemma rows_total_update: "assoc_get t s = Some tbl \<Longrightarrow>
    rows_total (assoc_set t tbl' s) + length (tc_rows tbl) = rows_total s + length (tc_rows tbl')"
  by (induction s) (auto simp: rows_total_def split: if_splits)

lemma prune_effect:
  assumes "prune env h b cutoff sig s = (r, sig', s')"
  shows "\<exists>isoCutoff k. k \<le> length (filter (pn_expired h env (columns_of (pn_table h) s) isoCutoff) (rows_of (pn_table h) s)) \<and>
    s' = set_rows (pn_table h) (delete_first (pn_expired h env (columns_of (pn_table h) s) isoCutoff) k (rows_of (pn_table h) s)) s \<and>
    (\<forall>res. r = Inr res \<longrightarrow> ps_rows res = k \<and> ps_error res = None)"
proof -
  have same: "set_rows t (rows_of t s) s = s" for t
  proof -
    have "assoc_get t s = Some tbl \<Longrightarrow> assoc_set t tbl s = s" for tbl by (induction s) (auto split: if_splits)
    then show ?thesis by (auto simp: set_rows_def rows_of_def split: option.split)
  qed
  consider (none) "s' = s" "isl r" | (run) isoCutoff n q where "delete_batches env h n isoCutoff sig s = (q, sig', s')"
      "r = (case q of Inl err \<Rightarrow> Inl err | Inr k \<Rightarrow> Inr \<lparr>ps_handler = pn_id h, ps_name = pn_name h, ps_rows = k, ps_error = None\<rparr>)"
    using assms by (auto simp: prune_def split: sum.splits prod.splits)
  then show ?thesis
  proof cases
    case none
    then show ?thesis using same by (intro exI [of _ "[]"] exI [of _ 0]) auto
  next
    case run
    obtain rows where "prune_rows (\<lambda>out. case statement_error env h s of Some err \<Rightarrow> Some (execute_failed err)
        | None \<Rightarrow> map_option execute_failed (en_refuse env (pn_table h) out))
        (pn_expired h env (columns_of (pn_table h) s) isoCutoff) n sig 0 (rows_of (pn_table h) s) = (q, sig', rows)" "s' = set_rows (pn_table h) rows s"
      using run(1) by (auto simp: delete_batches_def split: prod.splits)
    then show ?thesis using prune_rows_deletes run(2) by (fastforce split: sum.splits)
  qed
qed

lemma prune_rows_of:
  assumes "prune env h b cutoff sig s = (r, sig', s')" "\<And>columns isoCutoff x. q x \<Longrightarrow> t = pn_table h \<Longrightarrow> \<not> pn_expired h env columns isoCutoff x"
  shows "filter q (rows_of t s') = filter q (rows_of t s)"
  using prune_effect [OF assms(1)] assms(2) by (auto simp: rows_of_set filter_delete_first)

lemma prune_total:
  assumes "prune env h b cutoff sig s = (r, sig', s')"
  shows "rows_total s' + (case r of Inl _ \<Rightarrow> 0 | Inr res \<Rightarrow> ps_rows res) \<le> rows_total s \<and>
    (\<forall>res. r = Inr res \<longrightarrow> rows_total s' + ps_rows res = rows_total s)"
proof -
  obtain isoCutoff k where k: "k \<le> length (filter (pn_expired h env (columns_of (pn_table h) s) isoCutoff) (rows_of (pn_table h) s))"
    "s' = set_rows (pn_table h) (delete_first (pn_expired h env (columns_of (pn_table h) s) isoCutoff) k (rows_of (pn_table h) s)) s"
    "\<forall>res. r = Inr res \<longrightarrow> ps_rows res = k \<and> ps_error res = None" using prune_effect [OF assms] by blast
  have "rows_total s' + k = rows_total s"
  proof (cases "assoc_get (pn_table h) s")
    case None
    then show ?thesis using k by (simp add: rows_of_def set_rows_def)
  next
    case (Some tbl)
    let ?left = "delete_first (pn_expired h env (columns_of (pn_table h) s) isoCutoff) k (tc_rows tbl)"
    have "rows_total s' + length (tc_rows tbl) = rows_total s + length ?left"
      using rows_total_update [OF Some, of "tbl\<lparr>tc_rows := ?left\<rparr>"] k(2) Some by (simp add: rows_of_def set_rows_def)
    moreover have "length ?left + k = length (tc_rows tbl)"
      using delete_first_length [of "pn_expired h env (columns_of (pn_table h) s) isoCutoff" k "tc_rows tbl"] k(1) Some by (simp add: rows_of_def min_def split: if_splits)
    ultimately show ?thesis by linarith
  qed
  then show ?thesis using k(3) by (cases r) auto
qed

lemma aborted_cases: "aborted sig = (b, sig') \<Longrightarrow> (b \<longleftrightarrow> sig = Some 0) \<and> sig' = map_option (\<lambda>n. n - 1) sig"
  by (cases sig rule: aborted.cases) auto

lemma run_plans_of:
  assumes "\<And>h columns isoCutoff x. h \<in> fst ` set ps \<Longrightarrow> q x \<Longrightarrow> t = pn_table h \<Longrightarrow> \<not> pn_expired h env columns isoCutoff x"
    "run_plans env b ps sig s = (rs, ab, sig', s')"
  shows "filter q (rows_of t s') = filter q (rows_of t s)"
  using assms
proof (induction env b ps sig s arbitrary: rs ab sig' s' rule: run_plans.induct)
  case (2 env b h cutoff ps sig s)
  obtain stop sig1 where ab1: "aborted sig = (stop, sig1)" by fastforce
  show ?case
  proof (cases stop)
    case True
    then show ?thesis using "2.prems"(2) ab1 by simp
  next
    case False
    obtain r sig2 s2 where pr: "prune env h b cutoff sig1 s = (r, sig2, s2)" by (metis prod_cases3)
    obtain rs3 ab3 sig3 s3 where rp: "run_plans env b ps sig2 s2 = (rs3, ab3, sig3, s3)" by (metis prod_cases4)
    have "s' = s3" using "2.prems"(2) ab1 False pr rp by simp
    moreover have "filter q (rows_of t s3) = filter q (rows_of t s2)"
      using "2.IH" [OF ab1 [symmetric] _ pr [symmetric] refl _ rp] False "2.prems"(1) by simp
    moreover have "filter q (rows_of t s2) = filter q (rows_of t s)"
      using prune_rows_of [OF pr] "2.prems"(1) by simp
    ultimately show ?thesis by simp
  qed
qed simp

lemma run_plans_total:
  "run_plans env b ps sig s = (rs, ab, sig', s') \<Longrightarrow> rows_total s' + sum_list (map ps_rows rs) \<le> rows_total s \<and>
    (list_all (\<lambda>r. ps_error r = None) rs \<longrightarrow> rows_total s' + sum_list (map ps_rows rs) = rows_total s \<and> \<not> ab)"
proof (induction env b ps sig s arbitrary: rs ab sig' s' rule: run_plans.induct)
  case (2 env b h cutoff ps sig s)
  obtain stop sig1 where ab1: "aborted sig = (stop, sig1)" by fastforce
  show ?case
  proof (cases stop)
    case True
    then show ?thesis using "2.prems" ab1 by (auto simp: failed_result_def)
  next
    case False
    obtain r sig2 s2 where pr: "prune env h b cutoff sig1 s = (r, sig2, s2)" by (metis prod_cases3)
    obtain rs3 ab3 sig3 s3 where rp: "run_plans env b ps sig2 s2 = (rs3, ab3, sig3, s3)" by (metis prod_cases4)
    have IH: "rows_total s3 + sum_list (map ps_rows rs3) \<le> rows_total s2 \<and>
        (list_all (\<lambda>r. ps_error r = None) rs3 \<longrightarrow> rows_total s3 + sum_list (map ps_rows rs3) = rows_total s2 \<and> \<not> ab3)"
      using "2.IH" [OF ab1 [symmetric] _ pr [symmetric] refl rp] False by simp
    have out: "s' = s3" "ab = ab3" "rs = (case r of Inr res \<Rightarrow> res | Inl err \<Rightarrow> failed_result h (err_message err)) # rs3"
      using "2.prems" ab1 False pr rp by simp_all
    show ?thesis using prune_total [OF pr] IH unfolding out by (cases r) (auto simp: failed_result_def)
  qed
qed simp

lemma plan_handlers_of: "plan_handlers now c hs = Inr ps \<Longrightarrow> map fst ps = hs"
  by (induction hs arbitrary: ps) (auto split: sum.splits)

lemma pruneAll_cases:
  assumes "pruneAll env now c skipVacuum b sig s = (r, sig', s')"
  obtains (refused) err where "r = Inl err" "s' = s"
    | (ran) batch plans rs ab sig1 report where "map fst plans = map snd (or_handlers c)" "run_plans env batch plans sig s = (rs, ab, sig1, s')"
        "r = Inr report" "rp_results report = rs" "rp_total report = sum_list (map ps_rows rs)"
        "rp_success report \<longrightarrow> list_all (\<lambda>r. \<not> truthy (ps_error r)) rs \<and> \<not> ab" "rp_vacuum report \<longrightarrow> en_vacuum env s' = None"
  using assms unfolding pruneAll_def Let_def
  by (auto split: sum.splits prod.splits dest!: plan_handlers_of)

section \<open>The compaction invariants\<close>

text \<open>The rows the platform must keep: unsent outbox, unapplied inbox, unfinished tasks, unreplicated tombstones.\<close>

definition protected :: "string \<Rightarrow> sql_row \<Rightarrow> bool" where
  "protected t r \<longleftrightarrow>
     t = ''core_sync_outbox'' \<and> \<not> text_in [''SENT''] (column ''status'' r) \<or>
     t = ''core_sync_inbox'' \<and> \<not> text_in [''APPLIED'', ''CONFLICT''] (column ''apply_status'' r) \<or>
     t = ''core_background_tasks'' \<and> \<not> text_in [''COMPLETED'', ''CANCELLED''] (column ''state'' r) \<or>
     t = ''core_sync_tombstones'' \<and> column ''replicated_at'' r = SqlNull"

definition compaction_tables :: "string list" where
  "compaction_tables = [''core_sync_outbox'', ''core_sync_inbox'', ''core_background_tasks'', ''core_sync_tombstones'']"

definition keeps_protected :: "pruner \<Rightarrow> bool" where
  "keeps_protected h \<longleftrightarrow> (\<forall>env columns isoCutoff r. pn_expired h env columns isoCutoff r \<longrightarrow> \<not> protected (pn_table h) r)"

lemma core_keeps_protected: "h \<in> set core_pruners \<Longrightarrow> keeps_protected h"
  by (auto simp: core_pruners_def keeps_protected_def protected_def finished_before_def
      SyncOutboxPruner_def SyncInboxPruner_def BackgroundTasksPruner_def AuditEventsPruner_def ReplicatedTombstonePruner_def)

lemma protected_tables: "protected t r \<Longrightarrow> t \<in> set compaction_tables"
  by (auto simp: protected_def compaction_tables_def)

lemma policy_pruner_fields: "DeclarativeTablePruner p = Inr h \<Longrightarrow> h = policy_pruner p \<and> pn_table h = to_lower (pr_table p) \<and> pn_id h = pr_id p"
  by (auto simp: DeclarativeTablePruner_def policy_pruner_def split: option.splits)

lemma policy_keeps_protected: "DeclarativeTablePruner p = Inr h \<Longrightarrow> to_lower (pr_table p) \<notin> set compaction_tables \<Longrightarrow> keeps_protected h"
  using policy_pruner_fields protected_tables unfolding keeps_protected_def by metis

lemma build_pruners_keep: "build_pruners ps = Inr hs \<Longrightarrow> \<forall>p \<in> set ps. to_lower (pr_table p) \<notin> set compaction_tables \<Longrightarrow> h \<in> set hs \<Longrightarrow> keeps_protected h"
  by (induction ps arbitrary: hs) (auto split: sum.splits dest: policy_keeps_protected)

lemma assoc_set_snd: "snd ` set (assoc_set k v m) \<subseteq> insert v (snd ` set m)"
  by (induction k v m rule: assoc_set.induct) auto

lemma fold_values:
  assumes "\<And>h m. snd ` set (f h m) \<subseteq> insert h (snd ` set m)"
  shows "snd ` set (fold f hs m) \<subseteq> set hs \<union> snd ` set m"
proof (induction hs arbitrary: m)
  case (Cons h hs)
  have "snd ` set (fold f hs (f h m)) \<subseteq> set hs \<union> snd ` set (f h m)" by (rule Cons.IH)
  also have "\<dots> \<subseteq> set hs \<union> insert h (snd ` set m)" using assms [of h m] by (rule Un_mono [OF subset_refl])
  finally show ?case by simp
qed simp

lemma registerPolicies_values:
  assumes "\<forall>h \<in> snd ` set m. keeps_protected h" "\<forall>p \<in> set ps. to_lower (pr_table p) \<notin> set compaction_tables"
  shows "\<forall>h \<in> snd ` set (snd (registerPolicies ps m)). keeps_protected h"
proof (cases "build_pruners ps")
  case (Inl err)
  then show ?thesis using assms(1) by (simp add: registerPolicies_def preparePolicies_def andthen_assoc)
next
  case (Inr hs)
  obtain c where c: "check_new_handlers m hs [] = c" by blast
  have "snd (registerPolicies ps m) = (case check_new_handlers m hs [] of Inl _ \<Rightarrow> m | Inr _ \<Rightarrow> fold (\<lambda>h. assoc_set (pn_id h) h) hs m)"
    unfolding registerPolicies_def preparePolicies_def registerPreparedPolicies_def andthen_assoc Inr by (cases c) (simp_all add: c)
  then have "snd ` set (snd (registerPolicies ps m)) \<subseteq> set hs \<union> snd ` set m"
    using fold_values [of "\<lambda>h. assoc_set (pn_id h) h" hs m, OF assoc_set_snd] by (cases "check_new_handlers m hs []") simp_all
  then show ?thesis using build_pruners_keep [OF Inr assms(2)] assms(1) by blast
qed

lemma new_handlers_values: "\<forall>h \<in> snd ` set (new_handlers b). keeps_protected h"
proof -
  let ?f = "\<lambda>h hs. if assoc_get (pn_id h) hs = None then assoc_set (pn_id h) h hs else hs"
  have step: "snd ` set (?f h m) \<subseteq> insert h (snd ` set m)" for h m using assoc_set_snd [of "pn_id h" h m] by (simp add: subset_insertI)
  have "snd ` set (fold ?f core_pruners []) \<subseteq> set core_pruners" using fold_values [of ?f, OF step, of core_pruners "[]"] by simp
  moreover have "snd (registerCoreDefaults []) = fold ?f core_pruners []" by (simp add: registerCoreDefaults_def)
  ultimately show ?thesis using core_keeps_protected unfolding new_handlers_def by auto
qed

definition policies_registered :: "pruning_def list list \<Rightarrow> handlers" where
  "policies_registered pss = fold (\<lambda>ps hs. snd (registerPolicies ps hs)) pss (new_handlers True)"

lemma policies_registered_values:
  assumes "\<forall>ps \<in> set pss. \<forall>p \<in> set ps. to_lower (pr_table p) \<notin> set compaction_tables"
  shows "\<forall>h \<in> snd ` set (policies_registered pss). keeps_protected h"
proof -
  have "\<forall>h \<in> snd ` set (fold (\<lambda>ps hs. snd (registerPolicies ps hs)) pss m). keeps_protected h"
    if "\<forall>h \<in> snd ` set m. keeps_protected h" for m
    using assms that
  proof (induction pss arbitrary: m)
    case (Cons ps pss)
    have "\<forall>h \<in> snd ` set (snd (registerPolicies ps m)). keeps_protected h"
      by (rule registerPolicies_values [OF Cons.prems(2)]) (use Cons.prems(1) in simp)
    from Cons.IH [OF _ this] show ?case using Cons.prems(1) by simp
  qed simp
  from this [OF new_handlers_values [of True]] show ?thesis unfolding policies_registered_def .
qed

lemma compaction_run:
  assumes "\<forall>ps \<in> set pss. \<forall>p \<in> set ps. to_lower (pr_table p) \<notin> set compaction_tables" "or_handlers c = policies_registered pss"
    "pruneAll env now c skipVacuum b sig s = (r, sig', s')"
  shows "filter (protected t) (rows_of t s') = filter (protected t) (rows_of t s)"
  using assms(3)
proof (cases rule: pruneAll_cases)
  case (ran batch plans rs ab sig1 report)
  have "keeps_protected h" if "h \<in> fst ` set plans" for h
    using ran(1) that policies_registered_values [OF assms(1)] assms(2) by (metis list.set_map)
  then have "\<not> protected (pn_table h) r" if "h \<in> fst ` set plans" "pn_expired h env columns isoCutoff r" for h columns isoCutoff r
    using that unfolding keeps_protected_def by blast
  then show ?thesis by (intro run_plans_of [OF _ ran(2)]) blast
qed simp

text \<open>C36. The compaction invariants: when the handlers are the platform's pruners and declarative policies on other tables than
  the outbox, the inbox, the tasks and the tombstones (names compared without regard to case), then a maintenance
  run, and the run of a single handler, keep every unsent outbox row, unapplied inbox row,
  unfinished task and unreplicated tombstone, in order and number, with any retention, batch size, filter and
  abort signal, whichever statements are refused.  (Policies on these tables break them, see \<open>policy_breaks_compaction\<close>;
  handlers an application writes itself are not covered.)\<close>

theorem compaction_invariants:
  assumes "\<forall>ps \<in> set pss. \<forall>p \<in> set ps. to_lower (pr_table p) \<notin> set compaction_tables" "or_handlers c = policies_registered pss"
  shows "filter (protected t) (rows_of t (snd (snd (pruneAll env now c skipVacuum b sig s)))) = filter (protected t) (rows_of t s) \<and>
    filter (protected t) (rows_of t (snd (snd (pruneHandler env now c i days b sig s)))) = filter (protected t) (rows_of t s)"
proof
  show "filter (protected t) (rows_of t (snd (snd (pruneAll env now c skipVacuum b sig s)))) = filter (protected t) (rows_of t s)"
    using compaction_run [OF assms surjective_pairing [THEN trans, OF arg_cong2 [where f = Pair, OF refl surjective_pairing]]] .
  show "filter (protected t) (rows_of t (snd (snd (pruneHandler env now c i days b sig s)))) = filter (protected t) (rows_of t s)"
  proof (cases "assoc_get i (or_handlers c)")
    case (Some h)
    then have "keeps_protected h" using policies_registered_values [OF assms(1)] assms(2) assoc_get_SomeD by force
    then have keep: "filter (protected t) (rows_of t (snd (snd (prune env h b' cutoff sig s)))) = filter (protected t) (rows_of t s)" for b' cutoff
      by (intro prune_rows_of [where r = "fst (prune env h b' cutoff sig s)" and sig' = "fst (snd (prune env h b' cutoff sig s))"])
        (auto simp: keeps_protected_def)
    show ?thesis unfolding pruneHandler_def Some Let_def option.case by (simp add: keep split: sum.split)
  qed (simp add: pruneHandler_def)
qed

lemma prune_complete:
  assumes "is_safe_integer b" "js_less (Fin 0) b" "to_iso cutoff = Inr isoCutoff" "\<And>out. en_refuse env (pn_table h) out = None"
  shows "prune env h b cutoff None s = (case statement_error env h s of
      Some err \<Rightarrow> (Inl (execute_failed err), None, s)
    | None \<Rightarrow> (Inr \<lparr>ps_handler = pn_id h, ps_name = pn_name h,
          ps_rows = length (filter (pn_expired h env (columns_of (pn_table h) s) isoCutoff) (rows_of (pn_table h) s)), ps_error = None\<rparr>, None,
        set_rows (pn_table h) (filter (\<lambda>r. \<not> pn_expired h env (columns_of (pn_table h) s) isoCutoff r) (rows_of (pn_table h) s)) s))"
proof -
  have fin: "is_finite cutoff" using assms(3) by (cases cutoff) simp_all
  have pos: "0 < nat \<lfloor>num_val b\<rfloor>"
  proof (cases b)
    case (Fin q)
    then have "of_int \<lfloor>q\<rfloor> = q" "0 < q" using assms(1,2) by simp_all
    then show ?thesis using Fin by (metis num_val.simps(1) of_int_0_less_iff zero_less_nat_eq)
  qed (use assms(1,2) in simp_all)
  have same: "set_rows t (rows_of t s) s = s" for t
  proof -
    have "assoc_get t s = Some tbl \<Longrightarrow> assoc_set t tbl s = s" for tbl by (induction s) (auto split: if_splits)
    then show ?thesis by (auto simp: set_rows_def rows_of_def split: option.split)
  qed
  show ?thesis
  proof (cases "statement_error env h s")
    case (Some err)
    then show ?thesis using assms fin pos by (simp add: prune_def validatePruningContext_def delete_batches_def prune_rows.simps Let_def same)
  next
    case None
    then show ?thesis using assms fin
      by (simp add: prune_def validatePruningContext_def delete_batches_def prune_rows_all [OF pos])
  qed
qed

lemma core_counted: "h \<in> set core_pruners \<Longrightarrow> pn_counted h = pn_expired h"
  by (auto simp: core_pruners_def SyncOutboxPruner_def SyncInboxPruner_def BackgroundTasksPruner_def AuditEventsPruner_def
      ReplicatedTombstonePruner_def)

text \<open>C38. The batched loop ends and deletes exactly what the inspection counts: for every pruner of the platform and of a policy
  and every batch size, pruning removes all rows past the cutoff and no other, and reports their number,
  the number the inspection counts with its own query; a statement the database cannot prepare fails the
  count and the pruning alike and changes nothing.\<close>

theorem prune_exact:
  assumes "h \<in> set core_pruners \<or> DeclarativeTablePruner pol = Inr h"
    "is_safe_integer b" "js_less (Fin 0) b" "to_iso cutoff = Inr isoCutoff" "\<And>out. en_refuse env (pn_table h) out = None"
  shows "case countEligible env h isoCutoff s of
      Inl err \<Rightarrow> (\<exists>err'. prune env h b cutoff None s = (Inl err', None, s) \<and> err_class err' = err_class err)
    | Inr n \<Rightarrow> prune env h b cutoff None s = (Inr \<lparr>ps_handler = pn_id h, ps_name = pn_name h, ps_rows = n, ps_error = None\<rparr>, None,
        set_rows (pn_table h) (filter (\<lambda>r. \<not> pn_expired h env (columns_of (pn_table h) s) isoCutoff r) (rows_of (pn_table h) s)) s)"
proof -
  have "pn_counted h = pn_expired h" using assms(1)
  proof
    assume "DeclarativeTablePruner pol = Inr h"
    then have "h = policy_pruner pol" using policy_pruner_fields by blast
    then show ?thesis by (simp add: policy_pruner_def)
  qed (rule core_counted)
  then show ?thesis unfolding prune_complete [OF assms(2-5)] countEligible_def
    by (auto simp: execute_failed_def platform_error_def sql_count_def split: option.split)
qed

text \<open>C37. A policy may name a core table, in either case, and then the invariants fail: a policy on the outbox and its creation
  date is accepted, and pruning removes every row older than the cutoff, pending ones included.\<close>

theorem policy_breaks_compaction:
  assumes pol: "pr_days pol > 0" "pr_table pol \<in> {''core_sync_outbox'', ''CORE_SYNC_OUTBOX''}" "pr_column pol = ''created_at''" "pr_filter pol = None"
    and tbl: "assoc_get ''core_sync_outbox'' s = Some tbl" "''created_at'' \<in> set (tc_columns tbl)"
    and batch: "is_safe_integer b" "js_less (Fin 0) b" and cutoff: "to_iso cutoff = Inr isoCutoff"
    and allowed: "\<And>out. en_refuse env ''core_sync_outbox'' out = None"
  shows "case DeclarativeTablePruner pol of Inl err \<Rightarrow> False | Inr h \<Rightarrow>
    rows_of ''core_sync_outbox'' (snd (snd (prune env h b cutoff None s))) =
      filter (\<lambda>r. \<not> at_most isoCutoff (column ''created_at'' r)) (rows_of ''core_sync_outbox'' s)"
proof -
  have ids: "re_test identifier_re ''core_sync_outbox''" "re_test identifier_re ''CORE_SYNC_OUTBOX''" "re_test identifier_re ''created_at''"
    and low: "to_lower ''core_sync_outbox'' = ''core_sync_outbox''" "to_lower ''CORE_SYNC_OUTBOX'' = ''core_sync_outbox''"
    "to_lower ''created_at'' = ''created_at''" by code_simp+
  have t: "re_test identifier_re (pr_table pol)" "to_lower (pr_table pol) = ''core_sync_outbox''" using pol(2) ids(1,2) low(1,2) by auto
  then have accepted: "DeclarativeTablePruner pol = Inr (policy_pruner pol)"
    using pol ids(3) by (simp add: DeclarativeTablePruner_def policy_error_def)
  have columns: "columns_of ''core_sync_outbox'' s = tc_columns tbl" using tbl(1) by (simp add: columns_of_def)
  have h: "pn_table (policy_pruner pol) = ''core_sync_outbox''" "pn_prepare (policy_pruner pol) env (tc_columns tbl) = None"
    "pn_expired (policy_pruner pol) env (tc_columns tbl) c r = at_most c (column ''created_at'' r)" for c r
    using pol(3,4) tbl(2) by (simp_all add: policy_pruner_def policy_prepare_def policy_condition_def policy_term_def policy_filter_def t low(3))
  have "statement_error env (policy_pruner pol) s = None" using tbl by (simp add: statement_error_def h)
  then show ?thesis unfolding accepted
    using prune_complete [OF batch cutoff, of env "policy_pruner pol" s] allowed tbl by (simp add: h columns rows_of_set)
qed

text \<open>C39. The report is accurate: a call that fails has deleted nothing; otherwise the rows it counts were deleted, and they
  are all that was deleted when no result carries an error.\<close>

theorem report_accurate:
  "case pruneAll env now c skipVacuum b sig s of
     (Inl err, _, s') \<Rightarrow> s' = s
   | (Inr report, _, s') \<Rightarrow> rows_total s' + rp_total report \<le> rows_total s \<and>
       (rp_success report \<longrightarrow> list_all (\<lambda>r. \<not> truthy (ps_error r)) (rp_results report)) \<and>
       (list_all (\<lambda>r. ps_error r = None) (rp_results report) \<longrightarrow> rows_total s' + rp_total report = rows_total s)"
proof -
  obtain r sig' s' where run: "pruneAll env now c skipVacuum b sig s = (r, sig', s')" by (metis prod_cases3)
  show ?thesis
    using run
  proof (cases rule: pruneAll_cases)
    case (ran batch plans rs ab sig1 report)
    then show ?thesis unfolding run using run_plans_total [OF ran(2)] by auto
  qed (simp add: run)
qed

section \<open>Pruning and replay\<close>

fun apply_text :: "apply_status \<Rightarrow> string" where
  "apply_text ApplyPending = ''PENDING''"
| "apply_text Applied = ''APPLIED''"
| "apply_text Conflict = ''CONFLICT''"
| "apply_text ApplyFailed = ''FAILED''"

definition inbox_columns :: "inbox_row \<Rightarrow> sql_row" where
  "inbox_columns r = [(''envelope_id'', SqlText (ib_envelope_id r)), (''apply_status'', SqlText (apply_text (ib_apply r))),
     (''applied_at'', case ib_applied_at r of None \<Rightarrow> SqlNull | Some t \<Rightarrow> SqlText t), (''created_at'', SqlText (ib_created_at r))]"

definition inbox_old :: "string \<Rightarrow> inbox_row \<Rightarrow> bool" where
  "inbox_old isoCutoff r \<longleftrightarrow> ib_apply r \<in> {Applied, Conflict} \<and>
     (case ib_applied_at r of Some t \<Rightarrow> t \<le> isoCutoff | None \<Rightarrow> ib_created_at r \<le> isoCutoff)"

lemma inbox_old_columns: "pn_expired SyncInboxPruner env columns isoCutoff (inbox_columns r) \<longleftrightarrow> inbox_old isoCutoff r"
  by (cases "ib_apply r"; cases "ib_applied_at r")
    (simp_all add: SyncInboxPruner_def finished_before_def text_in_def column_def inbox_columns_def inbox_old_def)

text \<open>C40. The inbox forgets what it applied: nothing bounds the age of an envelope on receipt, so once the pruner has
  removed the row of an applied envelope, the same envelope, delivered again, is stored as new and is
  applied a second time.\<close>

theorem pruned_envelope_replayed:
  assumes row: "inbox_inv rows" "r \<in> set rows" "ib_envelope_id r = jstr (jfield ''envelopeId'' env)" "inbox_old isoCutoff r"
    and again: "validateEnvelope env = Inr ()" "verification_of f env = Verified" "\<forall>r \<in> set rows. ib_id r \<noteq> i"
    and tbl: "assoc_get ''core_sync_inbox'' s = Some tbl" "tc_rows tbl = map inbox_columns rows"
      "set [''apply_status'', ''applied_at'', ''created_at''] \<subseteq> set (tc_columns tbl)"
    and batch: "is_safe_integer b" "js_less (Fin 0) b" and cutoff: "to_iso cutoff = Inr isoCutoff"
    and allowed: "\<And>out. en_refuse e ''core_sync_inbox'' out = None"
  shows "rows_of ''core_sync_inbox'' (snd (snd (prune e SyncInboxPruner b cutoff None s))) =
      map inbox_columns (filter (\<lambda>r. \<not> inbox_old isoCutoff r) rows) \<and>
    (case inbox_receive f env i now (filter (\<lambda>r. \<not> inbox_old isoCutoff r) rows) of
      (Inl _, _) \<Rightarrow> False
    | (Inr new, rows') \<Rightarrow> ib_id new = i \<and> new \<in> set (applicable rows'))"
proof
  have "statement_error e SyncInboxPruner s = None" using tbl(1,3)
    by (simp add: statement_error_def SyncInboxPruner_def needs_columns_def)
  moreover have "pn_table SyncInboxPruner = ''core_sync_inbox''" by (simp add: SyncInboxPruner_def)
  ultimately show "rows_of ''core_sync_inbox'' (snd (snd (prune e SyncInboxPruner b cutoff None s))) =
      map inbox_columns (filter (\<lambda>r. \<not> inbox_old isoCutoff r) rows)"
    using prune_complete [OF batch cutoff, of e SyncInboxPruner s] allowed tbl(1)
    by (simp add: rows_of_set) (simp add: rows_of_def tbl(2) filter_map comp_def inbox_old_columns)
  have "\<forall>x \<in> set (filter (\<lambda>r. \<not> inbox_old isoCutoff r) rows). ib_envelope_id x \<noteq> jstr (jfield ''envelopeId'' env)"
    using row by (auto simp: inbox_inv_def distinct_map) (metis inj_onD)
  moreover have "\<forall>x \<in> set (filter (\<lambda>r. \<not> inbox_old isoCutoff r) rows). ib_id x \<noteq> i" using again(3) by simp
  ultimately show "case inbox_receive f env i now (filter (\<lambda>r. \<not> inbox_old isoCutoff r) rows) of
      (Inl _, _) \<Rightarrow> False
    | (Inr new, rows') \<Rightarrow> ib_id new = i \<and> new \<in> set (applicable rows')"
    using receive_new [OF _ _ again(1)] again(2) by (simp add: applicable_def)
qed

section \<open>An example\<close>

definition sample_storage_env :: storage_env where
  "sample_storage_env = \<lparr>en_refuse = (\<lambda>_ _. None), en_filter = (\<lambda>_ _. Inr (\<lambda>_. True)),
     en_term = (\<lambda>_ c. Inl (raise PlainError (''no such column: '' @ c))), en_no_table = (\<lambda>t. raise PlainError (''no such table: '' @ t)),
     en_vacuum = (\<lambda>_. None)\<rparr>"

definition sample_outbox_row :: "string \<Rightarrow> sql_row" where
  "sample_outbox_row st = [(''status'', SqlText st), (''sent_at'', SqlNull), (''created_at'', SqlText ''1970-01-01T00:00:00.000Z'')]"

definition sample_storage :: storage where
  "sample_storage = [(''core_sync_outbox'', \<lparr>tc_columns = [''status'', ''sent_at'', ''created_at''],
       tc_rows = map sample_outbox_row [''SENT'', ''PENDING'', ''SENT'', ''SENT'']\<rparr>),
     (''core_sync_inbox'', \<lparr>tc_columns = [''envelope_id'', ''apply_status'', ''applied_at'', ''created_at''],
       tc_rows = map inbox_columns [sample_inbox\<lparr>ib_apply := Applied, ib_applied_at := Some ''1970-01-01T00:00:00.000Z''\<rparr>]\<rparr>)]"

definition sample_orchestrator :: orchestrator where
  "sample_orchestrator = \<lparr>or_handlers = policies_registered [], or_batch = Fin 2, or_overrides = []\<rparr>"

definition sample_policy :: pruning_def where
  "sample_policy = \<lparr>pr_id = ''p'', pr_display = ''P'', pr_table = ''CORE_SYNC_OUTBOX'', pr_column = ''created_at'', pr_days = 1, pr_filter = None\<rparr>"

text \<open>A run twenty days after the epoch, in batches of two.\<close>

abbreviation "sample_maintenance \<equiv> pruneAll sample_storage_env 1728000000 sample_orchestrator False None None sample_storage"

lemma compaction_invariants_witness:
  "filter (protected ''core_sync_outbox'') (rows_of ''core_sync_outbox'' (snd (snd sample_maintenance))) = [sample_outbox_row ''PENDING'']"
proof -
  have "or_handlers sample_orchestrator = policies_registered []" by (simp add: sample_orchestrator_def)
  moreover have "filter (protected ''core_sync_outbox'') (rows_of ''core_sync_outbox'' sample_storage) = [sample_outbox_row ''PENDING'']" by code_simp
  ultimately show ?thesis using compaction_invariants [of "[]" sample_orchestrator] by simp
qed

lemma sample_cutoff: "to_iso (Fin 86400000) = Inr ''1970-01-02T00:00:00.000Z''" "is_safe_integer (Fin 2)" "js_less (Fin 0) (Fin 2)"
  by code_simp+

lemma prune_exact_witness:
  "fst (prune sample_storage_env SyncOutboxPruner (Fin 2) (Fin 86400000) None sample_storage) =
     Inr \<lparr>ps_handler = ''core.sync.outbox'', ps_name = ''Sync Outbox Pruner'', ps_rows = 3, ps_error = None\<rparr>"
proof -
  have "countEligible sample_storage_env SyncOutboxPruner ''1970-01-02T00:00:00.000Z'' sample_storage = Inr 3" by code_simp
  then show ?thesis using prune_exact [OF _ sample_cutoff(2,3,1), of SyncOutboxPruner _ sample_storage_env sample_storage]
    by (simp add: sample_storage_env_def SyncOutboxPruner_def core_pruners_def)
qed

lemma policy_breaks_compaction_witness:
  "rows_of ''core_sync_outbox'' (snd (snd (prune sample_storage_env (policy_pruner sample_policy) (Fin 2) (Fin 86400000) None sample_storage))) = [] \<and>
   filter (protected ''core_sync_outbox'') (rows_of ''core_sync_outbox'' sample_storage) \<noteq> []"
proof -
  have tbl: "assoc_get ''core_sync_outbox'' sample_storage = Some \<lparr>tc_columns = [''status'', ''sent_at'', ''created_at''],
       tc_rows = map sample_outbox_row [''SENT'', ''PENDING'', ''SENT'', ''SENT'']\<rparr>" by (simp add: sample_storage_def)
  have accepted: "DeclarativeTablePruner sample_policy = Inr (policy_pruner sample_policy)"
    "filter (\<lambda>r. \<not> at_most ''1970-01-02T00:00:00.000Z'' (column ''created_at'' r)) (rows_of ''core_sync_outbox'' sample_storage) = []"
    "filter (protected ''core_sync_outbox'') (rows_of ''core_sync_outbox'' sample_storage) \<noteq> []"
  proof -
    have "policy_error sample_policy = None" by code_simp
    then show "DeclarativeTablePruner sample_policy = Inr (policy_pruner sample_policy)" by (simp add: DeclarativeTablePruner_def)
  qed (code_simp)+
  show ?thesis using policy_breaks_compaction [OF _ _ _ _ tbl _ sample_cutoff(2,3,1), where pol = sample_policy and env = sample_storage_env] accepted
    by (simp add: sample_policy_def sample_storage_env_def)
qed

lemma report_accurate_witness:
  "rows_total (snd (snd (pruneAll sample_storage_env 1728000000 (sample_orchestrator\<lparr>or_handlers := [(''h'', SyncOutboxPruner)]\<rparr>) True None None sample_storage))) + 3 =
     rows_total sample_storage"
proof -
  let ?c = "sample_orchestrator\<lparr>or_handlers := [(''h'', SyncOutboxPruner)]\<rparr>"
  have run: "case fst (pruneAll sample_storage_env 1728000000 ?c True None None sample_storage) of Inl _ \<Rightarrow> False
    | Inr report \<Rightarrow> rp_total report = 3 \<and> list_all (\<lambda>r. ps_error r = None) (rp_results report)" by code_simp
  obtain r sig' s' where p: "pruneAll sample_storage_env 1728000000 ?c True None None sample_storage = (r, sig', s')" by (metis prod_cases3)
  show ?thesis using report_accurate [where env = sample_storage_env and now = 1728000000 and c = ?c and skipVacuum = True and b = None and sig = None
        and s = sample_storage] run unfolding p by (cases r) auto
qed

lemma pruned_envelope_replayed_witness:
  "\<not> isl (fst (inbox_receive (\<lambda>_ _ _. Inr True) sample_envelope ''i2'' ''2027'' []))"
proof -
  let ?r = "sample_inbox\<lparr>ib_apply := Applied, ib_applied_at := Some ''1970-01-01T00:00:00.000Z''\<rparr>"
  have verified: "verification_of (\<lambda>_ _ _. Inr True) sample_envelope = Verified"
    using sample_envelope_ok by (simp add: verification_of_def verify_def sample_envelope_def canonicalize_def sample_operation_ok)
  have row: "inbox_inv [?r]" "ib_envelope_id ?r = jstr (jfield ''envelopeId'' sample_envelope)" "inbox_old ''1970-01-02T00:00:00.000Z'' ?r"
    "\<forall>r \<in> set [?r]. ib_id r \<noteq> ''i2''"
    by (simp add: inbox_inv_def, (code_simp)+)
  have tbl: "assoc_get ''core_sync_inbox'' sample_storage = Some \<lparr>tc_columns = [''envelope_id'', ''apply_status'', ''applied_at'', ''created_at''],
       tc_rows = map inbox_columns [?r]\<rparr>" by (simp add: sample_storage_def)
  show ?thesis
    using pruned_envelope_replayed [OF row(1) _ row(2,3) sample_envelope_ok verified row(4) tbl _ _ sample_cutoff(2,3,1), where e = sample_storage_env and now = "''2027''"] row(3)
    by (auto simp: sample_storage_env_def split: prod.splits sum.splits)
qed

end
