(* ===== verification/Platform_Boot.thy ===== *)
theory Platform_Boot
  imports Feature_Registry Conflicts Maintenance Migrations Task_Claims
begin

text \<open>
  \<open>platform/src/Platform.ts\<close>: how the parts are put together.  \<open>registerFeature\<close> writes to the feature registry,
  the conflict registry and the pruning handlers; \<open>init\<close> migrates the platform's and the features' tables in
  dependency order and recovers the tasks of a crash.
\<close>

section \<open>The platform\<close>

record platform =
  pf_initialised :: bool
  pf_initialising :: bool
  pf_features :: registry
  pf_conflicts :: conflict_registry
  pf_handlers :: handlers

definition new_platform :: platform where
  "new_platform = \<lparr>pf_initialised = False, pf_initialising = False, pf_features = empty_registry,
     pf_conflicts = new_registry, pf_handlers = new_handlers True\<rparr>"

definition on_features :: "(registry, 'a) op \<Rightarrow> (platform, 'a) op" where
  "on_features = lift_op pf_features (\<lambda>x p. p\<lparr>pf_features := x\<rparr>)"

definition on_conflicts :: "(conflict_registry, 'a) op \<Rightarrow> (platform, 'a) op" where
  "on_conflicts = lift_op pf_conflicts (\<lambda>x p. p\<lparr>pf_conflicts := x\<rparr>)"

definition on_handlers :: "(handlers, 'a) op \<Rightarrow> (platform, 'a) op" where
  "on_handlers = lift_op pf_handlers (\<lambda>x p. p\<lparr>pf_handlers := x\<rparr>)"

section \<open>Registering a feature\<close>

text \<open>The strategies a validated manifest can name.\<close>

definition strategy_named :: "string \<Rightarrow> conflict_strategy" where
  "strategy_named s = (if s = ''lww'' then Lww else if s = ''append-only'' then AppendOnly else if s = ''additive'' then Additive
     else if s = ''manual'' then Manual else if s = ''immutable'' then Immutable else Crdt)"

definition declared_policy :: "sync_policy_def \<Rightarrow> conflict_policy" where
  "declared_policy sp = \<lparr>cp_strategy = strategy_named (sp_strategy sp), cp_resolver = None\<rparr>"

fun duplicate_policy :: "conflict_registry \<Rightarrow> sync_policy_def list \<Rightarrow> string list \<Rightarrow> string option" where
  "duplicate_policy r [] seen = None"
| "duplicate_policy r (sp # sps) seen = (if sp_entity sp \<in> set seen \<or> hasEntityPolicy r (sp_entity sp) then Some (sp_entity sp)
     else duplicate_policy r sps (sp_entity sp # seen))"

definition register_platform_feature :: "manifest \<Rightarrow> (platform, unit) op" where
  "register_platform_feature m =
     andthen (get (\<lambda>p. pf_initialised p \<or> pf_initialising p)) (\<lambda>started.
     andthen (guard (\<not> started) (raise ValidationError (''Cannot register feature '' @ quoted (mf_id m) @
       '' after platform initialization has started''))) (\<lambda>_.
     andthen (get (\<lambda>p. duplicate_policy (pf_conflicts p) (given (mf_sync m)) [])) (\<lambda>dup.
     andthen (guard (dup = None) (raise ValidationError (''Sync conflict policy for entity '' @ quoted (the dup) @
       '' is already registered or duplicated.''))) (\<lambda>_.
     andthen (on_handlers (preparePolicies (given (mf_pruning m)))) (\<lambda>prepared.
     andthen (on_features (registerFeature m)) (\<lambda>_.
     andthen (for_each (\<lambda>sp. on_conflicts (registerEntityPolicy (sp_entity sp) (declared_policy sp))) (given (mf_sync m))) (\<lambda>_.
     on_handlers (registerPreparedPolicies prepared))))))))"

section \<open>Starting up\<close>

text \<open>The task table within the database.\<close>

record 's task_access =
  ta_get :: "'s \<Rightarrow> task_table"
  ta_put :: "task_table \<Rightarrow> 's \<Rightarrow> 's"

definition feature_owner :: "string \<Rightarrow> string" where
  "feature_owner i = ''feature.'' @ i"

definition feature_script :: "string \<times> migration_def \<Rightarrow> migration_script" where
  "feature_script e = (case e of (i, g) \<Rightarrow> \<lparr>mg_version = mg_version g, mg_name = mg_name g, mg_sql = mg_sql g,
     mg_checksum = mg_checksum g, ms_owner = Some (feature_owner i)\<rparr>)"

text \<open>\<open>migrationsByFeature\<close>: the groups in the order of their first migrations.\<close>

fun group_migrations :: "(string \<times> migration_def) list \<Rightarrow> (string \<times> migration_script list) list \<Rightarrow> (string \<times> migration_script list) list" where
  "group_migrations [] groups = groups"
| "group_migrations (e # es) groups = group_migrations es (assoc_set (feature_owner (fst e))
     ((case assoc_get (feature_owner (fst e)) groups of None \<Rightarrow> [] | Some ms \<Rightarrow> ms) @ [feature_script e]) groups)"

definition on_platform :: "(platform, 'a) op \<Rightarrow> (platform \<times> 's, 'a) op" where
  "on_platform = lift_op fst (\<lambda>p (_, s). (p, s))"

definition on_database :: "('s, 'a) op \<Rightarrow> (platform \<times> 's, 'a) op" where
  "on_database = lift_op snd (\<lambda>s (p, _). (p, s))"

definition startup_timeout :: jsnum where
  "startup_timeout = Fin 60000"

definition migrate_all :: "(string \<Rightarrow> string \<Rightarrow> int) \<Rightarrow> 's migration_driver \<Rightarrow> (migration_script \<Rightarrow> string) \<Rightarrow> migration_script list \<Rightarrow>
    (platform \<times> 's, unit) op" where
  "migrate_all lc dr clock core =
     andthen (on_database (ensureMigrationTable dr)) (\<lambda>_.
     andthen (on_platform (on_features getAllMigrations)) (\<lambda>ordered.
     andthen (if core = [] then ret 0 else on_database (applyMigrations lc dr clock core)) (\<lambda>_.
     andthen (for_each (\<lambda>g. on_database (applyMigrations lc dr clock (snd g))) (group_migrations ordered [])) (\<lambda>_. ret ()))))"

definition startup :: "(string \<Rightarrow> string \<Rightarrow> int) \<Rightarrow> 's migration_driver \<Rightarrow> 's task_access \<Rightarrow> (migration_script \<Rightarrow> string) \<Rightarrow>
    migration_script list \<Rightarrow> int \<Rightarrow> (platform \<times> 's, unit) op" where
  "startup lc dr ta clock core now =
     andthen (migrate_all lc dr clock core) (\<lambda>_.
     andthen (on_database (lift_op (ta_get ta) (ta_put ta) (recoverHangingTasks startup_timeout now))) (\<lambda>_.
     on_platform (modify (\<lambda>p. p\<lparr>pf_initialised := True\<rparr>))))"

text \<open>\<open>init\<close>: a second call while the first runs gets the same promise, so only the first runs \<open>startup\<close>.\<close>

definition init :: "(string \<Rightarrow> string \<Rightarrow> int) \<Rightarrow> 's migration_driver \<Rightarrow> 's task_access \<Rightarrow> (migration_script \<Rightarrow> string) \<Rightarrow>
    migration_script list \<Rightarrow> int \<Rightarrow> (platform \<times> 's, unit) op" where
  "init lc dr ta clock core now = andthen (get (\<lambda>(p, _). pf_initialised p)) (\<lambda>ready. if ready then ret ()
     else (\<lambda>(p, s). case startup lc dr ta clock core now (p\<lparr>pf_initialising := True\<rparr>, s) of
        (r, (p', s')) \<Rightarrow> (r, (p'\<lparr>pf_initialising := False\<rparr>, s'))))"

section \<open>Registration is all or nothing\<close>

lemma run_lift: "lift_op g p m s = (fst (m (g s)), p (snd (m (g s))) s)"
  by (simp add: lift_op_def split: prod.split)

lemma prepare_keeps: "preparePolicies ps hs = (r, hs') \<Longrightarrow> hs' = hs"
  by (cases "build_pruners ps"; cases "check_new_handlers hs (projr (build_pruners ps)) []")
    (auto simp: preparePolicies_def andthen_assoc)

lemma prepare_Inr: "preparePolicies ps hs = (Inr new, hs') \<Longrightarrow> build_pruners ps = Inr new \<and> check_new_handlers hs new [] = Inr ()"
  by (cases "build_pruners ps"; cases "check_new_handlers hs (projr (build_pruners ps)) []")
    (auto simp: preparePolicies_def andthen_assoc)

lemma register_feature_Inl: "registerFeature m r = (Inl err, r') \<Longrightarrow> r' = r"
  by (cases "validate (manifest_json m)") (auto simp: registerFeature_def split: if_splits)

lemma register_feature_Inr: "registerFeature m r = (Inr u, r') \<Longrightarrow>
    validate (manifest_json m) = Inr () \<and> r' = r\<lparr>rg_features := assoc_set (mf_id m) m (rg_features r), rg_graph := None\<rparr> \<and>
    assoc_get (mf_id m) (rg_features r) = None"
  by (cases "validate (manifest_json m)") (auto simp: registerFeature_def split: if_splits)

definition with_policies :: "sync_policy_def list \<Rightarrow> conflict_registry \<Rightarrow> conflict_registry" where
  "with_policies sps r = r\<lparr>cr_entity := fold (\<lambda>sp. assoc_set (sp_entity sp) (declared_policy sp)) sps (cr_entity r)\<rparr>"

lemma register_entities:
  "duplicate_policy (pf_conflicts p) sps seen = None \<Longrightarrow>
    \<exists>us. for_each (\<lambda>sp. on_conflicts (registerEntityPolicy (sp_entity sp) (declared_policy sp))) sps p =
      (Inr us, p\<lparr>pf_conflicts := with_policies sps (pf_conflicts p)\<rparr>)"
proof (induction sps arbitrary: p seen)
  case (Cons sp sps)
  have none: "sp_entity sp \<notin> set seen" "\<not> hasEntityPolicy (pf_conflicts p) (sp_entity sp)"
    "duplicate_policy (pf_conflicts p) sps (sp_entity sp # seen) = None" using Cons.prems by (auto split: if_splits)
  let ?r = "(pf_conflicts p)\<lparr>cr_entity := assoc_set (sp_entity sp) (declared_policy sp) (cr_entity (pf_conflicts p))\<rparr>"
  have one: "on_conflicts (registerEntityPolicy (sp_entity sp) (declared_policy sp)) p = (Inr (), p\<lparr>pf_conflicts := ?r\<rparr>)"
    using none(2) by (simp add: on_conflicts_def run_lift registerEntityPolicy_def)
  have "duplicate_policy r' sps seen' = None"
    if "duplicate_policy r sps seen' = None" "sp_entity sp \<in> set seen'"
      "\<And>e. hasEntityPolicy r' e \<longleftrightarrow> hasEntityPolicy r e \<or> e = sp_entity sp" for r r' seen'
    using that by (induction sps arbitrary: seen') (auto split: if_splits)
  from this [OF none(3)] have rest: "duplicate_policy ?r sps (sp_entity sp # seen) = None" by (simp add: hasEntityPolicy_def)
  obtain us where "for_each (\<lambda>sp. on_conflicts (registerEntityPolicy (sp_entity sp) (declared_policy sp))) sps (p\<lparr>pf_conflicts := ?r\<rparr>) =
      (Inr us, p\<lparr>pf_conflicts := with_policies sps ?r\<rparr>)" using Cons.IH [of "p\<lparr>pf_conflicts := ?r\<rparr>"] rest by auto
  then show ?case using one by (simp add: run_andthen_Inr with_policies_def)
qed (simp add: with_policies_def)

lemma register_prepared: "check_new_handlers hs new [] = Inr () \<Longrightarrow>
    registerPreparedPolicies new hs = (Inr (), fold (\<lambda>h. assoc_set (pn_id h) h) new hs)"
  by (simp add: registerPreparedPolicies_def)

lemma build_pruners_map: "build_pruners ps = Inr hs \<Longrightarrow> hs = map policy_pruner ps"
  by (induction ps arbitrary: hs) (auto split: sum.splits dest!: policy_pruner_fields)

lemma duplicate_policy_None: "duplicate_policy r sps seen = None \<Longrightarrow>
    distinct (map sp_entity sps) \<and> (\<forall>sp \<in> set sps. sp_entity sp \<notin> set seen \<and> assoc_get (sp_entity sp) (cr_entity r) = None)"
proof (induction sps arbitrary: seen)
  case (Cons sp sps)
  then show ?case using Cons.IH [of "sp_entity sp # seen"] by (auto simp: hasEntityPolicy_def split: if_splits)
qed simp

lemma check_new_Inr: "check_new_handlers hs new seen = Inr () \<Longrightarrow>
    distinct (map pn_id new) \<and> (\<forall>h \<in> set new. pn_id h \<notin> set seen \<and> assoc_get (pn_id h) hs = None)"
proof (induction new arbitrary: seen)
  case (Cons h new)
  then show ?case using Cons.IH [of "pn_id h # seen"] by (auto split: if_splits)
qed simp

lemma assoc_get_fold: "k \<notin> key ` set xs \<Longrightarrow> assoc_get k (fold (\<lambda>x. assoc_set (key x) (val x)) xs m) = assoc_get k m"
  by (induction xs arbitrary: m) auto

lemma assoc_get_fold_in: "distinct (map key xs) \<Longrightarrow> x \<in> set xs \<Longrightarrow> assoc_get (key x) (fold (\<lambda>x. assoc_set (key x) (val x)) xs m) = Some (val x)"
proof (induction xs arbitrary: m)
  case (Cons y xs)
  show ?case
  proof (cases "x = y")
    case True
    then show ?thesis using Cons.prems(1) assoc_get_fold [of "key y" key xs val] by simp
  next
    case False
    then show ?thesis using Cons by simp
  qed
qed simp

text \<open>The association list \<open>m'\<close> has the new entries and all of \<open>m\<close>, which had none of their keys.\<close>

definition extends_by :: "('k \<times> 'v) list \<Rightarrow> ('k \<times> 'v) list \<Rightarrow> ('k \<times> 'v) list \<Rightarrow> bool" where
  "extends_by m new m' \<longleftrightarrow> distinct (map fst new) \<and> list_all (\<lambda>(k, v). assoc_get k m = None \<and> assoc_get k m' = Some v) new \<and>
     list_all (\<lambda>(k, v). assoc_get k m' = assoc_get k m) m \<and> set (map fst m') = set (map fst new) \<union> set (map fst m)"

lemma extends_by_fold:
  assumes "distinct (map key xs)" "\<forall>x \<in> set xs. assoc_get (key x) m = None"
  shows "extends_by m (map (\<lambda>x. (key x, val x)) xs) (fold (\<lambda>x. assoc_set (key x) (val x)) xs m)"
proof -
  have keys: "fst ` set (fold (\<lambda>x. assoc_set (key x) (val x)) xs m) = key ` set xs \<union> fst ` set m" for m
    by (induction xs arbitrary: m) (auto simp: assoc_set_keys)
  have "assoc_get k (fold (\<lambda>x. assoc_set (key x) (val x)) xs m) = assoc_get k m" if "(k, v) \<in> set m" for k v
  proof (rule assoc_get_fold)
    show "k \<notin> key ` set xs" using assms(2) that unfolding assoc_get_None by force
  qed
  then show ?thesis using assms assoc_get_fold_in [OF assms(1)] keys
    by (auto simp: extends_by_def list_all_iff comp_def)
qed

text \<open>Registering a feature is all or nothing over the three registries: a refused registration, for whatever reason,
  changes none of them; an accepted one happens before the start, adds the manifest, its conflict
  policies and its pruners under keys that were free, and keeps every entry there was.\<close>

theorem registration_atomic:
  "case register_platform_feature m p of
     (Inl _, p') \<Rightarrow> p' = p
   | (Inr _, p') \<Rightarrow> \<not> pf_initialised p \<and> \<not> pf_initialising p \<and> validate (manifest_json m) = Inr () \<and>
       extends_by (rg_features (pf_features p)) [(mf_id m, m)] (rg_features (pf_features p')) \<and>
       extends_by (cr_entity (pf_conflicts p)) (map (\<lambda>sp. (sp_entity sp, declared_policy sp)) (given (mf_sync m))) (cr_entity (pf_conflicts p')) \<and>
       extends_by (pf_handlers p) (map (\<lambda>d. (pr_id d, policy_pruner d)) (given (mf_pruning m))) (pf_handlers p')"
proof (cases "pf_initialised p \<or> pf_initialising p \<or> duplicate_policy (pf_conflicts p) (given (mf_sync m)) [] \<noteq> None")
  case True
  then show ?thesis by (auto simp: register_platform_feature_def)
next
  case False
  then have start: "\<not> pf_initialised p" "\<not> pf_initialising p" and dup: "duplicate_policy (pf_conflicts p) (given (mf_sync m)) [] = None" by simp_all
  obtain r1 hs1 where prep: "preparePolicies (given (mf_pruning m)) (pf_handlers p) = (r1, hs1)" by fastforce
  obtain r2 f2 where reg: "registerFeature m (pf_features p) = (r2, f2)" by fastforce
  have same: "p\<lparr>pf_handlers := pf_handlers p\<rparr> = p" "p\<lparr>pf_features := pf_features p\<rparr> = p" by simp_all
  have p1: "on_handlers (preparePolicies (given (mf_pruning m))) p = (r1, p)"
    using prepare_keeps [OF prep] prep by (simp add: on_handlers_def run_lift)
  show ?thesis
  proof (cases r1)
    case (Inl err)
    then show ?thesis using start dup p1 by (simp add: register_platform_feature_def run_andthen_Inl)
  next
    case (Inr new)
    have p2: "on_features (registerFeature m) p = (r2, p\<lparr>pf_features := f2\<rparr>)" using reg by (simp add: on_features_def run_lift)
    show ?thesis
    proof (cases r2)
      case (Inl err)
      then have "f2 = pf_features p" using register_feature_Inl reg by simp
      then show ?thesis using start dup p1 p2 Inl \<open>r1 = Inr new\<close> by (simp add: register_platform_feature_def run_andthen_Inr run_andthen_Inl)
    next
      case (Inr u)
      note feat = register_feature_Inr [OF reg [unfolded Inr]] and new = prepare_Inr [OF prep [unfolded \<open>r1 = Inr new\<close>]]
      let ?q = "p\<lparr>pf_features := f2\<rparr>"
      obtain us where ent: "for_each (\<lambda>sp. on_conflicts (registerEntityPolicy (sp_entity sp) (declared_policy sp))) (given (mf_sync m)) ?q =
          (Inr us, ?q\<lparr>pf_conflicts := with_policies (given (mf_sync m)) (pf_conflicts p)\<rparr>)"
        using register_entities [of ?q "given (mf_sync m)" "[]"] dup by auto
      let ?p' = "?q\<lparr>pf_conflicts := with_policies (given (mf_sync m)) (pf_conflicts p), pf_handlers := fold (\<lambda>h. assoc_set (pn_id h) h) new (pf_handlers p)\<rparr>"
      have run: "register_platform_feature m p = (Inr (), ?p')"
        using start dup p1 p2 ent Inr \<open>r1 = Inr new\<close> new register_prepared
        by (simp add: register_platform_feature_def run_andthen_Inr on_handlers_def run_lift)
      have h: "new = map policy_pruner (given (mf_pruning m))" using build_pruners_map new by blast
      have fold_map: "fold (\<lambda>h. assoc_set (pn_id h) h) (map policy_pruner ds) hs = fold (\<lambda>d. assoc_set (pr_id d) (policy_pruner d)) ds hs" for ds hs
        by (induction ds arbitrary: hs) (simp_all add: policy_pruner_def)
      have ids: "pn_id (policy_pruner d) = pr_id d" for d by (simp add: policy_pruner_def)
      have e1: "extends_by (rg_features (pf_features p)) [(mf_id m, m)] (rg_features f2)"
        using extends_by_fold [where key = mf_id and val = "\<lambda>m. m" and xs = "[m]" and m = "rg_features (pf_features p)"] feat by simp
      have e2: "extends_by (cr_entity (pf_conflicts p)) (map (\<lambda>sp. (sp_entity sp, declared_policy sp)) (given (mf_sync m)))
          (cr_entity (with_policies (given (mf_sync m)) (pf_conflicts p)))"
        using duplicate_policy_None [OF dup] unfolding with_policies_def by (simp add: extends_by_fold)
      have e3: "extends_by (pf_handlers p) (map (\<lambda>d. (pr_id d, policy_pruner d)) (given (mf_pruning m))) (fold (\<lambda>h. assoc_set (pn_id h) h) new (pf_handlers p))"
        using check_new_Inr [of "pf_handlers p" new "[]"] new unfolding h fold_map by (intro extends_by_fold) (auto simp: comp_def ids)
      show ?thesis unfolding run using start feat e1 e2 e3 by simp
    qed
  qed
qed

section \<open>The order of the migrations\<close>

definition feature_scripts :: "manifest \<Rightarrow> migration_script list" where
  "feature_scripts m = map (\<lambda>g. feature_script (mf_id m, g)) (sort_key mg_version (mf_migrations m))"

lemma feature_owner_inj [simp]: "feature_owner i = feature_owner j \<longleftrightarrow> i = j"
  by (simp add: feature_owner_def)

lemma feature_script_owner [simp]: "owner_of (feature_script (i, g)) = feature_owner i"
  by (simp add: feature_script_def owner_of_def)

lemma assoc_last: "k \<notin> fst ` set m \<Longrightarrow> assoc_get k (m @ [(k, v)]) = Some v"
  "k \<notin> fst ` set m \<Longrightarrow> assoc_set k w (m @ [(k, v)]) = m @ [(k, w)]"
  by (induction m) auto

lemma group_more: "feature_owner i \<notin> fst ` set groups \<Longrightarrow>
    group_migrations (map (Pair i) gs @ es) (groups @ [(feature_owner i, ms)]) =
    group_migrations es (groups @ [(feature_owner i, ms @ map (\<lambda>g. feature_script (i, g)) gs)])"
  by (induction gs arbitrary: ms) (simp_all add: assoc_last)

lemma group_one: "feature_owner i \<notin> fst ` set groups \<Longrightarrow> gs \<noteq> [] \<Longrightarrow>
    group_migrations (map (Pair i) gs @ es) groups = group_migrations es (groups @ [(feature_owner i, map (\<lambda>g. feature_script (i, g)) gs)])"
proof -
  assume new: "feature_owner i \<notin> fst ` set groups" and "gs \<noteq> []"
  then obtain g gs' where "gs = g # gs'" by (cases gs) auto
  moreover have "assoc_get (feature_owner i) groups = None" using new by (simp add: assoc_get_None)
  ultimately show ?thesis using group_more [OF new, of gs' es] by (simp add: assoc_set_new)
qed

lemma group_ordered:
  assumes "distinct (map mf_id order)" "\<forall>m \<in> set order. feature_owner (mf_id m) \<notin> fst ` set groups"
  shows "group_migrations (ordered_migrations order) groups =
    groups @ map (\<lambda>m. (feature_owner (mf_id m), feature_scripts m)) (filter (\<lambda>m. mf_migrations m \<noteq> []) order)"
  using assms
proof (induction order arbitrary: groups)
  case (Cons m order)
  have step: "ordered_migrations (m # order) = map (Pair (mf_id m)) (sort_key mg_version (mf_migrations m)) @ ordered_migrations order"
    by (simp add: ordered_migrations_def)
  show ?case
  proof (cases "mf_migrations m = []")
    case True
    then show ?thesis using Cons by (simp add: step)
  next
    case False
    then have ne: "sort_key mg_version (mf_migrations m) \<noteq> []" by (metis length_0_conv length_sort)
    have "feature_owner (mf_id m) \<notin> fst ` set groups" using Cons.prems(2) by simp
    from group_one [OF this ne] have "group_migrations (ordered_migrations (m # order)) groups =
        group_migrations (ordered_migrations order) (groups @ [(feature_owner (mf_id m), feature_scripts m)])"
      by (simp add: step feature_scripts_def)
    also have "\<dots> = (groups @ [(feature_owner (mf_id m), feature_scripts m)]) @
        map (\<lambda>m. (feature_owner (mf_id m), feature_scripts m)) (filter (\<lambda>m. mf_migrations m \<noteq> []) order)"
    proof (rule Cons.IH)
      show "distinct (map mf_id order)" using Cons.prems(1) by simp
      have "mf_id m' \<noteq> mf_id m" if "m' \<in> set order" for m' using Cons.prems(1) that by (metis distinct.simps(2) imageI list.set_map list.simps(9))
      then show "\<forall>m' \<in> set order. feature_owner (mf_id m') \<notin> fst ` set (groups @ [(feature_owner (mf_id m), feature_scripts m)])"
        using Cons.prems(2) by auto
    qed
    finally show ?thesis using False by simp
  qed
qed (simp add: ordered_migrations_def)

lemma todo_other:
  assumes "applied_rows d' = applied_rows d @ map (row_of_script clock) xs" "\<And>x. x \<in> set xs \<Longrightarrow> owner_of x \<notin> owner_of ` set ms"
  shows "todo lc ms d' = todo lc ms d"
proof -
  have "script_identity m \<notin> row_identity ` set (map (row_of_script clock) xs)" if "m \<in> set ms" for m
  proof
    assume "script_identity m \<in> row_identity ` set (map (row_of_script clock) xs)"
    then obtain x where "x \<in> set xs" "owner_of x = owner_of m" by (auto simp: script_identity_def)
    then show False using assms(2) [of x] that by (metis imageI)
  qed
  then show ?thesis unfolding todo_def assms(1) set_append image_Un by (intro filter_cong) auto
qed

lemma concat_filtered: "concat (map (\<lambda>g. todo lc (snd g) d) (map (\<lambda>m. (feature_owner (mf_id m), feature_scripts m))
    (filter (\<lambda>m. mf_migrations m \<noteq> []) ms))) = concat (map (\<lambda>m. todo lc (feature_scripts m) d) ms)"
  by (induction ms) (auto simp: todo_def js_sort_def feature_scripts_def)

context migration_store
begin

lemma apply_rows_after:
  assumes "ready s" "applyMigrations lc dr clock ms s = (Inr n, s')"
  shows "ready s' \<and> applied_rows (db s') = applied_rows (db s) @ map (row_of_script clock) (todo lc ms (db s))"
  using applyMigrations_outcome [OF assms] applied_after(1) by auto

lemma apply_groups:
  "ready s \<Longrightarrow> distinct (map fst groups) \<Longrightarrow> (\<And>g m. g \<in> set groups \<Longrightarrow> m \<in> set (snd g) \<Longrightarrow> owner_of m = fst g) \<Longrightarrow>
    for_each (\<lambda>g. on_database (applyMigrations lc dr clock (snd g))) groups (p, s) = (Inr us, ps') \<Longrightarrow>
    fst ps' = p \<and> ready (snd ps') \<and>
    applied_rows (db (snd ps')) = applied_rows (db s) @ map (row_of_script clock) (concat (map (\<lambda>g. todo lc (snd g) (db s)) groups))"
proof (induction groups arbitrary: s us)
  case (Cons g groups)
  obtain r s1 where one: "applyMigrations lc dr clock (snd g) s = (r, s1)" by fastforce
  have on: "on_database (applyMigrations lc dr clock (snd g)) (p, s) = (r, (p, s1))" using one by (simp add: on_database_def run_lift)
  obtain n where n: "r = Inr n" using Cons.prems(4) on by (cases r) (auto simp: run_andthen_Inl)
  have s1: "ready s1" "applied_rows (db s1) = applied_rows (db s) @ map (row_of_script clock) (todo lc (snd g) (db s))"
    using apply_rows_after [OF Cons.prems(1) one [unfolded n]] by simp_all
  obtain us' where rest: "for_each (\<lambda>g. on_database (applyMigrations lc dr clock (snd g))) groups (p, s1) = (Inr us', ps')"
  proof -
    obtain r' q where "for_each (\<lambda>g. on_database (applyMigrations lc dr clock (snd g))) groups (p, s1) = (r', q)" by (metis surj_pair)
    then show thesis using Cons.prems(4) on n that by (cases r') (auto simp: run_andthen_Inr run_andthen_Inl)
  qed
  have same: "todo lc (snd g') (db s1) = todo lc (snd g') (db s)" if "g' \<in> set groups" for g'
  proof (rule todo_other [OF s1(2)])
    fix x assume "x \<in> set (todo lc (snd g) (db s))"
    then have x: "owner_of x = fst g" using Cons.prems(3) by (auto simp: todo_def)
    have "fst g' \<noteq> fst g" using Cons.prems(2) that by (force simp: image_iff)
    moreover have "owner_of y = fst g'" if "y \<in> set (snd g')" for y using Cons.prems(3) that \<open>g' \<in> set groups\<close> by simp
    ultimately show "owner_of x \<notin> owner_of ` set (snd g')" using x by auto
  qed
  have eq: "concat (map (\<lambda>g. todo lc (snd g) (db s1)) groups) = concat (map (\<lambda>g. todo lc (snd g) (db s)) groups)"
    using same by (simp cong: map_cong)
  show ?case using Cons.IH [OF s1(1) _ _ rest] Cons.prems(2,3) s1(2) by (simp add: eq)
qed auto

lemma migrate_all_rows:
  assumes ready: "ready s" and coh: "coherent (pf_features p)" and core: "\<And>m. m \<in> set core \<Longrightarrow> owner_of m = ''platform''"
    and run: "migrate_all lc dr clock core (p, s) = (Inr u, (p', s'))"
  shows "\<exists>g. resolve (registered (pf_features p)) = Inr g \<and> ready s' \<and>
    applied_rows (db s') = applied_rows (db s) @ map (row_of_script clock)
      (todo lc core (db s) @ concat (map (\<lambda>m. todo lc (feature_scripts m) (db s)) (rs_manifests g)))"
proof -
  obtain s1 where s1: "ensureMigrationTable dr s = (Inr (), s1)" "ready s1" "db s1 = create_table (db s)"
    using create [OF ready] by (auto simp: ensureMigrationTable_def)
  have rows1: "applied_rows (db s1) = applied_rows (db s)" using s1(3) by simp
  have t1: "todo lc ms (db s1) = todo lc ms (db s)" for ms unfolding todo_def rows1 by simp
  have on1: "on_database (ensureMigrationTable dr) (p, s) = (Inr (), (p, s1))" using s1 by (simp add: on_database_def run_lift)
  obtain r2 f2 where q: "getAllMigrations (pf_features p) = (r2, f2)" by fastforce
  have on2: "on_platform (on_features getAllMigrations) (p, s1) = (r2, (p\<lparr>pf_features := f2\<rparr>, s1))"
    using q by (simp add: on_platform_def on_features_def run_lift)
  obtain es where es: "r2 = Inr es" using run on1 on2 unfolding migrate_all_def by (cases r2) (auto simp: run_andthen_Inr run_andthen_Inl)
  obtain g where g: "resolve (registered (pf_features p)) = Inr g" "es = rs_migrations g"
    using q es coh unfolding getAllMigrations_def ensureResolved_def coherent_def
    by (cases "rg_graph (pf_features p)"; cases "resolve (registered (pf_features p))") (auto simp: andthen_assoc)
  let ?p2 = "p\<lparr>pf_features := f2\<rparr>"
  obtain r3 ps3 where c3: "(if core = [] then ret 0 else on_database (applyMigrations lc dr clock core)) (?p2, s1) = (r3, ps3)"
    by (metis surj_pair)
  obtain n where n: "r3 = Inr n" using run on1 on2 es c3 unfolding migrate_all_def by (cases r3) (auto simp: run_andthen_Inr run_andthen_Inl)
  have core_rows: "ready (snd ps3) \<and> applied_rows (db (snd ps3)) = applied_rows (db s) @ map (row_of_script clock) (todo lc core (db s))"
  proof (cases "core = []")
    case True
    then show ?thesis using c3 s1 rows1 by (auto simp: todo_def js_sort_def)
  next
    case False
    then have "applyMigrations lc dr clock core s1 = (Inr n, snd ps3)" using c3 n by (auto simp: on_database_def run_lift prod_eq_iff)
    from apply_rows_after [OF s1(2) this] show ?thesis unfolding rows1 t1 .
  qed
  let ?groups = "group_migrations es []"
  obtain us where fe: "for_each (\<lambda>g. on_database (applyMigrations lc dr clock (snd g))) ?groups ps3 = (Inr us, (p', s'))"
  proof -
    obtain r' q' where "for_each (\<lambda>g. on_database (applyMigrations lc dr clock (snd g))) ?groups ps3 = (r', q')" by (metis surj_pair)
    then show thesis using run on1 on2 es c3 n that unfolding migrate_all_def by (cases r') (auto simp: run_andthen_Inr run_andthen_Inl)
  qed
  have ord: "es = ordered_migrations (rs_manifests g)" "mset (rs_manifests g) = mset (registered (pf_features p))"
    using g resolved_order by auto
  have ids: "distinct (map mf_id (rs_manifests g))" using coherent_ids [OF coh] ord(2) by (metis mset_map mset_eq_imp_distinct_iff)
  have groups: "?groups = map (\<lambda>m. (feature_owner (mf_id m), feature_scripts m)) (filter (\<lambda>m. mf_migrations m \<noteq> []) (rs_manifests g))"
    unfolding ord(1) using group_ordered [OF ids, of "[]"] by simp
  have dist: "distinct (map fst ?groups)" unfolding groups
    using ids by (auto simp: distinct_map comp_def inj_on_def)
  have owners: "owner_of m = fst g'" if "g' \<in> set ?groups" "m \<in> set (snd g')" for g' m
    using that unfolding groups by (auto simp: feature_scripts_def)
  have t3: "todo lc (snd g') (db (snd ps3)) = todo lc (snd g') (db s)" if "g' \<in> set ?groups" for g'
  proof (rule todo_other)
    show "applied_rows (db (snd ps3)) = applied_rows (db s) @ map (row_of_script clock) (todo lc core (db s))" using core_rows by simp
    fix x assume "x \<in> set (todo lc core (db s))"
    then have "owner_of x = ''platform''" using core by (auto simp: todo_def)
    moreover have "owner_of y \<noteq> ''platform''" if "y \<in> set (snd g')" for y
      using owners [OF \<open>g' \<in> set ?groups\<close> that] \<open>g' \<in> set ?groups\<close> unfolding groups by (auto simp: feature_owner_def)
    ultimately have "owner_of y \<noteq> owner_of x" if "y \<in> set (snd g')" for y using that by metis
    then show "owner_of x \<notin> owner_of ` set (snd g')" by (metis imageE)
  qed
  have "(fst ps3, snd ps3) = ps3" by simp
  have final: "ready s' \<and> applied_rows (db s') = applied_rows (db (snd ps3)) @
      map (row_of_script clock) (concat (map (\<lambda>g. todo lc (snd g) (db (snd ps3))) ?groups))"
    using apply_groups [of "snd ps3" ?groups lc clock "fst ps3" us "(p', s')"] core_rows dist owners fe by simp
  have eq: "concat (map (\<lambda>g. todo lc (snd g) (db (snd ps3))) ?groups) = concat (map (\<lambda>g. todo lc (snd g) (db s)) ?groups)"
    using t3 by (simp cong: map_cong)
  have "concat (map (\<lambda>g. todo lc (snd g) (db s)) ?groups) = concat (map (\<lambda>m. todo lc (feature_scripts m) (db s)) (rs_manifests g))"
    unfolding groups by (rule concat_filtered)
  then show ?thesis using g(1) final core_rows by (intro exI [of _ g]) (simp add: eq)
qed

end


section \<open>What start-up does\<close>

text \<open>Start-up migrates in dependency order: when it returns, the migrations newly recorded are the missing ones of the
  platform, then those of each feature, after all the features it requires, and each feature's by
  version; the platform is then ready, and the features resolve.\<close>

theorem boot_order:
  fixes c :: "'d migration_db memory_connection"
  assumes idle: "mc_begun c = None" and reach: "registry_reachable (pf_features p)" and fresh: "\<not> pf_initialised p"
    and core: "\<forall>m \<in> set core. owner_of m = ''platform''"
    and keep: "\<And>ts c. applied_rows (mc_data (ta_put ta ts c)) = applied_rows (mc_data c)"
    and run: "init lc (memory_driver (migration_engine run commit admit)) ta clock core now (p, c) = (Inr u, (p', c'))"
  shows "pf_initialised p' \<and> \<not> pf_initialising p' \<and> (\<exists>ms. mset ms = mset (registered (pf_features p)) \<and>
    in_order (registered (pf_features p)) ms \<and>
    applied_rows (mc_data c') = applied_rows (mc_data c) @ map (row_of_script clock)
      (todo lc core (mc_data c) @ concat (map (\<lambda>m. todo lc (feature_scripts m) (mc_data c)) ms)))"
proof -
  let ?dr = "memory_driver (migration_engine run commit admit)" and ?p = "p\<lparr>pf_initialising := True\<rparr>"
  obtain r q s where start: "startup lc ?dr ta clock core now (?p, c) = (r, (q, s))" by (metis prod_cases3)
  have out: "r = Inr u" "p' = q\<lparr>pf_initialising := False\<rparr>" "c' = s" using run fresh start by (simp_all add: init_def)
  obtain r1 q1 s1 where mig: "migrate_all lc ?dr clock core (?p, c) = (r1, (q1, s1))" by (metis prod_cases3)
  obtain u1 where r1: "r1 = Inr u1" using start out(1) mig unfolding startup_def by (cases r1) (auto simp: run_andthen_Inl)
  obtain r2 ts where rec: "recoverHangingTasks startup_timeout now (ta_get ta s1) = (r2, ts)" by fastforce
  have rec': "on_database (lift_op (ta_get ta) (ta_put ta) (recoverHangingTasks startup_timeout now)) (q1, s1) = (r2, (q1, ta_put ta ts s1))"
    using rec by (simp add: on_database_def run_lift)
  have last: "q = q1\<lparr>pf_initialised := True\<rparr>" "s = ta_put ta ts s1"
    using start out(1) mig r1 rec' unfolding startup_def
    by (cases r2; auto simp: run_andthen_Inr run_andthen_Inl on_platform_def run_lift)+
  have coh: "coherent (pf_features ?p)" using reachable_coherent [OF reach] by simp
  obtain g where g: "resolve (registered (pf_features p)) = Inr g"
    and rows: "applied_rows (mc_data s1) = applied_rows (mc_data c) @ map (row_of_script clock)
      (todo lc core (mc_data c) @ concat (map (\<lambda>m. todo lc (feature_scripts m) (mc_data c)) (rs_manifests g)))"
    using mem.migrate_all_rows [OF idle coh _ mig [unfolded r1]] core by auto
  have "mset (rs_manifests g) = mset (registered (pf_features p)) \<and> in_order (registered (pf_features p)) (rs_manifests g)"
    using resolved_order [OF g] by blast
  moreover have "applied_rows (mc_data c') = applied_rows (mc_data s1)" unfolding out(3) last(2) by (rule keep)
  ultimately show ?thesis using rows out(2) last(1) by auto
qed

lemma claim_leaves_running:
  assumes "distinct (map task_id rows)" "r \<in> set rows" "task_status r = RUNNING"
  shows "r \<in> set (snd (claimNextBatch lc limit types now now' rows))"
proof (cases "is_safe_integer limit \<and> \<not> js_le limit (Fin 0)")
  case True
  let ?hits = "claim_hits (nat \<lfloor>num_val limit\<rfloor>) types now rows"
  have other: "task_id r \<noteq> task_id h" if "h \<in> set ?hits" for h
    using same_id [OF assms(1,2)] claim_hits_claimable [OF assms(1) that] assms(3) by (auto simp: claimable_def)
  have "r \<in> set (snd (claim_update (nat \<lfloor>num_val limit\<rfloor>) types now rows))"
    using assms by (auto simp: claim_update_run set_sql_update image_iff)
  moreover have "task_id r \<notin> task_id ` set (filter corrupt (js_sort cmp (map (start_task now) ?hits)))" for cmp
    using other by (fastforce simp: start_task_def)
  ultimately show ?thesis using True by (simp add: claim_run Let_def quarantine_all_keeps)
next
  case False
  then have never: "(is_safe_integer limit \<and> \<not> js_le limit (Fin 0)) = False" by simp
  have "snd (claimNextBatch lc limit types now now' rows) = rows" unfolding claimNextBatch_def never by simp
  then show ?thesis using assms(2) by simp
qed

text \<open>The recovery of start-up misses the tasks of a quick restart: a task that was running less than a minute before is
  left running, and however often the worker then claims, it is never run again; only another
  start, a minute after the task began, puts it back.\<close>

theorem restart_strands_task:
  assumes inv: "task_inv rows" and r: "r \<in> set rows" "task_status r = RUNNING" "task_started_at r = Some (iso_str began)"
    and quick: "now - 60000 < began" and times: "common_era (now - 60000)" "common_era began"
  shows "r \<in> set (fold (\<lambda>(limit, types, at1, at2) tbl. snd (claimNextBatch lc limit types at1 at2 tbl)) claims
    (snd (recoverHangingTasks startup_timeout now rows)))"
proof -
  have kept: "r \<in> set (snd (recoverHangingTasks startup_timeout now rows))"
  proof (cases "to_iso (js_map (\<lambda>t. of_int now - t) startup_timeout)")
    case (Inl err)
    then show ?thesis using r(1) by (simp add: recoverHangingTasks_def)
  next
    case (Inr cutoff)
    have "cutoff = iso_str (now - 60000)" using Inr by (auto simp: startup_timeout_def Let_def split: if_splits)
    then have "\<not> iso_str began \<le> cutoff" using iso_str_less_iff [OF times] quick by (simp add: not_le)
    then show ?thesis using r Inr
      by (cases "to_iso (Fin (of_int now))") (auto simp: recoverHangingTasks_def Let_def set_sql_update image_iff)
  qed
  have inv': "task_inv (snd (recoverHangingTasks startup_timeout now rows))" by (rule preservesD [OF recover_preserves inv])
  have "r \<in> set (fold (\<lambda>(limit, types, at1, at2) tbl. snd (claimNextBatch lc limit types at1 at2 tbl)) claims tbl)"
    if "task_inv tbl" "r \<in> set tbl" for tbl
    using that
  proof (induction claims arbitrary: tbl)
    case (Cons cl claims)
    obtain limit types at1 at2 where cl: "cl = (limit, types, at1, at2)" by (metis prod_cases4)
    have "r \<in> set (snd (claimNextBatch lc limit types at1 at2 tbl))"
      using claim_leaves_running Cons.prems r(2) by (simp add: task_inv_def)
    then show ?case using Cons.IH preservesD [where I = task_inv, OF claim_preserves Cons.prems(1)] by (simp add: cl)
  qed simp
  from this [OF inv' kept] show ?thesis .
qed

end
