(* ===== verification/Spec2Isabelle.thy ===== *)
theory Spec2Isabelle
  imports Task_Claims Sync_Manager Handshake Conflicts Outbox_Worker Task_Worker Administration Feature_Registry Migrations
    Maintenance Platform_Boot
begin

text \<open>
  A model of an offline-first application platform: the TypeScript packages under \<open>src/packages\<close> and two
  features under \<open>src/features\<close>.  Devices of an organisation work on a local SQLite database, record
  their operations as signed envelopes in an outbox, exchange them with paired devices and apply
  what arrives through an inbox; features declare tables, permissions, conflict and pruning policies in
  a manifest; background work goes through a durable task queue.  The theories follow the packages and
  give each operation of the code, with its guards and errors in the order of the code, one definition of
  the same name.

  \<^bold>\<open>How the code is modelled.\<close>
  \<^item> An operation is a function of type \<open>('s, 'a) op\<close> (\<open>Ops\<close>): it maps the stored state to its result, an
    error or a value, and the state it leaves.  \<open>throw\<close>, \<open>guard\<close>, \<open>andthen\<close>, \<open>transaction\<close> and \<open>for_each\<close> are the
    statements of the code; only \<open>transaction\<close> takes writes back.  An error keeps class, message and
    whether a retry may help.
  \<^item> A table is the list of its rows in the order of insertion; primary keys, unique and partial indexes and
    foreign keys are checked by the inserts as SQLite does.  A query with \<open>LIMIT 1\<close> and no order takes the
    oldest row, although SQLite promises no order.
  \<^item> Clock readings, random factors and fresh ids are arguments.  Code outside the repository is a
    parameter: the signer and verifier, \<open>Date.parse\<close>, \<open>localeCompare\<close> (with the laws of the locale
    \<open>collation\<close>), the SQL engine under a driver, the transport's answers, the function that applies an
    operation to the domain, the native authenticator.
  \<^item> Strings are lists of code units below 256; a finite double is a rational without rounding, and NaN and
    the infinities are kept where the code tests for them (\<open>jsnum\<close>).  JSON round trips are for integral
    numbers (\<open>wf_json\<close>).  A value the code declares with a type has that type: conflict strategies
    outside their enumeration, an undefined protocol version and keys of a manifest
    beyond its type, a resolver function among them, are left out; values the code validates at run time
    (operations, envelopes, manifests) are arbitrary JSON.
  \<^item> An \<open>await\<close> splits an operation into steps where interleaving matters: the handshake (check, verify, record),
    the task queue (check and insert), the worker (poll, claim, dispatch, execution) and sessions.
    The interleavings are inductive step relations.

  \<^bold>\<open>Foundations.\<close>  \<open>Prelude\<close>: strings, numbers, results.  \<open>Iso_Time\<close>: \<open>toISOString\<close> and its parse, order of texts and of
  times.  \<open>Regex\<close>: regular expressions by derivatives.  \<open>Json\<close>: \<open>stringify\<close> and \<open>parse\<close> and their round trip.  \<open>Ops\<close>:
  operations, fragments of SQL, the invariant rules \<open>preserves\<close> and the locale \<open>evolution\<close> of row histories.
  \<open>Core\<close>: errors, contexts, the test of pruning filters (\<open>packages/core\<close>).

  \<^bold>\<open>Synchronisation\<close> (\<open>packages/sync-protocol\<close>, \<open>packages/sync\<close>).
  \<^item> \<open>Hlc\<close> (\<open>HybridLogicalClock.ts\<close>): the clock never issues a stamp that is not greater than all before and than
    the one received, failing events included.
  \<^item> \<open>Envelope\<close> (\<open>SyncEnvelopeBuilder.ts\<close>): the canonical bytes determine the operation; build and verify fit.
  \<^item> \<open>Outbox\<close>, \<open>Inbox\<close> (\<open>OutboxService.ts\<close>, \<open>InboxService.ts\<close>, \<open>TombstoneService.ts\<close>): row life cycles, idempotent
    receipt, the full effect of applying.
  \<^item> \<open>Conflicts\<close> (\<open>ConflictRegistry.ts\<close>, \<open>ConflictEngine.ts\<close>): convergence of last-writer-wins; merged envelopes lose
    their signature.
  \<^item> \<open>Handshake\<close> (\<open>HandshakeProtocol.ts\<close>): single use of nonces in sequence, and its failure under overlap.
  \<^item> \<open>Sync_Manager\<close> (\<open>SyncManager.ts\<close>, \<open>SyncStateMachine.ts\<close>, \<open>SyncTransport.ts\<close>): no peer is ever admitted; what is
    enqueued arrives verified.
  \<^item> \<open>Pairing\<close> (\<open>PairingService.ts\<close> and the device operations of \<open>features/identity-admin\<close>): a revoked device
    stays shut out, along every history without a new decision.

  \<^bold>\<open>Tasks\<close> (\<open>packages/tasks\<close>).  \<open>Tasks\<close> has the queue's operations and the invariant of the table, \<open>Task_Claims\<close> exclusiveness,
  deduplication and the outcome of failures.  \<open>Task_Worker\<close> and \<open>Outbox_Worker\<close> are written against the
  interfaces \<open>task_store\<close> and \<open>batch_loader\<close>, locales that are interpreted on the queue and on the outbox:
  concurrency in every interleaving, the outcome of every execution, and liveness of the outbox.

  \<^bold>\<open>Identity and authorisation\<close> (\<open>packages/authorization\<close>, \<open>identity\<close>, \<open>audit\<close>, the features).  \<open>Core_Db\<close>: the tables of
  \<open>core-schema.sql\<close>.  \<open>Authorization\<close>: the engine decides as the tables say.  \<open>Sync_Groups\<close>: the life of
  memberships.  \<open>Identity\<close>: devices and sessions.  \<open>Audit_Log\<close>: emission and listing.  \<open>Administration\<close>: users and
  organisations.

  \<^bold>\<open>Features\<close> (\<open>packages/feature-system\<close>).  \<open>Feature_Graph\<close>: the resolver's walk terminates and is exact.  \<open>Manifests\<close>,
  \<open>Manifest_Claims\<close>: the validator accepts one type of JSON values.  \<open>Feature_Registry\<close>: the cached registry refines
  one without a cache.

  \<^bold>\<open>Storage\<close> (\<open>packages/database\<close>, \<open>packages/maintenance\<close>).  \<open>Database\<close>: both drivers, atomicity of transactions,
  refinement of the memory driver by the native one for callbacks that only write.  \<open>Sql_Script\<close>: the scanner of migration
  scripts against a lexer.  \<open>Migrations\<close>: the engine over the interface \<open>migration_store\<close>, interpreted on
  both drivers.  \<open>Maintenance\<close>: pruners, registry, orchestrator; what compaction keeps, and which
  policies break it.  A pruner has the condition of its count and that of its deletion apart.

  \<^bold>\<open>The platform\<close> (\<open>packages/platform/src/Platform.ts\<close>).  \<open>Platform_Boot\<close> puts the registries, the migrations and the task
  queue together: a registration changes all three registries or none (\<open>registration_atomic\<close>), start-up records
  migrations in dependency order (\<open>boot_order\<close>), and leaves the tasks of a quick restart stranded
  (\<open>restart_strands_task\<close>).

  \<^bold>\<open>Termination and bounds.\<close>  Loops are structural recursion or functions with a measure: the batched deletion
  by the rows left, the resolver's walk by a lexicographic product.  Only the JSON parser has fuel, one more than the
  length of the text, which suffices because every nested call has consumed a character.  \<open>Number.MAX_SAFE_INTEGER\<close>,
  the range of \<open>Date\<close>, batch and envelope sizes are those of the code.  An abort signal is the number of times
  it still answers \<open>false\<close>.

  \<^bold>\<open>Not modelled.\<close>  User interface and demo applications; the import and export engines; the Iroh transport and the
  native gateway (glue to code outside these packages); the Rust crates, of which only the
  transaction of \<open>native-core\<close> appears, since the native driver rests on it, with its
  admission checks as a parameter; the base repository, whose statements appear in the repositories that
  use it; configuration and logging; the development tooling.  User messages, severities, durations and
  log lines are left out throughout.
\<close>

end
